(* ===== verification/TC_Prelude.thy ===== *)
theory TC_Prelude
  imports Main "HOL-Library.Sublist"
begin

text \<open>
  Shared foundations of the development: the exceptions the engine raises, the
  error monad in which every fallible operation is written, and the generic facts on
  lists that several components use.

  A Python function that may raise is modelled by a function into \<open>exn + 'a\<close>:
  \<open>Inl e\<close> is the raise of \<open>e\<close>, \<open>Inr v\<close> the return of \<open>v\<close>. Messages are not
  modelled as text: every \<open>raise\<close> statement of a desk module is one constructor of a
  refusal type, so a theorem can say which of the source's refusals happened.
\<close>

section \<open>Exceptions\<close>

text \<open>One constructor per \<open>raise SizingRefused\<close> statement (tc/desk/sizing.py, tc/desk/watch.py).\<close>

datatype sizing_refusal =
    ConvictionNotFunded | BudgetBuysNoShare | ContractOverCap
  | BookFull | ReserveBreached | SinglePositionCap | OptionPositionCap
  | OpenPremiumCap | CorrelatedCap | TriggerAtOrAboveFill | AskAtOrBelowInvalidation

text \<open>One per \<open>raise DeskRefused\<close> of tc/desk/pitches.py.\<close>

datatype pitch_refusal =
    NotADecimal | NotPositiveFinite | UpLevels | DownLevels | LevelTooFar
  | BadHorizon | BadBenchmark | FiledInSession | NotTradeable | RunLimitSpent | DuplicatePitch
  | NoOpenPitch | SessionOpened

text \<open>One per \<open>raise DeskRefused\<close> of \<open>fresh_quotes\<close> and \<open>_fund\<close> (tc/desk/pm.py).\<close>

datatype fund_refusal =
    BrokerBlind | QuoteReadFailed | NoQuote | StaleQuote | SharesFundUpOnly | NeedsMaxEntry
  | ChasesPrice | NoAtr | AtrOverCeiling | InvalidationAboveEntry | WrongOptionSide
  | NeedsOptionSymbol | ChainReadFailed | ContractNotAmongCandidates

text \<open>One per \<open>raise DeskRefused\<close> of the other operations of tc/desk/pm.py.\<close>

datatype call_refusal =
    CallNotTradeable | DailyCallCap | CallStillOpen | PitchNotOpen | PitchMismatch
  | LegacyFunded | NotInRealAccount | LegacyCallOpen | NoDeskCall | AlreadyExtended | NotAtHorizon
  | NoOpenPosition | NoCall | LegacyStop | CallResolved | NotATightening | NothingHeld

text \<open>The refusals of the document store, the weekly sweep and the research ledgers (tc/research, tc/loops/universe.py).\<close>

datatype doc_refusal =
    UnknownKind | NeedsDate | TakesNoDate | TooShort | WrongTitle | NoBanner string | NoLastPass | NoVerified

datatype universe_refusal = DirectoryUnavailable | PartialSweep | EmptyUniverse

datatype ledger_refusal =
    BadSymbol | BadDate string | NotNonempty string | NotPresent string | BadSourceType | WrongObserved
  | ReservedOnRaise string | BadDirection | TypesNotArray | UnderTheBar | AlreadyRaised | BadOutcome
  | NoSuchRaise | NoRows | BadSector nat | UnknownLedger | NotAnObject | WrongTombstoneDate

text \<open>
  \<open>SizingRefused\<close> is a subclass of \<open>DeskRefused\<close> in the source; \<open>PitchRefused\<close>,
  \<open>FundRefused\<close>, \<open>CallRefused\<close> and \<open>BookNotStarted\<close> are the other \<open>DeskRefused\<close> raises,
  by the module that raises them. The rest are the built-in and library exceptions the
  modelled code can raise or catch.
\<close>

datatype exn =
    SizingRefused sizing_refusal
  | PitchRefused pitch_refusal
  | FundRefused fund_refusal
  | CallRefused call_refusal
  | BookNotStarted
  | KeyError string
  | ValueError
  | TypeError
  | IndexError
  | AssertionError
  | RuntimeError
  | IntegrityError
  | InvalidOperation
  | DivisionByZero
  | Diverges \<comment> \<open>does not return\<close>
  | BrokerUnauthorized
  | BrokerError
  | NoAuthInProgress
  | AuthFailed \<comment> \<open>whatever the OAuth library raises\<close>
  | OSError
  | CsvError
  | DocInvalid doc_refusal
  | DocCasMismatch
  | UniverseUnavailable universe_refusal
  | LedgerRefused ledger_refusal

section \<open>The error monad\<close>

definition bind_e :: "'e + 'a \<Rightarrow> ('a \<Rightarrow> 'e + 'b) \<Rightarrow> 'e + 'b" where
  "bind_e m f = (case m of Inl e \<Rightarrow> Inl e | Inr x \<Rightarrow> f x)"

definition raise_if :: "bool \<Rightarrow> 'e \<Rightarrow> 'e + unit" where
  "raise_if b e = (if b then Inl e else Inr ())"

named_theorems err \<open>rewriting of the error monad\<close>

lemma bind_e_Inl [simp]: "bind_e (Inl e) f = Inl e"
  by (simp add: bind_e_def)

lemma bind_e_Inr [simp]: "bind_e (Inr x) f = f x"
  by (simp add: bind_e_def)

lemma bind_e_eq_Inr [err]: "bind_e m f = Inr y \<longleftrightarrow> (\<exists>x. m = Inr x \<and> f x = Inr y)"
  by (cases m) auto

lemma bind_e_eq_Inl [err]:
  "bind_e m f = Inl e \<longleftrightarrow> m = Inl e \<or> (\<exists>x. m = Inr x \<and> f x = Inl e)"
  by (cases m) auto

text \<open>For evaluation: simplify what runs first, and the continuation only once it is applied.\<close>

lemma bind_e_weak_cong: "m = m' \<Longrightarrow> bind_e m f = bind_e m' f"
  by simp

lemma raise_if_eq_Inr [err]: "raise_if b e = Inr u \<longleftrightarrow> \<not> b"
  by (simp add: raise_if_def)

lemma raise_if_eq_Inl [err]: "raise_if b e = Inl e' \<longleftrightarrow> b \<and> e' = e"
  by (auto simp: raise_if_def)

lemma raise_if_True [simp]: "raise_if True e = Inl e"
  by (simp add: raise_if_def)

lemma raise_if_False [simp]: "raise_if False e = Inr ()"
  by (simp add: raise_if_def)

text \<open>A loop whose body may raise stops at the first raise.\<close>

fun map_e :: "('a \<Rightarrow> 'e + 'b) \<Rightarrow> 'a list \<Rightarrow> 'e + 'b list" where
  "map_e f [] = Inr []"
| "map_e f (x # xs) = bind_e (f x) (\<lambda>y. bind_e (map_e f xs) (\<lambda>ys. Inr (y # ys)))"

fun fold_e :: "('a \<Rightarrow> 's \<Rightarrow> 'e + 's) \<Rightarrow> 'a list \<Rightarrow> 's \<Rightarrow> 'e + 's" where
  "fold_e f [] s = Inr s"
| "fold_e f (x # xs) s = bind_e (f x s) (fold_e f xs)"

lemma map_e_cong: "(\<And>x. x \<in> set xs \<Longrightarrow> f x = g x) \<Longrightarrow> map_e f xs = map_e g xs"
  by (induction xs) auto

lemma map_e_length: "map_e f xs = Inr ys \<Longrightarrow> length ys = length xs"
  by (induction xs arbitrary: ys) (auto simp: err)

lemma map_e_total: "(\<And>x. x \<in> set xs \<Longrightarrow> f x = Inr (g x)) \<Longrightarrow> map_e f xs = Inr (map g xs)"
  by (induction xs) auto

lemma map_e_nth: "map_e f xs = Inr ys \<Longrightarrow> i < length xs \<Longrightarrow> f (xs ! i) = Inr (ys ! i)"
  by (induction xs arbitrary: ys i) (auto simp: err nth_Cons split: nat.split)

lemma fold_e_append:
  "fold_e f (xs @ ys) s = bind_e (fold_e f xs s) (fold_e f ys)"
proof (induction xs arbitrary: s)
  case (Cons x xs)
  then show ?case by (cases "f x s") simp_all
qed simp

text \<open>An invariant of a raising loop: what one iteration keeps, the whole loop keeps.\<close>

lemma fold_e_invariant:
  assumes "fold_e f xs s = Inr t" and "P s"
    and "\<And>x s t. x \<in> set xs \<Longrightarrow> P s \<Longrightarrow> f x s = Inr t \<Longrightarrow> P t"
  shows "P t"
  using assms
proof (induction xs arbitrary: s)
  case (Cons x xs)
  from Cons.prems(1) obtain s' where s': "f x s = Inr s'" "fold_e f xs s' = Inr t"
    by (auto simp: err)
  have "P s'" using Cons.prems(2,3) s'(1) by auto
  with s'(2) show ?case using Cons.prems(3) by (intro Cons.IH) auto
qed simp

text \<open>
  The state that a raising loop leaves behind: that of the iterations before the one that raises,
  and what that one wrote before it raised (\<open>k\<close>).
\<close>

fun fold_kept :: "('x \<Rightarrow> 's \<Rightarrow> 'e + 's) \<Rightarrow> ('x \<Rightarrow> 's \<Rightarrow> 's) \<Rightarrow> 'x list \<Rightarrow> 's \<Rightarrow> 's" where
  "fold_kept f k [] s = s"
| "fold_kept f k (x # xs) s = (case f x s of Inl e \<Rightarrow> k x s | Inr t \<Rightarrow> fold_kept f k xs t)"

lemma fold_kept_split:
  assumes "fold_e f xs s = Inl e"
  obtains ys x zs t where "xs = ys @ x # zs" "fold_e f ys s = Inr t" "f x t = Inl e" "fold_kept f k xs s = k x t"
proof -
  have "\<exists>ys x zs t. xs = ys @ x # zs \<and> fold_e f ys s = Inr t \<and> f x t = Inl e \<and> fold_kept f k xs s = k x t"
    using assms
  proof (induction xs arbitrary: s)
    case (Cons x xs)
    show ?case
    proof (cases "f x s")
      case (Inl e')
      then show ?thesis using Cons.prems by (intro exI [of _ "[]"] exI [of _ x] exI [of _ xs] exI [of _ s]) simp
    next
      case (Inr s')
      then obtain ys y zs t where "xs = ys @ y # zs" "fold_e f ys s' = Inr t" "f y t = Inl e" "fold_kept f k xs s' = k y t"
        using Cons by fastforce
      then show ?thesis using Inr by (intro exI [of _ "x # ys"] exI [of _ y] exI [of _ zs] exI [of _ t]) simp
    qed
  qed simp
  then show thesis using that by blast
qed

section \<open>Optional values\<close>

definition the_or :: "'e \<Rightarrow> 'a option \<Rightarrow> 'e + 'a" where
  "the_or e x = (case x of None \<Rightarrow> Inl e | Some y \<Rightarrow> Inr y)"

lemma the_or_simps [simp]: "the_or e None = Inl e" "the_or e (Some y) = Inr y"
  by (simp_all add: the_or_def)

lemma the_or_eq_Inr [err]: "the_or e x = Inr y \<longleftrightarrow> x = Some y"
  by (cases x) auto

lemma the_or_eq_Inl [err]: "the_or e x = Inl e' \<longleftrightarrow> x = None \<and> e' = e"
  by (cases x) auto

section \<open>Lists\<close>

text \<open>Python's \<open>xs[-n:]\<close> and \<open>xs[:-1]\<close>; \<open>last_n\<close> is the whole list when it is shorter.\<close>

definition last_n :: "nat \<Rightarrow> 'a list \<Rightarrow> 'a list" where
  "last_n n xs = drop (length xs - n) xs"

lemma length_last_n [simp]: "length (last_n n xs) = min n (length xs)"
  by (simp add: last_n_def)

lemma set_last_n: "set (last_n n xs) \<subseteq> set xs"
  by (simp add: last_n_def set_drop_subset)

lemma disjoint_singleton: "A \<subseteq> {k} \<Longrightarrow> B \<subseteq> K \<Longrightarrow> k \<notin> K \<Longrightarrow> A \<inter> B = {}"
  by blast

lemma key_neq: "q \<in> set xs \<Longrightarrow> distinct (map key (p # xs)) \<Longrightarrow> key q \<noteq> key p"
  by (metis distinct.simps(2) image_eqI list.set_map list.simps(9))

lemma filter_key_single: "distinct (map key xs) \<Longrightarrow> f \<in> set xs \<Longrightarrow> filter (\<lambda>g. key g = key f) xs = [f]"
proof (induction xs)
  case (Cons x xs)
  show ?case
  proof (cases "f = x")
    case True
    then have "\<forall>g \<in> set xs. key g \<noteq> key f" using Cons.prems(1) by (metis key_neq)
    then show ?thesis using True by simp
  next
    case False
    then have "f \<in> set xs" using Cons.prems(2) by simp
    then have "key x \<noteq> key f" using Cons.prems(1) by (metis key_neq)
    then show ?thesis using Cons \<open>f \<in> set xs\<close> by simp
  qed
qed simp

text \<open>The first match, or \<open>None\<close>: \<open>next((x for x in xs if p(x)), None)\<close>.\<close>

lemma find_Some_in: "find P xs = Some x \<Longrightarrow> x \<in> set xs \<and> P x"
  by (auto simp: find_Some_iff)

lemma find_None: "find P xs = None \<longleftrightarrow> (\<forall>x \<in> set xs. \<not> P x)"
  by (induction xs) auto

text \<open>
  Tables with an \<open>INTEGER PRIMARY KEY\<close>: SQLite gives a new row the id one more than the
  largest in use (1 in an empty table). The ids of a table that only grows are therefore
  strictly increasing in insertion order.
\<close>

definition next_id :: "('r \<Rightarrow> int) \<Rightarrow> 'r list \<Rightarrow> int" where
  "next_id key rows = foldr (\<lambda>r m. max (key r) m) rows 0 + 1"

lemma next_id_greater: "r \<in> set rows \<Longrightarrow> key r < next_id key rows"
  by (induction rows) (auto simp: next_id_def)

lemma next_id_pos: "0 < next_id key rows"
  by (induction rows) (auto simp: next_id_def)

lemma next_id_fresh: "r \<in> set rows \<Longrightarrow> key r \<noteq> next_id key rows"
  using next_id_greater [of r rows key] by simp

section \<open>State machines\<close>

text \<open>
  A component that runs for ever is a step relation on its state; \<open>reachable\<close> collects what
  its runs can produce. The two interfaces below are what the engine promises of such a
  component: an invariant every step keeps, and a table that only ever grows.
\<close>

definition reachable :: "('s \<Rightarrow> bool) \<Rightarrow> ('s \<Rightarrow> 's \<Rightarrow> bool) \<Rightarrow> 's \<Rightarrow> bool" where
  "reachable init step s \<longleftrightarrow> (\<exists>s0. init s0 \<and> rtranclp step s0 s)"

locale invariant =
  fixes init :: "'s \<Rightarrow> bool" and step :: "'s \<Rightarrow> 's \<Rightarrow> bool" and inv :: "'s \<Rightarrow> bool"
  assumes init_inv: "init s \<Longrightarrow> inv s" and step_inv: "inv s \<Longrightarrow> step s t \<Longrightarrow> inv t"
begin

lemma steps_inv: "rtranclp step s t \<Longrightarrow> inv s \<Longrightarrow> inv t"
  by (induction rule: rtranclp_induct) (auto intro: step_inv)

lemma reachable_inv: "reachable init step s \<Longrightarrow> inv s"
  unfolding reachable_def using init_inv steps_inv by blast

end

text \<open>A table of rows that a machine only appends to: no row is ever changed or lost.\<close>

locale append_only = invariant +
  fixes rows :: "'s \<Rightarrow> 'r list"
  assumes step_grows: "inv s \<Longrightarrow> step s t \<Longrightarrow> prefix (rows s) (rows t)"
begin

lemma steps_grow: "rtranclp step s t \<Longrightarrow> inv s \<Longrightarrow> prefix (rows s) (rows t)"
proof (induction rule: rtranclp_induct)
  case (step t u)
  have "inv t" using steps_inv [OF step.hyps(1) step.prems] .
  from step_grows [OF this step.hyps(2)] step.IH [OF step.prems] show ?case by (rule prefix_order.trans [rotated])
qed simp

lemma row_kept: "rtranclp step s t \<Longrightarrow> inv s \<Longrightarrow> i < length (rows s) \<Longrightarrow> rows t ! i = rows s ! i"
  using steps_grow [of s t] by (auto simp: prefix_def nth_append)

end

end
