(* ===== verification/TC_Clock.thy ===== *)
theory TC_Clock
  imports TC_Prelude
begin

text \<open>
  Dates, times and the Eastern-time helpers (tc/clock.py).

  A date is its proleptic Gregorian ordinal (\<open>date.toordinal\<close>). A time of day and a local
  time are counted in microseconds; a local time carries its date, so
  \<open>combine\<close>, \<open>date_of\<close> and \<open>time_of\<close> are Python's \<open>datetime.combine\<close>, \<open>.date()\<close> and
  \<open>.time()\<close>. An aware datetime is a local time with its zone. The America/New_York rules
  are data outside the repository: they are the parameter \<open>zone\<close>, two functions giving the
  offset of an instant and of a local time. As in Python, two datetimes of the same zone
  compare by their local times, and of different zones by their instants.
\<close>

section \<open>Dates and local times\<close>

type_synonym date = int
type_synonym time = int
type_synonym wall = int
type_synonym instant = int

definition DAY_US :: int where "DAY_US = 86400000000"

definition us_of_s :: "int \<Rightarrow> int" where "us_of_s n = n * 1000000"
definition us_of_min :: "int \<Rightarrow> int" where "us_of_min n = us_of_s (60 * n)"
definition hm :: "int \<Rightarrow> int \<Rightarrow> time" where "hm h m = us_of_min (60 * h + m)"

definition combine :: "date \<Rightarrow> time \<Rightarrow> wall" where "combine d t = d * DAY_US + t"
definition date_of :: "wall \<Rightarrow> date" where "date_of w = w div DAY_US"
definition time_of :: "wall \<Rightarrow> time" where "time_of w = w mod DAY_US"

text \<open>\<open>date.weekday()\<close>: Monday is 0.\<close>

definition weekday :: "date \<Rightarrow> int" where "weekday d = (d + 6) mod 7"

lemmas us_defs = DAY_US_def us_of_s_def us_of_min_def hm_def

lemma date_of_combine [simp]: "0 \<le> t \<Longrightarrow> t < DAY_US \<Longrightarrow> date_of (combine d t) = d"
  by (simp add: date_of_def combine_def DAY_US_def)

lemma time_of_combine [simp]: "0 \<le> t \<Longrightarrow> t < DAY_US \<Longrightarrow> time_of (combine d t) = t"
  by (simp add: time_of_def combine_def DAY_US_def)

lemma combine_date_time [simp]: "combine (date_of w) (time_of w) = w"
  by (simp add: combine_def date_of_def time_of_def)

lemma time_of_bounds: "0 \<le> time_of w" "time_of w < DAY_US"
  by (simp_all add: time_of_def DAY_US_def)

lemma date_of_mono: "v \<le> w \<Longrightarrow> date_of v \<le> date_of w"
  by (simp add: date_of_def DAY_US_def zdiv_mono1)

lemma weekday_bounds: "0 \<le> weekday d" "weekday d < 7"
  by (simp_all add: weekday_def)

section \<open>Calendar dates\<close>

definition is_leap :: "int \<Rightarrow> bool" where
  "is_leap y \<longleftrightarrow> y mod 4 = 0 \<and> (y mod 100 \<noteq> 0 \<or> y mod 400 = 0)"

definition month_lengths :: "int \<Rightarrow> int list" where
  "month_lengths y = [31, if is_leap y then 29 else 28, 31, 30, 31, 30, 31, 31, 30, 31, 30, 31]"

definition days_before_year :: "int \<Rightarrow> int" where
  "days_before_year y = (y - 1) * 365 + (y - 1) div 4 - (y - 1) div 100 + (y - 1) div 400"

text \<open>\<open>date(y, m, d)\<close> as its ordinal; \<open>ValueError\<close> for a date the calendar does not have.\<close>

definition mk_date :: "int \<Rightarrow> int \<Rightarrow> int \<Rightarrow> exn + date" where
  "mk_date y m d =
     (if 1 \<le> y \<and> y \<le> 9999 \<and> 1 \<le> m \<and> m \<le> 12 \<and> 1 \<le> d \<and> d \<le> month_lengths y ! nat (m - 1)
      then Inr (days_before_year y + sum_list (take (nat (m - 1)) (month_lengths y)) + d)
      else Inl ValueError)"

lemma mk_date_example: "mk_date 2026 9 11 = Inr 739870" "mk_date 2027 2 29 = Inl ValueError"
  by code_simp+

section \<open>Zones and aware datetimes\<close>

record zone =
  utc_off :: "instant \<Rightarrow> int"
  wall_off :: "wall \<Rightarrow> int"

datatype tzinfo = TzNone | TzET | TzFixed int

record datetime =
  dt_wall :: wall
  dt_tz :: tzinfo

definition utcoffset :: "zone \<Rightarrow> datetime \<Rightarrow> int" where
  "utcoffset z a = (case dt_tz a of TzNone \<Rightarrow> 0 | TzET \<Rightarrow> wall_off z (dt_wall a) | TzFixed k \<Rightarrow> k)"

definition instant_of :: "zone \<Rightarrow> datetime \<Rightarrow> instant" where
  "instant_of z a = dt_wall a - utcoffset z a"

text \<open>\<open>a < b\<close> on two aware datetimes.\<close>

definition dt_less :: "zone \<Rightarrow> datetime \<Rightarrow> datetime \<Rightarrow> bool" where
  "dt_less z a b =
     (if dt_tz a = dt_tz b then dt_wall a < dt_wall b else instant_of z a < instant_of z b)"

text \<open>The Eastern local time of an instant: \<open>.astimezone(ET)\<close>.\<close>

definition et_wall :: "zone \<Rightarrow> instant \<Rightarrow> wall" where
  "et_wall z i = i + utc_off z i"

definition et_date :: "zone \<Rightarrow> instant \<Rightarrow> date" where
  "et_date z i = date_of (et_wall z i)"

definition et_time :: "zone \<Rightarrow> instant \<Rightarrow> time" where
  "et_time z i = time_of (et_wall z i)"

definition et_dt :: "wall \<Rightarrow> datetime" where
  "et_dt w = \<lparr>dt_wall = w, dt_tz = TzET\<rparr>"

section \<open>tc/clock.py\<close>

definition aware :: "zone \<Rightarrow> datetime \<Rightarrow> exn + datetime" where
  "aware z a =
     (case dt_tz a of TzNone \<Rightarrow> Inl ValueError
      | TzET \<Rightarrow> Inr a
      | TzFixed _ \<Rightarrow> Inr (et_dt (et_wall z (instant_of z a))))"

text \<open>tc/broker/models.py \<open>MarketWindow\<close>.\<close>

record market_window =
  w_date :: date
  is_trading_day :: bool
  rth_start :: "datetime option"
  rth_end :: "datetime option"

datatype phase = PRE | RTH | POST | CLOSED

definition phase_for :: "zone \<Rightarrow> datetime \<Rightarrow> market_window \<Rightarrow> exn + phase" where
  "phase_for z now w =
     (case (is_trading_day w, rth_start w, rth_end w) of
        (True, Some s, Some e) \<Rightarrow>
          bind_e (aware z now) (\<lambda>n.
            Inr (if dt_less z n s then PRE else if dt_less z n e then RTH else POST))
      | _ \<Rightarrow> Inr CLOSED)"

definition fallback_window :: "date \<Rightarrow> market_window" where
  "fallback_window d =
     (if weekday d \<ge> 5
      then \<lparr>w_date = d, is_trading_day = False, rth_start = None, rth_end = None\<rparr>
      else \<lparr>w_date = d, is_trading_day = True,
            rth_start = Some (et_dt (combine d (hm 9 30))),
            rth_end = Some (et_dt (combine d (hm 16 0)))\<rparr>)"

text \<open>The loop of \<open>trading_days_between\<close>: \<open>d\<close> walks up to \<open>b\<close>, \<open>n\<close> counts weekdays.\<close>

function tdb_loop :: "date \<Rightarrow> date \<Rightarrow> int \<Rightarrow> int" where
  "tdb_loop b d n =
     (if d < b then tdb_loop b (d + 1) (if weekday (d + 1) < 5 then n + 1 else n) else n)"
  by pat_completeness auto
termination
  by (relation "measure (\<lambda>(b, d, n). nat (b - d))") auto

declare tdb_loop.simps [simp del]

definition trading_days_between :: "date \<Rightarrow> date \<Rightarrow> int" where
  "trading_days_between a b = (if b \<le> a then 0 else tdb_loop b a 0)"

section \<open>Properties\<close>

lemma tdb_loop_card: "tdb_loop b d n = n + int (card {x \<in> {d<..b}. weekday x < 5})"
proof (induction b d n rule: tdb_loop.induct)
  case (1 b d n)
  show ?case
  proof (cases "d < b")
    case True
    define A where "A = {x \<in> {d + 1<..b}. weekday x < 5}"
    have "{d<..b} = insert (d + 1) {d + 1<..b}" using True by auto
    then have split: "{x \<in> {d<..b}. weekday x < 5} = (if weekday (d + 1) < 5 then insert (d + 1) A else A)"
      by (auto simp: A_def)
    have "finite A" unfolding A_def by (rule finite_subset [of _ "{d + 1<..b}"]) auto
    moreover have "d + 1 \<notin> A" by (simp add: A_def)
    ultimately show ?thesis using 1 True split by (simp add: tdb_loop.simps [of b d n] A_def)
  next
    case False
    then have "{x \<in> {d<..b}. weekday x < 5} = {}" by auto
    with False show ?thesis by (simp add: tdb_loop.simps [of b d n])
  qed
qed

lemma trading_days_card: "trading_days_between a b = int (card {x \<in> {a<..b}. weekday x < 5})"
proof (cases "b \<le> a")
  case True
  then have "{x \<in> {a<..b}. weekday x < 5} = {}" by auto
  with True show ?thesis unfolding trading_days_between_def by (metis card.empty of_nat_0)
next
  case False
  then show ?thesis by (simp add: trading_days_between_def tdb_loop_card)
qed

text \<open>The session counter counts the weekdays of the half-open span, whatever holidays
  there are: it is never below the number of real sessions (so a hold clock fires early,
  never late), counts every session when there is no holiday, and adds up over adjacent
  spans.\<close>

theorem trading_days_between_spec:
  assumes "a \<le> b" and "b \<le> c"
  shows "trading_days_between a c = trading_days_between a b + trading_days_between b c \<and>
         int (card {x \<in> {a<..c}. weekday x < 5 \<and> x \<notin> holidays}) \<le> trading_days_between a c \<and>
         trading_days_between a c = int (card {x \<in> {a<..c}. weekday x < 5})"
proof -
  let ?S = "\<lambda>u v. {x \<in> {u<..v}. weekday x < 5}"
  have fin: "finite (?S u v)" for u v by (rule finite_subset [of _ "{u<..v}"]) auto
  have "?S a c = ?S a b \<union> ?S b c" "?S a b \<inter> ?S b c = {}" using assms by auto
  then have "card (?S a c) = card (?S a b) + card (?S b c)"
    using card_Un_disjoint [OF fin fin, of a b b c] by simp
  moreover have "card {x \<in> {a<..c}. weekday x < 5 \<and> x \<notin> holidays} \<le> card (?S a c)"
    by (rule card_mono [OF fin]) auto
  ultimately show ?thesis by (simp add: trading_days_card)
qed

text \<open>A regular week: Friday 2026-09-04 to Friday 2026-09-11 with Labor Day in between.\<close>

theorem trading_days_between_spec_witness:
  "trading_days_between 739863 739870 = 5 \<and>
   int (card {x \<in> {739863<..739870}. weekday x < 5 \<and> x \<notin> {739866}}) \<le> 5"
proof -
  have "trading_days_between 739863 739870 = 5" by code_simp
  then show ?thesis using trading_days_between_spec [of 739863 739866 739870 "{739866}"] by simp
qed

text \<open>On the weekday fallback calendar the phase of a UTC clock reading is decided by
  its Eastern time alone: a weekend is \<open>CLOSED\<close>; on a weekday the phase is \<open>PRE\<close> before
  09:30, \<open>RTH\<close> from 09:30 up to but not including 16:00, and \<open>POST\<close> from then on. No
  reading is left without a phase.\<close>

theorem phase_for_fallback:
  "phase_for z \<lparr>dt_wall = i, dt_tz = TzFixed 0\<rparr> (fallback_window (et_date z i)) =
     Inr (if weekday (et_date z i) \<ge> 5 then CLOSED
          else if et_time z i < hm 9 30 then PRE
          else if et_time z i < hm 16 0 then RTH else POST)"
proof -
  define w where "w = et_wall z i"
  have less: "w < combine (date_of w) t \<longleftrightarrow> time_of w < t" for t
    by (metis add_less_cancel_left combine_date_time combine_def)
  show ?thesis
    by (auto simp: phase_for_def fallback_window_def aware_def et_dt_def dt_less_def less
        et_date_def et_time_def instant_of_def utcoffset_def simp flip: w_def)
qed

end
