(* ===== verification/TC_Money.thy ===== *)
theory TC_Money
  imports TC_Prelude Complex_Main
begin

text \<open>
  Decimal arithmetic as the engine uses it (tc/money.py and Python's \<open>decimal\<close> module).

  A finite \<open>Decimal\<close> is the rational it denotes; the exponent of a \<open>Decimal\<close> shows only
  in its text, which no modelled decision reads. Every arithmetic operation of the default
  context rounds its exact result half-even to 28 significant digits (\<open>fix28\<close>);
  \<open>quantize\<close> rounds to a fixed number of decimals and raises \<open>InvalidOperation\<close> when the
  result needs more than 28 digits; division by zero raises. Construction and comparison
  are exact. The exponent range of the context (\<open>Emax = 999999\<close>) is not modelled.
\<close>

type_synonym dec = rat

section \<open>Rounding to significant digits\<close>

text \<open>\<open>ROUND_HALF_EVEN\<close> to an integer.\<close>

definition half_even :: "rat \<Rightarrow> int" where
  "half_even x =
     (let f = \<lfloor>x\<rfloor>; r = x - of_int f in
      if r < 1 / 2 then f else if r > 1 / 2 then f + 1 else if even f then f else f + 1)"

fun ndigits :: "nat \<Rightarrow> nat" where
  "ndigits n = (if n < 10 then 1 else Suc (ndigits (n div 10)))"

declare ndigits.simps [simp del]

text \<open>\<open>Decimal.adjusted()\<close>: the exponent of the most significant digit.\<close>

definition adjusted :: "rat \<Rightarrow> int" where
  "adjusted x =
     (let (n, d) = quotient_of \<bar>x\<bar>; k = int (ndigits (nat n)) - int (ndigits (nat d)) in
      if 10 powi k \<le> \<bar>x\<bar> then k else k - 1)"

definition round_to :: "nat \<Rightarrow> rat \<Rightarrow> rat" where
  "round_to p x =
     (if x = 0 then 0
      else let e = adjusted x - int p + 1 in of_int (half_even (x / 10 powi e)) * 10 powi e)"

definition fix28 :: "rat \<Rightarrow> dec" where
  "fix28 x = round_to 28 x"

subsection \<open>Half-even rounding\<close>

lemma half_even_of_int [simp]: "half_even (of_int n) = n"
  by (simp add: half_even_def)

lemma half_even_bounds: "\<bar>of_int (half_even x) - x\<bar> \<le> 1 / 2"
proof -
  define f where "f = \<lfloor>x\<rfloor>"
  have "of_int f \<le> x" "x < of_int f + 1" unfolding f_def by linarith+
  then show ?thesis by (simp add: half_even_def Let_def abs_le_iff flip: f_def)
qed

lemma half_even_mono: "x \<le> y \<Longrightarrow> half_even x \<le> half_even y"
proof -
  assume xy: "x \<le> y"
  then have "\<lfloor>x\<rfloor> \<le> \<lfloor>y\<rfloor>" by (rule floor_mono)
  then consider "\<lfloor>x\<rfloor> = \<lfloor>y\<rfloor>" | "\<lfloor>x\<rfloor> + 1 \<le> \<lfloor>y\<rfloor>" by linarith
  then show ?thesis
  proof cases
    case 1
    with xy show ?thesis by (auto simp: half_even_def Let_def)
  next
    case 2
    then show ?thesis by (auto simp: half_even_def Let_def)
  qed
qed

lemma half_even_le_of_int: "x \<le> of_int n \<Longrightarrow> half_even x \<le> n"
  using half_even_mono [of x "of_int n"] by simp

lemma half_even_ge_of_int: "of_int n \<le> x \<Longrightarrow> n \<le> half_even x"
  using half_even_mono [of "of_int n" x] by simp

lemma half_even_minus: "half_even (- x) = - half_even x"
proof (cases "of_int \<lfloor>x\<rfloor> = x")
  case True
  then obtain n where x: "x = of_int n" by metis
  have "half_even (of_int (- n)) = - half_even (of_int n)" by (simp only: half_even_of_int)
  with x show ?thesis by simp
next
  case False
  define f where "f = \<lfloor>x\<rfloor>"
  have f: "of_int f < x" "x < of_int f + 1"
    using False unfolding f_def by linarith+
  then have "\<lfloor>- x\<rfloor> = - f - 1" by (intro floor_unique) auto
  then show ?thesis by (auto simp: half_even_def Let_def simp flip: f_def)
qed

subsection \<open>The leading digit\<close>

lemma ndigits_pos: "0 < ndigits n"
  by (subst ndigits.simps) simp

lemma ndigits_bounds: "0 < n \<Longrightarrow> 10 ^ (ndigits n - 1) \<le> n \<and> n < 10 ^ ndigits n"
proof (induction n rule: ndigits.induct)
  case (1 n)
  show ?case
  proof (cases "n < 10")
    case True
    with "1.prems" show ?thesis by (simp add: ndigits.simps)
  next
    case False
    then have IH: "10 ^ (ndigits (n div 10) - 1) \<le> n div 10" "n div 10 < 10 ^ ndigits (n div 10)"
      using "1.IH" by auto
    obtain k where k: "ndigits (n div 10) = Suc k"
      using ndigits_pos [of "n div 10"] by (cases "ndigits (n div 10)") auto
    from False have "ndigits n = Suc (Suc k)" by (simp add: ndigits.simps [of n] k)
    with IH k show ?thesis by auto
  qed
qed

lemma ndigits_of_int:
  assumes "0 < n"
  shows "10 ^ (ndigits (nat n) - 1) \<le> (of_int n :: rat)" and "(of_int n :: rat) < 10 ^ ndigits (nat n)"
proof -
  have eq: "(of_int n :: rat) = of_nat (nat n)" using assms by simp
  have "10 ^ (ndigits (nat n) - 1) \<le> nat n" "nat n < 10 ^ ndigits (nat n)"
    using ndigits_bounds [of "nat n"] assms by simp_all
  then have "(of_nat (10 ^ (ndigits (nat n) - 1)) :: rat) \<le> of_nat (nat n)"
    and "(of_nat (nat n) :: rat) < of_nat (10 ^ ndigits (nat n))"
    by (simp_all only: of_nat_le_iff of_nat_less_iff)
  then show "10 ^ (ndigits (nat n) - 1) \<le> (of_int n :: rat)" and "(of_int n :: rat) < 10 ^ ndigits (nat n)"
    by (simp_all add: eq del: of_nat_nat)
qed

lemma quotient_of_pos:
  assumes "0 < x" and q: "quotient_of x = (n, d)"
  shows "0 < n" and "0 < d" and "x = of_int n / of_int d"
proof -
  show d: "0 < d" using q by (rule quotient_of_denom_pos)
  show x: "x = of_int n / of_int d" using q by (rule quotient_of_div)
  with assms(1) d show "0 < n" by (simp add: zero_less_divide_iff)
qed

lemma adjusted_bounds:
  assumes "x \<noteq> 0"
  shows "10 powi adjusted x \<le> \<bar>x\<bar>" and "\<bar>x\<bar> < 10 powi (adjusted x + 1)"
proof -
  obtain n d where q: "quotient_of \<bar>x\<bar> = (n, d)" by fastforce
  note pos = quotient_of_pos [OF _ q] assms
  then have n: "0 < n" and d: "0 < d" and x: "\<bar>x\<bar> = of_int n / of_int d" by auto
  define a b where "a = ndigits (nat n)" and "b = ndigits (nat d)"
  define k where "k = int a - int b"
  have ab: "0 < a" "0 < b" by (simp_all add: a_def b_def ndigits_pos)
  note a' = ndigits_of_int [OF n, folded a_def] and b' = ndigits_of_int [OF d, folded b_def]
  have dpos: "0 < (of_int d :: rat)" using d by simp
  have up: "\<bar>x\<bar> < 10 powi (k + 1)"
  proof -
    have "(of_int n :: rat) < 10 ^ a" by (fact a'(2))
    also have "(10 :: rat) ^ a = 10 powi (k + 1) * 10 ^ (b - 1)"
      using ab by (simp add: k_def power_int_add [symmetric] flip: power_int_of_nat)
    also have "\<dots> \<le> 10 powi (k + 1) * of_int d" using b'(1) by (intro mult_left_mono) auto
    finally show ?thesis using dpos by (simp add: x pos_divide_less_eq)
  qed
  have lo: "10 powi (k - 1) \<le> \<bar>x\<bar>"
  proof -
    have "10 powi (k - 1) * of_int d \<le> 10 powi (k - 1) * (10 :: rat) ^ b"
      using b'(2) by (intro mult_left_mono) auto
    also have "\<dots> = (10 :: rat) ^ (a - 1)"
      using ab by (simp add: k_def power_int_add [symmetric] flip: power_int_of_nat)
    also have "\<dots> \<le> of_int n" by (fact a'(1))
    finally show ?thesis using dpos by (simp add: x pos_le_divide_eq)
  qed
  have adj: "adjusted x = (if 10 powi k \<le> \<bar>x\<bar> then k else k - 1)"
    by (simp add: adjusted_def q k_def a_def b_def)
  show "10 powi adjusted x \<le> \<bar>x\<bar>" using lo by (simp add: adj)
  show "\<bar>x\<bar> < 10 powi (adjusted x + 1)" using up by (auto simp: adj)
qed

subsection \<open>What rounding to significant digits keeps\<close>

lemma round_to_0 [simp]: "round_to p 0 = 0"
  by (simp add: round_to_def)

lemma adjusted_minus [simp]: "adjusted (- x) = adjusted x"
  by (simp add: adjusted_def)

lemma round_to_minus: "round_to p (- x) = - round_to p x"
  by (simp add: round_to_def Let_def half_even_minus)

lemma powi10_less: "(10 :: rat) powi m < 10 powi n \<longleftrightarrow> m < n"
  by (metis less_irrefl linorder_neqE_linordered_idom one_less_numeral_iff
      order.asym power_int_strict_increasing semiring_norm(76))

lemma powi10_le: "(10 :: rat) powi m \<le> 10 powi n \<longleftrightarrow> m \<le> n"
  by (simp add: powi10_less flip: not_less)

lemma powi10_split: "(10 :: rat) powi (m + n) = 10 powi m * 10 powi n"
  by (simp add: power_int_add)

text \<open>The scaled number that is rounded has \<open>p\<close> digits before its decimal point.\<close>

lemma scaled_bounds:
  fixes x :: rat
  assumes "x \<noteq> 0" and e: "e = adjusted x - int p + 1" and p: "0 < p"
  shows "10 ^ (p - 1) \<le> \<bar>x / 10 powi e\<bar>" and "\<bar>x / 10 powi e\<bar> < 10 ^ p"
proof -
  have "(10 :: rat) powi adjusted x = 10 ^ (p - 1) * 10 powi e"
    and "(10 :: rat) powi (adjusted x + 1) = 10 ^ p * 10 powi e"
    using p by (simp_all add: e of_nat_diff flip: power_int_of_nat powi10_split)
  with adjusted_bounds [OF assms(1)]
  show "10 ^ (p - 1) \<le> \<bar>x / 10 powi e\<bar>" and "\<bar>x / 10 powi e\<bar> < 10 ^ p"
    by (simp_all add: abs_divide pos_le_divide_eq pos_divide_less_eq)
qed

text \<open>
  A rational is \<open>p\<close>-digit when it is an integer of at most \<open>p\<close> digits (or exactly
  \<open>10 ^ p\<close>) scaled by a power of ten; such numbers are not changed.
\<close>

lemma round_to_exact_less:
  assumes x: "x = of_int c * 10 powi e" and c: "\<bar>c\<bar> < 10 ^ p"
  shows "round_to p x = x"
proof (cases "x = 0")
  case False
  define e0 where "e0 = adjusted x - int p + 1"
  have "10 powi adjusted x \<le> \<bar>x\<bar>" by (rule adjusted_bounds [OF False])
  also have "\<bar>x\<bar> = of_int \<bar>c\<bar> * 10 powi e" by (simp add: x abs_mult)
  also have "\<dots> < of_int (10 ^ p) * 10 powi e" using c by (intro mult_strict_right_mono) (auto simp only: of_int_less_iff, simp)
  also have "\<dots> = 10 powi (int p + e)" by (simp add: powi10_split)
  finally have "e0 \<le> e" by (simp add: powi10_less e0_def)
  then have "(10 :: rat) powi e = 10 ^ nat (e - e0) * 10 powi e0"
    by (simp flip: powi10_split power_int_of_nat)
  then have "x / 10 powi e0 = of_int (c * 10 ^ nat (e - e0))" by (simp add: x)
  then have "half_even (x / 10 powi e0) = c * 10 ^ nat (e - e0)" by (simp only: half_even_of_int)
  then show ?thesis
    using False \<open>x / 10 powi e0 = _\<close> by (simp add: round_to_def flip: e0_def) (simp add: field_simps)
qed simp

lemma round_to_exact:
  assumes x: "x = of_int c * 10 powi e" and c: "\<bar>c\<bar> \<le> 10 ^ p" and p: "0 < p"
  shows "round_to p x = x"
proof (cases "\<bar>c\<bar> < 10 ^ p")
  case True
  with x show ?thesis by (rule round_to_exact_less)
next
  case False
  with c have "\<bar>c\<bar> = 10 ^ p" by simp
  define k where "k = sgn c"
  have "c = k * 10 ^ p" using \<open>\<bar>c\<bar> = 10 ^ p\<close> by (metis sgn_mult_abs k_def)
  moreover have "(10 :: int) ^ p = 10 ^ (p - 1) * 10" using p by (cases p) auto
  ultimately have "x = of_int (k * 10 ^ (p - 1)) * 10 powi (e + 1)"
    by (simp add: x powi10_split)
  moreover have "\<bar>k * 10 ^ (p - 1)\<bar> < 10 ^ p"
    using p by (cases p) (auto simp: abs_mult k_def sgn_if)
  ultimately show ?thesis by (rule round_to_exact_less)
qed

lemma round_to_form:
  assumes "0 < p"
  obtains c e where "round_to p x = of_int c * 10 powi e" and "\<bar>c\<bar> \<le> 10 ^ p"
proof (cases "x = 0")
  case True
  then show ?thesis using that [of 0 0] by simp
next
  case False
  define e where "e = adjusted x - int p + 1"
  note b = scaled_bounds [OF False e_def assms]
  have "x / 10 powi e \<le> of_int (10 ^ p)" "of_int (- (10 ^ p)) \<le> x / 10 powi e"
    using abs_less_iff [THEN iffD1, OF b(2)] by simp_all
  then have "\<bar>half_even (x / 10 powi e)\<bar> \<le> 10 ^ p"
    using half_even_le_of_int half_even_ge_of_int by (fastforce simp only: abs_le_iff minus_le_iff)
  moreover have "round_to p x = of_int (half_even (x / 10 powi e)) * 10 powi e"
    using False by (simp add: round_to_def Let_def flip: e_def)
  ultimately show ?thesis by (intro that)
qed

lemma round_to_idem: "0 < p \<Longrightarrow> round_to p (round_to p x) = round_to p x"
  by (metis round_to_form round_to_exact)

lemma round_to_decade:
  assumes "0 < x" and "0 < p"
  shows "10 powi adjusted x \<le> round_to p x" and "round_to p x \<le> 10 powi (adjusted x + 1)"
proof -
  define e where "e = adjusted x - int p + 1"
  have x: "x \<noteq> 0" using assms by simp
  note b = scaled_bounds [OF x e_def assms(2)]
  have *: "round_to p x = of_int (half_even (x / 10 powi e)) * 10 powi e"
    using x by (simp add: round_to_def Let_def flip: e_def)
  have lo: "(10 :: rat) powi adjusted x = of_int (10 ^ (p - 1)) * 10 powi e"
    and hi: "(10 :: rat) powi (adjusted x + 1) = of_int (10 ^ p) * 10 powi e"
    using assms by (simp_all add: e_def flip: power_int_of_nat powi10_split)
  have "10 ^ (p - 1) \<le> half_even (x / 10 powi e)"
    by (rule half_even_ge_of_int) (use b(1) assms in simp)
  then show "10 powi adjusted x \<le> round_to p x"
    unfolding * lo by (intro mult_right_mono) (simp_all only: of_int_le_iff, simp)
  have "half_even (x / 10 powi e) \<le> 10 ^ p"
    by (rule half_even_le_of_int) (use b(2) assms in simp)
  then show "round_to p x \<le> 10 powi (adjusted x + 1)"
    unfolding * hi by (intro mult_right_mono) (simp_all only: of_int_le_iff, simp)
qed

lemma round_to_mono_pos:
  assumes "0 < x" and "x \<le> y" and p: "0 < p"
  shows "round_to p x \<le> round_to p y"
proof -
  have y: "0 < y" using assms by simp
  have "10 powi adjusted x \<le> x" "y < 10 powi (adjusted y + 1)"
    using adjusted_bounds [of x] adjusted_bounds [of y] assms by auto
  with assms(2) have "(10 :: rat) powi adjusted x < 10 powi (adjusted y + 1)" by linarith
  then consider "adjusted x = adjusted y" | "adjusted x + 1 \<le> adjusted y"
    unfolding powi10_less by linarith
  then show ?thesis
  proof cases
    case 1
    then show ?thesis
      using assms y by (auto simp: round_to_def Let_def intro!: mult_right_mono half_even_mono divide_right_mono)
  next
    case 2
    have "round_to p x \<le> 10 powi (adjusted x + 1)" using assms by (intro round_to_decade)
    also have "\<dots> \<le> 10 powi adjusted y" using 2 by (simp add: powi10_le)
    also have "\<dots> \<le> round_to p y" using y p by (intro round_to_decade)
    finally show ?thesis .
  qed
qed

lemma round_to_nonneg: "0 \<le> x \<Longrightarrow> 0 < p \<Longrightarrow> 0 \<le> round_to p x"
  using round_to_decade(1) [of x p] by (cases "x = 0") (auto intro: order_trans [rotated])

lemma round_to_mono:
  assumes "x \<le> y" and p: "0 < p"
  shows "round_to p x \<le> round_to p y"
proof -
  consider "0 < x" | "x \<le> 0" "0 \<le> y" | "y < 0" by linarith
  then show ?thesis
  proof cases
    case 1
    then show ?thesis using assms by (intro round_to_mono_pos)
  next
    case 2
    then have "0 \<le> round_to p (- x)" "0 \<le> round_to p y" using p by (auto intro!: round_to_nonneg)
    then show ?thesis by (simp add: round_to_minus)
  next
    case 3
    then have "round_to p (- y) \<le> round_to p (- x)" using assms by (intro round_to_mono_pos) auto
    then show ?thesis by (simp add: round_to_minus)
  qed
qed

section \<open>Contracts of a rounding\<close>

text \<open>
  What the proofs about money use of a rounding: it is monotone and a projection. The
  roundings of the source (28-digit context, \<open>cents\<close>, \<open>floor_cents\<close>, the ceiling of
  a stop trigger) are all instances; the half-even ones are symmetric as well.
\<close>

locale rounding =
  fixes rnd :: "rat \<Rightarrow> rat"
  assumes mono: "x \<le> y \<Longrightarrow> rnd x \<le> rnd y"
    and idem: "rnd (rnd x) = rnd x"
begin

lemma le_fixed: "x \<le> y \<Longrightarrow> rnd y = y \<Longrightarrow> rnd x \<le> y"
  using mono [of x y] by simp

lemma ge_fixed: "y \<le> x \<Longrightarrow> rnd y = y \<Longrightarrow> y \<le> rnd x"
  using mono [of y x] by simp

lemma max_fixed: "rnd x = x \<Longrightarrow> rnd y = y \<Longrightarrow> rnd (max x y) = max x y"
  by (simp add: max_def)

end

locale symmetric_rounding = rounding +
  assumes odd: "rnd (- x) = - rnd x"
begin

lemma zero: "rnd 0 = 0"
  using odd [of 0] by simp

lemma nonneg: "0 \<le> x \<Longrightarrow> 0 \<le> rnd x"
  by (rule ge_fixed) (simp_all add: zero)

lemma nonpos: "x \<le> 0 \<Longrightarrow> rnd x \<le> 0"
  by (rule le_fixed) (simp_all add: zero)

end

interpretation ctx28: symmetric_rounding fix28
  by unfold_locales (simp_all add: fix28_def round_to_mono round_to_idem round_to_minus)

section \<open>Arithmetic of the default context\<close>

definition dadd :: "dec \<Rightarrow> dec \<Rightarrow> dec" where "dadd x y = fix28 (x + y)"
definition dsub :: "dec \<Rightarrow> dec \<Rightarrow> dec" where "dsub x y = fix28 (x - y)"
definition dmul :: "dec \<Rightarrow> dec \<Rightarrow> dec" where "dmul x y = fix28 (x * y)"

text \<open>Division; \<open>ddiv_nz\<close> is division by a literal that is not zero.\<close>

definition ddiv_nz :: "dec \<Rightarrow> dec \<Rightarrow> dec" where "ddiv_nz x y = fix28 (x / y)"

definition ddiv :: "dec \<Rightarrow> dec \<Rightarrow> exn + dec" where
  "ddiv x y = (if y = 0 then Inl DivisionByZero else Inr (ddiv_nz x y))"

text \<open>\<open>int(d)\<close> truncates towards zero; \<open>a // b\<close> is the truncated quotient, which may
  not need more than 28 digits.\<close>

definition int_of_dec :: "dec \<Rightarrow> int" where
  "int_of_dec x = (if 0 \<le> x then \<lfloor>x\<rfloor> else \<lceil>x\<rceil>)"

definition dfloordiv :: "dec \<Rightarrow> dec \<Rightarrow> exn + int" where
  "dfloordiv x y =
     (if y = 0 then Inl DivisionByZero
      else let q = int_of_dec (x / y) in if \<bar>q\<bar> < 10 ^ 28 then Inr q else Inl InvalidOperation)"

text \<open>\<open>sum(xs, Decimal(0))\<close>: each partial sum is rounded.\<close>

definition dsum :: "dec list \<Rightarrow> dec" where
  "dsum xs = foldl dadd 0 xs"

text \<open>\<open>d.quantize(Decimal(1).scaleb(-k), rounding=r)\<close>.\<close>

definition quantize :: "(rat \<Rightarrow> int) \<Rightarrow> nat \<Rightarrow> dec \<Rightarrow> exn + dec" where
  "quantize r k d =
     (let n = r (d * 10 ^ k) in
      if \<bar>n\<bar> < 10 ^ 28 then Inr (of_int n / 10 ^ k) else Inl InvalidOperation)"

section \<open>tc/money.py\<close>

definition CENT :: dec where "CENT = 1 / 100"

definition floor_cents :: "dec \<Rightarrow> exn + dec" where "floor_cents d = quantize floor 2 d"
definition cents :: "dec \<Rightarrow> exn + dec" where "cents d = quantize half_even 2 d"
definition ceil_cents :: "dec \<Rightarrow> exn + dec" where "ceil_cents d = quantize ceiling 2 d"

section \<open>Facts on the arithmetic\<close>

subsection \<open>Quantizing\<close>

text \<open>The value a successful \<open>quantize\<close> returns.\<close>

definition quant :: "(rat \<Rightarrow> int) \<Rightarrow> nat \<Rightarrow> dec \<Rightarrow> dec" where
  "quant r k d = of_int (r (d * 10 ^ k)) / 10 ^ k"

text \<open>An integer rounding gives a quantizer with the contract of a rounding.\<close>

locale int_rounding =
  fixes r :: "rat \<Rightarrow> int"
  assumes r_mono: "x \<le> y \<Longrightarrow> r x \<le> r y"
    and r_int: "r (of_int n) = n"
begin

lemma quant_fixed: "quant r k (of_int n / 10 ^ k) = of_int n / 10 ^ k"
  by (simp add: quant_def r_int)

end

sublocale int_rounding \<subseteq> q: rounding "quant r k"
proof
  show "quant r k x \<le> quant r k y" if "x \<le> y" for x y
    using that by (auto simp: quant_def intro!: divide_right_mono r_mono mult_right_mono)
  show "quant r k (quant r k x) = quant r k x" for x
    using quant_fixed by (simp add: quant_def [of r k x])
qed

interpretation floor_r: int_rounding floor
  by unfold_locales (simp_all add: floor_mono)

interpretation ceil_r: int_rounding ceiling
  by unfold_locales (simp_all add: ceiling_mono)

interpretation half_even_r: int_rounding half_even
  by unfold_locales (simp_all add: half_even_mono)

lemma quantize_Inr:
  "quantize r k d = Inr v \<longleftrightarrow> v = quant r k d \<and> \<bar>r (d * 10 ^ k)\<bar> < 10 ^ 28"
  by (auto simp: quantize_def quant_def Let_def)

lemma quantize_Inl: "quantize r k d = Inl e \<longleftrightarrow> e = InvalidOperation \<and> 10 ^ 28 \<le> \<bar>r (d * 10 ^ k)\<bar>"
  by (auto simp: quantize_def Let_def)

lemmas money_defs = floor_cents_def cents_def ceil_cents_def quantize_Inr quantize_Inl

subsection \<open>Numbers the context does not change\<close>

text \<open>\<open>fits k x\<close>: \<open>x\<close> has at most \<open>k\<close> decimals and 28 digits in all.\<close>

definition fits :: "nat \<Rightarrow> dec \<Rightarrow> bool" where
  "fits k x \<longleftrightarrow> (x * 10 ^ k \<in> \<int>) \<and> \<bar>x\<bar> * 10 ^ k \<le> 10 ^ 28"

lemma fits_exact: "fits k x \<Longrightarrow> fix28 x = x"
proof -
  assume f: "fits k x"
  then obtain n where n: "x * 10 ^ k = of_int n" by (auto simp: fits_def elim: Ints_cases)
  then have x: "x = of_int n * 10 powi (- int k)"
    by (simp add: power_int_minus power_int_of_nat field_simps)
  have "of_int \<bar>n\<bar> = \<bar>x\<bar> * 10 ^ k" by (metis abs_mult power_abs abs_numeral n of_int_abs)
  also have "\<dots> \<le> of_int (10 ^ 28)" using f by (simp add: fits_def)
  finally have "\<bar>n\<bar> \<le> 10 ^ 28" by (simp only: of_int_le_iff)
  with x show ?thesis unfolding fix28_def by (rule round_to_exact) simp
qed

lemma quantize_fits: "quantize r k d = Inr v \<Longrightarrow> fits k v"
proof -
  assume q: "quantize r k d = Inr v"
  have "\<bar>r (d * 10 ^ k)\<bar> \<le> 10 ^ 28" using q by (simp add: quantize_Inr)
  then have "of_int \<bar>r (d * 10 ^ k)\<bar> \<le> (of_int (10 ^ 28) :: rat)" by (simp only: of_int_le_iff)
  with q show ?thesis by (simp add: quantize_Inr fits_def quant_def abs_divide)
qed

lemma quantize_exact: "quantize r k d = Inr v \<Longrightarrow> fix28 v = v"
  by (rule fits_exact) (rule quantize_fits)

lemma fits_0 [simp]: "fits k 0"
  by (simp add: fits_def)

lemma fits_mono_abs: "fits k y \<Longrightarrow> x * 10 ^ k \<in> \<int> \<Longrightarrow> \<bar>x\<bar> \<le> \<bar>y\<bar> \<Longrightarrow> fits k x"
proof -
  assume "fits k y" "x * 10 ^ k \<in> \<int>" "\<bar>x\<bar> \<le> \<bar>y\<bar>"
  moreover from this(3) have "\<bar>x\<bar> * 10 ^ k \<le> \<bar>y\<bar> * 10 ^ k" by (intro mult_right_mono) auto
  ultimately show ?thesis unfolding fits_def by linarith
qed

text \<open>A sum of non-negative amounts on one grid is exact when its total fits.\<close>

lemma dsum_snoc: "dsum (xs @ [x]) = dadd (dsum xs) x"
  by (simp add: dsum_def)

lemma dsum_Nil [simp]: "dsum [] = 0"
  by (simp add: dsum_def)

lemma dsum_exact:
  assumes "\<And>x. x \<in> set xs \<Longrightarrow> 0 \<le> x \<and> x * 10 ^ k \<in> \<int>" and "fits k (sum_list xs)"
  shows "dsum xs = sum_list xs"
  using assms
proof (induction xs rule: rev_induct)
  case (snoc x xs)
  have nn: "0 \<le> sum_list xs" "0 \<le> x" using snoc.prems(1) by (auto intro!: sum_list_nonneg)
  have grid: "sum_list xs * 10 ^ k \<in> \<int>" using snoc.prems(1)
    by (induction xs) (auto simp: algebra_simps)
  have "fits k (sum_list xs)"
    by (rule fits_mono_abs [OF snoc.prems(2) grid]) (use nn in simp)
  with snoc have "dsum xs = sum_list xs" by simp
  with fits_exact [OF snoc.prems(2)] show ?case by (simp add: dsum_snoc dadd_def)
qed simp

lemma dsum_nonneg: "(\<And>x. x \<in> set xs \<Longrightarrow> 0 \<le> x) \<Longrightarrow> 0 \<le> dsum xs"
proof (induction xs rule: rev_induct)
  case (snoc x xs)
  then show ?case by (auto simp: dsum_snoc dadd_def intro!: ctx28.nonneg)
qed simp

lemma dsum_fixed: "fix28 (dsum xs) = dsum xs"
  by (cases xs rule: rev_cases) (simp_all add: dsum_snoc dadd_def ctx28.idem ctx28.zero)

text \<open>Scaling by a power of ten commutes with the rounding.\<close>

lemma adjusted_scale:
  assumes "x \<noteq> 0"
  shows "adjusted (x * 10 powi k) = adjusted x + k"
proof -
  have nz: "x * 10 powi k \<noteq> 0" using assms by simp
  note a = adjusted_bounds [OF nz] and b = adjusted_bounds [OF assms]
  have ab: "\<bar>x * 10 powi k\<bar> = \<bar>x\<bar> * 10 powi k" by (simp add: abs_mult)
  have "(10 :: rat) powi (adjusted x + k) \<le> \<bar>x * 10 powi k\<bar>"
    using b(1) by (simp add: ab powi10_split)
  then have "(10 :: rat) powi (adjusted x + k) < 10 powi (adjusted (x * 10 powi k) + 1)"
    using a(2) by linarith
  moreover have "\<bar>x * 10 powi k\<bar> < 10 powi (adjusted x + 1 + k)"
    using b(2) unfolding ab powi10_split [of _ k] by simp
  then have "(10 :: rat) powi adjusted (x * 10 powi k) < 10 powi (adjusted x + 1 + k)"
    using a(1) by linarith
  ultimately show ?thesis unfolding powi10_less by linarith
qed

lemma round_to_scale: "round_to p (x * 10 powi k) = round_to p x * 10 powi k"
proof (cases "x = 0")
  case False
  have *: "adjusted x + k - int p + 1 = (adjusted x - int p + 1) + k" by simp
  show ?thesis
    using False by (simp add: round_to_def adjusted_scale Let_def * powi10_split)
qed simp

lemma fix28_times_100: "fix28 (x * 100) = fix28 x * 100"
  using round_to_scale [of 28 x 2] by (simp add: fix28_def)

lemma fix28_div_100: "fix28 (x / 100) = fix28 x / 100"
  using round_to_scale [of 28 x "- 2"] by (simp add: fix28_def power_int_minus)

lemma fix28_idem [simp]: "fix28 (fix28 x) = fix28 x"
  by (rule ctx28.idem)

lemma fix28_0 [simp]: "fix28 0 = 0"
  by (rule ctx28.zero)

text \<open>Taking a percentage between 0 and 100 of a non-negative amount never increases it.\<close>

lemma percent_bounds:
  assumes "0 \<le> x" and "fix28 x = x" and "0 \<le> p" and "p \<le> 100"
  shows "0 \<le> ddiv_nz (dmul x p) 100" and "ddiv_nz (dmul x p) 100 \<le> x"
proof -
  show "0 \<le> ddiv_nz (dmul x p) 100"
    using assms by (auto simp: ddiv_nz_def dmul_def intro!: ctx28.nonneg divide_nonneg_nonneg)
  have "x * p \<le> x * 100" using assms by (intro mult_left_mono) auto
  then have "fix28 (x * p) \<le> x * 100" using assms(2) by (intro ctx28.le_fixed) (simp_all add: fix28_times_100)
  then have "fix28 (x * p) / 100 \<le> x" by simp
  then show "ddiv_nz (dmul x p) 100 \<le> x"
    unfolding ddiv_nz_def dmul_def using assms(2) by (rule ctx28.le_fixed)
qed

lemma dsub_100_bounds: "0 \<le> p \<Longrightarrow> p \<le> 100 \<Longrightarrow> 0 \<le> dsub 100 p \<and> dsub 100 p \<le> 100"
proof -
  have "fix28 100 = 100" by (rule fits_exact [of 0]) (simp add: fits_def)
  then show "0 \<le> p \<Longrightarrow> p \<le> 100 \<Longrightarrow> ?thesis"
    by (auto simp: dsub_def intro!: ctx28.nonneg ctx28.le_fixed)
qed

text \<open>Evaluation of the arithmetic on literals of at most ten decimals.\<close>

lemma fix28_eval: "x * 10 ^ 10 = of_int \<lfloor>x * 10 ^ 10\<rfloor> \<Longrightarrow> \<bar>x\<bar> \<le> 10 ^ 18 \<Longrightarrow> fix28 x = x"
proof -
  assume g: "x * 10 ^ 10 = of_int \<lfloor>x * 10 ^ 10\<rfloor>" and b: "\<bar>x\<bar> \<le> 10 ^ 18"
  have "x * 10 ^ 10 \<in> \<int>" by (subst g) (rule Ints_of_int)
  with b have "fits 10 x" by (simp add: fits_def)
  then show ?thesis by (rule fits_exact)
qed

lemma floor_rat_numeral [simp]:
  "\<lfloor>numeral a / numeral b :: rat\<rfloor> = numeral a div numeral b"
  "\<lfloor>- (numeral a / numeral b) :: rat\<rfloor> = - numeral a div numeral b"
  "\<lfloor>1 / numeral b :: rat\<rfloor> = 1 div numeral b"
  using floor_divide_of_int_eq [where 'a = rat, of "numeral a" "numeral b"]
    floor_divide_of_int_eq [where 'a = rat, of "- numeral a" "numeral b"]
    floor_divide_of_int_eq [where 'a = rat, of 1 "numeral b"]
  by simp_all

lemmas dec_eval =
  fix28_eval dadd_def dsub_def dmul_def ddiv_nz_def ddiv_def dfloordiv_def int_of_dec_def dsum_def
  floor_cents_def cents_def ceil_cents_def quantize_def quant_def half_even_def Let_def

end
