(* ===== verification/TC_Store.thy ===== *)
theory TC_Store
  imports TC_Clock TC_Money
begin

text \<open>
  The tables of the desk (tc/store/schema.sql and the accessors of tc/store/db.py the desk
  uses) and the PM's calls (tc/desk/calls.py).

  A table is the list of its rows in insertion (rowid) order; the desk's state is one record
  of tables. An insert checks what the schema checks (primary and foreign keys,
  \<open>CHECK\<close> clauses) and raises \<open>IntegrityError\<close> where SQLite does. Money, dates and
  timestamps are values, not their text: the stored text of a \<open>Decimal\<close>, an ISO date or
  a UTC timestamp reads back to the value that was written.
\<close>

section \<open>Rows\<close>

datatype direction = Up | Down
datatype instrument = Shares | CallOpt | PutOpt
datatype funding = FNone | FShares | FCall | FPut
datatype analyst = Technical | Earnings | News | Macro
datatype origin = OPitch | OPm | OLegacy
datatype how = HTarget | HInvalidation | HHorizon | HGapTarget | HGapInvalidation | HOpenThrough
datatype item_kind = KPitch | KCall
datatype outcome = Filled | SkippedPrice | SkippedInvalid | SkippedBlind | Expired
datatype side = Buy | Sell

record daily_bar =
  b_date :: date
  b_open :: dec
  b_high :: dec
  b_low :: dec
  b_close :: dec
  b_volume :: int

record pitch =
  p_id :: int
  p_analyst :: analyst
  p_filed_at :: instant
  p_session :: date
  p_symbol :: string
  p_direction :: direction
  p_thesis :: string
  p_evidence :: "(string \<times> string \<times> string) list"
  p_target :: dec
  p_inval :: dec
  p_horizon :: int
  p_conviction :: int
  p_bench :: string

record call_row =
  c_id :: int
  c_made_at :: instant
  c_session :: date
  c_origin :: origin
  c_pitch_id :: "int option"
  c_extends :: "int option"
  c_symbol :: string
  c_direction :: direction
  c_thesis :: string
  c_target :: dec
  c_inval :: dec
  c_horizon :: int
  c_conviction :: int
  c_bench :: string
  c_ref_price :: dec
  c_spy_ref :: dec
  c_bench_ref :: dec
  c_funding :: funding

record tightening =
  t_id :: int
  t_call :: int
  t_at :: instant
  t_inval :: dec

record resolution =
  r_kind :: item_kind
  r_item :: int
  r_ref_date :: date
  r_ref_price :: dec
  r_resolved_on :: date
  r_how :: how
  r_exit :: dec
  r_ret :: dec
  r_spy_ret :: dec
  r_bench_ret :: dec

record proposal =
  q_id :: int
  q_call :: int
  q_created :: instant
  q_instr :: instrument
  q_symbol :: string
  q_underlying :: string
  q_qty :: int
  q_max_entry :: dec
  q_atr :: "dec option"
  q_posted :: "instant option"
  q_deadline :: "instant option"
  q_msg :: "string option"

record outcome_row =
  o_pid :: int
  o_at :: instant
  o_outcome :: outcome
  o_vetoed :: bool
  o_approved :: bool

record fill_row =
  f_pid :: int
  f_at :: instant
  f_side :: side
  f_qty :: int
  f_price :: dec
  f_reason :: string
  f_stop_trigger :: "dec option"
  f_stop_limit :: "dec option"

record exit_request =
  x_id :: int
  x_at :: instant
  x_symbol :: string
  x_pid :: "int option"
  x_reason :: string
  x_done :: "instant option"

record desk =
  bars :: "(string \<times> daily_bar) list"
  pitches :: "pitch list"
  withdrawals :: "(int \<times> instant) list"
  calls :: "call_row list"
  tightenings :: "tightening list"
  resolutions :: "resolution list"
  paper_book :: "(date \<times> dec) option"
  proposals :: "proposal list"
  outcomes :: "outcome_row list"
  fills :: "fill_row list"
  marks_tbl :: "string \<rightharpoonup> dec"
  exit_requests :: "exit_request list"
  qualified_symbols :: "(string \<times> dec) list" \<comment> \<open>universe rows: symbol, dollar volume\<close>
  real_positions :: "(string \<times> int \<times> dec) list option" \<comment> \<open>latest account: symbol, quantity, market value\<close>

definition empty_desk :: desk where
  "empty_desk = \<lparr>bars = [], pitches = [], withdrawals = [], calls = [], tightenings = [],
     resolutions = [], paper_book = None, proposals = [], outcomes = [], fills = [],
     marks_tbl = Map.empty, exit_requests = [], qualified_symbols = [], real_positions = None\<rparr>"

section \<open>Daily bars (tc/store/db.py)\<close>

text \<open>\<open>INSERT ... ON CONFLICT(symbol, date) DO UPDATE\<close>, one bar.\<close>

fun upsert_bar :: "string \<Rightarrow> daily_bar \<Rightarrow> (string \<times> daily_bar) list \<Rightarrow> (string \<times> daily_bar) list" where
  "upsert_bar s b [] = [(s, b)]"
| "upsert_bar s b ((s', b') # rest) =
     (if s' = s \<and> b_date b' = b_date b then (s, b) # rest else (s', b') # upsert_bar s b rest)"

definition upsert_bars :: "string \<Rightarrow> daily_bar list \<Rightarrow> desk \<Rightarrow> desk" where
  "upsert_bars s bs st = st\<lparr>bars := fold (upsert_bar s) bs (bars st)\<rparr>"

text \<open>\<open>bars_for\<close>: oldest first; \<open>limit\<close> keeps the newest.\<close>

definition bars_for :: "desk \<Rightarrow> string \<Rightarrow> date option \<Rightarrow> nat option \<Rightarrow> daily_bar list" where
  "bars_for st s since lmt =
     (let rows = sort_key b_date (map snd (filter (\<lambda>(s', b). s' = s \<and>
                   (case since of None \<Rightarrow> True | Some d \<Rightarrow> d \<le> b_date b)) (bars st))) in
      case lmt of None \<Rightarrow> rows | Some n \<Rightarrow> last_n n rows)"

text \<open>The primary key of the table.\<close>

definition bars_wf :: "desk \<Rightarrow> bool" where
  "bars_wf st \<longleftrightarrow> distinct (map (\<lambda>(s, b). (s, b_date b)) (bars st))"

lemma upsert_bar_keys:
  "set (map (\<lambda>(s, b). (s, b_date b)) (upsert_bar s b rows)) =
     insert (s, b_date b) (set (map (\<lambda>(s, b). (s, b_date b)) rows))"
  by (induction s b rows rule: upsert_bar.induct) auto

lemma upsert_bar_distinct:
  "distinct (map (\<lambda>(s, b). (s, b_date b)) rows) \<Longrightarrow>
   distinct (map (\<lambda>(s, b). (s, b_date b)) (upsert_bar s b rows))"
proof (induction s b rows rule: upsert_bar.induct)
  case (2 s b s' b' rest)
  then show ?case using upsert_bar_keys [of s b rest] by auto
qed simp

lemma fold_upsert_distinct:
  "distinct (map (\<lambda>(s, b). (s, b_date b)) rows) \<Longrightarrow>
   distinct (map (\<lambda>(s, b). (s, b_date b)) (fold (upsert_bar s) bs rows))"
  by (induction bs arbitrary: rows) (simp_all add: upsert_bar_distinct)

lemma upsert_bars_wf: "bars_wf st \<Longrightarrow> bars_wf (upsert_bars s bs st)"
  by (simp add: bars_wf_def upsert_bars_def fold_upsert_distinct)

lemma bars_for_sorted: "sorted (map b_date (bars_for st s since lmt))"
  by (auto simp: bars_for_def Let_def last_n_def sorted_wrt_drop drop_map [symmetric] split: option.split)

section \<open>Calls (tc/desk/calls.py)\<close>

text \<open>The FK and CHECK clauses of the \<open>calls\<close> table.\<close>

definition call_ok :: "desk \<Rightarrow> call_row \<Rightarrow> bool" where
  "call_ok st c \<longleftrightarrow>
     (case c_pitch_id c of None \<Rightarrow> True | Some p \<Rightarrow> p \<in> p_id ` set (pitches st)) \<and>
     (case c_extends c of None \<Rightarrow> True | Some k \<Rightarrow> k \<in> c_id ` set (calls st)) \<and>
     1 \<le> c_conviction c \<and> c_conviction c \<le> 5"

text \<open>\<open>insert_call\<close> takes a \<open>NewCall\<close>: the id it carries here is replaced by the table's.\<close>

definition insert_call :: "desk \<Rightarrow> call_row \<Rightarrow> exn + call_row \<times> desk" where
  "insert_call st c =
     (let c' = c\<lparr>c_id := next_id c_id (calls st)\<rparr> in
      if call_ok st c then Inr (c', st\<lparr>calls := calls st @ [c']\<rparr>) else Inl IntegrityError)"

definition get_call :: "desk \<Rightarrow> int \<Rightarrow> call_row option" where
  "get_call st k = find (\<lambda>c. c_id c = k) (calls st)"

definition resolution_for :: "desk \<Rightarrow> item_kind \<Rightarrow> int \<Rightarrow> resolution option" where
  "resolution_for st kind k = find (\<lambda>r. r_kind r = kind \<and> r_item r = k) (resolutions st)"

definition open_call_for :: "desk \<Rightarrow> string \<Rightarrow> direction \<Rightarrow> bool \<Rightarrow> call_row option" where
  "open_call_for st symbol dir legacy =
     find (\<lambda>c. c_symbol c = symbol \<and> c_direction c = dir \<and> (c_origin c = OLegacy) = legacy \<and>
               resolution_for st KCall (c_id c) = None) (rev (calls st))"

definition calls_made_on :: "desk \<Rightarrow> date \<Rightarrow> int" where
  "calls_made_on st d =
     int (length (filter (\<lambda>c. c_session c = d \<and> c_origin c \<noteq> OLegacy \<and> c_extends c = None) (calls st)))"

text \<open>
  \<open>current_call_id\<close> follows extensions to the newest call. Its \<open>while True\<close> loop runs on
  fuel, one unit per lookup; \<open>Diverges\<close> stands for a loop that has not returned after more
  lookups than there are calls, which only a cyclic chain can cause.
\<close>

definition extension_of :: "desk \<Rightarrow> int \<Rightarrow> call_row option" where
  "extension_of st k = find (\<lambda>c. c_extends c = Some k) (calls st)"

fun follow_extensions :: "nat \<Rightarrow> desk \<Rightarrow> int \<Rightarrow> exn + int" where
  "follow_extensions 0 st k = Inl Diverges"
| "follow_extensions (Suc n) st k =
     (case extension_of st k of None \<Rightarrow> Inr k | Some c \<Rightarrow> follow_extensions n st (c_id c))"

definition current_call_id :: "desk \<Rightarrow> int \<Rightarrow> exn + int" where
  "current_call_id st k = follow_extensions (Suc (length (calls st))) st k"

definition is_extended :: "desk \<Rightarrow> int \<Rightarrow> bool" where
  "is_extended st k \<longleftrightarrow> extension_of st k \<noteq> None"

definition tighten :: "desk \<Rightarrow> int \<Rightarrow> dec \<Rightarrow> instant \<Rightarrow> exn + desk" where
  "tighten st k inval now =
     (if k \<in> c_id ` set (calls st)
      then Inr (st\<lparr>tightenings := tightenings st @
             [\<lparr>t_id = next_id t_id (tightenings st), t_call = k, t_at = now, t_inval = inval\<rparr>]\<rparr>)
      else Inl IntegrityError)"

definition effective_invalidation :: "desk \<Rightarrow> call_row \<Rightarrow> dec" where
  "effective_invalidation st c =
     (case find (\<lambda>t. t_call t = c_id c) (rev (tightenings st)) of
        None \<Rightarrow> c_inval c | Some t \<Rightarrow> t_inval t)"

section \<open>Well-formed call tables\<close>

text \<open>
  What every insert keeps: ids are distinct and positive, grow in insertion order, and an
  extension points at an earlier call.
\<close>

definition calls_wf :: "desk \<Rightarrow> bool" where
  "calls_wf st \<longleftrightarrow> sorted_wrt (<) (map c_id (calls st)) \<and>
     (\<forall>c \<in> set (calls st). \<forall>k. c_extends c = Some k \<longrightarrow> k < c_id c)"

lemma calls_wf_empty: "calls_wf empty_desk"
  by (simp add: calls_wf_def empty_desk_def)

lemma insert_call_wf:
  assumes "insert_call st c = Inr (c', st')" and "calls_wf st"
  shows "calls_wf st'"
proof -
  have c': "c' = c\<lparr>c_id := next_id c_id (calls st)\<rparr>" and st': "st' = st\<lparr>calls := calls st @ [c']\<rparr>"
    and ok: "call_ok st c" using assms(1) by (auto simp: insert_call_def Let_def split: if_splits)
  have "k < c_id c'" if "c_extends c = Some k" for k
    using ok that next_id_greater [of _ "calls st" c_id] by (fastforce simp: call_ok_def c')
  then show ?thesis
    using assms(2) next_id_greater [of _ "calls st" c_id]
    by (auto simp: calls_wf_def st' c' sorted_wrt_append)
qed

lemma extension_of_later:
  "calls_wf st \<Longrightarrow> extension_of st k = Some c \<Longrightarrow> c \<in> set (calls st) \<and> k < c_id c"
  by (auto simp: extension_of_def calls_wf_def dest!: find_Some_in)

lemma follow_extensions_terminates:
  assumes "calls_wf st" and "card {c \<in> set (calls st). k < c_id c} < n"
  shows "\<exists>k'. follow_extensions n st k = Inr k' \<and> extension_of st k' = None"
  using assms(2)
proof (induction n arbitrary: k)
  case (Suc n)
  show ?case
  proof (cases "extension_of st k")
    case (Some c)
    note later = extension_of_later [OF assms(1) Some]
    have "{x \<in> set (calls st). c_id c < c_id x} \<subset> {x \<in> set (calls st). k < c_id x}"
      using later by auto
    then have "card {x \<in> set (calls st). c_id c < c_id x} < card {x \<in> set (calls st). k < c_id x}"
      by (intro psubset_card_mono) auto
    with Suc.prems have "card {x \<in> set (calls st). c_id c < c_id x} < n" by simp
    from Suc.IH [OF this] show ?thesis by (simp add: Some)
  qed simp
qed simp

lemma current_call_id_exists:
  assumes "calls_wf st" shows "\<exists>k'. current_call_id st k = Inr k' \<and> extension_of st k' = None"
proof -
  have "card {c \<in> set (calls st). k < c_id c} \<le> card (set (calls st))" by (intro card_mono) auto
  also have "\<dots> \<le> length (calls st)" by (rule card_length)
  finally show ?thesis
    using follow_extensions_terminates [OF assms, of k "Suc (length (calls st))"]
    by (auto simp: current_call_id_def)
qed

lemma current_call_id_cong:
  assumes "calls st' = calls st" shows "current_call_id st' = current_call_id st"
proof -
  have "follow_extensions m st' j = follow_extensions m st j" for m j
    by (induction m arbitrary: j) (simp_all add: extension_of_def assms split: option.split)
  then show ?thesis by (simp add: fun_eq_iff current_call_id_def assms)
qed

text \<open>C40: following a call's extensions always returns, with a call that has no extension of
  its own: the loop cannot run for ever on a table the desk has written.\<close>

theorem current_call_id_returns:
  assumes "calls_wf st"
  shows "\<exists>k'. current_call_id st k = Inr k' \<and> \<not> is_extended st k'"
  using current_call_id_exists [OF assms, of k] by (simp add: is_extended_def)

text \<open>A call and its extension, for examples.\<close>

definition sample_call :: "int \<Rightarrow> int option \<Rightarrow> call_row" where
  "sample_call k ext = \<lparr>c_id = k, c_made_at = 0, c_session = 739870, c_origin = OPm,
     c_pitch_id = None, c_extends = ext, c_symbol = ''MSFT'', c_direction = Up, c_thesis = ''thesis'',
     c_target = 55, c_inval = 46, c_horizon = 5, c_conviction = 4, c_bench = ''XLK'',
     c_ref_price = 50, c_spy_ref = 600, c_bench_ref = 250, c_funding = FShares\<rparr>"

theorem current_call_id_returns_witness:
  "calls_wf (empty_desk\<lparr>calls := [sample_call 1 None, sample_call 2 (Some 1)]\<rparr>) \<and>
   current_call_id (empty_desk\<lparr>calls := [sample_call 1 None, sample_call 2 (Some 1)]\<rparr>) 1 = Inr 2"
proof -
  let ?st = "empty_desk\<lparr>calls := [sample_call 1 None, sample_call 2 (Some 1)]\<rparr>"
  have wf: "calls_wf ?st" by (simp add: calls_wf_def sample_call_def)
  have "current_call_id ?st 1 = Inr 2"
    by (simp add: current_call_id_def extension_of_def sample_call_def)
  then show ?thesis using current_call_id_returns [OF wf, of 1] wf by simp
qed

lemma get_call_in: "get_call st k = Some c \<Longrightarrow> c \<in> set (calls st) \<and> c_id c = k"
  by (auto simp: get_call_def dest!: find_Some_in)

end
