(* ===== verification/TC_Rules.thy ===== *)
theory TC_Rules
  imports TC_Money
begin

text \<open>
  The rule parameters (tc/rules/model.py) and the arithmetic over them
  (tc/rules/arith.py): caps, stop geometry, the drawdown halt and the high-water mark.
  The two sections of rules.yml are maps from rule names to decimals; reading a name that
  is not there raises \<open>KeyError\<close>, as the source's \<open>Rules.get\<close> does, so no operation below
  can run with a cap missing.
\<close>

section \<open>tc/rules/model.py\<close>

record rules =
  manual :: "string \<rightharpoonup> dec"
  strategy :: "string \<rightharpoonup> dec"

definition rules_get :: "rules \<Rightarrow> string \<Rightarrow> string \<Rightarrow> exn + dec" where
  "rules_get r sec key =
     (if sec = ''manual'' then the_or (KeyError key) (manual r key)
      else if sec = ''strategy'' then the_or (KeyError key) (strategy r key)
      else Inl (KeyError sec))"

text \<open>The typed accessors; the integer ones read \<open>int(self.get(...))\<close>.\<close>

definition rules_int :: "rules \<Rightarrow> string \<Rightarrow> string \<Rightarrow> exn + int" where
  "rules_int r sec key = bind_e (rules_get r sec key) (\<lambda>d. Inr (int_of_dec d))"

definition settlement_reserve_usd :: "rules \<Rightarrow> exn + dec" where
  "settlement_reserve_usd r = rules_get r ''manual'' ''settlement_reserve_usd''"

definition min_share_price_usd :: "rules \<Rightarrow> exn + dec" where
  "min_share_price_usd r = rules_get r ''manual'' ''min_share_price_usd''"

definition single_position_pct :: "rules \<Rightarrow> exn + dec" where
  "single_position_pct r = rules_get r ''manual'' ''single_position_pct''"

definition option_single_position_pct :: "rules \<Rightarrow> exn + dec" where
  "option_single_position_pct r = rules_get r ''manual'' ''option_single_position_pct''"

definition option_open_premium_pct :: "rules \<Rightarrow> exn + dec" where
  "option_open_premium_pct r = rules_get r ''manual'' ''option_open_premium_pct''"

definition option_min_dte :: "rules \<Rightarrow> exn + int" where
  "option_min_dte r = rules_int r ''manual'' ''option_min_dte''"

definition option_close_at_dte :: "rules \<Rightarrow> exn + int" where
  "option_close_at_dte r = rules_int r ''manual'' ''option_close_at_dte''"

definition stop_atr_multiple :: "rules \<Rightarrow> exn + dec" where
  "stop_atr_multiple r = rules_get r ''manual'' ''stop_atr_multiple''"

definition stop_trigger_min_pct :: "rules \<Rightarrow> exn + dec" where
  "stop_trigger_min_pct r = rules_get r ''manual'' ''stop_trigger_min_pct''"

definition stop_trigger_max_pct :: "rules \<Rightarrow> exn + dec" where
  "stop_trigger_max_pct r = rules_get r ''manual'' ''stop_trigger_max_pct''"

definition stop_limit_pct_below_trigger :: "rules \<Rightarrow> exn + dec" where
  "stop_limit_pct_below_trigger r = rules_get r ''manual'' ''stop_limit_pct_below_trigger''"

definition leveraged_aggregate_pct :: "rules \<Rightarrow> exn + dec" where
  "leveraged_aggregate_pct r = rules_get r ''manual'' ''leveraged_aggregate_pct''"

definition leveraged_max_hold_sessions :: "rules \<Rightarrow> exn + int" where
  "leveraged_max_hold_sessions r = rules_int r ''manual'' ''leveraged_max_hold_sessions''"

definition halt_multiple_of_hwm :: "rules \<Rightarrow> exn + dec" where
  "halt_multiple_of_hwm r = rules_get r ''manual'' ''halt_multiple_of_hwm''"

definition max_orders_per_symbol_per_session :: "rules \<Rightarrow> exn + int" where
  "max_orders_per_symbol_per_session r = rules_int r ''manual'' ''max_orders_per_symbol_per_session''"

definition max_replaces_per_stop_per_day :: "rules \<Rightarrow> exn + int" where
  "max_replaces_per_stop_per_day r = rules_int r ''manual'' ''max_replaces_per_stop_per_day''"

lemmas rules_defs =
  rules_get_def rules_int_def settlement_reserve_usd_def min_share_price_usd_def
  single_position_pct_def option_single_position_pct_def option_open_premium_pct_def
  option_min_dte_def option_close_at_dte_def stop_atr_multiple_def stop_trigger_min_pct_def
  stop_trigger_max_pct_def stop_limit_pct_below_trigger_def leveraged_aggregate_pct_def
  leveraged_max_hold_sessions_def halt_multiple_of_hwm_def
  max_orders_per_symbol_per_session_def max_replaces_per_stop_per_day_def

text \<open>The parameter file the repository ships (rules.yml).\<close>

definition rules_yml :: rules where
  "rules_yml = \<lparr>
     manual = map_of [
       (''settlement_reserve_usd'', 900), (''min_share_price_usd'', 5),
       (''min_avg_daily_dollar_volume'', 5000000), (''min_avg_daily_volume'', 100000),
       (''single_position_pct'', 35), (''option_single_position_pct'', 10),
       (''option_open_premium_pct'', 30), (''option_min_dte'', 18),
       (''option_max_blind_days'', 10), (''option_dte_execution_margin_days'', 3),
       (''option_min_delta'', 45 / 100), (''option_max_delta'', 75 / 100),
       (''option_min_open_interest'', 500), (''option_max_spread_pct_of_mid'', 10),
       (''option_close_at_dte'', 5), (''occ_auto_exercise_itm_usd'', 1 / 100),
       (''stop_atr_multiple'', 25 / 10), (''stop_trigger_min_pct'', 8),
       (''stop_trigger_max_pct'', 15), (''stop_limit_pct_below_trigger'', 5),
       (''leveraged_aggregate_pct'', 20), (''leveraged_max_hold_sessions'', 5),
       (''halt_multiple_of_hwm'', 80 / 100), (''correlation_cap_pct'', 50),
       (''correlation_threshold'', 7 / 10), (''max_orders_per_symbol_per_session'', 4),
       (''max_replaces_per_stop_per_day'', 3)],
     strategy = map_of [
       (''sleeve_options_open_pct'', 30), (''sleeve_leveraged_pct'', 20),
       (''max_daily_atr_pct'', 6), (''min_session_range_pct'', 75 / 100),
       (''universe_max_failed_chunk_pct'', 20), (''working_universe_size'', 500),
       (''option_min_delta'', 45 / 100), (''leveraged_exit_session'', 4),
       (''tick_interval_naked_s'', 60), (''tick_interval_working_order_s'', 300),
       (''tick_interval_positions_s'', 900), (''desk_max_pitches_per_analyst_run'', 5),
       (''desk_preopen_max_new_pitches'', 2), (''pitch_horizon_min_days'', 2),
       (''pitch_horizon_max_days'', 20), (''pitch_level_max_distance_pct'', 30),
       (''desk_max_new_calls_per_day'', 5), (''min_fundable_conviction'', 3),
       (''size_shares_pct_conviction_3'', 10), (''size_shares_pct_conviction_4'', 15),
       (''size_shares_pct_conviction_5'', 20), (''size_option_premium_pct_conviction_3'', 5),
       (''size_option_premium_pct_conviction_4'', 75 / 10),
       (''size_option_premium_pct_conviction_5'', 10), (''max_funded_positions'', 8),
       (''option_max_dte'', 60), (''option_target_delta'', 60 / 100),
       (''option_exit_reprice_minutes'', 15), (''veto_window_minutes'', 10),
       (''max_entry_chase_pct'', 5), (''checkpoint_min_pm_calls'', 40),
       (''analyst_review_min_pitches'', 15), (''scorecard_ci_min_n'', 20)]\<rparr>"

section \<open>tc/rules/arith.py\<close>

text \<open>\<open>date(2026, 8, 31)\<close> as a proleptic Gregorian ordinal (\<open>date.toordinal\<close>).\<close>

definition BASIS_AMENDMENT_DATE :: int where "BASIS_AMENDMENT_DATE = 739859"

definition HUNDRED :: dec where "HUNDRED = 100"

definition cap_dollars :: "dec \<Rightarrow> dec \<Rightarrow> exn + dec" where
  "cap_dollars pct account_value = floor_cents (ddiv_nz (dmul account_value pct) HUNDRED)"

record stop_geometry_t =
  trigger :: dec
  limit :: dec
  trigger_pct :: dec

definition stop_geometry :: "dec \<Rightarrow> dec \<Rightarrow> rules \<Rightarrow> exn + stop_geometry_t" where
  "stop_geometry entry daily_atr_pct r =
     bind_e (stop_atr_multiple r) (\<lambda>mult.
     bind_e (stop_trigger_min_pct r) (\<lambda>lo.
     bind_e (stop_trigger_max_pct r) (\<lambda>hi.
     let raw = dmul mult daily_atr_pct; pct = min (max raw lo) hi in
     bind_e (cents (ddiv_nz (dmul entry (dsub HUNDRED pct)) HUNDRED)) (\<lambda>trig.
     bind_e (stop_limit_pct_below_trigger r) (\<lambda>below.
     bind_e (cents (ddiv_nz (dmul trig (dsub HUNDRED below)) HUNDRED)) (\<lambda>lim.
     Inr \<lparr>trigger = trig, limit = lim, trigger_pct = pct\<rparr>))))))"

definition halt_threshold :: "dec \<Rightarrow> rules \<Rightarrow> exn + dec" where
  "halt_threshold hwm r = bind_e (halt_multiple_of_hwm r) (\<lambda>m. cents (dmul hwm m))"

definition drawdown_pct :: "dec \<Rightarrow> dec \<Rightarrow> exn + dec" where
  "drawdown_pct account_value hwm =
     bind_e (raise_if (hwm \<le> 0) ValueError) (\<lambda>_.
     cents (dmul (ddiv_nz (dsub account_value hwm) hwm) HUNDRED))"

definition is_halted :: "dec \<Rightarrow> dec \<Rightarrow> rules \<Rightarrow> exn + bool" where
  "is_halted account_value hwm r =
     bind_e (halt_threshold hwm r) (\<lambda>h. Inr (account_value \<le> h))"

definition ratchet_hwm :: "dec \<Rightarrow> dec \<Rightarrow> dec" where
  "ratchet_hwm prior close = max prior close"

definition legacy_hwm_to_account_basis :: "dec \<Rightarrow> int \<Rightarrow> dec \<Rightarrow> dec" where
  "legacy_hwm_to_account_basis recorded recorded_on reserve =
     (if recorded_on < BASIS_AMENDMENT_DATE then dadd recorded reserve else recorded)"

definition reserve_cash :: "dec \<Rightarrow> dec \<Rightarrow> dec \<Rightarrow> dec" where
  "reserve_cash cash_balance cash_available_for_trading unsettled =
     min cash_balance (dadd cash_available_for_trading unsettled)"

definition lifetime_pl :: "dec \<Rightarrow> dec \<Rightarrow> int \<Rightarrow> exn + dec" where
  "lifetime_pl market_value average_price quantity =
     cents (dsub market_value (dmul average_price (of_int \<bar>quantity\<bar>)))"

definition notional :: "int \<Rightarrow> dec \<Rightarrow> int \<Rightarrow> exn + dec" where
  "notional quantity price multiplier =
     cents (dmul (dmul (of_int quantity) price) (of_int multiplier))"

definition notional_matches :: "dec \<Rightarrow> dec \<Rightarrow> dec \<Rightarrow> bool" where
  "notional_matches a b tolerance \<longleftrightarrow> \<bar>dsub a b\<bar> \<le> tolerance"

definition dte_floor_identity_holds :: "rules \<Rightarrow> exn + bool" where
  "dte_floor_identity_holds r =
     bind_e (option_close_at_dte r) (\<lambda>c.
     bind_e (rules_int r ''manual'' ''option_max_blind_days'') (\<lambda>b.
     bind_e (rules_int r ''manual'' ''option_dte_execution_margin_days'') (\<lambda>m.
     bind_e (option_min_dte r) (\<lambda>d. Inr (d = c + b + m)))))"

section \<open>Properties\<close>

lemma rules_yml_get [simp]:
  "stop_trigger_min_pct rules_yml = Inr 8" "stop_trigger_max_pct rules_yml = Inr 15"
  "stop_limit_pct_below_trigger rules_yml = Inr 5" "stop_atr_multiple rules_yml = Inr (25 / 10)"
  "halt_multiple_of_hwm rules_yml = Inr (80 / 100)" "single_position_pct rules_yml = Inr 35"
  "option_single_position_pct rules_yml = Inr 10" "option_open_premium_pct rules_yml = Inr 30"
  "option_min_dte rules_yml = Inr 18" "option_close_at_dte rules_yml = Inr 5"
  "leveraged_max_hold_sessions rules_yml = Inr 5"
  by (simp_all add: rules_defs rules_yml_def int_of_dec_def)

text \<open>A percentage cap is the exact percentage of the account value rounded down to the
  cent: it never exceeds the percentage and falls short of it by less than a cent. The
  hypothesis says that the product of the two numbers fits the 28 digits of the decimal
  context, with at least one decimal; every account value below ten quadrillion dollars
  with a percentage of two decimals does.\<close>

theorem cap_dollars_floor:
  assumes "fits j (account_value * pct)" and "1 \<le> j"
  shows "\<exists>c. cap_dollars pct account_value = Inr c \<and> c \<le> account_value * pct / 100 \<and>
           account_value * pct / 100 < c + CENT \<and> (\<exists>n. c = of_int n * CENT)"
proof -
  let ?x = "account_value * pct"
  have f: "fix28 ?x = ?x" using assms(1) by (rule fits_exact)
  then have v: "ddiv_nz (dmul account_value pct) HUNDRED = ?x / 100"
    by (simp add: ddiv_nz_def dmul_def HUNDRED_def fix28_div_100)
  have "\<bar>?x\<bar> * 10 ^ 1 \<le> \<bar>?x\<bar> * 10 ^ j" using assms(2) by (intro mult_left_mono power_increasing) auto
  then have "\<bar>?x\<bar> \<le> 10 ^ 27" using assms(1) by (simp add: fits_def)
  then have "of_int (- (10 ^ 27)) \<le> ?x" "?x \<le> of_int (10 ^ 27)" by (simp_all add: abs_le_iff)
  then have "- (10 ^ 27) \<le> \<lfloor>?x\<rfloor>" "\<lfloor>?x\<rfloor> \<le> 10 ^ 27"
    using floor_mono [of ?x "of_int (10 ^ 27)"] by (simp_all add: le_floor_iff)
  then have "\<bar>\<lfloor>?x\<rfloor>\<bar> \<le> 10 ^ 27" unfolding abs_le_iff by linarith
  then have b: "\<bar>\<lfloor>?x\<rfloor>\<bar> < 10 ^ 28" by (rule le_less_trans) simp
  define c where "c = of_int \<lfloor>?x\<rfloor> / (100 :: rat)"
  have "cap_dollars pct account_value = Inr c"
    using b by (simp add: cap_dollars_def v floor_cents_def quantize_Inr quant_def c_def)
  moreover have "c \<le> ?x / 100" "?x / 100 < c + CENT"
    unfolding c_def CENT_def by linarith+
  moreover have "c = of_int \<lfloor>?x\<rfloor> * CENT" by (simp add: c_def CENT_def)
  ultimately show ?thesis by blast
qed

theorem cap_dollars_floor_witness:
  "fits 1 (2900 * 35 :: dec) \<and>
   (\<exists>c. cap_dollars 35 2900 = Inr c \<and> c \<le> 2900 * 35 / 100 \<and> 2900 * 35 / 100 < c + CENT \<and>
     (\<exists>n. c = of_int n * CENT))"
proof -
  have h: "fits 1 (2900 * 35 :: dec)" by (simp add: fits_def)
  show ?thesis using h cap_dollars_floor [OF h] by blast
qed

text \<open>The protective stop of a share position. The trigger distance is the ATR formula
  clamped into the rules' band; the trigger sits at or below the entry (to the cent), the
  limit at or below the trigger, and neither is negative.\<close>

theorem stop_geometry_sound:
  assumes g: "stop_geometry entry atr r = Inr g"
    and lo: "stop_trigger_min_pct r = Inr lo" and hi: "stop_trigger_max_pct r = Inr hi"
    and below: "stop_limit_pct_below_trigger r = Inr below"
    and band: "0 \<le> lo" "lo \<le> hi" "hi \<le> 100" and lim: "0 \<le> below" "below \<le> 100"
    and entry: "0 \<le> entry" "fix28 entry = entry"
  shows "lo \<le> trigger_pct g \<and> trigger_pct g \<le> hi \<and>
         0 \<le> limit g \<and> limit g \<le> trigger g \<and> trigger g \<le> quant half_even 2 entry"
proof -
  obtain mult where mult: "stop_atr_multiple r = Inr mult" using g by (auto simp: stop_geometry_def err)
  define pct where "pct = min (max (dmul mult atr) lo) hi"
  have pct: "lo \<le> pct" "pct \<le> hi" "0 \<le> pct" "pct \<le> 100" using band by (auto simp: pct_def)
  from g obtain t l where
    t: "cents (ddiv_nz (dmul entry (dsub 100 pct)) 100) = Inr t" and
    l: "cents (ddiv_nz (dmul t (dsub 100 below)) 100) = Inr l" and
    G: "g = \<lparr>trigger = t, limit = l, trigger_pct = pct\<rparr>"
    by (auto simp: stop_geometry_def mult lo hi below err Let_def HUNDRED_def pct_def)
  note P = dsub_100_bounds [OF pct(3,4)] dsub_100_bounds [OF lim]
  have T: "0 \<le> ddiv_nz (dmul entry (dsub 100 pct)) 100" "ddiv_nz (dmul entry (dsub 100 pct)) 100 \<le> entry"
    using percent_bounds [OF entry] P by auto
  have tv: "t = quant half_even 2 (ddiv_nz (dmul entry (dsub 100 pct)) 100)"
    using t by (simp add: cents_def quantize_Inr)
  have z: "quant half_even 2 0 = 0" using half_even_r.quant_fixed [of 2 0] by simp
  have t0: "0 \<le> t" unfolding tv using T(1) z by (rule half_even_r.q.ge_fixed)
  have t1: "t \<le> quant half_even 2 entry" unfolding tv using T(2) by (rule half_even_r.q.mono)
  have tf: "fix28 t = t" using t unfolding cents_def by (rule quantize_exact)
  have tq: "quant half_even 2 t = t" unfolding tv by (rule half_even_r.q.idem)
  note L = percent_bounds [OF t0 tf, of "dsub 100 below"] P
  have lv: "l = quant half_even 2 (ddiv_nz (dmul t (dsub 100 below)) 100)"
    using l by (simp add: cents_def quantize_Inr)
  have "0 \<le> l" unfolding lv using L z by (intro half_even_r.q.ge_fixed) auto
  moreover have "l \<le> t" unfolding lv using L tq by (intro half_even_r.q.le_fixed) auto
  ultimately show ?thesis using t1 pct by (simp add: G)
qed

lemma stop_geometry_example:
  "stop_geometry 50 4 rules_yml = Inr \<lparr>trigger = 45, limit = 4275 / 100, trigger_pct = 10\<rparr>"
  by (simp add: stop_geometry_def HUNDRED_def dec_eval cong: bind_e_weak_cong let_weak_cong)

theorem stop_geometry_sound_witness:
  "stop_geometry 50 4 rules_yml = Inr \<lparr>trigger = 45, limit = 4275 / 100, trigger_pct = 10\<rparr> \<and>
   (8 :: dec) \<le> 10 \<and> (10 :: dec) \<le> 15 \<and> (45 :: dec) \<le> quant half_even 2 50"
  using stop_geometry_sound [OF stop_geometry_example rules_yml_get(1,2,3)]
  by (simp add: stop_geometry_example fix28_eval)

end
