(* ===== verification/TC_Text.thy ===== *)
theory TC_Text
  imports TC_Money
begin

text \<open>
  The text operations the modelled code uses: \<open>str.strip\<close>, \<open>str.upper\<close>,
  \<open>str.replace\<close> of a character by nothing, decimal rendering of integers, and the
  \<open>Decimal(text)\<close> constructor with its grammar. Strings are lists of (ASCII) characters.
\<close>

section \<open>Characters\<close>

definition code :: "char \<Rightarrow> nat" where "code c = of_char c"

lemma code_char_of: "n < 256 \<Longrightarrow> code (char_of n) = n"
  by (simp add: code_def)

definition is_digit :: "char \<Rightarrow> bool" where "is_digit c \<longleftrightarrow> 48 \<le> code c \<and> code c \<le> 57"

definition is_space :: "char \<Rightarrow> bool" where
  "is_space c \<longleftrightarrow> code c = 32 \<or> (9 \<le> code c \<and> code c \<le> 13) \<or> (28 \<le> code c \<and> code c \<le> 31)"

definition up_char :: "char \<Rightarrow> char" where
  "up_char c = (if 97 \<le> code c \<and> code c \<le> 122 then char_of (code c - 32) else c)"

definition digit_val :: "char \<Rightarrow> int" where "digit_val c = int (code c) - 48"

section \<open>Strings\<close>

definition strip :: "string \<Rightarrow> string" where
  "strip s = rev (dropWhile is_space (rev (dropWhile is_space s)))"

definition upper :: "string \<Rightarrow> string" where "upper s = map up_char s"

definition remove_char :: "char \<Rightarrow> string \<Rightarrow> string" where
  "remove_char c s = filter (\<lambda>x. x \<noteq> c) s"

fun show_nat :: "nat \<Rightarrow> string" where
  "show_nat n =
     (if n < 10 then [char_of (48 + n)] else show_nat (n div 10) @ [char_of (48 + n mod 10)])"

declare show_nat.simps [simp del]

definition show_int :: "int \<Rightarrow> string" where
  "show_int n = (if n < 0 then ''-'' @ show_nat (nat (- n)) else show_nat (nat n))"

text \<open>\<open>int(digits)\<close>.\<close>

definition digits_val :: "string \<Rightarrow> int" where
  "digits_val s = foldl (\<lambda>a c. 10 * a + digit_val c) 0 s"

lemma strip_idem [simp]: "strip (strip s) = strip s"
proof -
  have *: "dropWhile P (rev (dropWhile P (rev (dropWhile P xs)))) = rev (dropWhile P (rev (dropWhile P xs)))"
    for P and xs :: "'a list"
  proof (cases "dropWhile P xs")
    case Nil
    show ?thesis unfolding Nil by simp
  next
    case (Cons y ys)
    then have "\<not> P y" by (metis dropWhile_eq_Cons_conv)
    then have "dropWhile P (rev ys @ [y]) = dropWhile P (rev ys) @ [y]"
      by (simp add: dropWhile_append3)
    with Cons \<open>\<not> P y\<close> show ?thesis by simp
  qed
  show ?thesis by (simp add: strip_def *)
qed

lemma upper_idem [simp]: "upper (upper s) = upper s"
proof -
  have "up_char (up_char c) = up_char c" for c
  proof (cases "97 \<le> code c \<and> code c \<le> 122")
    case True
    then have "code (char_of (code c - 32)) = code c - 32" by (intro code_char_of) linarith
    with True show ?thesis by (auto simp: up_char_def)
  next
    case False
    then show ?thesis by (auto simp: up_char_def)
  qed
  then show ?thesis by (simp add: upper_def)
qed

subsection \<open>Reading back a rendered number\<close>

lemma digit_char: "n < 10 \<Longrightarrow> is_digit (char_of (48 + n)) \<and> digit_val (char_of (48 + n)) = int n"
  by (simp add: is_digit_def digit_val_def code_def)

lemma digits_val_snoc: "digits_val (s @ [c]) = 10 * digits_val s + digit_val c"
  by (simp add: digits_val_def)

lemma show_nat_digits: "list_all is_digit (show_nat n)"
proof (induction n rule: show_nat.induct)
  case (1 n)
  then show ?case by (cases "n < 10") (auto simp: show_nat.simps [of n] digit_char)
qed

lemma digits_val_show_nat: "digits_val (show_nat n) = int n"
proof (induction n rule: show_nat.induct)
  case (1 n)
  show ?case
  proof (cases "n < 10")
    case True
    then show ?thesis using digit_char [OF True] digits_val_snoc [of "[]"]
      by (simp add: show_nat.simps [of n] digits_val_def)
  next
    case False
    then show ?thesis using 1 digit_char [of "n mod 10"]
      by (simp add: show_nat.simps [of n] digits_val_snoc of_nat_div of_nat_mod)
  qed
qed

lemma show_nat_inj: "show_nat m = show_nat n \<Longrightarrow> m = n"
  by (metis digits_val_show_nat of_nat_eq_iff)

section \<open>The Decimal constructor\<close>

datatype pdec = PFin dec | PInf | PNaN

definition split_sign :: "string \<Rightarrow> rat \<times> string" where
  "split_sign s =
     (case s of c # t \<Rightarrow> if c = CHR ''-'' then (- 1, t) else if c = CHR ''+'' then (1, t) else (1, s)
      | [] \<Rightarrow> (1, s))"

text \<open>The optional exponent part, up to the end of the text.\<close>

definition parse_exp :: "string \<Rightarrow> int option" where
  "parse_exp s =
     (case s of [] \<Rightarrow> Some 0
      | c # t \<Rightarrow>
          if up_char c = CHR ''E'' then
            (let (sg, ds) = split_sign t in
             if ds \<noteq> [] \<and> list_all is_digit ds then Some (\<lfloor>sg\<rfloor> * digits_val ds) else None)
          else None)"

definition parse_number :: "string \<Rightarrow> rat option" where
  "parse_number s =
     (let ip = takeWhile is_digit s; r1 = dropWhile is_digit s;
          (fp, r2) = (case r1 of c # t \<Rightarrow> if c = CHR ''.'' then (takeWhile is_digit t, dropWhile is_digit t)
                                          else ([], r1)
                      | [] \<Rightarrow> ([], r1)) in
      if ip = [] \<and> fp = [] then None
      else map_option (\<lambda>e. of_int (digits_val (ip @ fp)) * 10 powi (e - int (length fp))) (parse_exp r2))"

definition parse_decimal :: "string \<Rightarrow> pdec option" where
  "parse_decimal s0 =
     (let (sg, s) = split_sign (remove_char CHR ''_'' (strip s0)); u = upper s in
      if u = ''INF'' \<or> u = ''INFINITY'' then Some PInf
      else if take 3 u = ''NAN'' \<and> list_all is_digit (drop 3 u) then Some PNaN
      else if take 4 u = ''SNAN'' \<and> list_all is_digit (drop 4 u) then Some PNaN
      else map_option (\<lambda>x. PFin (sg * x)) (parse_number s))"

end
