(* ===== verification/TC_Sizing.thy ===== *)
theory TC_Sizing
  imports TC_Rules TC_Text
begin

text \<open>
  How much, and whether the book can take it (tc/desk/sizing.py): conviction budgets, the
  number of shares or contracts, the book caps a new order has to clear, and the stop of a
  share entry. Every number comes from the rules; every check raises its own refusal.
\<close>

section \<open>tc/desk/sizing.py\<close>

definition OPTION_MULTIPLIER :: int where "OPTION_MULTIPLIER = 100"

record holding =
  h_symbol :: string
  market_value :: dec
  h_benchmark :: string
  is_option :: bool
  premium_paid :: dec
  h_pending :: bool

record book_state_t =
  equity :: dec
  book_cash :: dec
  holdings :: "holding list"

definition positions :: "book_state_t \<Rightarrow> int" where
  "positions b = int (length (filter (\<lambda>h. \<not> h_pending h) (holdings b)))"

definition pending :: "book_state_t \<Rightarrow> int" where
  "pending b = int (length (filter h_pending (holdings b)))"

definition open_premium :: "book_state_t \<Rightarrow> dec" where
  "open_premium b = dsum (map premium_paid (filter is_option (holdings b)))"

datatype size_kind = KShares | KOption

definition conviction_pct :: "size_kind \<Rightarrow> int \<Rightarrow> rules \<Rightarrow> exn + dec" where
  "conviction_pct kind conviction r =
     bind_e (rules_int r ''strategy'' ''min_fundable_conviction'') (\<lambda>lo.
     bind_e (raise_if (conviction < lo) (SizingRefused ConvictionNotFunded)) (\<lambda>_.
     let prefix_base = (case kind of KShares \<Rightarrow> ''size_shares_pct_conviction_''
                        | KOption \<Rightarrow> ''size_option_premium_pct_conviction_'') in
     rules_get r ''strategy'' (prefix_base @ show_int conviction)))"

definition share_quantity :: "int \<Rightarrow> dec \<Rightarrow> dec \<Rightarrow> rules \<Rightarrow> exn + int" where
  "share_quantity conviction eq max_entry r =
     bind_e (conviction_pct KShares conviction r) (\<lambda>pct.
     bind_e (cap_dollars pct eq) (\<lambda>budget.
     bind_e (dfloordiv budget max_entry) (\<lambda>qty.
     bind_e (raise_if (qty < 1) (SizingRefused BudgetBuysNoShare)) (\<lambda>_. Inr qty))))"

definition option_quantity :: "int \<Rightarrow> dec \<Rightarrow> dec \<Rightarrow> rules \<Rightarrow> exn + int" where
  "option_quantity conviction eq ask r =
     bind_e (conviction_pct KOption conviction r) (\<lambda>pct.
     bind_e (cap_dollars pct eq) (\<lambda>budget.
     let per = dmul ask (of_int OPTION_MULTIPLIER) in
     bind_e (dfloordiv budget per) (\<lambda>qty.
     bind_e (raise_if (qty < 1) (SizingRefused ContractOverCap)) (\<lambda>_. Inr qty))))"

text \<open>The holdings that count as one exposure with a new order.\<close>

definition in_cluster :: "string \<Rightarrow> string \<Rightarrow> string set \<Rightarrow> holding \<Rightarrow> bool" where
  "in_cluster symbol benchmark correlated h \<longleftrightarrow>
     h_symbol h = symbol \<or> h_symbol h \<in> correlated \<or>
     (benchmark \<noteq> ''SPY'' \<and> h_benchmark h = benchmark)"

text \<open>Refuse when an amount is over a percentage cap of the equity.\<close>

definition over_cap :: "exn + dec \<Rightarrow> dec \<Rightarrow> dec \<Rightarrow> sizing_refusal \<Rightarrow> exn + unit" where
  "over_cap pct eq amount why =
     bind_e pct (\<lambda>p. bind_e (cap_dollars p eq) (\<lambda>cap. raise_if (amount > cap) (SizingRefused why)))"

definition check_book ::
  "book_state_t \<Rightarrow> string \<Rightarrow> string \<Rightarrow> dec \<Rightarrow> bool \<Rightarrow> string set \<Rightarrow> rules \<Rightarrow> dec \<Rightarrow> exn + unit" where
  "check_book book symbol benchmark ntl option_order correlated r reserve =
     bind_e (rules_int r ''strategy'' ''max_funded_positions'') (\<lambda>max_pos.
     bind_e (raise_if (int (length (holdings book)) \<ge> max_pos) (SizingRefused BookFull)) (\<lambda>_.
     bind_e (raise_if (dsub (book_cash book) ntl < reserve) (SizingRefused ReserveBreached)) (\<lambda>_.
     let same = dsum (map market_value (filter (\<lambda>h. h_symbol h = symbol) (holdings book))) in
     bind_e (over_cap (single_position_pct r) (equity book) (dadd same ntl) SinglePositionCap) (\<lambda>_.
     bind_e (if option_order then
               bind_e (over_cap (option_single_position_pct r) (equity book) ntl OptionPositionCap) (\<lambda>_.
               over_cap (option_open_premium_pct r) (equity book) (dadd (open_premium book) ntl)
                 OpenPremiumCap)
             else Inr ()) (\<lambda>_.
     let cluster = filter (in_cluster symbol benchmark correlated) (holdings book);
         held = dsum (map market_value cluster) in
     over_cap (rules_get r ''manual'' ''correlation_cap_pct'') (equity book) (dadd held ntl)
       CorrelatedCap)))))"

definition entry_stop :: "dec \<Rightarrow> dec \<Rightarrow> dec \<Rightarrow> rules \<Rightarrow> exn + stop_geometry_t" where
  "entry_stop fill atr_pct invalidation r =
     bind_e (stop_geometry fill atr_pct r) (\<lambda>formula.
     bind_e (ceil_cents invalidation) (\<lambda>thesis.
     let trig = max (trigger formula) thesis in
     bind_e (raise_if (trig \<ge> fill) (SizingRefused TriggerAtOrAboveFill)) (\<lambda>_.
     bind_e (stop_limit_pct_below_trigger r) (\<lambda>below.
     bind_e (floor_cents (ddiv_nz (dmul trig (dsub HUNDRED below)) HUNDRED)) (\<lambda>lim.
     bind_e (ddiv (dsub fill trig) fill) (\<lambda>x.
     Inr \<lparr>trigger = trig, limit = lim, trigger_pct = dmul x HUNDRED\<rparr>))))))"

section \<open>What the checks establish\<close>

lemma cap_dollars_le:
  assumes "cap_dollars pct eq = Inr c" and f: "fits j (eq * pct)"
  shows "c \<le> eq * pct / 100"
proof -
  have "ddiv_nz (dmul eq pct) 100 = eq * pct / 100"
    using fits_exact [OF f] by (simp add: ddiv_nz_def dmul_def fix28_div_100)
  then have "c = of_int \<lfloor>eq * pct\<rfloor> / 100"
    using assms(1) by (simp add: cap_dollars_def HUNDRED_def floor_cents_def quantize_Inr quant_def)
  then show ?thesis by linarith
qed

lemma over_cap_ok:
  assumes "over_cap (Inr pct) eq amount why = Inr ()" and "fits j (eq * pct)"
  shows "amount \<le> eq * pct / 100"
  using assms cap_dollars_le by (fastforce simp: over_cap_def err)

text \<open>
  \<open>book_fits k\<close>: the amounts of a snapshot and of a new order are non-negative, have at
  most \<open>k\<close> decimals, and their totals fit 28 digits, so that every sum is exact.
\<close>

definition book_fits :: "nat \<Rightarrow> book_state_t \<Rightarrow> dec \<Rightarrow> bool" where
  "book_fits k book ntl \<longleftrightarrow>
     0 \<le> ntl \<and> ntl * 10 ^ k \<in> \<int> \<and> book_cash book * 10 ^ k \<in> \<int> \<and>
     fits k (\<bar>book_cash book\<bar> + ntl) \<and>
     (\<forall>h \<in> set (holdings book). 0 \<le> market_value h \<and> market_value h * 10 ^ k \<in> \<int> \<and>
        0 \<le> premium_paid h \<and> premium_paid h * 10 ^ k \<in> \<int>) \<and>
     fits k (sum_list (map market_value (holdings book)) + ntl) \<and>
     fits k (sum_list (map premium_paid (holdings book)) + ntl)"

text \<open>A sub-sum of such a list, plus the order, is exact.\<close>

lemma sum_list_map_filter_le:
  fixes f :: "'a \<Rightarrow> rat"
  assumes "\<And>h. h \<in> set hs \<Longrightarrow> 0 \<le> f h"
  shows "sum_list (map f (filter P hs)) \<le> sum_list (map f hs)"
  using assms by (induction hs) (auto intro: order_trans)

lemma sum_grid:
  fixes f :: "'a \<Rightarrow> rat"
  assumes "\<And>h. h \<in> set hs \<Longrightarrow> 0 \<le> f h \<and> f h * 10 ^ 2 \<in> \<int>"
  shows "sum_list (map f (filter P hs)) * 100 \<in> \<int>"
  using assms by (induction hs) (auto simp: algebra_simps)

lemma floor_small:
  fixes x :: rat
  assumes "\<bar>x\<bar> \<le> 10 ^ 27"
  shows "\<bar>\<lfloor>x\<rfloor>\<bar> < 10 ^ 28"
proof -
  have "of_int (- (10 ^ 27)) \<le> x" "x \<le> of_int (10 ^ 27)" using assms by (simp_all add: abs_le_iff)
  then have "- (10 ^ 27) \<le> \<lfloor>x\<rfloor>" "\<lfloor>x\<rfloor> \<le> 10 ^ 27"
    using floor_mono [of x "of_int (10 ^ 27)"] by (simp_all add: le_floor_iff)
  then have "\<bar>\<lfloor>x\<rfloor>\<bar> \<le> 10 ^ 27" unfolding abs_le_iff by linarith
  then show ?thesis by (rule le_less_trans) simp
qed

lemma sub_sum_exact:
  fixes f :: "'a \<Rightarrow> rat"
  assumes hs: "\<And>h. h \<in> set hs \<Longrightarrow> 0 \<le> f h \<and> f h * 10 ^ k \<in> \<int>"
    and n: "0 \<le> ntl" "ntl * 10 ^ k \<in> \<int>" and total: "fits k (sum_list (map f hs) + ntl)"
  shows "dadd (dsum (map f (filter P hs))) ntl = sum_list (map f (filter P hs)) + ntl"
proof -
  let ?s = "sum_list (map f (filter P hs))"
  have s: "0 \<le> ?s" "?s \<le> sum_list (map f hs)"
    using hs by (auto intro!: sum_list_nonneg sum_list_map_filter_le)
  have grid: "?s * 10 ^ k \<in> \<int>"
    using hs by (induction hs) (auto simp: algebra_simps)
  have both: "(?s + ntl) * 10 ^ k \<in> \<int>" using grid n(2) by (simp add: algebra_simps)
  have f1: "fits k (?s + ntl)" by (rule fits_mono_abs [OF total both]) (use s n in simp)
  have f2: "fits k ?s" by (rule fits_mono_abs [OF total grid]) (use s n in simp)
  have "dsum (map f (filter P hs)) = ?s"
    by (rule dsum_exact [OF _ f2]) (use hs in auto)
  then show ?thesis using fits_exact [OF f1] by (simp add: dadd_def)
qed

lemma cash_exact:
  assumes "book_fits k book ntl"
  shows "dsub (book_cash book) ntl = book_cash book - ntl"
proof -
  have f: "fits k (\<bar>book_cash book\<bar> + ntl)" and n: "0 \<le> ntl"
    and g: "(book_cash book - ntl) * 10 ^ k \<in> \<int>"
    using assms by (auto simp: book_fits_def algebra_simps)
  have "fits k (book_cash book - ntl)" by (rule fits_mono_abs [OF f g]) (use n in simp)
  then show ?thesis by (simp add: dsub_def fits_exact)
qed

text \<open>C2: an order that \<open>check_book\<close> accepts keeps every limit of the manual, exactly: the
  book has room, the cash left covers the reserve, and the same-name total, an option's
  premium, the open premium and the correlated cluster each stay within their percentage of
  the equity, the new order counted in.\<close>

theorem check_book_sound:
  assumes ok: "check_book book symbol bench ntl opt corr r reserve = Inr ()"
    and pcts: "single_position_pct r = Inr p1" "option_single_position_pct r = Inr p2"
      "option_open_premium_pct r = Inr p3" "rules_get r ''manual'' ''correlation_cap_pct'' = Inr p4"
    and fit: "\<forall>p \<in> {p1, p2, p3, p4}. fits j (equity book * p)" "book_fits k book ntl"
    and max_pos: "rules_int r ''strategy'' ''max_funded_positions'' = Inr m"
  shows "int (length (holdings book)) < m \<and> reserve \<le> book_cash book - ntl \<and>
    sum_list (map market_value (filter (\<lambda>h. h_symbol h = symbol) (holdings book))) + ntl
      \<le> equity book * p1 / 100 \<and>
    (opt \<longrightarrow> ntl \<le> equity book * p2 / 100 \<and>
      sum_list (map premium_paid (filter is_option (holdings book))) + ntl \<le> equity book * p3 / 100) \<and>
    sum_list (map market_value (filter (in_cluster symbol bench corr) (holdings book))) + ntl
      \<le> equity book * p4 / 100"
proof -
  have nn: "0 \<le> ntl" "ntl * 10 ^ k \<in> \<int>"
    and hs: "\<And>h. h \<in> set (holdings book) \<Longrightarrow> 0 \<le> market_value h \<and> market_value h * 10 ^ k \<in> \<int>"
      "\<And>h. h \<in> set (holdings book) \<Longrightarrow> 0 \<le> premium_paid h \<and> premium_paid h * 10 ^ k \<in> \<int>"
    and tot: "fits k (sum_list (map market_value (holdings book)) + ntl)"
      "fits k (sum_list (map premium_paid (holdings book)) + ntl)"
    using fit(2) by (auto simp: book_fits_def)
  note mv = sub_sum_exact [where f = market_value, OF hs(1) nn tot(1)]
  note pp = sub_sum_exact [where f = premium_paid, OF hs(2) nn tot(2)]
  have f: "fits j (equity book * p1)" "fits j (equity book * p2)" "fits j (equity book * p3)"
    "fits j (equity book * p4)" using fit(1) by auto
  show ?thesis
    using ok cash_exact [OF fit(2)] max_pos f
    by (auto simp: check_book_def pcts err Let_def open_premium_def mv pp
        split: if_splits dest: over_cap_ok)
qed

lemma rules_yml_sizing [simp]:
  "rules_int rules_yml ''strategy'' ''max_funded_positions'' = Inr 8"
  "rules_int rules_yml ''strategy'' ''min_fundable_conviction'' = Inr 3"
  "rules_get rules_yml ''manual'' ''correlation_cap_pct'' = Inr 50"
  "rules_get rules_yml ''strategy'' ''max_entry_chase_pct'' = Inr 5"
  "rules_get rules_yml ''strategy'' ''max_daily_atr_pct'' = Inr 6"
  "rules_get rules_yml ''manual'' ''correlation_threshold'' = Inr (7 / 10)"
  by (simp_all add: rules_defs rules_yml_def int_of_dec_def)

text \<open>A small book: one share position and a pending option proposal.\<close>

definition sample_book :: book_state_t where
  "sample_book = \<lparr>equity = 2900, book_cash = 2000, holdings =
     [\<lparr>h_symbol = ''AAPL'', market_value = 700, h_benchmark = ''XLK'', is_option = False,
       premium_paid = 0, h_pending = False\<rparr>,
      \<lparr>h_symbol = ''JPM'', market_value = 200, h_benchmark = ''XLF'', is_option = True,
       premium_paid = 200, h_pending = True\<rparr>]\<rparr>"

lemma sample_book_accepts:
  "check_book sample_book ''MSFT'' ''XLK'' 250 True {} rules_yml 900 = Inr ()"
  by (simp add: check_book_def sample_book_def over_cap_def cap_dollars_def open_premium_def
      in_cluster_def HUNDRED_def dec_eval cong: bind_e_weak_cong let_weak_cong)

theorem check_book_sound_witness:
  "check_book sample_book ''MSFT'' ''XLK'' 250 True {} rules_yml 900 = Inr () \<and>
   book_fits 2 sample_book 250 \<and> (900 :: dec) \<le> 2000 - 250 \<and>
   (200 + 250 :: dec) \<le> 2900 * 30 / 100 \<and> (700 + 250 :: dec) \<le> 2900 * 50 / 100"
proof -
  have f: "book_fits 2 sample_book 250" by (simp add: book_fits_def sample_book_def fits_def)
  have p: "\<forall>p \<in> {35, 10, 30, 50}. fits 2 (equity sample_book * p)"
    by (simp add: sample_book_def fits_def)
  show ?thesis
    using check_book_sound [OF sample_book_accepts _ _ _ _ p f, where m = 8] f
    by (simp add: sample_book_accepts)
qed

subsection \<open>The exact acceptance condition in cents\<close>

text \<open>On whole cents a floored cap decides the same as the exact percentage.\<close>

lemma over_cap_cents:
  assumes f: "fits j (eq * pct)" and j: "1 \<le> j" and a: "amount * 100 \<in> \<int>"
  shows "over_cap (Inr pct) eq amount why =
           (if amount \<le> eq * pct / 100 then Inr () else Inl (SizingRefused why))"
proof -
  have x: "ddiv_nz (dmul eq pct) 100 = eq * pct / 100"
    using fits_exact [OF f] by (simp add: ddiv_nz_def dmul_def fix28_div_100)
  have "\<bar>eq * pct\<bar> * 10 ^ 1 \<le> \<bar>eq * pct\<bar> * 10 ^ j" using j by (intro mult_left_mono power_increasing) auto
  then have "\<bar>eq * pct\<bar> \<le> 10 ^ 27" using f by (simp add: fits_def)
  then have "\<bar>\<lfloor>eq * pct\<rfloor>\<bar> < 10 ^ 28" by (rule floor_small)
  then have c: "cap_dollars pct eq = Inr (of_int \<lfloor>eq * pct\<rfloor> / 100)"
    by (simp add: cap_dollars_def HUNDRED_def x floor_cents_def quantize_Inr quant_def)
  obtain n where n: "amount * 100 = of_int n" using a by (auto elim: Ints_cases)
  have "amount > of_int \<lfloor>eq * pct\<rfloor> / 100 \<longleftrightarrow> amount * 100 > of_int \<lfloor>eq * pct\<rfloor>" by linarith
  also have "\<dots> \<longleftrightarrow> amount * 100 > eq * pct" unfolding n by (simp add: floor_less_iff)
  also have "\<dots> \<longleftrightarrow> \<not> amount \<le> eq * pct / 100" by linarith
  finally show ?thesis by (simp add: over_cap_def c raise_if_def)
qed

text \<open>C11: with amounts in whole cents, \<open>check_book\<close> accepts an order exactly when it keeps
  every limit: no order inside the limits is refused, and none outside them accepted.\<close>

theorem check_book_iff:
  assumes pcts: "single_position_pct r = Inr p1" "option_single_position_pct r = Inr p2"
      "option_open_premium_pct r = Inr p3" "rules_get r ''manual'' ''correlation_cap_pct'' = Inr p4"
    and fit: "\<forall>p \<in> {p1, p2, p3, p4}. fits j (equity book * p)" "1 \<le> j" "book_fits 2 book ntl"
    and max_pos: "rules_int r ''strategy'' ''max_funded_positions'' = Inr m"
  shows "check_book book symbol bench ntl opt corr r reserve = Inr () \<longleftrightarrow>
    int (length (holdings book)) < m \<and> reserve \<le> book_cash book - ntl \<and>
    sum_list (map market_value (filter (\<lambda>h. h_symbol h = symbol) (holdings book))) + ntl
      \<le> equity book * p1 / 100 \<and>
    (opt \<longrightarrow> ntl \<le> equity book * p2 / 100 \<and>
      sum_list (map premium_paid (filter is_option (holdings book))) + ntl \<le> equity book * p3 / 100) \<and>
    sum_list (map market_value (filter (in_cluster symbol bench corr) (holdings book))) + ntl
      \<le> equity book * p4 / 100"
proof -
  have nn: "0 \<le> ntl" "ntl * 10 ^ 2 \<in> \<int>"
    and hs: "\<And>h. h \<in> set (holdings book) \<Longrightarrow> 0 \<le> market_value h \<and> market_value h * 10 ^ 2 \<in> \<int>"
      "\<And>h. h \<in> set (holdings book) \<Longrightarrow> 0 \<le> premium_paid h \<and> premium_paid h * 10 ^ 2 \<in> \<int>"
    and tot: "fits 2 (sum_list (map market_value (holdings book)) + ntl)"
      "fits 2 (sum_list (map premium_paid (holdings book)) + ntl)"
    using fit(3) by (auto simp: book_fits_def)
  note mv = sub_sum_exact [where f = market_value, OF hs(1) nn tot(1)]
  note pp = sub_sum_exact [where f = premium_paid, OF hs(2) nn tot(2)]
  have grid: "sum_list (map f (filter P (holdings book))) * 100 \<in> \<int>"
    if "\<And>h. h \<in> set (holdings book) \<Longrightarrow> 0 \<le> f h \<and> f h * 10 ^ 2 \<in> \<int>" for f :: "holding \<Rightarrow> rat" and P
    using that by (rule sum_grid)
  have caps: "over_cap (Inr p) (equity book) a why =
      (if a \<le> equity book * p / 100 then Inr () else Inl (SizingRefused why))"
    if "p \<in> {p1, p2, p3, p4}" "a * 100 \<in> \<int>" for p a why
    using fit(1,2) that by (intro over_cap_cents) auto
  have n100: "ntl * 100 \<in> \<int>" using nn(2) by simp
  have g: "(sum_list (map f (filter P (holdings book))) + ntl) * 100 \<in> \<int>"
    if "\<And>h. h \<in> set (holdings book) \<Longrightarrow> 0 \<le> f h \<and> f h * 10 ^ 2 \<in> \<int>" for f :: "holding \<Rightarrow> rat" and P
    using grid [OF that] n100 by (simp add: distrib_right)
  note c1 = caps [of p1, OF _ g [OF hs(1)], simplified] and c2 = caps [of p2, OF _ n100, simplified]
    and c3 = caps [of p3, OF _ g [OF hs(2)], simplified]
    and c4 = caps [of p4, OF _ g [OF hs(1)], simplified]
  show ?thesis
    unfolding check_book_def pcts max_pos
    by (simp add: err Let_def open_premium_def mv pp cash_exact [OF fit(3)] c1 c2 c3 c4 not_less not_le)
qed

theorem check_book_iff_witness:
  "book_fits 2 sample_book 250 \<and>
   check_book sample_book ''MSFT'' ''XLK'' 250 True {} rules_yml 900 = Inr () \<and>
   book_fits 2 sample_book 291 \<and>
   check_book sample_book ''MSFT'' ''XLK'' 291 True {} rules_yml 900 \<noteq> Inr ()"
proof -
  have f: "book_fits 2 sample_book 250" "book_fits 2 sample_book 291"
    by (simp_all add: book_fits_def sample_book_def fits_def)
  have p: "\<forall>p \<in> {35, 10, 30, 50}. fits 2 (equity sample_book * p)"
    by (simp add: sample_book_def fits_def)
  note iff = check_book_iff [OF rules_yml_get(6,7,8) rules_yml_sizing(3) p _ _ rules_yml_sizing(1)]
  show ?thesis
    using iff [OF _ f(1), of "''MSFT''" "''XLK''" True "{}" 900]
      iff [OF _ f(2), of "''MSFT''" "''XLK''" True "{}" 900] f
    by (simp add: sample_book_def in_cluster_def)
qed

section \<open>Quantities and stops\<close>

lemma dfloordiv_spec:
  assumes "dfloordiv x y = Inr q" and "0 \<le> x" and "0 < y"
  shows "of_int q * y \<le> x" and "x < of_int (q + 1) * y"
proof -
  have q: "q = \<lfloor>x / y\<rfloor>"
    using assms by (auto simp: dfloordiv_def Let_def int_of_dec_def split: if_splits)
  have "of_int q \<le> x / y" "x / y < of_int (q + 1)" unfolding q by linarith+
  then show "of_int q * y \<le> x" and "x < of_int (q + 1) * y"
    using assms(3) by (simp_all add: pos_le_divide_eq pos_divide_less_eq)
qed

text \<open>A share order is the largest number of whole shares its conviction budget buys at
  the worst price allowed: at least one share, within the exact percentage of the equity, and
  one more share would exceed the budget by the cap's own rounding.\<close>

theorem share_quantity_maximal:
  assumes q: "share_quantity conviction eq max_entry r = Inr qty"
    and pct: "conviction_pct KShares conviction r = Inr pct" and b: "cap_dollars pct eq = Inr budget"
    and fit: "fits j (eq * pct)" and nn: "0 \<le> eq * pct" "0 < max_entry"
  shows "1 \<le> qty \<and> of_int qty * max_entry \<le> eq * pct / 100 \<and>
         budget < of_int (qty + 1) * max_entry"
proof -
  have "budget = quant floor 2 (ddiv_nz (dmul eq pct) 100)"
    using b by (simp add: cap_dollars_def HUNDRED_def floor_cents_def quantize_Inr)
  moreover have "0 \<le> ddiv_nz (dmul eq pct) 100"
    using nn by (auto simp: ddiv_nz_def dmul_def intro!: ctx28.nonneg divide_nonneg_nonneg)
  ultimately have b0: "0 \<le> budget"
    using floor_r.q.ge_fixed floor_r.quant_fixed [of 2 0] by simp
  have d: "dfloordiv budget max_entry = Inr qty" and q1: "1 \<le> qty"
    using q by (auto simp: share_quantity_def pct b err)
  note spec = dfloordiv_spec [OF d b0 nn(2)]
  have "budget \<le> eq * pct / 100" by (rule cap_dollars_le [OF b fit])
  then show ?thesis using spec q1 by linarith
qed

lemma show_int_digits [simp]: "show_int 3 = ''3''" "show_int 4 = ''4''" "show_int 5 = ''5''"
  by code_simp+

lemma conviction_pct_yml [simp]:
  "conviction_pct KShares 3 rules_yml = Inr 10" "conviction_pct KShares 4 rules_yml = Inr 15"
  "conviction_pct KShares 5 rules_yml = Inr 20" "conviction_pct KOption 3 rules_yml = Inr 5"
  "conviction_pct KOption 4 rules_yml = Inr (75 / 10)" "conviction_pct KOption 5 rules_yml = Inr 10"
  by (simp_all add: conviction_pct_def Let_def) (simp_all add: rules_get_def rules_yml_def)

theorem share_quantity_maximal_witness:
  "share_quantity 4 2900 (4825 / 100) rules_yml = Inr 9 \<and> 9 * (4825 / 100) \<le> (2900 * 15 / 100 :: dec) \<and>
   (435 :: dec) < 10 * (4825 / 100)"
proof -
  have c: "cap_dollars 15 2900 = Inr 435"
    by (simp add: cap_dollars_def HUNDRED_def dec_eval cong: let_weak_cong)
  have q: "share_quantity 4 2900 (4825 / 100) rules_yml = Inr 9"
    by (simp add: share_quantity_def c dec_eval cong: bind_e_weak_cong let_weak_cong)
  have f: "fits 2 (2900 * 15 :: dec)" by (simp add: fits_def)
  show ?thesis using share_quantity_maximal [OF q conviction_pct_yml(2) c f] q by simp
qed

text \<open>The stop of a share entry. A trigger is at least the manual's formula and at least
  the call's invalidation, strictly below the fill, and the limit lies between zero and the
  trigger: the rule lets a stop be raised by the thesis, never lowered.\<close>

theorem entry_stop_sound:
  assumes e: "entry_stop fill atr inval r = Inr g" and f: "stop_geometry fill atr r = Inr formula"
    and below: "stop_limit_pct_below_trigger r = Inr below" "0 \<le> below" "below \<le> 100"
    and nn: "0 \<le> trigger formula"
  shows "trigger formula \<le> trigger g \<and> inval \<le> trigger g \<and> trigger g < fill \<and>
         0 \<le> limit g \<and> limit g \<le> trigger g"
proof -
  obtain lvl lim where
    th: "ceil_cents inval = Inr lvl" and
    lt: "\<not> fill \<le> max (trigger formula) lvl" and
    lim: "floor_cents (ddiv_nz (dmul (max (trigger formula) lvl) (dsub 100 below)) 100) = Inr lim" and
    g: "trigger g = max (trigger formula) lvl" "limit g = lim"
    using e by (auto simp: entry_stop_def f below err Let_def HUNDRED_def)
  let ?t = "max (trigger formula) lvl"
  have tf: "fits 2 (trigger formula)"
    using f by (auto simp: stop_geometry_def err Let_def cents_def dest: quantize_fits)
  have th': "fits 2 lvl" using th unfolding ceil_cents_def by (rule quantize_fits)
  have fixed: "fix28 ?t = ?t"
    by (rule ctx28.max_fixed) (use tf th' in \<open>auto intro: fits_exact\<close>)
  have t0: "0 \<le> ?t" using nn by simp
  have whole: "quant floor 2 ?t = ?t"
  proof -
    have "fits 2 ?t" using tf th' by (simp add: max_def)
    then obtain n where "?t * 10 ^ 2 = of_int n" by (auto simp: fits_def elim: Ints_cases)
    then have "?t = of_int n / 10 ^ 2" by (simp add: field_simps)
    then show ?thesis using floor_r.quant_fixed by metis
  qed
  note pb = percent_bounds [OF t0 fixed, of "dsub 100 below"] dsub_100_bounds [OF below(2,3)]
  have lv: "lim = quant floor 2 (ddiv_nz (dmul ?t (dsub 100 below)) 100)"
    using lim by (simp add: floor_cents_def quantize_Inr)
  have "lim \<le> ?t" unfolding lv using pb whole by (intro floor_r.q.le_fixed) auto
  moreover have "0 \<le> lim" unfolding lv using pb floor_r.quant_fixed [of 2 0] by (intro floor_r.q.ge_fixed) auto
  moreover have "inval \<le> lvl"
  proof -
    have "lvl = of_int \<lceil>inval * 100\<rceil> / 100"
      using th by (simp add: ceil_cents_def quantize_Inr quant_def)
    then show ?thesis by linarith
  qed
  ultimately show ?thesis using lt by (auto simp: g max_def)
qed

theorem entry_stop_sound_witness:
  "entry_stop 50 4 (4612 / 100) rules_yml =
     Inr \<lparr>trigger = 4612 / 100, limit = 4381 / 100, trigger_pct = 776 / 100\<rparr> \<and>
   (45 :: dec) \<le> 4612 / 100 \<and> (4612 / 100 :: dec) < 50 \<and> (4381 / 100 :: dec) \<le> 4612 / 100"
proof -
  have e: "entry_stop 50 4 (4612 / 100) rules_yml =
      Inr \<lparr>trigger = 4612 / 100, limit = 4381 / 100, trigger_pct = 776 / 100\<rparr>"
    by (simp add: entry_stop_def stop_geometry_example HUNDRED_def dec_eval
        cong: bind_e_weak_cong let_weak_cong)
  show ?thesis using entry_stop_sound [OF e stop_geometry_example rules_yml_get(3)] e by simp
qed

end
