(* ===== verification/TC_Paper.thy ===== *)
theory TC_Paper
  imports TC_Store TC_Sizing
begin

text \<open>
  The paper book (tc/desk/paper.py): proposals, their outcomes and fills, the positions and
  cash they amount to, and the snapshot sizing works on. Rows of a table are in id order, so
  \<open>ORDER BY id\<close> is the order of the list; a join is a nested list comprehension.
\<close>

section \<open>tc/desk/paper.py\<close>

fun MULT :: "instrument \<Rightarrow> int" where
  "MULT Shares = 1" | "MULT CallOpt = 100" | "MULT PutOpt = 100"

record paper_position =
  pp_pid :: int
  pp_call :: int
  pp_instr :: instrument
  pp_symbol :: string
  pp_underlying :: string
  pp_qty :: int
  pp_entry :: dec
  pp_opened :: instant
  pp_trigger :: "dec option"
  pp_limit :: "dec option"

record closed_trade =
  ct_pid :: int
  ct_call :: int
  ct_instr :: instrument
  ct_symbol :: string
  ct_pnl :: dec
  ct_ret :: dec

text \<open>\<open>INSERT OR IGNORE\<close>: only the first start is kept.\<close>

definition ensure_book :: "desk \<Rightarrow> date \<Rightarrow> dec \<Rightarrow> (date \<times> dec) \<times> desk" where
  "ensure_book st start_date start_equity =
     (case paper_book st of
        Some row \<Rightarrow> (row, st)
      | None \<Rightarrow> ((start_date, start_equity), st\<lparr>paper_book := Some (start_date, start_equity)\<rparr>))"

definition create_proposal ::
  "desk \<Rightarrow> int \<Rightarrow> instant \<Rightarrow> instrument \<Rightarrow> string \<Rightarrow> string \<Rightarrow> int \<Rightarrow> dec \<Rightarrow> dec option \<Rightarrow>
   exn + proposal \<times> desk" where
  "create_proposal st call_id created_at instr symbol underlying quantity max_entry_price atr =
     (let p = \<lparr>q_id = next_id q_id (proposals st), q_call = call_id, q_created = created_at,
               q_instr = instr, q_symbol = symbol, q_underlying = underlying, q_qty = quantity,
               q_max_entry = max_entry_price, q_atr = atr, q_posted = None, q_deadline = None,
               q_msg = None\<rparr> in
      if call_id \<in> c_id ` set (calls st) \<and> 0 < quantity
      then Inr (p, st\<lparr>proposals := proposals st @ [p]\<rparr>) else Inl IntegrityError)"

text \<open>\<open>UPDATE ... WHERE id=? AND posted_at IS NULL\<close>; True for the caller that marked it first.\<close>

definition mark_posted :: "desk \<Rightarrow> int \<Rightarrow> instant \<Rightarrow> instant \<Rightarrow> string option \<Rightarrow> bool \<times> desk" where
  "mark_posted st pid posted_at deadline msg =
     (list_ex (\<lambda>p. q_id p = pid \<and> q_posted p = None) (proposals st),
      st\<lparr>proposals := map (\<lambda>p. if q_id p = pid \<and> q_posted p = None
                               then p\<lparr>q_posted := Some posted_at, q_deadline := Some deadline,
                                      q_msg := msg\<rparr> else p) (proposals st)\<rparr>)"

definition has_outcome :: "desk \<Rightarrow> int \<Rightarrow> bool" where
  "has_outcome st pid \<longleftrightarrow> pid \<in> o_pid ` set (outcomes st)"

definition has_buy :: "desk \<Rightarrow> int \<Rightarrow> bool" where
  "has_buy st pid \<longleftrightarrow> list_ex (\<lambda>f. f_pid f = pid \<and> f_side f = Buy) (fills st)"

definition unposted_proposals :: "desk \<Rightarrow> proposal list" where
  "unposted_proposals st =
     filter (\<lambda>p. q_posted p = None \<and> \<not> has_outcome st (q_id p)) (proposals st)"

definition pending_proposals :: "desk \<Rightarrow> proposal list" where
  "pending_proposals st = filter (\<lambda>p. \<not> has_outcome st (q_id p)) (proposals st)"

definition record_outcome ::
  "desk \<Rightarrow> int \<Rightarrow> instant \<Rightarrow> outcome \<Rightarrow> bool \<Rightarrow> bool \<Rightarrow> exn + desk" where
  "record_outcome st pid tm oc vetoed approved =
     (if pid \<in> q_id ` set (proposals st) \<and> \<not> has_outcome st pid
      then Inr (st\<lparr>outcomes := outcomes st @ [\<lparr>o_pid = pid, o_at = tm, o_outcome = oc,
                     o_vetoed = vetoed, o_approved = approved\<rparr>]\<rparr>)
      else Inl IntegrityError)"

definition record_fill ::
  "desk \<Rightarrow> int \<Rightarrow> instant \<Rightarrow> side \<Rightarrow> int \<Rightarrow> dec \<Rightarrow> string \<Rightarrow> dec option \<Rightarrow> dec option \<Rightarrow> exn + desk" where
  "record_fill st pid tm sd quantity price reason trig lmt =
     (if pid \<in> q_id ` set (proposals st) \<and> 0 < quantity
      then Inr (st\<lparr>fills := fills st @ [\<lparr>f_pid = pid, f_at = tm, f_side = sd, f_qty = quantity,
                     f_price = price, f_reason = reason, f_stop_trigger = trig,
                     f_stop_limit = lmt\<rparr>]\<rparr>)
      else Inl IntegrityError)"

text \<open>The quantity sold of a proposal so far.\<close>

definition sold :: "desk \<Rightarrow> int \<Rightarrow> int" where
  "sold st pid = sum_list (map f_qty (filter (\<lambda>f. f_pid f = pid \<and> f_side f = Sell) (fills st)))"

definition position_of :: "desk \<Rightarrow> proposal \<Rightarrow> fill_row \<Rightarrow> paper_position" where
  "position_of st p b =
     \<lparr>pp_pid = q_id p, pp_call = q_call p, pp_instr = q_instr p, pp_symbol = q_symbol p,
      pp_underlying = q_underlying p, pp_qty = f_qty b - sold st (q_id p), pp_entry = f_price b,
      pp_opened = f_at b, pp_trigger = f_stop_trigger b, pp_limit = f_stop_limit b\<rparr>"

definition open_positions :: "desk \<Rightarrow> paper_position list" where
  "open_positions st =
     filter (\<lambda>pos. 0 < pp_qty pos)
       (concat (map (\<lambda>p. map (position_of st p)
          (filter (\<lambda>f. f_pid f = q_id p \<and> f_side f = Buy) (fills st))) (proposals st)))"

text \<open>The money a fill moves, and the cash the fills leave of the starting equity.\<close>

definition fill_value :: "instrument \<Rightarrow> fill_row \<Rightarrow> dec" where
  "fill_value i f = dmul (dmul (f_price f) (of_int (f_qty f))) (of_int (MULT i))"

definition signed_value :: "instrument \<Rightarrow> fill_row \<Rightarrow> dec" where
  "signed_value i f = (if f_side f = Sell then fill_value i f else - fill_value i f)"

definition joined_fills :: "desk \<Rightarrow> (instrument \<times> fill_row) list" where
  "joined_fills st =
     concat (map (\<lambda>f. map (\<lambda>p. (q_instr p, f)) (filter (\<lambda>p. q_id p = f_pid f) (proposals st))) (fills st))"

definition cash :: "desk \<Rightarrow> dec \<Rightarrow> dec" where
  "cash st start_equity =
     foldl (\<lambda>total (i, f). dadd total (signed_value i f)) start_equity (joined_fills st)"

definition upsert_mark :: "desk \<Rightarrow> string \<Rightarrow> dec \<Rightarrow> desk" where
  "upsert_mark st symbol price = st\<lparr>marks_tbl := (marks_tbl st)(symbol \<mapsto> price)\<rparr>"

definition side_total :: "desk \<Rightarrow> proposal \<Rightarrow> side \<Rightarrow> dec" where
  "side_total st p sd =
     dsum (map (fill_value (q_instr p)) (filter (\<lambda>f. f_pid f = q_id p \<and> f_side f = sd) (fills st)))"

definition side_qty :: "desk \<Rightarrow> int \<Rightarrow> side \<Rightarrow> int" where
  "side_qty st pid sd = sum_list (map f_qty (filter (\<lambda>f. f_pid f = pid \<and> f_side f = sd) (fills st)))"

definition closed_trades :: "desk \<Rightarrow> exn + closed_trade list" where
  "closed_trades st =
     map_e (\<lambda>p. let b = side_total st p Buy; s = side_total st p Sell in
              bind_e (ddiv (dsub s b) b) (\<lambda>x.
              Inr \<lparr>ct_pid = q_id p, ct_call = q_call p, ct_instr = q_instr p, ct_symbol = q_symbol p,
                   ct_pnl = dsub s b, ct_ret = dmul x 100\<rparr>))
       (filter (\<lambda>p. 0 < side_qty st (q_id p) Buy \<and> side_qty st (q_id p) Buy = side_qty st (q_id p) Sell)
          (proposals st))"

definition committed_proposals :: "desk \<Rightarrow> proposal list" where
  "committed_proposals st =
     filter (\<lambda>p. \<not> has_outcome st (q_id p) \<and> \<not> has_buy st (q_id p)) (proposals st)"

definition expire_stale_proposals :: "zone \<Rightarrow> desk \<Rightarrow> instant \<Rightarrow> exn + int list \<times> desk" where
  "expire_stale_proposals z st now =
     fold_e (\<lambda>p (out, s).
         if et_date z (q_created p) < et_date z now
         then bind_e (record_outcome s (q_id p) now Expired False False) (\<lambda>s'.
              Inr (out @ [q_id p], s'))
         else Inr (out, s))
       (committed_proposals st) ([], st)"

definition is_option_instr :: "instrument \<Rightarrow> bool" where
  "is_option_instr i \<longleftrightarrow> i \<noteq> Shares"

definition bench_of :: "desk \<Rightarrow> int \<Rightarrow> string" where
  "bench_of st k = (case get_call st k of None \<Rightarrow> ''SPY'' | Some c \<Rightarrow> c_bench c)"

definition position_holding :: "desk \<Rightarrow> paper_position \<Rightarrow> exn + holding" where
  "position_holding st p =
     bind_e (current_call_id st (pp_call p)) (\<lambda>cid.
     let price = (case marks_tbl st (pp_symbol p) of None \<Rightarrow> pp_entry p | Some m \<Rightarrow> m);
         m = of_int (MULT (pp_instr p)); opt = is_option_instr (pp_instr p) in
     Inr \<lparr>h_symbol = pp_underlying p, market_value = dmul (dmul price (of_int (pp_qty p))) m,
          h_benchmark = bench_of st cid, is_option = opt,
          premium_paid = (if opt then dmul (dmul (pp_entry p) (of_int (pp_qty p))) m else 0),
          h_pending = False\<rparr>)"

definition worst_case :: "proposal \<Rightarrow> dec" where
  "worst_case q = dmul (dmul (q_max_entry q) (of_int (q_qty q))) (of_int (MULT (q_instr q)))"

definition proposal_holding :: "desk \<Rightarrow> proposal \<Rightarrow> holding" where
  "proposal_holding st q =
     \<lparr>h_symbol = q_underlying q, market_value = worst_case q, h_benchmark = bench_of st (q_call q),
      is_option = is_option_instr (q_instr q),
      premium_paid = (if is_option_instr (q_instr q) then worst_case q else 0), h_pending = True\<rparr>"

definition book_state :: "desk \<Rightarrow> int option \<Rightarrow> exn + book_state_t" where
  "book_state st exclude =
     (case paper_book st of
        None \<Rightarrow> Inl BookNotStarted
      | Some (_, start_equity) \<Rightarrow>
          bind_e (map_e (position_holding st) (open_positions st)) (\<lambda>hs.
          let qs = filter (\<lambda>q. Some (q_id q) \<noteq> exclude) (committed_proposals st);
              committed = foldl dadd 0 (map worst_case qs);
              all = hs @ map (proposal_holding st) qs;
              c = dsub (cash st start_equity) committed in
          Inr \<lparr>equity = dadd c (dsum (map market_value all)), book_cash = c, holdings = all\<rparr>))"

definition request_exit :: "desk \<Rightarrow> string \<Rightarrow> int option \<Rightarrow> string \<Rightarrow> instant \<Rightarrow> exn + int \<times> desk" where
  "request_exit st symbol pid reason tm =
     (let k = next_id x_id (exit_requests st) in
      if (case pid of None \<Rightarrow> True | Some p \<Rightarrow> p \<in> q_id ` set (proposals st))
      then Inr (k, st\<lparr>exit_requests := exit_requests st @
             [\<lparr>x_id = k, x_at = tm, x_symbol = symbol, x_pid = pid, x_reason = reason, x_done = None\<rparr>]\<rparr>)
      else Inl IntegrityError)"

definition pending_exit_requests :: "desk \<Rightarrow> exit_request list" where
  "pending_exit_requests st = filter (\<lambda>x. x_done x = None) (exit_requests st)"

definition mark_exit_done :: "desk \<Rightarrow> int \<Rightarrow> instant \<Rightarrow> desk" where
  "mark_exit_done st k tm =
     st\<lparr>exit_requests := map (\<lambda>x. if x_id x = k then x\<lparr>x_done := Some tm\<rparr> else x) (exit_requests st)\<rparr>"

section \<open>The book invariant\<close>

text \<open>
  What the desk's operations keep: proposal ids grow, every proposal refers to a call, an
  outcome and a fill refer to a proposal, a proposal has at most one outcome. The fills of a
  proposal are either none, with no \<open>filled\<close> outcome, or one entry for the whole quantity
  proposed, with sales of at most that quantity and the \<open>filled\<close> outcome.
\<close>

definition buys :: "desk \<Rightarrow> int \<Rightarrow> fill_row list" where
  "buys st pid = filter (\<lambda>f. f_pid f = pid \<and> f_side f = Buy) (fills st)"

definition filled_outcome :: "desk \<Rightarrow> int \<Rightarrow> bool" where
  "filled_outcome st pid \<longleftrightarrow> (\<exists>x \<in> set (outcomes st). o_pid x = pid \<and> o_outcome x = Filled)"

definition fills_ok :: "desk \<Rightarrow> proposal \<Rightarrow> bool" where
  "fills_ok st p \<longleftrightarrow>
     (case buys st (q_id p) of
        [] \<Rightarrow> (\<forall>f \<in> set (fills st). f_pid f \<noteq> q_id p) \<and> \<not> filled_outcome st (q_id p)
      | [b] \<Rightarrow> f_qty b = q_qty p \<and> sold st (q_id p) \<le> q_qty p \<and> filled_outcome st (q_id p)
      | _ \<Rightarrow> False)"

definition book_wf :: "desk \<Rightarrow> bool" where
  "book_wf st \<longleftrightarrow>
     calls_wf st \<and> sorted_wrt (<) (map q_id (proposals st)) \<and>
     (\<forall>p \<in> set (proposals st). q_call p \<in> c_id ` set (calls st) \<and> 0 < q_qty p) \<and>
     distinct (map o_pid (outcomes st)) \<and>
     o_pid ` set (outcomes st) \<subseteq> q_id ` set (proposals st) \<and>
     (\<forall>f \<in> set (fills st). f_pid f \<in> q_id ` set (proposals st) \<and> 0 < f_qty f) \<and>
     (\<forall>p \<in> set (proposals st). fills_ok st p)"

lemma book_wf_empty: "book_wf empty_desk"
  by (simp add: book_wf_def calls_wf_def empty_desk_def)

text \<open>The invariant reads four tables only.\<close>

lemma fills_ok_cong:
  assumes "fills st' = fills st" and "outcomes st' = outcomes st"
  shows "fills_ok st' p = fills_ok st p"
proof -
  have "buys st' k = buys st k" "sold st' k = sold st k" "filled_outcome st' k = filled_outcome st k"
    for k using assms by (simp_all add: buys_def sold_def filled_outcome_def)
  then show ?thesis using assms by (simp add: fills_ok_def cong: list.case_cong)
qed

lemma book_wf_cong:
  "calls st' = calls st \<Longrightarrow> proposals st' = proposals st \<Longrightarrow> outcomes st' = outcomes st \<Longrightarrow>
   fills st' = fills st \<Longrightarrow> book_wf st' = book_wf st"
  by (simp add: book_wf_def calls_wf_def fills_ok_cong [of st' st])

lemma sorted_ids_inj:
  "sorted_wrt (<) (map key rows) \<Longrightarrow> x \<in> set rows \<Longrightarrow> y \<in> set rows \<Longrightarrow> key x = (key y :: int) \<Longrightarrow> x = y"
  by (induction rows) auto

lemma book_wfD:
  assumes "book_wf st"
  shows "calls_wf st" "sorted_wrt (<) (map q_id (proposals st))"
    "p \<in> set (proposals st) \<Longrightarrow> q_call p \<in> c_id ` set (calls st) \<and> 0 < q_qty p \<and> fills_ok st p"
    "x \<in> set (outcomes st) \<Longrightarrow> o_pid x \<in> q_id ` set (proposals st)"
    "f \<in> set (fills st) \<Longrightarrow> f_pid f \<in> q_id ` set (proposals st) \<and> 0 < f_qty f"
  using assms by (auto simp: book_wf_def)

lemma insert_call_book_wf:
  assumes "insert_call st c = Inr (c', st')" and "book_wf st"
  shows "book_wf st'"
proof -
  have st': "st' = st\<lparr>calls := calls st @ [c']\<rparr>"
    using assms(1) by (auto simp: insert_call_def Let_def split: if_splits)
  have "calls_wf st'" using insert_call_wf [OF assms(1)] assms(2) by (simp add: book_wf_def)
  then show ?thesis
    using assms(2) fills_ok_cong [of st' st] by (auto simp: book_wf_def st')
qed

lemma create_proposal_book_wf:
  assumes "create_proposal st k t i s u n m a = Inr (p, st')" and wf: "book_wf st"
  shows "book_wf st'"
proof -
  have st': "st' = st\<lparr>proposals := proposals st @ [p]\<rparr>" and p: "q_id p = next_id q_id (proposals st)"
    "q_call p \<in> c_id ` set (calls st)" "0 < q_qty p"
    using assms(1) by (auto simp: create_proposal_def Let_def split: if_splits)
  have fresh: "q_id p \<notin> q_id ` set (proposals st)" and less: "\<forall>x \<in> set (proposals st). q_id x < q_id p"
    using next_id_greater [of _ "proposals st" q_id] by (force simp: p)+
  have nofill: "\<forall>f \<in> set (fills st). f_pid f \<noteq> q_id p" "\<not> filled_outcome st (q_id p)"
    using book_wfD(4,5) [OF wf] fresh unfolding filled_outcome_def by metis+
  then have "buys st (q_id p) = []" by (auto simp: buys_def filter_empty_conv)
  then have "fills_ok st' p" using nofill
    by (simp add: fills_ok_def st' buys_def filled_outcome_def)
  moreover have "fills_ok st' x = fills_ok st x" for x
    by (rule fills_ok_cong) (simp_all add: st')
  ultimately show ?thesis
    using wf less p by (auto simp: book_wf_def st' sorted_wrt_append calls_wf_def)
qed

text \<open>A table update that keeps ids, calls and quantities of the proposals keeps the book.\<close>

lemma book_wf_map_proposals:
  assumes "\<And>p. q_id (g p) = q_id p \<and> q_call (g p) = q_call p \<and> q_qty (g p) = q_qty p" and "book_wf st"
  shows "book_wf (st\<lparr>proposals := map g (proposals st)\<rparr>)"
proof -
  have "fills_ok (st\<lparr>proposals := map g (proposals st)\<rparr>) (g p) = fills_ok st p" for p
    using fills_ok_cong [of "st\<lparr>proposals := map g (proposals st)\<rparr>" st "g p"] assms(1)
    by (simp add: fills_ok_def cong: list.case_cong)
  moreover have "q_id \<circ> g = q_id" using assms(1) by auto
  moreover from this have "q_id ` g ` set (proposals st) = q_id ` set (proposals st)"
    by (simp add: image_comp)
  ultimately show ?thesis using assms by (auto simp: book_wf_def calls_wf_def)
qed

lemma mark_posted_book_wf: "book_wf st \<Longrightarrow> book_wf (snd (mark_posted st k t d m))"
  unfolding mark_posted_def snd_conv by (rule book_wf_map_proposals) auto

lemma committed_facts:
  "p \<in> set (committed_proposals st) \<longleftrightarrow>
     p \<in> set (proposals st) \<and> \<not> has_outcome st (q_id p) \<and> buys st (q_id p) = []"
  by (auto simp: committed_proposals_def has_buy_def buys_def list_ex_iff filter_empty_conv)

lemma no_outcome_unfilled: "\<not> has_outcome st k \<Longrightarrow> \<not> filled_outcome st k"
  by (auto simp: has_outcome_def filled_outcome_def)

text \<open>A proposal with no outcome has no fills: a pending proposal is a committed one.\<close>

lemma pending_committed:
  assumes "book_wf st" shows "pending_proposals st = committed_proposals st"
proof -
  have "\<not> has_buy st (q_id p)" if "p \<in> set (proposals st)" "\<not> has_outcome st (q_id p)" for p
  proof -
    have "fills_ok st p" using book_wfD(3) [OF assms that(1)] by simp
    then have "buys st (q_id p) = []"
      using no_outcome_unfilled [OF that(2)] by (auto simp: fills_ok_def split: list.splits)
    then show ?thesis by (auto simp: has_buy_def list_ex_iff buys_def filter_empty_conv)
  qed
  then show ?thesis unfolding pending_proposals_def committed_proposals_def
    by (intro filter_cong) auto
qed

lemma record_outcome_book_wf:
  assumes "record_outcome st k t oc v a = Inr st'" and "oc \<noteq> Filled" and wf: "book_wf st"
  shows "book_wf st'"
proof -
  obtain x where st': "st' = st\<lparr>outcomes := outcomes st @ [x]\<rparr>" and x: "o_pid x = k" "o_outcome x \<noteq> Filled"
    "k \<in> q_id ` set (proposals st)" "\<not> has_outcome st k"
    using assms(1,2) by (auto simp: record_outcome_def split: if_splits)
  have "filled_outcome st' j = filled_outcome st j" for j
    using x by (auto simp: filled_outcome_def st')
  then have "fills_ok st' p = fills_ok st p" for p
    by (simp add: fills_ok_def st' buys_def sold_def cong: list.case_cong)
  then show ?thesis using wf x by (auto simp: book_wf_def st' has_outcome_def calls_wf_def)
qed

text \<open>The two writes of an entry, together.\<close>

lemma entry_book_wf:
  assumes fill: "record_fill st (q_id p) t Buy (q_qty p) price why tr lm = Inr st1"
    and out: "record_outcome st1 (q_id p) t' Filled v a = Inr st2"
    and p: "p \<in> set (committed_proposals st)" and wf: "book_wf st"
  shows "book_wf st2"
proof -
  obtain f where st1: "st1 = st\<lparr>fills := fills st @ [f]\<rparr>" and f: "f_pid f = q_id p" "f_side f = Buy"
    "f_qty f = q_qty p" "0 < q_qty p"
    using fill by (auto simp: record_fill_def split: if_splits)
  obtain x where st2: "st2 = st1\<lparr>outcomes := outcomes st1 @ [x]\<rparr>" and x: "o_pid x = q_id p" "o_outcome x = Filled"
    "\<not> has_outcome st1 (q_id p)"
    using out by (auto simp: record_outcome_def split: if_splits)
  have p': "p \<in> set (proposals st)" "\<not> has_outcome st (q_id p)" "buys st (q_id p) = []"
    using p by (auto simp: committed_facts)
  have none: "\<forall>g \<in> set (fills st). f_pid g \<noteq> q_id p"
    using wf p' by (auto simp: book_wf_def fills_ok_def)
  have b: "buys st2 j = (if j = q_id p then buys st j @ [f] else buys st j)" for j
    using f by (simp add: buys_def st2 st1)
  have s: "sold st2 j = sold st j" for j using f by (simp add: sold_def st2 st1)
  have o: "filled_outcome st2 j \<longleftrightarrow> j = q_id p \<or> filled_outcome st j" for j
    using x by (auto simp: filled_outcome_def st2 st1)
  have fs: "fills st2 = fills st @ [f]" by (simp add: st2 st1)
  have "sold st (q_id p) = 0" using none by (simp add: sold_def filter_False)
  then have pok: "fills_ok st2 p" using p' f by (simp add: fills_ok_def b s o)
  have "fills_ok st2 y" if y: "y \<in> set (proposals st)" for y
  proof (cases "q_id y = q_id p")
    case True
    then have "y = p" using y p'(1) wf sorted_ids_inj [of q_id "proposals st" y p] by (simp add: book_wf_def)
    then show ?thesis using pok by simp
  next
    case False
    have "fills_ok st y" using wf y by (simp add: book_wf_def)
    then show ?thesis using False f
      by (auto simp: fills_ok_def b s o fs cong: list.case_cong split: list.splits)
  qed
  then show ?thesis
    using wf p' f x by (auto simp: book_wf_def st2 st1 calls_wf_def has_outcome_def)
qed

lemma open_position_facts:
  assumes wf: "book_wf st"
  shows "pos \<in> set (open_positions st) \<longleftrightarrow>
    (\<exists>p \<in> set (proposals st). \<exists>b. buys st (q_id p) = [b] \<and> pos = position_of st p b \<and>
       sold st (q_id p) < q_qty p \<and> f_qty b = q_qty p)"
proof
  assume "pos \<in> set (open_positions st)"
  then obtain p b where p: "p \<in> set (proposals st)" "b \<in> set (buys st (q_id p))"
    "pos = position_of st p b" "0 < pp_qty pos"
    by (auto simp: open_positions_def buys_def)
  have "fills_ok st p" using book_wfD(3) [OF wf p(1)] by simp
  with p(2,4) have "buys st (q_id p) = [b]" "sold st (q_id p) < q_qty p" "f_qty b = q_qty p"
    by (auto simp: fills_ok_def p(3) position_of_def split: list.splits)
  with p show "\<exists>p \<in> set (proposals st). \<exists>b. buys st (q_id p) = [b] \<and> pos = position_of st p b \<and>
       sold st (q_id p) < q_qty p \<and> f_qty b = q_qty p" by blast
next
  assume "\<exists>p \<in> set (proposals st). \<exists>b. buys st (q_id p) = [b] \<and> pos = position_of st p b \<and>
       sold st (q_id p) < q_qty p \<and> f_qty b = q_qty p"
  then obtain p b where "p \<in> set (proposals st)" "b \<in> set (buys st (q_id p))"
    "pos = position_of st p b" "0 < pp_qty pos" by (auto simp: position_of_def)
  then show "pos \<in> set (open_positions st)" by (auto simp: open_positions_def buys_def)
qed

lemma open_position_ids_inj:
  assumes "book_wf st" "a \<in> set (open_positions st)" "b \<in> set (open_positions st)" "pp_pid a = pp_pid b"
  shows "a = b"
proof -
  obtain p x q y where "p \<in> set (proposals st)" "a = position_of st p x" "buys st (q_id p) = [x]"
    "q \<in> set (proposals st)" "b = position_of st q y" "buys st (q_id q) = [y]"
    using assms(2,3) open_position_facts [OF assms(1)] by auto
  moreover from this have "p = q"
    using sorted_ids_inj [of q_id "proposals st" p q] book_wfD(2) [OF assms(1)] assms(4)
    by (simp add: position_of_def)
  ultimately show ?thesis by simp
qed

text \<open>A sale within what is still open keeps the book.\<close>

lemma sell_book_wf:
  assumes fill: "record_fill st k t Sell n price why tr lm = Inr st'"
    and p: "p \<in> set (proposals st)" "q_id p = k" "buys st k \<noteq> []" "n \<le> q_qty p - sold st k"
    and wf: "book_wf st"
  shows "book_wf st'"
proof -
  obtain f where st': "st' = st\<lparr>fills := fills st @ [f]\<rparr>" and f: "f_pid f = k" "f_side f = Sell"
    "f_qty f = n" "0 < n" "k \<in> q_id ` set (proposals st)"
    using fill by (auto simp: record_fill_def split: if_splits)
  have b: "buys st' j = buys st j" for j using f by (simp add: buys_def st')
  have s: "sold st' j = (if j = k then sold st j + n else sold st j)" for j
    using f by (simp add: sold_def st')
  have o: "filled_outcome st' j = filled_outcome st j" for j by (simp add: filled_outcome_def st')
  have fs: "fills st' = fills st @ [f]" by (simp add: st')
  have "fills_ok st' y" if y: "y \<in> set (proposals st)" for y
  proof -
    have ok: "fills_ok st y" using book_wfD(3) [OF wf y] by simp
    show ?thesis
    proof (cases "q_id y = k")
      case True
      then have "y = p" using y p sorted_ids_inj [of q_id "proposals st" y p] book_wfD(2) [OF wf] by simp
      then show ?thesis using ok p by (auto simp: fills_ok_def b s o split: list.splits)
    next
      case False
      then show ?thesis using ok f by (auto simp: fills_ok_def b s o fs split: list.splits)
    qed
  qed
  then show ?thesis using wf f by (auto simp: book_wf_def st' calls_wf_def)
qed

section \<open>The money of the book\<close>

lemma joined_fills_one:
  assumes "sorted_wrt (<) (map q_id ps)" and "p \<in> set ps"
  shows "filter (\<lambda>x. q_id x = q_id p) ps = [p]"
  using assms by (induction ps) (auto simp: filter_empty_conv)

text \<open>A fill moves the cash by its value and by nothing else.\<close>

lemma record_fill_cash:
  assumes "record_fill st (q_id p) t sd n price why tr lm = Inr st'" and "p \<in> set (proposals st)"
    and "book_wf st"
  shows "cash st' e = dadd (cash st e)
    (if sd = Sell then dmul (dmul price (of_int n)) (of_int (MULT (q_instr p)))
     else - dmul (dmul price (of_int n)) (of_int (MULT (q_instr p))))"
proof -
  obtain f where st': "st' = st\<lparr>fills := fills st @ [f]\<rparr>" and f: "f_pid f = q_id p" "f_side f = sd"
    "f_qty f = n" "f_price f = price"
    using assms(1) by (auto simp: record_fill_def split: if_splits)
  have "joined_fills st' = joined_fills st @ [(q_instr p, f)]"
    using joined_fills_one [OF book_wfD(2) [OF assms(3)] assms(2)] by (simp add: joined_fills_def st' f)
  then show ?thesis by (simp add: cash_def signed_value_def fill_value_def f)
qed

lemma dsum_foldl: "foldl dadd 0 xs = dsum xs"
  by (simp add: dsum_def)

text \<open>Valuation reads the calls and the marks only.\<close>

lemma holding_cong:
  assumes "calls st' = calls st" and "marks_tbl st' = marks_tbl st"
  shows "position_holding st' = position_holding st" "proposal_holding st' = proposal_holding st"
proof -
  have b: "bench_of st' = bench_of st" using assms by (simp add: fun_eq_iff bench_of_def get_call_def)
  show "position_holding st' = position_holding st"
    unfolding fun_eq_iff position_holding_def b current_call_id_cong [OF assms(1)] assms(2) by simp
  show "proposal_holding st' = proposal_holding st"
    unfolding fun_eq_iff proposal_holding_def b by simp
qed

lemma committed_create:
  assumes "create_proposal st k t i s u n m a = Inr (p, st')" and "book_wf st"
  shows "committed_proposals st' = committed_proposals st @ [p]" "open_positions st' = open_positions st"
    "position_holding st' = position_holding st" "proposal_holding st' = proposal_holding st"
    "cash st' e = cash st e" "paper_book st' = paper_book st"
proof -
  have st': "st' = st\<lparr>proposals := proposals st @ [p]\<rparr>" and p: "q_id p = next_id q_id (proposals st)"
    using assms(1) by (auto simp: create_proposal_def Let_def split: if_splits)
  have fresh: "q_id p \<notin> q_id ` set (proposals st)"
    using next_id_greater [of _ "proposals st" q_id] by (force simp: p)
  have nofill: "\<forall>f \<in> set (fills st). f_pid f \<noteq> q_id p" and noout: "\<not> has_outcome st (q_id p)"
    using book_wfD(4,5) [OF assms(2)] fresh unfolding has_outcome_def by (metis, auto)
  have same: "has_outcome st' j = has_outcome st j" "has_buy st' j = has_buy st j"
    "sold st' j = sold st j" for j by (simp_all add: has_outcome_def has_buy_def sold_def st')
  have pos: "position_of st' x = position_of st x" for x
    by (rule ext) (simp add: position_of_def same)
  show "committed_proposals st' = committed_proposals st @ [p]"
    using nofill noout by (auto simp: committed_proposals_def st' has_outcome_def has_buy_def list_ex_iff)
  show "open_positions st' = open_positions st"
    using nofill by (simp add: open_positions_def pos) (simp add: st' filter_False)
  show "position_holding st' = position_holding st" "proposal_holding st' = proposal_holding st"
    by (intro holding_cong; simp add: st')+
  have "filter (\<lambda>x. q_id x = f_pid f) (proposals st @ [p]) = filter (\<lambda>x. q_id x = f_pid f) (proposals st)"
    if "f \<in> set (fills st)" for f using nofill that by auto
  then have "joined_fills st' = joined_fills st"
    by (simp add: joined_fills_def st' cong: map_cong)
  then show "cash st' e = cash st e" by (simp add: cash_def)
  show "paper_book st' = paper_book st" by (simp add: st')
qed

text \<open>
  \<open>amounts_fit k c hs w\<close>: the cash \<open>c\<close>, the holdings and one more amount \<open>w\<close> have at most
  \<open>k\<close> decimals, holdings and \<open>w\<close> are not negative, and everything together fits 28 digits.
\<close>

definition amounts_fit :: "nat \<Rightarrow> dec \<Rightarrow> dec list \<Rightarrow> dec \<Rightarrow> bool" where
  "amounts_fit k c hs w \<longleftrightarrow> c * 10 ^ k \<in> \<int> \<and> 0 \<le> w \<and> w * 10 ^ k \<in> \<int> \<and>
     (\<forall>x \<in> set hs. 0 \<le> x \<and> x * 10 ^ k \<in> \<int>) \<and> fits k (\<bar>c\<bar> + sum_list hs + w)"

lemma grid_sum_list:
  fixes xs :: "rat list"
  shows "(\<And>x. x \<in> set xs \<Longrightarrow> x * 10 ^ k \<in> \<int>) \<Longrightarrow> sum_list xs * 10 ^ k \<in> \<int>"
  by (induction xs) (auto simp: algebra_simps)

text \<open>Then cash less commitments plus all holdings is exact.\<close>

lemma equity_exact:
  assumes "amounts_fit k c (hs @ ws) w"
  shows "dadd (dsub c (dsum ws)) (dsum (hs @ ws)) = c + sum_list hs"
    and "dsub c (dsum ws) = c - sum_list ws" and "dsum (hs @ ws) = sum_list (hs @ ws)"
proof -
  have nn: "\<And>x. x \<in> set hs \<union> set ws \<Longrightarrow> 0 \<le> x \<and> x * 10 ^ k \<in> \<int>" and c: "c * 10 ^ k \<in> \<int>"
    and w: "0 \<le> w" and F: "fits k (\<bar>c\<bar> + (sum_list hs + sum_list ws) + w)"
    using assms by (auto simp: amounts_fit_def add.assoc)
  have s: "0 \<le> sum_list hs" "0 \<le> sum_list ws" using nn by (auto intro!: sum_list_nonneg)
  have g: "sum_list hs * 10 ^ k \<in> \<int>" "sum_list ws * 10 ^ k \<in> \<int>" using nn by (auto intro!: grid_sum_list)
  have f: "fits k x" if "x * 10 ^ k \<in> \<int>" "\<bar>x\<bar> \<le> \<bar>c\<bar> + (sum_list hs + sum_list ws)" for x
    by (rule fits_mono_abs [OF F that(1)]) (use that(2) s w in linarith)
  have a: "dsum ws = sum_list ws" by (rule dsum_exact) (use nn g s in \<open>auto intro!: f\<close>)
  show b: "dsum (hs @ ws) = sum_list (hs @ ws)"
    by (rule dsum_exact) (use nn g s in \<open>auto intro!: f simp: algebra_simps\<close>)
  have "fits k (c - sum_list ws)" by (rule f) (use c g s in \<open>auto simp: algebra_simps\<close>)
  then show d: "dsub c (dsum ws) = c - sum_list ws" by (simp add: a dsub_def fits_exact)
  have "fits k (c + sum_list hs)" by (rule f) (use c g s in \<open>auto simp: algebra_simps\<close>)
  then show "dadd (dsub c (dsum ws)) (dsum (hs @ ws)) = c + sum_list hs"
    by (simp add: b d dadd_def fits_exact)
qed

lemma book_state_total:
  assumes "book_wf st" and "paper_book st = Some (d, e)"
  shows "\<exists>b. book_state st ex = Inr b"
proof -
  have "\<exists>h. position_holding st p = Inr h" for p
    using current_call_id_exists [OF book_wfD(1) [OF assms(1)], of "pp_call p"]
    by (auto simp: position_holding_def Let_def)
  then obtain g where "position_holding st p = Inr (g p)" for p by metis
  then have "map_e (position_holding st) (open_positions st) = Inr (map g (open_positions st))"
    by (intro map_e_total)
  then show ?thesis by (simp add: book_state_def assms(2) Let_def)
qed

lemma market_value_proposal_holding [simp]: "market_value (proposal_holding st q) = worst_case q"
  by (simp add: proposal_holding_def)

lemma map_market_value_proposal [simp]: "map (market_value \<circ> proposal_holding st) qs = map worst_case qs"
  by simp

text \<open>The snapshot with one proposal left out, spelled out.\<close>

lemma book_state_parts:
  assumes "book_state st ex = Inr b" and "paper_book st = Some (d, e)"
  shows "\<exists>hs. map_e (position_holding st) (open_positions st) = Inr hs \<and>
    (let qs = filter (\<lambda>q. Some (q_id q) \<noteq> ex) (committed_proposals st) in
     holdings b = hs @ map (proposal_holding st) qs \<and>
     book_cash b = dsub (cash st e) (dsum (map worst_case qs)) \<and>
     equity b = dadd (book_cash b) (dsum (map market_value (holdings b))))"
  using assms by (auto simp: book_state_def err Let_def dsum_foldl)

lemma commit_effect:
  assumes new: "create_proposal st k t i s u n m a = Inr (p, st')" and wf: "book_wf st"
    and b: "paper_book st = Some (d, e)" "book_state st None = Inr b"
    and fit: "amounts_fit j (cash st e) (map market_value (holdings b)) (worst_case p)"
  shows "\<exists>b'. book_state st' None = Inr b' \<and> equity b' = equity b \<and>
    book_cash b' = book_cash b - worst_case p \<and> holdings b' = holdings b @ [proposal_holding st p]"
proof -
  note c = committed_create [OF new wf]
  obtain hs where hs: "map_e (position_holding st) (open_positions st) = Inr hs"
    using b by (auto simp: book_state_def err)
  let ?qs = "committed_proposals st" and ?hv = "map market_value hs"
  let ?ws = "map worst_case (committed_proposals st)"
  have bb: "b = \<lparr>equity = dadd (dsub (cash st e) (dsum ?ws)) (dsum (?hv @ ?ws)),
      book_cash = dsub (cash st e) (dsum ?ws), holdings = hs @ map (proposal_holding st) ?qs\<rparr>"
    using b hs by (simp add: book_state_def dsum_foldl Let_def)
  define b' where "b' = \<lparr>equity = dadd (dsub (cash st e) (dsum (?ws @ [worst_case p])))
        (dsum (?hv @ ?ws @ [worst_case p])),
      book_cash = dsub (cash st e) (dsum (?ws @ [worst_case p])),
      holdings = hs @ map (proposal_holding st) ?qs @ [proposal_holding st p]\<rparr>"
  have new_state: "book_state st' None = Inr b'"
    using b hs c by (simp add: book_state_def b'_def dsum_foldl Let_def)
  have fit0: "amounts_fit j (cash st e) (?hv @ ?ws) (worst_case p)" using fit bb by simp
  have fit1: "amounts_fit j (cash st e) (?hv @ (?ws @ [worst_case p])) 0"
    using fit0 by (simp add: amounts_fit_def add_ac)
  have "equity b' = equity b" "book_cash b' = book_cash b - worst_case p"
    using equity_exact [OF fit0] equity_exact [OF fit1] by (simp_all add: bb b'_def)
  moreover have "holdings b' = holdings b @ [proposal_holding st p]" by (simp add: bb b'_def)
  ultimately show ?thesis using new_state by blast
qed

text \<open>The cash left after a commitment, or after an entry beside the other commitments, is exact.\<close>

lemma amounts_fit_spend:
  assumes "amounts_fit j c hs w"
  shows "dadd c (- w) = c - w" "amounts_fit j (c - w) hs 0"
proof -
  have s: "0 \<le> sum_list hs" using assms by (auto simp: amounts_fit_def intro!: sum_list_nonneg)
  have a: "fits j (\<bar>c\<bar> + sum_list hs + w)" "0 \<le> w" "c * 10 ^ j \<in> \<int>" "w * 10 ^ j \<in> \<int>" "sum_list hs * 10 ^ j \<in> \<int>"
    using assms by (auto simp: amounts_fit_def intro!: grid_sum_list)
  have g: "(c - w) * 10 ^ j \<in> \<int>" using a by (simp add: algebra_simps)
  have "fits j (c - w)" by (rule fits_mono_abs [OF a(1) g]) (use s a(2) in linarith)
  then show "dadd c (- w) = c - w" by (simp add: dadd_def fits_exact)
  have "\<bar>c - w\<bar> * 10 ^ j = \<bar>(c - w) * 10 ^ j\<bar>" by (simp add: abs_mult)
  then have "\<bar>c - w\<bar> * 10 ^ j \<in> \<int>" using g by simp
  then have "(\<bar>c - w\<bar> + sum_list hs) * 10 ^ j \<in> \<int>" using a(5) by (simp add: algebra_simps)
  then have "fits j (\<bar>c - w\<bar> + sum_list hs)" by (rule fits_mono_abs [OF a(1)]) (use s a(2) in linarith)
  then show "amounts_fit j (c - w) hs 0" using assms g by (simp add: amounts_fit_def)
qed

lemma excluded_cash_exact:
  assumes b: "book_state st ex = Inr b" "paper_book st = Some (d, e)"
    and fit: "amounts_fit j (cash st e) (map market_value (holdings b)) w"
  shows "dsub (book_cash b) w = book_cash b - w" "dsub (dadd (cash st e) (- w)) (dsum (map worst_case
    (filter (\<lambda>q. Some (q_id q) \<noteq> ex) (committed_proposals st)))) = book_cash b - w"
proof -
  let ?ws = "map worst_case (filter (\<lambda>q. Some (q_id q) \<noteq> ex) (committed_proposals st))"
  obtain hs where parts: "holdings b = hs @ map (proposal_holding st) (filter (\<lambda>q. Some (q_id q) \<noteq> ex) (committed_proposals st))"
    "book_cash b = dsub (cash st e) (dsum ?ws)"
    using book_state_parts [OF b] by (auto simp: Let_def)
  have f: "amounts_fit j (cash st e) (map market_value hs @ ?ws) w" using fit parts(1) by simp
  have c: "book_cash b = cash st e - sum_list ?ws" using equity_exact(2) [OF f] parts(2) by simp
  have s: "0 \<le> sum_list (map market_value hs)" "0 \<le> sum_list ?ws" "0 \<le> w"
    using f by (auto simp: amounts_fit_def intro!: sum_list_nonneg)
  have "fits j (cash st e - sum_list ?ws - w)"
  proof (rule fits_mono_abs)
    show "fits j (\<bar>cash st e\<bar> + sum_list (map market_value hs @ ?ws) + w)" using f by (simp add: amounts_fit_def)
    have "sum_list ?ws * 10 ^ j \<in> \<int>" using f by (intro grid_sum_list) (auto simp: amounts_fit_def)
    then show "(cash st e - sum_list ?ws - w) * 10 ^ j \<in> \<int>" using f by (simp add: amounts_fit_def algebra_simps)
    show "\<bar>cash st e - sum_list ?ws - w\<bar> \<le> \<bar>\<bar>cash st e\<bar> + sum_list (map market_value hs @ ?ws) + w\<bar>" using s by simp
  qed
  then show "dsub (book_cash b) w = book_cash b - w" by (simp add: c dsub_def fits_exact)
  show "dsub (dadd (cash st e) (- w)) (dsum ?ws) = book_cash b - w"
    using equity_exact(2) [OF amounts_fit_spend(2) [OF f]] amounts_fit_spend(1) [OF f] by (simp add: c)
qed

lemmas commit_cash_exact = excluded_cash_exact(1) [where ex = None]

text \<open>A new proposal does not move the book's equity: it takes its worst-case cost off
  the cash and appears as a pending holding worth exactly that much, so every later sizing in
  the same run sees the money as spent and the return of the book does not change.\<close>

theorem commitment_neutral:
  assumes new: "create_proposal st k t i s u n m a = Inr (p, st')" and wf: "book_wf st"
    and b: "paper_book st = Some (d, e)" "book_state st None = Inr b"
    and fit: "amounts_fit j (cash st e) (map market_value (holdings b)) (worst_case p)"
  shows "\<exists>b'. book_state st' None = Inr b' \<and> equity b' = equity b \<and>
    book_cash b' = book_cash b - worst_case p \<and> holdings b' = holdings b @ [proposal_holding st p]"
  by (rule commit_effect [OF assms])

text \<open>An entry turns the proposal's commitment into a fill: what is left committed is the
  rest, and the cash has fallen by the price paid.\<close>

lemma entry_cash:
  assumes fill: "record_fill st (q_id p) t Buy (q_qty p) price why tr lm = Inr st1"
    and out: "record_outcome st1 (q_id p) t' Filled v a = Inr st2"
    and p: "p \<in> set (committed_proposals st)" and wf: "book_wf st"
  shows "committed_proposals st2 = filter (\<lambda>q. Some (q_id q) \<noteq> Some (q_id p)) (committed_proposals st)"
    and "cash st2 e = dadd (cash st e) (- dmul (dmul price (of_int (q_qty p))) (of_int (MULT (q_instr p))))"
    and "paper_book st2 = paper_book st"
proof -
  obtain f x where st2: "st2 = st\<lparr>fills := fills st @ [f], outcomes := outcomes st @ [x]\<rparr>"
    and f: "f_pid f = q_id p" "f_side f = Buy" and x: "o_pid x = q_id p"
    using fill out by (auto simp: record_fill_def record_outcome_def split: if_splits)
  have p': "p \<in> set (proposals st)" using p by (simp add: committed_facts)
  have "has_outcome st2 k \<longleftrightarrow> k = q_id p \<or> has_outcome st k" "has_buy st2 k \<longleftrightarrow> k = q_id p \<or> has_buy st k" for k
    using f x by (auto simp: has_outcome_def has_buy_def st2 list_ex_iff)
  then show "committed_proposals st2 = filter (\<lambda>q. Some (q_id q) \<noteq> Some (q_id p)) (committed_proposals st)"
    by (simp add: committed_proposals_def) (auto simp: st2 intro!: filter_cong)
  have "cash st2 e = cash st1 e"
    using out by (auto simp: record_outcome_def cash_def joined_fills_def split: if_splits)
  then show "cash st2 e = dadd (cash st e) (- dmul (dmul price (of_int (q_qty p))) (of_int (MULT (q_instr p))))"
    using record_fill_cash [OF fill p' wf] by simp
  show "paper_book st2 = paper_book st" by (simp add: st2)
qed

text \<open>A started book with one call and no positions, for examples.\<close>

definition sample_desk :: desk where
  "sample_desk = empty_desk\<lparr>calls := [sample_call 1 None], paper_book := Some (739870, 10000)\<rparr>"

lemma sample_desk_wf: "book_wf sample_desk"
  by (simp add: book_wf_def calls_wf_def sample_desk_def empty_desk_def sample_call_def)

lemma sample_desk_state:
  "book_state sample_desk None = Inr \<lparr>equity = 10000, book_cash = 10000, holdings = []\<rparr>"
  by (simp add: book_state_def sample_desk_def empty_desk_def open_positions_def committed_proposals_def
      cash_def joined_fills_def dec_eval)

theorem commitment_neutral_witness:
  "\<exists>p st' b'. create_proposal sample_desk 1 0 Shares ''MSFT'' ''MSFT'' 10 51 (Some 2) = Inr (p, st') \<and>
     book_state st' None = Inr b' \<and> equity b' = 10000 \<and> book_cash b' = 10000 - 510"
proof -
  obtain p st' where new: "create_proposal sample_desk 1 0 Shares ''MSFT'' ''MSFT'' 10 51 (Some 2) = Inr (p, st')"
    and p: "q_max_entry p = 51" "q_qty p = 10" "q_instr p = Shares"
    by (auto simp: create_proposal_def sample_desk_def sample_call_def Let_def)
  have w: "worst_case p = 510" by (simp add: worst_case_def p dec_eval)
  have c: "cash sample_desk 10000 = 10000" by (simp add: cash_def joined_fills_def sample_desk_def empty_desk_def)
  have "amounts_fit 0 (cash sample_desk 10000) (map market_value (holdings
      \<lparr>equity = 10000, book_cash = 10000, holdings = []\<rparr>)) (worst_case p)"
    by (simp add: amounts_fit_def w c fits_def)
  from commitment_neutral [OF new sample_desk_wf _ sample_desk_state this, of 739870] new w
  show ?thesis by (auto simp: sample_desk_def)
qed

end
