(* ===== verification/TC_Pitches.thy ===== *)
theory TC_Pitches
  imports TC_Store TC_Sizing
begin

text \<open>
  Pitches (tc/desk/pitches.py): an analyst's dated prediction, its validation, the per-run
  cap, the session its reference price comes from, and its withdrawal. The trading calendar
  (\<open>is_trading_day\<close>) is the function argument the source takes. \<open>now\<close> is the engine's UTC
  clock, an instant; stored timestamps are UTC text of one spelling, whose text order is the
  order of the instants.
\<close>

section \<open>tc/config.py DeskConfig, tc/desk/models.py\<close>

record desk_config =
  etf_list :: "string list"
  context_symbols :: "string list"
  checkpoint_date :: date
  entry_window_start :: time
  entry_window_end :: time
  bars_universe_size :: nat
  bars_history_days :: int

definition BENCHMARKS :: "string list" where
  "BENCHMARKS = [''SPY'', ''XLB'', ''XLC'', ''XLE'', ''XLF'', ''XLI'', ''XLK'', ''XLP'', ''XLRE'',
     ''XLU'', ''XLV'', ''XLY'']"

definition ANALYSTS :: "analyst list" where
  "ANALYSTS = [Technical, Earnings, News, Macro]"

section \<open>tc/desk/pitches.py\<close>

definition SESSION_OPEN :: time where "SESSION_OPEN = hm 9 30"
definition SESSION_CLOSE :: time where "SESSION_CLOSE = hm 16 0"

record evidence_item =
  e_url :: string
  e_claim :: string
  e_date :: string

record pitch_in =
  i_symbol :: string
  i_direction :: direction
  i_thesis :: string
  i_evidence :: "evidence_item list"
  i_target :: string
  i_inval :: string
  i_horizon :: int
  i_conviction :: int
  i_bench :: string

text \<open>The field constraints of \<open>EvidenceItem\<close> and \<open>PitchIn\<close>.\<close>

definition iso_shape :: "string \<Rightarrow> bool" where
  "iso_shape s \<longleftrightarrow> length s = 10 \<and> s ! 4 = CHR ''-'' \<and> s ! 7 = CHR ''-'' \<and>
     list_all (\<lambda>i. is_digit (s ! i)) [0, 1, 2, 3, 5, 6, 8, 9]"

definition evidence_item_ok :: "evidence_item \<Rightarrow> bool" where
  "evidence_item_ok e \<longleftrightarrow> 8 \<le> length (e_url e) \<and> length (e_url e) \<le> 500 \<and>
     3 \<le> length (e_claim e) \<and> length (e_claim e) \<le> 300 \<and> iso_shape (e_date e)"

definition pitch_in_ok :: "pitch_in \<Rightarrow> bool" where
  "pitch_in_ok i \<longleftrightarrow> 1 \<le> length (i_symbol i) \<and> length (i_symbol i) \<le> 10 \<and>
     10 \<le> length (i_thesis i) \<and> length (i_thesis i) \<le> 400 \<and>
     1 \<le> length (i_evidence i) \<and> length (i_evidence i) \<le> 5 \<and> list_all evidence_item_ok (i_evidence i) \<and>
     1 \<le> i_conviction i \<and> i_conviction i \<le> 5"

definition parse_price :: "string \<Rightarrow> exn + dec" where
  "parse_price value =
     (case parse_decimal (strip value) of
        None \<Rightarrow> Inl (PitchRefused NotADecimal)
      | Some (PFin d) \<Rightarrow> if d \<le> 0 then Inl (PitchRefused NotPositiveFinite) else Inr d
      | Some _ \<Rightarrow> Inl (PitchRefused NotPositiveFinite))"

definition level_distance :: "dec \<Rightarrow> dec \<Rightarrow> exn + dec" where
  "level_distance level last_px = bind_e (ddiv \<bar>dsub level last_px\<bar> last_px) (\<lambda>x. Inr (dmul x 100))"

definition check_levels :: "direction \<Rightarrow> dec \<Rightarrow> dec \<Rightarrow> dec \<Rightarrow> rules \<Rightarrow> exn + unit" where
  "check_levels direction last_px target invalidation r =
     bind_e (raise_if (direction = Up \<and> \<not> (target > last_px \<and> last_px > invalidation)) (PitchRefused UpLevels)) (\<lambda>_.
     bind_e (raise_if (direction = Down \<and> \<not> (target < last_px \<and> last_px < invalidation)) (PitchRefused DownLevels)) (\<lambda>_.
     bind_e (rules_get r ''strategy'' ''pitch_level_max_distance_pct'') (\<lambda>max_dist.
     fold_e (\<lambda>level _. bind_e (level_distance level last_px) (\<lambda>x.
        raise_if (x > max_dist) (PitchRefused LevelTooFar))) [target, invalidation] ())))"

definition check_horizon :: "int \<Rightarrow> rules \<Rightarrow> exn + unit" where
  "check_horizon h r =
     bind_e (rules_int r ''strategy'' ''pitch_horizon_min_days'') (\<lambda>lo.
     bind_e (rules_int r ''strategy'' ''pitch_horizon_max_days'') (\<lambda>hi.
     raise_if (\<not> (lo \<le> h \<and> h \<le> hi)) (PitchRefused BadHorizon)))"

definition check_benchmark :: "string \<Rightarrow> exn + string" where
  "check_benchmark b =
     (let up = upper (strip b) in
      if up \<notin> set BENCHMARKS then Inl (PitchRefused BadBenchmark) else Inr up)"

text \<open>The \<open>while not is_trading_day(d)\<close> loop: \<open>None\<close> when it never ends.\<close>

partial_function (option) next_session :: "(date \<Rightarrow> bool) \<Rightarrow> date \<Rightarrow> date option" where
  [code]: "next_session td d = (if td d then Some d else next_session td (d + 1))"

definition reference_session :: "zone \<Rightarrow> instant \<Rightarrow> (date \<Rightarrow> bool) \<Rightarrow> exn + date" where
  "reference_session z filed_at td =
     (let d = et_date z filed_at in
      if et_time z filed_at < SESSION_OPEN \<and> td d then Inr d
      else the_or Diverges (next_session td (d + 1)))"

datatype run_mode = Evening | Preopen

definition run_window :: "zone \<Rightarrow> instant \<Rightarrow> exn + instant \<times> run_mode" where
  "run_window z filed_at =
     (let d = et_date z filed_at in
      if et_time z filed_at \<ge> SESSION_CLOSE
      then Inr (instant_of z (et_dt (combine d SESSION_CLOSE)), Evening)
      else if et_time z filed_at < SESSION_OPEN
      then Inr (instant_of z (et_dt (combine d 0)), Preopen)
      else Inl (PitchRefused FiledInSession))"

definition tradeable_symbols :: "desk \<Rightarrow> desk_config \<Rightarrow> string set" where
  "tradeable_symbols st cfg = set (map fst (qualified_symbols st)) \<union> set (etf_list cfg)"

definition last_close :: "desk \<Rightarrow> string \<Rightarrow> dec option" where
  "last_close st symbol =
     (let bs = bars_for st symbol None (Some 1) in if bs = [] then None else Some (b_close (last bs)))"

definition withdrawn :: "desk \<Rightarrow> int \<Rightarrow> bool" where
  "withdrawn st k \<longleftrightarrow> k \<in> fst ` set (withdrawals st)"

definition get_pitch :: "desk \<Rightarrow> int \<Rightarrow> (pitch \<times> bool) option" where
  "get_pitch st k = map_option (\<lambda>p. (p, withdrawn st k)) (find (\<lambda>p. p_id p = k) (pitches st))"

definition pitch_resolved :: "desk \<Rightarrow> int \<Rightarrow> bool" where
  "pitch_resolved st k \<longleftrightarrow> list_ex (\<lambda>r. r_kind r = KPitch \<and> r_item r = k) (resolutions st)"

definition open_pitches :: "desk \<Rightarrow> pitch list" where
  "open_pitches st =
     filter (\<lambda>p. \<not> withdrawn st (p_id p) \<and> \<not> pitch_resolved st (p_id p)) (pitches st)"

text \<open>The pitches an analyst has filed since the start of the run.\<close>

definition filed_since :: "desk \<Rightarrow> analyst \<Rightarrow> instant \<Rightarrow> int" where
  "filed_since st a start = int (length (filter (\<lambda>p. p_analyst p = a \<and> p_filed_at p \<ge> start) (pitches st)))"

definition run_cap :: "run_mode \<Rightarrow> rules \<Rightarrow> exn + int" where
  "run_cap mode r = rules_int r ''strategy''
     (case mode of Evening \<Rightarrow> ''desk_max_pitches_per_analyst_run'' | Preopen \<Rightarrow> ''desk_preopen_max_new_pitches'')"

definition duplicate_of :: "desk \<Rightarrow> analyst \<Rightarrow> string \<Rightarrow> direction \<Rightarrow> pitch option" where
  "duplicate_of st a symbol dir =
     find (\<lambda>p. p_analyst p = a \<and> p_symbol p = symbol \<and> p_direction p = dir) (open_pitches st)"

definition submit_pitch ::
  "zone \<Rightarrow> desk \<Rightarrow> analyst \<Rightarrow> pitch_in \<Rightarrow> instant \<Rightarrow> dec \<Rightarrow> string set \<Rightarrow> rules \<Rightarrow> (date \<Rightarrow> bool) \<Rightarrow>
   exn + pitch \<times> desk" where
  "submit_pitch z st a pin now last_px tradeable r td =
     (let symbol = upper (strip (i_symbol pin)) in
      bind_e (raise_if (symbol \<notin> tradeable) (PitchRefused NotTradeable)) (\<lambda>_.
      bind_e (check_benchmark (i_bench pin)) (\<lambda>benchmark.
      bind_e (check_horizon (i_horizon pin) r) (\<lambda>_.
      bind_e (parse_price (i_target pin)) (\<lambda>target.
      bind_e (parse_price (i_inval pin)) (\<lambda>invalidation.
      bind_e (check_levels (i_direction pin) last_px target invalidation r) (\<lambda>_.
      bind_e (run_window z now) (\<lambda>(start, mode).
      bind_e (run_cap mode r) (\<lambda>cap.
      bind_e (raise_if (filed_since st a start \<ge> cap) (PitchRefused RunLimitSpent)) (\<lambda>_.
      bind_e (raise_if (duplicate_of st a symbol (i_direction pin) \<noteq> None) (PitchRefused DuplicatePitch)) (\<lambda>_.
      bind_e (reference_session z now td) (\<lambda>session.
      let p = \<lparr>p_id = next_id p_id (pitches st), p_analyst = a, p_filed_at = now, p_session = session,
               p_symbol = symbol, p_direction = i_direction pin, p_thesis = i_thesis pin,
               p_evidence = map (\<lambda>e. (e_url e, e_claim e, e_date e)) (i_evidence pin), p_target = target,
               p_inval = invalidation, p_horizon = i_horizon pin, p_conviction = i_conviction pin,
               p_bench = benchmark\<rparr> in
      if 1 \<le> i_conviction pin \<and> i_conviction pin \<le> 5
      then Inr (p, st\<lparr>pitches := pitches st @ [p]\<rparr>) else Inl IntegrityError))))))))))))"

definition withdraw_pitch :: "zone \<Rightarrow> desk \<Rightarrow> analyst \<Rightarrow> int \<Rightarrow> instant \<Rightarrow> exn + desk" where
  "withdraw_pitch z st a k now =
     (case get_pitch st k of
        None \<Rightarrow> Inl (PitchRefused NoOpenPitch)
      | Some (p, w) \<Rightarrow>
          if p_analyst p \<noteq> a \<or> w then Inl (PitchRefused NoOpenPitch)
          else if now \<ge> instant_of z (et_dt (combine (p_session p) SESSION_OPEN))
          then Inl (PitchRefused SessionOpened)
          else Inr (st\<lparr>withdrawals := withdrawals st @ [(k, now)]\<rparr>))"

section \<open>The reference session\<close>

lemma next_session_Some:
  assumes "next_session td d = Some s"
  shows "d \<le> s \<and> td s \<and> (\<forall>x. d \<le> x \<and> x < s \<longrightarrow> \<not> td x)"
proof (rule next_session.raw_induct [OF _ assms])
  fix rec and td' :: "date \<Rightarrow> bool" and d' s' :: date
  assume ih: "\<And>td d s. rec td d = Some s \<Longrightarrow> d \<le> s \<and> td s \<and> (\<forall>x. d \<le> x \<and> x < s \<longrightarrow> \<not> td x)"
    and step: "(if td' d' then Some d' else rec td' (d' + 1)) = Some s'"
  show "d' \<le> s' \<and> td' s' \<and> (\<forall>x. d' \<le> x \<and> x < s' \<longrightarrow> \<not> td' x)"
  proof (cases "td' d'")
    case False
    with step ih [of td' "d' + 1" s'] have r: "d' + 1 \<le> s' \<and> td' s' \<and> (\<forall>x. d' + 1 \<le> x \<and> x < s' \<longrightarrow> \<not> td' x)" by simp
    have "\<not> td' x" if "d' \<le> x" "x < s'" for x using that r False by (cases "x = d'") auto
    with r show ?thesis by simp
  qed (use step in auto)
qed

lemma next_session_exists:
  "td (d + int n) \<Longrightarrow> \<exists>s. next_session td d = Some s"
proof (induction n arbitrary: d)
  case (Suc n)
  then have "td (d + 1 + int n)" by (simp add: add_ac)
  from Suc.IH [OF this] show ?case by (subst next_session.simps) auto
qed (subst next_session.simps, simp)

text \<open>As long as the calendar has a trading day after the filing, the reference session
  is found, and it is the first trading day whose 09:30 open comes after the filing: the
  filing day itself only when it is a trading day and the filing came before its open. No pitch is scored
  against a print that had already happened when it was filed.\<close>

theorem reference_session_spec:
  assumes "td d'" and "et_date z now < d'"
  shows "\<exists>s. reference_session z now td = Inr s \<and> td s \<and> et_wall z now < combine s SESSION_OPEN \<and>
    (\<forall>x. td x \<longrightarrow> et_wall z now < combine x SESSION_OPEN \<longrightarrow> s \<le> x)"
proof -
  define d t where "d = et_date z now" and "t = et_time z now"
  have w: "et_wall z now = combine d t" "0 \<le> t" "t < DAY_US"
    using time_of_bounds by (simp_all add: d_def t_def et_date_def et_time_def)
  have later: "combine d t < combine x SESSION_OPEN \<longleftrightarrow> d < x \<or> (d = x \<and> t < SESSION_OPEN)" for x
    using w(2,3) unfolding combine_def SESSION_OPEN_def us_defs by (cases "d < x"; cases "d = x") auto
  show ?thesis
  proof (cases "t < SESSION_OPEN \<and> td d")
    case True
    then show ?thesis unfolding w(1)
      by (auto simp: reference_session_def Let_def later simp flip: d_def t_def)
  next
    case False
    have "td (d + 1 + int (nat (d' - d - 1)))" using assms by (simp add: d_def)
    then obtain s where s: "next_session td (d + 1) = Some s" using next_session_exists by blast
    note spec = next_session_Some [OF s]
    have "s \<le> x" if "td x" "d < x \<or> (d = x \<and> t < SESSION_OPEN)" for x
      using that spec False by (smt (verit))
    then show ?thesis using False s spec unfolding w(1)
      by (auto simp: reference_session_def Let_def later simp flip: d_def t_def)
  qed
qed

text \<open>Weekdays only, filed on Friday 2026-09-11 at noon UTC with the ET offset at minus four hours.\<close>

definition edt :: zone where "edt = \<lparr>utc_off = (\<lambda>_. - us_of_min 240), wall_off = (\<lambda>_. - us_of_min 240)\<rparr>"

theorem reference_session_spec_witness:
  "reference_session edt (combine 739870 (hm 12 0)) (\<lambda>d. weekday d < 5) = Inr 739870 \<and>
   reference_session edt (combine 739870 (hm 14 0)) (\<lambda>d. weekday d < 5) = Inr 739873 \<and>
   (\<exists>s. reference_session edt (combine 739870 (hm 14 0)) (\<lambda>d. weekday d < 5) = Inr s \<and> weekday s < 5)"
proof -
  have "weekday 739873 < 5" "et_date edt (combine 739870 (hm 14 0)) < 739873" by code_simp+
  from reference_session_spec [of "\<lambda>d. weekday d < 5", OF this] show ?thesis
    by (auto simp: reference_session_def et_date_def et_time_def et_wall_def edt_def us_defs combine_def
        date_of_def time_of_def SESSION_OPEN_def weekday_def next_session.simps)
qed

section \<open>Pitch tables\<close>

definition pitch_key :: "pitch \<Rightarrow> analyst \<times> string \<times> direction" where
  "pitch_key p = (p_analyst p, p_symbol p, p_direction p)"

text \<open>Ids grow, withdrawals and pitch resolutions name a pitch, one open pitch per key.\<close>

definition pitches_wf :: "desk \<Rightarrow> bool" where
  "pitches_wf st \<longleftrightarrow> sorted_wrt (<) (map p_id (pitches st)) \<and>
     fst ` set (withdrawals st) \<subseteq> p_id ` set (pitches st) \<and>
     (\<forall>x \<in> set (resolutions st). r_kind x = KPitch \<longrightarrow> r_item x \<in> p_id ` set (pitches st)) \<and>
     distinct (map pitch_key (open_pitches st))"

lemma pitches_wf_empty: "pitches_wf empty_desk"
  by (simp add: pitches_wf_def empty_desk_def open_pitches_def)

lemma open_pitches_snoc:
  assumes "pitches_wf st" and "\<forall>x \<in> set (pitches st). p_id x < p_id p"
  shows "open_pitches (st\<lparr>pitches := pitches st @ [p]\<rparr>) = open_pitches st @ [p]"
proof -
  have "p_id p \<notin> p_id ` set (pitches st)" using assms(2) by force
  then have "\<not> withdrawn st (p_id p)" "\<not> pitch_resolved st (p_id p)"
    using assms(1) unfolding pitches_wf_def withdrawn_def pitch_resolved_def list_ex_iff
    by (blast, metis)
  then show ?thesis by (auto simp: open_pitches_def withdrawn_def pitch_resolved_def)
qed

text \<open>The facts an accepted pitch comes with.\<close>

lemma submit_pitch_facts:
  assumes "submit_pitch z st a pin now last_px tradeable r td = Inr (p, st')"
  shows "st' = st\<lparr>pitches := pitches st @ [p]\<rparr>" "p_id p = next_id p_id (pitches st)"
    "p_analyst p = a" "p_symbol p = upper (strip (i_symbol pin))" "p_symbol p \<in> tradeable"
    "p_direction p = i_direction pin" "p_filed_at p = now"
    "duplicate_of st a (p_symbol p) (p_direction p) = None"
    "check_levels (p_direction p) last_px (p_target p) (p_inval p) r = Inr ()"
    "\<exists>start mode cap. run_window z now = Inr (start, mode) \<and> run_cap mode r = Inr cap \<and>
       filed_since st a start < cap"
    "reference_session z now td = Inr (p_session p)" "check_horizon (p_horizon p) r = Inr ()"
  using assms by (auto simp: submit_pitch_def Let_def err split: if_splits)

lemma submit_pitch_wf:
  assumes "submit_pitch z st a pin now last_px tradeable r td = Inr (p, st')" and wf: "pitches_wf st"
  shows "pitches_wf st'"
proof -
  note f = submit_pitch_facts [OF assms(1)]
  have less: "\<forall>x \<in> set (pitches st). p_id x < p_id p" using next_id_greater [of _ "pitches st" p_id] f(2) by auto
  have "pitch_key p \<notin> pitch_key ` set (open_pitches st)"
    using f(8) by (auto simp: duplicate_of_def find_None pitch_key_def f(3))
  then show ?thesis
    using wf less open_pitches_snoc [OF wf less] by (auto simp: pitches_wf_def f(1) sorted_wrt_append)
qed

lemma withdraw_pitch_facts:
  assumes "withdraw_pitch z st a k now = Inr st'"
  shows "\<exists>p. find (\<lambda>p. p_id p = k) (pitches st) = Some p \<and> p_analyst p = a \<and> \<not> withdrawn st k \<and>
    now < instant_of z (et_dt (combine (p_session p) SESSION_OPEN)) \<and>
    st' = st\<lparr>withdrawals := withdrawals st @ [(k, now)]\<rparr>"
  using assms by (auto simp: withdraw_pitch_def get_pitch_def split: option.splits if_splits)

text \<open>A filter of the open pitches keeps the key distinct.\<close>

lemma distinct_map_filter_mono:
  "distinct (map f (filter P xs)) \<Longrightarrow> (\<And>x. Q x \<Longrightarrow> P x) \<Longrightarrow> distinct (map f (filter Q xs))"
  by (induction xs) (auto split: if_splits)

lemma withdraw_pitch_wf:
  assumes "withdraw_pitch z st a k now = Inr st'" and "pitches_wf st"
  shows "pitches_wf st'"
proof -
  obtain p where p: "find (\<lambda>p. p_id p = k) (pitches st) = Some p"
    and st': "st' = st\<lparr>withdrawals := withdrawals st @ [(k, now)]\<rparr>"
    using withdraw_pitch_facts [OF assms(1)] by auto
  have "k \<in> p_id ` set (pitches st)" using find_Some_in [OF p] by auto
  moreover have "distinct (map pitch_key (open_pitches st'))"
    using assms(2) unfolding pitches_wf_def open_pitches_def st'
    by (auto simp: withdrawn_def pitch_resolved_def elim!: distinct_map_filter_mono)
  ultimately show ?thesis using assms(2) by (auto simp: pitches_wf_def st')
qed

text \<open>An accepted pitch is appended and changes nothing else; its levels bracket the
  last price on the sides its direction needs, no level is further than the rules allow, the
  horizon is in range, the run's cap is still respected with it counted in, and it is the
  only open pitch of that analyst on that symbol and direction.\<close>

theorem submit_pitch_sound:
  assumes ok: "submit_pitch z st a pin now last_px tradeable r td = Inr (p, st')"
    and wf: "pitches_wf st"
    and win: "run_window z now = Inr (start, mode)" "run_cap mode r = Inr cap" "start \<le> now"
    and hor: "rules_int r ''strategy'' ''pitch_horizon_min_days'' = Inr lo"
      "rules_int r ''strategy'' ''pitch_horizon_max_days'' = Inr hi"
    and dist: "rules_get r ''strategy'' ''pitch_level_max_distance_pct'' = Inr m"
  shows "pitches st' = pitches st @ [p] \<and> filed_since st' a start \<le> cap \<and>
    filter (\<lambda>x. pitch_key x = pitch_key p) (open_pitches st') = [p] \<and>
    (p_direction p = Up \<longrightarrow> p_inval p < last_px \<and> last_px < p_target p) \<and>
    (p_direction p = Down \<longrightarrow> p_target p < last_px \<and> last_px < p_inval p) \<and>
    (\<exists>x \<le> m. level_distance (p_target p) last_px = Inr x) \<and>
    (\<exists>x \<le> m. level_distance (p_inval p) last_px = Inr x) \<and> lo \<le> p_horizon p \<and> p_horizon p \<le> hi"
proof -
  note f = submit_pitch_facts [OF ok]
  have less: "\<forall>x \<in> set (pitches st). p_id x < p_id p" using next_id_greater [of _ "pitches st" p_id] f(2) by auto
  have cap: "filed_since st a start < cap" using f(10) win by auto
  have "filed_since st' a start = filed_since st a start + 1"
    using f(3,7) win(3) by (simp add: filed_since_def f(1))
  moreover have "filter (\<lambda>x. pitch_key x = pitch_key p) (open_pitches st) = []"
    using f(8) by (auto simp: duplicate_of_def find_None pitch_key_def f(3) filter_empty_conv)
  ultimately show ?thesis
    using cap f(9,12) hor dist open_pitches_snoc [OF wf less]
    by (auto simp: f(1) check_levels_def check_horizon_def err not_less)
qed

definition sample_pitch_in :: pitch_in where
  "sample_pitch_in = \<lparr>i_symbol = ''msft'', i_direction = Up, i_thesis = ''a long enough thesis'',
     i_evidence = [\<lparr>e_url = ''https://x'', e_claim = ''abc'', e_date = ''2026-09-10''\<rparr>],
     i_target = ''54.50'', i_inval = ''48'', i_horizon = 5, i_conviction = 4, i_bench = ''xlk''\<rparr>"

lemma rules_yml_pitches [simp]:
  "rules_int rules_yml ''strategy'' ''pitch_horizon_min_days'' = Inr 2"
  "rules_int rules_yml ''strategy'' ''pitch_horizon_max_days'' = Inr 20"
  "rules_get rules_yml ''strategy'' ''pitch_level_max_distance_pct'' = Inr 30"
  "rules_int rules_yml ''strategy'' ''desk_max_pitches_per_analyst_run'' = Inr 5"
  "rules_int rules_yml ''strategy'' ''desk_preopen_max_new_pitches'' = Inr 2"
  by (simp_all add: rules_defs rules_yml_def int_of_dec_def)

lemma sample_text:
  "upper (strip ''msft'') = ''MSFT''" "check_benchmark ''xlk'' = Inr ''XLK''"
  "parse_price ''54.50'' = Inr (109 / 2)" "parse_price ''48'' = Inr 48"
  by code_simp+

lemma sample_submit:
  "\<exists>p. submit_pitch edt empty_desk Technical sample_pitch_in (combine 739870 (hm 12 0)) 50 {''MSFT''} rules_yml
        (\<lambda>d. weekday d < 5) = Inr (p, empty_desk\<lparr>pitches := [p]\<rparr>) \<and> p_horizon p = 5"
  by (simp add: submit_pitch_def sample_pitch_in_def sample_text check_horizon_def check_levels_def
      level_distance_def run_window_def et_date_def et_time_def et_wall_def edt_def us_defs combine_def
      date_of_def time_of_def SESSION_OPEN_def SESSION_CLOSE_def run_cap_def filed_since_def empty_desk_def
      duplicate_of_def open_pitches_def reference_session_def weekday_def dec_eval
      cong: bind_e_weak_cong let_weak_cong)

theorem submit_pitch_sound_witness:
  "\<exists>p. submit_pitch edt empty_desk Technical sample_pitch_in (combine 739870 (hm 12 0)) 50 {''MSFT''} rules_yml
        (\<lambda>d. weekday d < 5) = Inr (p, empty_desk\<lparr>pitches := [p]\<rparr>) \<and>
     filed_since (empty_desk\<lparr>pitches := [p]\<rparr>) Technical (instant_of edt (et_dt (combine 739870 0))) \<le> 2"
proof -
  let ?now = "combine 739870 (hm 12 0)"
  obtain p where p: "submit_pitch edt empty_desk Technical sample_pitch_in ?now 50 {''MSFT''} rules_yml
        (\<lambda>d. weekday d < 5) = Inr (p, empty_desk\<lparr>pitches := [p]\<rparr>)" using sample_submit by blast
  have w: "run_window edt ?now = Inr (instant_of edt (et_dt (combine 739870 0)), Preopen)"
    "instant_of edt (et_dt (combine 739870 0)) \<le> ?now"
    by (simp_all add: run_window_def et_date_def et_time_def et_wall_def edt_def us_defs combine_def
        date_of_def time_of_def SESSION_OPEN_def SESSION_CLOSE_def Let_def instant_of_def utcoffset_def et_dt_def)
  have c: "run_cap Preopen rules_yml = Inr 2" by (simp add: run_cap_def)
  show ?thesis
    using submit_pitch_sound [OF p pitches_wf_empty w(1) c w(2)] p by auto
qed

end
