(* ===== verification/TC_Scoring.thy ===== *)
theory TC_Scoring
  imports TC_Pitches
begin

text \<open>
  Scoring (tc/desk/scoring.py): every pitch and call resolves once, from stored daily bars.
  \<open>bar_on\<close> is the lookup in the dict the source builds from a series (a later bar of the
  same date replaces an earlier one). \<open>day_hit\<close> is the body of the loop over sessions: what
  one session's bar decides, or nothing.
\<close>

section \<open>tc/desk/scoring.py\<close>

definition STUCK_AFTER_SESSIONS :: int where "STUCK_AFTER_SESSIONS = 3"

definition excess_spy :: "resolution \<Rightarrow> dec" where
  "excess_spy r = dsub (r_ret r) (r_spy_ret r)"

definition excess_bench :: "resolution \<Rightarrow> dec" where
  "excess_bench r = dsub (r_ret r) (r_bench_ret r)"

definition hit :: "resolution \<Rightarrow> bool" where
  "hit r \<longleftrightarrow> r_how r = HTarget \<or> r_how r = HGapTarget"

record item =
  it_kind :: item_kind
  it_id :: int
  it_symbol :: string
  it_direction :: direction
  it_target :: dec
  it_inval :: dec
  it_horizon :: int
  it_bench :: string
  it_session :: date
  it_ref :: "dec option"
  it_spy_ref :: "dec option"
  it_bench_ref :: "dec option"

definition move :: "dec \<Rightarrow> dec \<Rightarrow> exn + dec" where
  "move frm to = bind_e (ddiv (dsub to frm) frm) (\<lambda>x. Inr (dmul x HUNDRED))"

definition bar_on :: "daily_bar list \<Rightarrow> date \<Rightarrow> daily_bar option" where
  "bar_on bs d = find (\<lambda>b. b_date b = d) (rev bs)"

text \<open>\<open>xs[:n]\<close>; a negative \<open>n\<close> drops from the end.\<close>

definition py_take :: "int \<Rightarrow> 'a list \<Rightarrow> 'a list" where
  "py_take n xs = (if 0 \<le> n then take (nat n) xs else take (length xs - nat (- n)) xs)"

definition through_target :: "item \<Rightarrow> dec \<Rightarrow> bool" where
  "through_target it p = (if it_direction it = Up then p \<ge> it_target it else p \<le> it_target it)"

definition through_inval :: "item \<Rightarrow> dec \<Rightarrow> bool" where
  "through_inval it p = (if it_direction it = Up then p \<le> it_inval it else p \<ge> it_inval it)"

definition inval_hit :: "item \<Rightarrow> daily_bar \<Rightarrow> bool" where
  "inval_hit it b = (if it_direction it = Up then b_low b \<le> it_inval it else b_high b \<ge> it_inval it)"

definition target_hit :: "item \<Rightarrow> daily_bar \<Rightarrow> bool" where
  "target_hit it b = (if it_direction it = Up then b_high b \<ge> it_target it else b_low b \<le> it_target it)"

text \<open>How, at which price, and whether at the open; \<open>k\<close> counts sessions from 1.\<close>

definition day_hit :: "item \<Rightarrow> int \<Rightarrow> daily_bar \<Rightarrow> (how \<times> dec \<times> bool) option" where
  "day_hit it k b =
     (if k = 1 \<and> it_ref it = None \<and> (through_target it (b_open b) \<or> through_inval it (b_open b))
      then Some (HOpenThrough, b_open b, True)
      else if k > 1 \<and> through_target it (b_open b) then Some (HGapTarget, b_open b, True)
      else if k > 1 \<and> through_inval it (b_open b) then Some (HGapInvalidation, b_open b, True)
      else if (k > 1 \<or> it_ref it = None) \<and> inval_hit it b then Some (HInvalidation, it_inval it, False)
      else if (k > 1 \<or> it_ref it = None) \<and> target_hit it b then Some (HTarget, it_target it, False)
      else if k = it_horizon it then Some (HHorizon, b_close b, False)
      else None)"

definition resolve_done ::
  "item \<Rightarrow> date \<Rightarrow> dec \<Rightarrow> dec \<Rightarrow> dec \<Rightarrow> (date \<Rightarrow> daily_bar option) \<Rightarrow> (date \<Rightarrow> daily_bar option) \<Rightarrow>
   date \<Rightarrow> how \<Rightarrow> dec \<Rightarrow> bool \<Rightarrow> exn + resolution option" where
  "resolve_done it start ref spy_ref bench_ref spy_by bench_by day h exit_price at_open =
     (case (spy_by day, bench_by day) of
        (Some s, Some bb) \<Rightarrow>
          (let up = (it_direction it = Up) in
           bind_e (move ref exit_price) (\<lambda>ret.
           bind_e (move bench_ref (if at_open then b_open bb else b_close bb)) (\<lambda>bench_move.
           bind_e (move spy_ref (if at_open then b_open s else b_close s)) (\<lambda>spy_move.
           Inr (Some \<lparr>r_kind = it_kind it, r_item = it_id it, r_ref_date = start, r_ref_price = ref,
                r_resolved_on = day, r_how = h, r_exit = exit_price,
                r_ret = (if up then ret else - ret), r_spy_ret = spy_move,
                r_bench_ret = (if up then bench_move else - bench_move)\<rparr>)))))
      | _ \<Rightarrow> Inr None)"

fun resolve_loop ::
  "item \<Rightarrow> (date \<Rightarrow> daily_bar option) \<Rightarrow> (date \<Rightarrow> how \<Rightarrow> dec \<Rightarrow> bool \<Rightarrow> exn + resolution option) \<Rightarrow>
   int \<Rightarrow> date list \<Rightarrow> exn + resolution option" where
  "resolve_loop it on dn k [] = Inr None"
| "resolve_loop it on dn k (day # days) =
     (case on day of
        None \<Rightarrow> Inr None
      | Some b \<Rightarrow> (case day_hit it k b of
            Some (h, x, at_open) \<Rightarrow> dn day h x at_open
          | None \<Rightarrow> resolve_loop it on dn (k + 1) days))"

definition sessions_from :: "daily_bar list \<Rightarrow> date \<Rightarrow> date list" where
  "sessions_from spy d = map b_date (filter (\<lambda>b. b_date b \<ge> d) spy)"

definition item_refs :: "item \<Rightarrow> daily_bar \<Rightarrow> daily_bar option \<Rightarrow> daily_bar \<Rightarrow> exn + dec \<times> dec \<times> dec" where
  "item_refs it first s bfirst =
     (case it_ref it of
        None \<Rightarrow> bind_e (the_or (KeyError ''SPY'') s) (\<lambda>s'. Inr (b_open first, b_open s', b_open bfirst))
      | Some ref \<Rightarrow> (case (it_spy_ref it, it_bench_ref it) of
            (Some s', Some b') \<Rightarrow> Inr (ref, s', b') | _ \<Rightarrow> Inl AssertionError))"

definition resolve ::
  "item \<Rightarrow> daily_bar list \<Rightarrow> daily_bar list \<Rightarrow> daily_bar list \<Rightarrow> exn + resolution option" where
  "resolve it bs spy bench =
     (case sessions_from spy (it_session it) of
        [] \<Rightarrow> Inr None
      | start # rest \<Rightarrow>
          (case (bar_on bs start, bar_on bench start) of
             (Some first, Some bfirst) \<Rightarrow>
               bind_e (item_refs it first (bar_on spy start) bfirst) (\<lambda>(ref, spy_ref, bench_ref).
               resolve_loop it (bar_on bs)
                 (resolve_done it start ref spy_ref bench_ref (bar_on spy) (bar_on bench)) 1
                 (py_take (it_horizon it) (start # rest)))
           | _ \<Rightarrow> Inr None))"

fun index_of :: "'a \<Rightarrow> 'a list \<Rightarrow> int" where
  "index_of x [] = 0"
| "index_of x (y # ys) = (if x = y then 0 else 1 + index_of x ys)"

definition missing_bar :: "item \<Rightarrow> daily_bar list \<Rightarrow> daily_bar list \<Rightarrow> bool" where
  "missing_bar it bs spy =
     (let have_days = map b_date bs; days = py_take (it_horizon it) (sessions_from spy (it_session it));
          all_days = map b_date spy in
      list_ex (\<lambda>d. d \<notin> set have_days \<and>
         int (length all_days) - 1 - index_of d all_days \<ge> STUCK_AFTER_SESSIONS) days)"

record score_report =
  sr_resolved :: "resolution list"
  sr_stuck :: "(item_kind \<times> int \<times> string) list"

definition pitch_item :: "pitch \<Rightarrow> item" where
  "pitch_item p = \<lparr>it_kind = KPitch, it_id = p_id p, it_symbol = p_symbol p, it_direction = p_direction p,
     it_target = p_target p, it_inval = p_inval p, it_horizon = p_horizon p, it_bench = p_bench p,
     it_session = p_session p, it_ref = None, it_spy_ref = None, it_bench_ref = None\<rparr>"

definition call_item :: "call_row \<Rightarrow> item" where
  "call_item c = \<lparr>it_kind = KCall, it_id = c_id c, it_symbol = c_symbol c, it_direction = c_direction c,
     it_target = c_target c, it_inval = c_inval c, it_horizon = c_horizon c, it_bench = c_bench c,
     it_session = c_session c, it_ref = Some (c_ref_price c), it_spy_ref = Some (c_spy_ref c),
     it_bench_ref = Some (c_bench_ref c)\<rparr>"

definition call_resolved :: "desk \<Rightarrow> int \<Rightarrow> bool" where
  "call_resolved st k \<longleftrightarrow> list_ex (\<lambda>r. r_kind r = KCall \<and> r_item r = k) (resolutions st)"

definition load_open_items :: "desk \<Rightarrow> item list" where
  "load_open_items st = map pitch_item (open_pitches st) @
     map call_item (filter (\<lambda>c. \<not> call_resolved st (c_id c)) (calls st))"

definition insert_resolution :: "desk \<Rightarrow> resolution \<Rightarrow> bool \<times> desk" where
  "insert_resolution st r =
     (if list_ex (\<lambda>x. r_kind x = r_kind r \<and> r_item x = r_item r) (resolutions st) then (False, st)
      else (True, st\<lparr>resolutions := resolutions st @ [r]\<rparr>))"

text \<open>
  One item of the loop of \<open>score\<close>. The source caches the series it reads; nothing it does
  changes the bars, so each read is \<open>bars_for\<close>.
\<close>

definition score_item ::
  "date \<Rightarrow> item \<Rightarrow> score_report \<times> desk \<Rightarrow> exn + score_report \<times> desk" where
  "score_item earliest it = (\<lambda>(rep, st).
     let series = (\<lambda>s. bars_for st s (Some earliest) None);
         bs = series (it_symbol it); spy = series ''SPY'' in
     bind_e (resolve it bs spy (series (it_bench it))) (\<lambda>x.
     case x of
       None \<Rightarrow> Inr (if missing_bar it bs spy
                    then rep\<lparr>sr_stuck := sr_stuck rep @ [(it_kind it, it_id it, it_symbol it)]\<rparr> else rep, st)
     | Some r \<Rightarrow> (case insert_resolution st r of
           (True, st') \<Rightarrow> Inr (rep\<lparr>sr_resolved := sr_resolved rep @ [r]\<rparr>, st')
         | (False, st') \<Rightarrow> Inr (rep, st'))))"

definition score :: "desk \<Rightarrow> exn + score_report \<times> desk" where
  "score st =
     (let items = load_open_items st; rep = \<lparr>sr_resolved = [], sr_stuck = []\<rparr> in
      if items = [] then Inr (rep, st)
      else fold_e (score_item (Min (set (map it_session items)))) items (rep, st))"

text \<open>A resolution that raises ends the pass; the resolutions inserted before it stay.\<close>

definition score_left :: "desk \<Rightarrow> desk" where
  "score_left st =
     (let items = load_open_items st in
      snd (fold_kept (score_item (Min (set (map it_session items)))) (\<lambda>_ s. s) items (\<lparr>sr_resolved = [], sr_stuck = []\<rparr>, st)))"

record resolved_row =
  rr_res :: resolution
  rr_analyst :: "analyst option"
  rr_origin :: "origin option"
  rr_conviction :: int

text \<open>
  \<open>resolved_rows\<close>: the resolutions joined with their pitch or call. A resolution without
  either has a NULL conviction, and \<open>int(None)\<close> raises \<open>TypeError\<close>.
\<close>

definition resolved_rows :: "desk \<Rightarrow> exn + resolved_row list" where
  "resolved_rows st =
     map_e (\<lambda>r.
       case (if r_kind r = KPitch then find (\<lambda>p. p_id p = r_item r) (pitches st) else None,
             if r_kind r = KCall then get_call st (r_item r) else None) of
         (Some p, c) \<Rightarrow> Inr \<lparr>rr_res = r, rr_analyst = Some (p_analyst p), rr_origin = map_option c_origin c,
                            rr_conviction = p_conviction p\<rparr>
       | (None, Some c) \<Rightarrow> Inr \<lparr>rr_res = r, rr_analyst = None, rr_origin = Some (c_origin c),
                              rr_conviction = c_conviction c\<rparr>
       | (None, None) \<Rightarrow> Inl TypeError) (resolutions st)"

record record_row =
  rec_symbol :: string
  rec_direction :: direction
  rec_resolved_on :: date
  rec_how :: how
  rec_ret :: dec
  rec_excess :: dec

definition analyst_record :: "desk \<Rightarrow> analyst \<Rightarrow> nat \<Rightarrow> exn + record_row list" where
  "analyst_record st a lmt =
     (let rows = concat (map (\<lambda>r. map (\<lambda>p. (r, p))
                   (filter (\<lambda>p. r_kind r = KPitch \<and> p_id p = r_item r \<and> p_analyst p = a) (pitches st)))
                   (resolutions st));
          sorted = take lmt (rev (sort_key (\<lambda>(r, p). r_resolved_on r) rows)) in
      map_e (\<lambda>(r, p).
        bind_e (quantize half_even 2 (r_ret r)) (\<lambda>ret.
        bind_e (quantize half_even 2 (excess_spy r)) (\<lambda>ex.
        Inr \<lparr>rec_symbol = p_symbol p, rec_direction = p_direction p, rec_resolved_on = r_resolved_on r,
             rec_how = r_how r, rec_ret = ret, rec_excess = ex\<rparr>))) sorted)"

section \<open>What a resolution depends on\<close>

lemma resolve_loop_cong:
  "(\<And>d. d \<in> set days \<Longrightarrow> on' d = on d \<and> dn' d = dn d) \<Longrightarrow>
   resolve_loop it on' dn' k days = resolve_loop it on dn k days"
  by (induction days arbitrary: k) (auto split: option.split)

lemma set_py_take: "set (py_take n xs) \<subseteq> set xs"
  by (auto simp: py_take_def dest: in_set_takeD)

lemma sessions_from_ge: "d \<in> set (sessions_from spy s) \<Longrightarrow> s \<le> d"
  by (auto simp: sessions_from_def)

lemma bar_on_filter: "P d \<Longrightarrow> bar_on (filter (\<lambda>b. P (b_date b)) bs) d = bar_on bs d"
proof -
  assume "P d"
  have "find (\<lambda>b. b_date b = d) (filter (\<lambda>b. P (b_date b)) xs) = find (\<lambda>b. b_date b = d) xs" for xs
    by (induction xs) (use \<open>P d\<close> in auto)
  then show ?thesis by (simp add: bar_on_def rev_filter)
qed

lemma resolve_done_cong:
  assumes "spy' d = spy d" and "bench' d = bench d"
  shows "resolve_done it s x y u spy' bench' d = resolve_done it s x y u spy bench d"
  unfolding fun_eq_iff resolve_done_def assms by simp

text \<open>Series with the same sessions from the item's start on, that agree on the bars of those
  sessions, resolve the item alike.\<close>

lemma resolve_cong:
  assumes days: "sessions_from spy' (it_session it) = sessions_from spy (it_session it)"
    and on: "\<And>d. it_session it \<le> d \<Longrightarrow> bar_on bs' d = bar_on bs d \<and> bar_on spy' d = bar_on spy d \<and>
      bar_on bench' d = bar_on bench d"
  shows "resolve it bs' spy' bench' = resolve it bs spy bench"
proof (cases "sessions_from spy (it_session it)")
  case (Cons start rest)
  have ge: "it_session it \<le> d" if "d \<in> set (start # rest)" for d
    using that sessions_from_ge [of d spy "it_session it"] by (simp add: Cons)
  have "resolve_loop it (bar_on bs') (resolve_done it start x y u (bar_on spy') (bar_on bench')) 1
          (py_take (it_horizon it) (start # rest)) =
        resolve_loop it (bar_on bs) (resolve_done it start x y u (bar_on spy) (bar_on bench)) 1
          (py_take (it_horizon it) (start # rest))" for x y u
  proof (rule resolve_loop_cong)
    fix d assume "d \<in> set (py_take (it_horizon it) (start # rest))"
    then have "it_session it \<le> d" by (intro ge) (rule subsetD [OF set_py_take])
    from on [OF this] show "bar_on bs' d = bar_on bs d \<and>
        resolve_done it start x y u (bar_on spy') (bar_on bench') d =
        resolve_done it start x y u (bar_on spy) (bar_on bench) d"
      by (intro conjI resolve_done_cong) auto
  qed
  moreover have "it_session it \<le> start" using ge by simp
  ultimately show ?thesis
    unfolding resolve_def days Cons list.case using on [of start]
    by (auto split: option.split intro: arg_cong)
qed (simp add: resolve_def days)

lemma resolve_since:
  assumes "e \<le> it_session it"
  shows "resolve it (filter (\<lambda>b. e \<le> b_date b) bs) (filter (\<lambda>b. e \<le> b_date b) spy)
           (filter (\<lambda>b. e \<le> b_date b) bench) = resolve it bs spy bench"
proof (rule resolve_cong)
  show "sessions_from (filter (\<lambda>b. e \<le> b_date b) spy) (it_session it) = sessions_from spy (it_session it)"
    using assms unfolding sessions_from_def filter_filter by (intro arg_cong [of _ _ "map b_date"] filter_cong) auto
qed (use assms bar_on_filter [of "\<lambda>d. e \<le> d"] in auto)

lemma bars_for_since:
  "bars_for st s (Some e) None = filter (\<lambda>b. e \<le> b_date b) (bars_for st s None None)"
proof -
  have "filter (\<lambda>b. e \<le> b_date b) (sort_key b_date xs) = sort_key b_date (filter (\<lambda>b. e \<le> b_date b) xs)"
    for xs :: "daily_bar list"
    by (rule filter_sort)
  moreover have "map snd (filter (\<lambda>(s', b). s' = s \<and> e \<le> b_date b) rows) =
      filter (\<lambda>b. e \<le> b_date b) (map snd (filter (\<lambda>(s', b). s' = s) rows))" for rows :: "(string \<times> daily_bar) list"
    by (induction rows) auto
  ultimately show ?thesis unfolding bars_for_def Let_def option.case by simp
qed

text \<open>The reference: an item scored against the whole stored history.\<close>

definition resolve_stored :: "desk \<Rightarrow> item \<Rightarrow> exn + resolution option" where
  "resolve_stored st it = resolve it (bars_for st (it_symbol it) None None) (bars_for st ''SPY'' None None)
     (bars_for st (it_bench it) None None)"

lemma resolve_stored_since:
  "e \<le> it_session it \<Longrightarrow>
   resolve it (bars_for st (it_symbol it) (Some e) None) (bars_for st ''SPY'' (Some e) None)
     (bars_for st (it_bench it) (Some e) None) = resolve_stored st it"
  by (simp add: resolve_stored_def bars_for_since resolve_since)

section \<open>Resolutions are written once\<close>

definition res_key :: "resolution \<Rightarrow> item_kind \<times> int" where
  "res_key r = (r_kind r, r_item r)"

definition item_key :: "item \<Rightarrow> item_kind \<times> int" where
  "item_key it = (it_kind it, it_id it)"

lemma resolve_loop_key:
  assumes "resolve_loop it on (resolve_done it s x y u v w) k days = Inr (Some r)"
  shows "res_key r = item_key it \<and> r_resolved_on r \<in> set days"
  using assms by (induction it on "resolve_done it s x y u v w" k days rule: resolve_loop.induct)
    (auto simp: resolve_done_def res_key_def item_key_def err Let_def split: option.splits)

lemma resolve_key: "resolve it bs spy bench = Inr (Some r) \<Longrightarrow> res_key r = item_key it"
  by (auto simp: resolve_def err split: list.splits option.splits prod.splits dest!: resolve_loop_key)

lemma insert_resolution_iff:
  "insert_resolution st r = (if res_key r \<in> res_key ` set (resolutions st) then (False, st)
     else (True, st\<lparr>resolutions := resolutions st @ [r]\<rparr>))"
proof -
  have "list_ex (\<lambda>x. r_kind x = r_kind r \<and> r_item x = r_item r) xs \<longleftrightarrow> res_key r \<in> res_key ` set xs" for xs
    by (induction xs) (auto simp: res_key_def)
  then show ?thesis by (simp add: insert_resolution_def)
qed

text \<open>The reference of a scoring pass: what each open item resolves to, in order.\<close>

definition new_resolutions :: "desk \<Rightarrow> item list \<Rightarrow> resolution list" where
  "new_resolutions st its =
     List.map_filter (\<lambda>it. case resolve_stored st it of Inr x \<Rightarrow> x | Inl _ \<Rightarrow> None) its"

lemma bars_for_resolutions [simp]: "bars_for (st\<lparr>resolutions := R\<rparr>) = bars_for st"
  by (simp add: fun_eq_iff bars_for_def)

lemma resolve_stored_resolutions [simp]: "resolve_stored (st\<lparr>resolutions := R\<rparr>) it = resolve_stored st it"
  by (simp add: resolve_stored_def)

lemma new_resolutions_resolutions [simp]: "new_resolutions (st\<lparr>resolutions := R\<rparr>) its = new_resolutions st its"
  by (simp add: new_resolutions_def)

lemma new_resolutions_Nil [simp]: "new_resolutions st [] = []"
  by (simp add: new_resolutions_def List.map_filter_def)

lemma score_item_eq:
  assumes "e \<le> it_session it" and "item_key it \<notin> res_key ` set (resolutions st)"
    and "score_item e it (rep, st) = Inr (rep', st')"
  shows "sr_resolved rep' = sr_resolved rep @ new_resolutions st [it] \<and>
    st' = st\<lparr>resolutions := resolutions st @ new_resolutions st [it]\<rparr> \<and>
    res_key ` set (new_resolutions st [it]) \<subseteq> {item_key it} \<and> (\<exists>x. resolve_stored st it = Inr x)"
proof -
  obtain x where x: "resolve_stored st it = Inr x"
    using assms(3) by (auto simp: score_item_def Let_def resolve_stored_since [OF assms(1)] err)
  show ?thesis
  proof (cases x)
    case (Some r)
    have "res_key r = item_key it" using x Some by (auto simp: resolve_stored_def dest: resolve_key)
    with assms(2,3) x Some show ?thesis
      by (auto simp: score_item_def Let_def resolve_stored_since [OF assms(1)] insert_resolution_iff
          new_resolutions_def List.map_filter_def)
  next
    case None
    with assms(3) x show ?thesis
      by (auto simp: score_item_def Let_def resolve_stored_since [OF assms(1)] new_resolutions_def
          List.map_filter_def)
  qed
qed

lemma new_resolutions_Cons: "new_resolutions st (it # its) = new_resolutions st [it] @ new_resolutions st its"
  by (simp add: new_resolutions_def List.map_filter_def)

lemma score_fold_eq:
  assumes "fold_e (score_item e) its (rep, st) = Inr (rep', st')" and "\<forall>it \<in> set its. e \<le> it_session it"
    and "distinct (map item_key its)" and "item_key ` set its \<inter> res_key ` set (resolutions st) = {}"
  shows "sr_resolved rep' = sr_resolved rep @ new_resolutions st its \<and>
    st' = st\<lparr>resolutions := resolutions st @ new_resolutions st its\<rparr> \<and>
    (\<forall>it \<in> set its. \<exists>x. resolve_stored st it = Inr x)"
  using assms
proof (induction its arbitrary: rep st)
  case (Cons it its)
  from Cons.prems(1) obtain rep1 st1 where s: "score_item e it (rep, st) = Inr (rep1, st1)"
    "fold_e (score_item e) its (rep1, st1) = Inr (rep', st')" by (auto simp: err)
  have one: "sr_resolved rep1 = sr_resolved rep @ new_resolutions st [it]"
    "st1 = st\<lparr>resolutions := resolutions st @ new_resolutions st [it]\<rparr>"
    "res_key ` set (new_resolutions st [it]) \<subseteq> {item_key it}" "\<exists>x. resolve_stored st it = Inr x"
    using score_item_eq [OF _ _ s(1)] Cons.prems by auto
  have "item_key ` set its \<inter> res_key ` set (resolutions st1) = {}"
    using Cons.prems(3,4) one(3) by (auto simp: one(2))
  then have "sr_resolved rep' = sr_resolved rep1 @ new_resolutions st1 its \<and>
      st' = st1\<lparr>resolutions := resolutions st1 @ new_resolutions st1 its\<rparr> \<and>
      (\<forall>it \<in> set its. \<exists>x. resolve_stored st1 it = Inr x)"
    using Cons.prems by (intro Cons.IH [OF s(2)]) auto
  then show ?case using one(4) by (simp add: one(1,2) new_resolutions_Cons [of st it its])
qed simp

lemma distinct_map_key:
  fixes g :: "'a \<Rightarrow> int"
  assumes "sorted_wrt (<) (map g xs)" and "\<And>x y. f x = f y \<Longrightarrow> g x = g y"
  shows "distinct (map f (filter P xs))"
  using assms(1)
proof (induction xs)
  case (Cons x xs)
  have "f x \<noteq> f y" if "y \<in> set xs" for y
  proof
    assume "f x = f y"
    then have "g x = g y" by (rule assms(2))
    then show False using Cons.prems that by auto
  qed
  then show ?case using Cons by auto
qed simp

lemma load_open_items_keys:
  assumes "pitches_wf st" and "calls_wf st"
  shows "distinct (map item_key (load_open_items st))"
    and "item_key ` set (load_open_items st) \<inter> res_key ` set (resolutions st) = {}"
proof -
  have "distinct (map (\<lambda>p. item_key (pitch_item p)) (open_pitches st))"
    using assms(1) unfolding open_pitches_def pitches_wf_def
    by (intro distinct_map_key [where g = p_id]) (auto simp: item_key_def pitch_item_def)
  moreover have "distinct (map (\<lambda>c. item_key (call_item c)) (filter (\<lambda>c. \<not> call_resolved st (c_id c)) (calls st)))"
    using assms(2) unfolding calls_wf_def
    by (intro distinct_map_key [where g = c_id]) (auto simp: item_key_def call_item_def)
  moreover have "item_key (pitch_item p) \<noteq> item_key (call_item c)" for p c
    by (simp add: item_key_def pitch_item_def call_item_def)
  then have "(\<lambda>p. item_key (pitch_item p)) ` A \<inter> (\<lambda>c. item_key (call_item c)) ` B = {}" for A B by blast
  ultimately show "distinct (map item_key (load_open_items st))"
    by (simp add: load_open_items_def comp_def image_comp)
  show "item_key ` set (load_open_items st) \<inter> res_key ` set (resolutions st) = {}"
    by (auto simp: load_open_items_def item_key_def res_key_def pitch_item_def call_item_def open_pitches_def
        pitch_resolved_def call_resolved_def list_ex_iff)
qed

lemma score_eq:
  assumes "score st = Inr (rep, st')" and "pitches_wf st" and "calls_wf st"
  shows "sr_resolved rep = new_resolutions st (load_open_items st) \<and>
    st' = st\<lparr>resolutions := resolutions st @ new_resolutions st (load_open_items st)\<rparr> \<and>
    (\<forall>it \<in> set (load_open_items st). \<exists>x. resolve_stored st it = Inr x)"
proof (cases "load_open_items st = []")
  case True
  then show ?thesis using assms(1) by (auto simp: score_def)
next
  case False
  have "\<forall>it \<in> set (load_open_items st). Min (set (map it_session (load_open_items st))) \<le> it_session it"
    by simp
  from score_fold_eq [OF _ this load_open_items_keys [OF assms(2,3)]] assms(1) False
  show ?thesis by (simp add: score_def Let_def)
qed

lemma score_left_eq:
  assumes "score st = Inl e" and "pitches_wf st" and "calls_wf st"
  shows "\<exists>its. prefix its (load_open_items st) \<and> score_left st = st\<lparr>resolutions := resolutions st @ new_resolutions st its\<rparr>"
proof -
  let ?items = "load_open_items st" and ?rep = "\<lparr>sr_resolved = [], sr_stuck = []\<rparr>"
  let ?m = "Min (set (map it_session ?items))"
  have "fold_e (score_item ?m) ?items (?rep, st) = Inl e"
    using assms(1) by (auto simp: score_def Let_def split: if_splits)
  then obtain ys x zs t where s: "?items = ys @ x # zs" "fold_e (score_item ?m) ys (?rep, st) = Inr t"
    "fold_kept (score_item ?m) (\<lambda>_ s. s) ?items (?rep, st) = t"
    by (rule fold_kept_split [where k = "\<lambda>_ s. s"])
  obtain rep' st' where t: "t = (rep', st')" by force
  have keys: "distinct (map item_key ys)" "item_key ` set ys \<inter> res_key ` set (resolutions st) = {}"
    using load_open_items_keys [OF assms(2,3)] unfolding s(1) by auto
  have "\<forall>it \<in> set ?items. ?m \<le> it_session it" by simp
  then have "\<forall>it \<in> set ys. ?m \<le> it_session it" using s(1) by (metis Un_iff set_append)
  from score_fold_eq [OF s(2) [unfolded t] this keys]
  have "st' = st\<lparr>resolutions := resolutions st @ new_resolutions st ys\<rparr>" by simp
  moreover have "score_left st = st'" unfolding score_left_def Let_def s(3) t by simp
  moreover have "prefix ys ?items" unfolding s(1) by simp
  ultimately show ?thesis by blast
qed

lemma resolved_keys:
  "pitch_resolved st k \<longleftrightarrow> (KPitch, k) \<in> res_key ` set (resolutions st)"
  "call_resolved st k \<longleftrightarrow> (KCall, k) \<in> res_key ` set (resolutions st)"
  unfolding pitch_resolved_def call_resolved_def list_ex_iff res_key_def image_iff prod.inject by metis+

lemma open_pitches_resolutions:
  "open_pitches (st\<lparr>resolutions := resolutions st @ R\<rparr>) =
     filter (\<lambda>p. (KPitch, p_id p) \<notin> res_key ` set R) (open_pitches st)"
  unfolding open_pitches_def filter_filter
  by (auto simp: withdrawn_def resolved_keys image_Un intro!: filter_cong)

lemma load_open_items_resolutions:
  "load_open_items (st\<lparr>resolutions := resolutions st @ R\<rparr>) =
     filter (\<lambda>it. item_key it \<notin> res_key ` set R) (load_open_items st)"
  by (simp add: load_open_items_def open_pitches_resolutions filter_map comp_def resolved_keys image_Un)
    (auto simp: item_key_def pitch_item_def call_item_def intro!: filter_cong)

lemma new_resolutions_in:
  "r \<in> set (new_resolutions st its) \<longleftrightarrow> (\<exists>it \<in> set its. resolve_stored st it = Inr (Some r))"
proof (induction its)
  case (Cons it its)
  have "r \<in> set (new_resolutions st [it]) \<longleftrightarrow> resolve_stored st it = Inr (Some r)"
    by (auto simp: new_resolutions_def List.map_filter_def split: sum.splits option.splits)
  with Cons show ?case by (simp add: new_resolutions_Cons [of st it its])
qed simp

lemma new_resolutions_distinct:
  assumes "distinct (map item_key its)"
  shows "distinct (map res_key (new_resolutions st its))"
  using assms
proof (induction its)
  case (Cons it its)
  have k: "res_key r = item_key i" if "resolve_stored st i = Inr (Some r)" for r i
    using that by (auto simp: resolve_stored_def dest: resolve_key)
  have "set (new_resolutions st [it]) \<subseteq> {r. resolve_stored st it = Inr (Some r)}" "length (new_resolutions st [it]) \<le> 1"
    by (auto simp: new_resolutions_def List.map_filter_def split: sum.splits option.splits)
  then have "res_key ` set (new_resolutions st [it]) \<subseteq> {item_key it}" "distinct (map res_key (new_resolutions st [it]))"
    using k by (auto simp: le_Suc_eq length_Suc_conv)
  moreover have "res_key ` set (new_resolutions st its) \<subseteq> item_key ` set its"
    using k by (force simp: new_resolutions_in)
  moreover have "item_key it \<notin> item_key ` set its" using Cons.prems by simp
  ultimately have "res_key ` set (new_resolutions st [it]) \<inter> res_key ` set (new_resolutions st its) = {}"
    "distinct (map res_key (new_resolutions st [it]))" by (metis disjoint_singleton)+
  then show ?case using Cons by (simp add: new_resolutions_Cons [of st it its])
qed simp

text \<open>C16: a scoring pass only appends resolutions: exactly one for every open pitch and call
  whose stored bars settle it, equal to what \<open>resolve\<close> computes over the whole stored
  history, never a second one for an item; and a second pass over the same bars changes
  nothing.\<close>

theorem score_once:
  assumes run: "score st = Inr (rep, st')" and wf: "pitches_wf st" "calls_wf st"
    and uniq: "distinct (map res_key (resolutions st))"
  shows "st' = st\<lparr>resolutions := resolutions st @ sr_resolved rep\<rparr> \<and>
    distinct (map res_key (resolutions st')) \<and>
    set (sr_resolved rep) = {r. \<exists>it \<in> set (load_open_items st). resolve_stored st it = Inr (Some r)} \<and>
    (\<exists>rep'. score st' = Inr (rep', st') \<and> sr_resolved rep' = [])"
proof -
  note e = score_eq [OF run wf]
  let ?its = "load_open_items st" and ?R = "new_resolutions st (load_open_items st)"
  have keys: "distinct (map item_key ?its)" "item_key ` set ?its \<inter> res_key ` set (resolutions st) = {}"
    using load_open_items_keys [OF wf] by auto
  have rk: "res_key ` set ?R \<subseteq> item_key ` set ?its"
    by (auto simp: new_resolutions_in resolve_stored_def dest!: resolve_key)
  have left: "load_open_items st' = filter (\<lambda>it. item_key it \<notin> res_key ` set ?R) ?its"
    using e load_open_items_resolutions by simp
  have none: "resolve_stored st it = Inr None" if it: "it \<in> set (load_open_items st')" for it
  proof -
    have i: "it \<in> set ?its" "item_key it \<notin> res_key ` set ?R" using it by (auto simp: left)
    then obtain x where x: "resolve_stored st it = Inr x" using e by blast
    have "x = None"
    proof (cases x)
      case (Some r)
      then have "r \<in> set ?R" "res_key r = item_key it"
        using x i(1) by (auto simp: new_resolutions_in resolve_stored_def dest: resolve_key)
      then show ?thesis using i(2) by force
    qed
    with x show ?thesis by simp
  qed
  have again: "\<exists>rep'. fold_e (score_item m) its (rp, st') = Inr (rep', st') \<and> sr_resolved rep' = sr_resolved rp"
    if "set its \<subseteq> set (load_open_items st')" "\<forall>it \<in> set its. m \<le> it_session it" for m its rp
    using that
  proof (induction its arbitrary: rp)
    case (Cons it its)
    have "resolve_stored st' it = Inr None" using none Cons.prems(1) e by simp
    then obtain rp' where "score_item m it (rp, st') = Inr (rp', st')" "sr_resolved rp' = sr_resolved rp"
      using Cons.prems(2) by (simp add: score_item_def Let_def resolve_stored_since)
    with Cons show ?case by fastforce
  qed simp
  have "\<exists>rep'. score st' = Inr (rep', st') \<and> sr_resolved rep' = []"
    using again [OF order.refl, of "Min (set (map it_session (load_open_items st')))" "\<lparr>sr_resolved = [], sr_stuck = []\<rparr>"]
    by (simp add: score_def Let_def)
  moreover have "distinct (map res_key (resolutions st @ ?R))"
  proof -
    have "res_key ` set (resolutions st) \<inter> res_key ` set ?R = {}" using keys(2) rk by blast
    then show ?thesis using uniq new_resolutions_distinct [OF keys(1)] by simp
  qed
  ultimately show ?thesis using e by (auto simp: new_resolutions_in)
qed

section \<open>No look-ahead\<close>

text \<open>A series as it was known at the close of day \<open>d\<close>.\<close>

definition known_at :: "date \<Rightarrow> daily_bar list \<Rightarrow> daily_bar list" where
  "known_at d bs = filter (\<lambda>b. b_date b \<le> d) bs"

lemma filter_le_sorted:
  "sorted_wrt (<) xs \<Longrightarrow> filter (\<lambda>x. x \<le> d) xs = takeWhile (\<lambda>x. x \<le> (d :: int)) xs"
proof (induction xs)
  case (Cons x xs)
  show ?case
  proof (cases "x \<le> d")
    case False
    with Cons.prems have "\<forall>y \<in> set xs. \<not> y \<le> d" by auto
    with False show ?thesis by (simp add: filter_False)
  qed (use Cons in simp)
qed simp

lemma sessions_from_known:
  assumes "sorted_wrt (<) (map b_date spy)"
  shows "sessions_from (known_at d spy) s = takeWhile (\<lambda>x. x \<le> d) (sessions_from spy s)"
    and "sorted_wrt (<) (sessions_from spy s)"
proof -
  have m: "sessions_from spy s = filter (\<lambda>x. s \<le> x) (map b_date spy)"
    by (simp add: sessions_from_def filter_map comp_def)
  then show srt: "sorted_wrt (<) (sessions_from spy s)" using assms sorted_wrt_filter by simp
  have "sessions_from (known_at d spy) s = filter (\<lambda>x. x \<le> d) (sessions_from spy s)"
    by (auto simp: sessions_from_def known_at_def filter_map comp_def intro!: arg_cong [of _ _ "map b_date"] filter_cong)
  then show "sessions_from (known_at d spy) s = takeWhile (\<lambda>x. x \<le> d) (sessions_from spy s)"
    by (simp add: filter_le_sorted [OF srt])
qed

lemma py_take_takeWhile: "0 \<le> n \<Longrightarrow> py_take n (takeWhile P xs) = takeWhile P (py_take n xs)"
proof -
  have "take m (takeWhile P xs) = takeWhile P (take m xs)" for m
    by (induction xs arbitrary: m) (auto simp: take_Cons split: nat.split)
  then show "0 \<le> n \<Longrightarrow> ?thesis" by (simp add: py_take_def)
qed

lemma resolve_loop_known:
  assumes "sorted_wrt (<) days"
    and agree: "\<And>x. x \<le> d \<Longrightarrow> on' x = on x \<and> dn' x = dn x"
    and day: "\<And>x h p ao r. dn x h p ao = Inr (Some r) \<Longrightarrow> r_resolved_on r = x"
  shows "resolve_loop it on' dn' k (takeWhile (\<lambda>x. x \<le> d) days) = Inr (Some r) \<longleftrightarrow>
    resolve_loop it on dn k days = Inr (Some r) \<and> r_resolved_on r \<le> d"
  using assms(1)
proof (induction days arbitrary: k)
  case (Cons x days)
  have mem: "r_resolved_on r \<in> set l" if "resolve_loop it on dn j l = Inr (Some r)" for j l
    using that by (induction l arbitrary: j) (auto split: option.splits dest: day)
  show ?case
  proof (cases "x \<le> d")
    case True
    then show ?thesis using Cons agree [OF True] by (auto split: option.split dest: day)
  next
    case False
    have "d < r_resolved_on r" if "resolve_loop it on dn k (x # days) = Inr (Some r)"
      using mem [OF that] Cons.prems False by auto
    with False show ?thesis by force
  qed
qed simp

lemma resolve_done_day: "resolve_done it s x y u v w d h p ao = Inr (Some r) \<Longrightarrow> r_resolved_on r = d"
  by (auto simp: resolve_done_def err Let_def split: option.splits)

text \<open>C8: scoring never looks ahead. With SPY's bars in date order, an item resolves on the
  bars known at the close of day \<open>d\<close> exactly when it resolves on the full series at a date
  not after \<open>d\<close>, and to the same resolution: later bars neither change nor undo it, and the
  day it resolves on is the day it becomes known.\<close>

theorem resolve_no_lookahead:
  assumes srt: "sorted_wrt (<) (map b_date spy)" and h: "0 \<le> it_horizon it"
  shows "resolve it (known_at d bs) (known_at d spy) (known_at d bench) = Inr (Some r) \<longleftrightarrow>
    resolve it bs spy bench = Inr (Some r) \<and> r_resolved_on r \<le> d"
proof (cases "sessions_from spy (it_session it)")
  case Nil
  then show ?thesis by (simp add: resolve_def sessions_from_known [OF srt])
next
  case (Cons start rest)
  note days = sessions_from_known(1) [OF srt, of d "it_session it"] sessions_from_known(2) [OF srt, of "it_session it"]
  have on: "bar_on (known_at d l) x = bar_on l x" if "x \<le> d" for l x
    using bar_on_filter [of "\<lambda>x. x \<le> d", OF that] by (simp add: known_at_def)
  let ?on = "bar_on bs" and ?on' = "bar_on (known_at d bs)"
  let ?dn = "\<lambda>(x, y, u). resolve_done it start x y u (bar_on spy) (bar_on bench)"
  let ?dn' = "\<lambda>(x, y, u). resolve_done it start x y u (bar_on (known_at d spy)) (bar_on (known_at d bench))"
  let ?L = "py_take (it_horizon it) (start # rest)"
  have srtL: "sorted_wrt (<) ?L" using days(2) h Cons by (simp add: py_take_def sorted_wrt_take)
  have loop: "resolve_loop it ?on' (?dn' t) 1 (takeWhile (\<lambda>x. x \<le> d) ?L) = Inr (Some r) \<longleftrightarrow>
      resolve_loop it ?on (?dn t) 1 ?L = Inr (Some r) \<and> r_resolved_on r \<le> d" for t
  proof (cases t)
    case (fields x y u)
    have dn: "?dn' t y = ?dn t y" if "y \<le> d" for y
      unfolding fields prod.case by (intro resolve_done_cong on that)
    show ?thesis
      by (rule resolve_loop_known [OF srtL])
        (use dn on in \<open>auto simp: fields intro: resolve_done_day\<close>)
  qed
  show ?thesis
  proof (cases "start \<le> d")
    case True
    then have "sessions_from (known_at d spy) (it_session it) = start # takeWhile (\<lambda>x. x \<le> d) rest"
      using days(1) Cons by simp
    moreover have "py_take (it_horizon it) (start # takeWhile (\<lambda>x. x \<le> d) rest) = takeWhile (\<lambda>x. x \<le> d) ?L"
      using py_take_takeWhile [OF h, of "\<lambda>x. x \<le> d" "start # rest"] True by simp
    ultimately show ?thesis
      using loop on [OF True] Cons
      by (auto simp: resolve_def err split: option.splits)
  next
    case False
    then have "sessions_from (known_at d spy) (it_session it) = []" using days(1) Cons by simp
    moreover have "start \<le> r_resolved_on r" if "resolve it bs spy bench = Inr (Some r)"
    proof -
      have "r_resolved_on r \<in> set ?L"
        using that Cons by (auto simp: resolve_def err split: option.splits prod.splits dest!: resolve_loop_key)
      then show ?thesis using days(2) Cons subsetD [OF set_py_take] by fastforce
    qed
    ultimately show ?thesis using False by (auto simp: resolve_def)
  qed
qed

section \<open>The first touch decides\<close>

text \<open>
  What a session means for an item, apart from the code: a price is at or past a level in a
  direction; a bar reaches as far as its extreme in that direction. The target lies in the item's
  direction, the invalidation in the other. The first session of a call counts only for its close.
\<close>

definition beyond :: "direction \<Rightarrow> dec \<Rightarrow> dec \<Rightarrow> bool" where
  "beyond d level p = (case d of Up \<Rightarrow> level \<le> p | Down \<Rightarrow> p \<le> level)"

definition against :: "direction \<Rightarrow> direction" where
  "against d = (case d of Up \<Rightarrow> Down | Down \<Rightarrow> Up)"

definition far :: "direction \<Rightarrow> daily_bar \<Rightarrow> dec" where
  "far d b = (case d of Up \<Rightarrow> b_high b | Down \<Rightarrow> b_low b)"

definition counts_whole :: "item \<Rightarrow> nat \<Rightarrow> bool" where
  "counts_whole it m \<longleftrightarrow> 0 < m \<or> it_ref it = None"

definition opens_at_target :: "item \<Rightarrow> daily_bar \<Rightarrow> bool" where
  "opens_at_target it b \<longleftrightarrow> beyond (it_direction it) (it_target it) (b_open b)"

definition opens_at_inval :: "item \<Rightarrow> daily_bar \<Rightarrow> bool" where
  "opens_at_inval it b \<longleftrightarrow> beyond (against (it_direction it)) (it_inval it) (b_open b)"

definition reaches_target :: "item \<Rightarrow> daily_bar \<Rightarrow> bool" where
  "reaches_target it b \<longleftrightarrow> beyond (it_direction it) (it_target it) (far (it_direction it) b)"

definition reaches_inval :: "item \<Rightarrow> daily_bar \<Rightarrow> bool" where
  "reaches_inval it b \<longleftrightarrow> beyond (against (it_direction it)) (it_inval it) (far (against (it_direction it)) b)"

definition touches :: "item \<Rightarrow> nat \<Rightarrow> daily_bar \<Rightarrow> bool" where
  "touches it m b \<longleftrightarrow> counts_whole it m \<and> (opens_at_target it b \<or> opens_at_inval it b \<or> reaches_target it b \<or> reaches_inval it b)"

lemmas session_defs = beyond_def against_def far_def counts_whole_def opens_at_target_def opens_at_inval_def
  reaches_target_def reaches_inval_def touches_def

lemma day_hit_None:
  "day_hit it (1 + int m) b = None \<longleftrightarrow> \<not> touches it m b \<and> int m + 1 \<noteq> it_horizon it"
  by (cases "it_direction it")
    (auto simp: day_hit_def session_defs through_target_def through_inval_def inval_hit_def target_hit_def)

lemma day_hit_Some:
  assumes "day_hit it (1 + int m) b = Some (h, x, ao)"
  shows "(touches it m b \<or> int m + 1 = it_horizon it) \<and>
    (h = HOpenThrough \<longleftrightarrow> m = 0 \<and> counts_whole it m \<and> (opens_at_target it b \<or> opens_at_inval it b)) \<and>
    (h = HGapTarget \<longleftrightarrow> 0 < m \<and> opens_at_target it b) \<and>
    (h = HGapInvalidation \<longleftrightarrow> 0 < m \<and> opens_at_inval it b \<and> \<not> opens_at_target it b) \<and>
    (h = HInvalidation \<longleftrightarrow> counts_whole it m \<and> \<not> opens_at_target it b \<and> \<not> opens_at_inval it b \<and> reaches_inval it b) \<and>
    (h = HTarget \<longleftrightarrow> counts_whole it m \<and> \<not> opens_at_target it b \<and> \<not> opens_at_inval it b \<and> \<not> reaches_inval it b \<and> reaches_target it b) \<and>
    (h = HHorizon \<longleftrightarrow> \<not> touches it m b) \<and>
    x = (case h of HTarget \<Rightarrow> it_target it | HInvalidation \<Rightarrow> it_inval it | HHorizon \<Rightarrow> b_close b | _ \<Rightarrow> b_open b)"
  using assms
  by (cases "it_direction it")
    (auto simp: day_hit_def session_defs through_target_def through_inval_def inval_hit_def target_hit_def split: if_splits)

lemma resolve_loop_result:
  "(\<forall>m < length days. \<exists>b. on (days ! m) = Some b \<and> day_hit it (k + int m) b = None) \<and> resolve_loop it on dn k days = Inr None \<or>
   (\<exists>n < length days. (\<forall>m < n. \<exists>b. on (days ! m) = Some b \<and> day_hit it (k + int m) b = None) \<and>
      (on (days ! n) = None \<and> resolve_loop it on dn k days = Inr None \<or>
       (\<exists>b h x ao. on (days ! n) = Some b \<and> day_hit it (k + int n) b = Some (h, x, ao) \<and> resolve_loop it on dn k days = dn (days ! n) h x ao)))"
proof (induction days arbitrary: k)
  case (Cons d days)
  show ?case
  proof (cases "\<exists>b. on d = Some b \<and> day_hit it k b = None")
    case False
    then show ?thesis by (intro disjI2 exI [of _ 0]) (auto split: option.split)
  next
    case True
    then obtain b where b: "on d = Some b" "day_hit it k b = None" by blast
    then have r: "resolve_loop it on dn k (d # days) = resolve_loop it on dn (k + 1) days" by simp
    have up: "\<forall>m < Suc n. \<exists>b. on ((d # days) ! m) = Some b \<and> day_hit it (k + int m) b = None"
      if "\<forall>m < n. \<exists>b. on (days ! m) = Some b \<and> day_hit it (k + 1 + int m) b = None" for n
    proof (intro allI impI)
      fix m assume "m < Suc n"
      then show "\<exists>b. on ((d # days) ! m) = Some b \<and> day_hit it (k + int m) b = None"
        using that b by (cases m) (auto simp: add_ac)
    qed
    from Cons.IH [of "k + 1"] show ?thesis
    proof (elim disjE exE conjE)
      assume "\<forall>m < length days. \<exists>b. on (days ! m) = Some b \<and> day_hit it (k + 1 + int m) b = None"
        "resolve_loop it on dn (k + 1) days = Inr None"
      then show ?thesis unfolding r using up by simp
    next
      fix n assume n: "n < length days" "\<forall>m < n. \<exists>b. on (days ! m) = Some b \<and> day_hit it (k + 1 + int m) b = None"
        "on (days ! n) = None" "resolve_loop it on dn (k + 1) days = Inr None"
      then show ?thesis unfolding r using up [OF n(2)] by (intro disjI2 exI [of _ "Suc n"]) simp
    next
      fix n b' h x ao assume n: "n < length days" "\<forall>m < n. \<exists>b. on (days ! m) = Some b \<and> day_hit it (k + 1 + int m) b = None"
        "on (days ! n) = Some b'" "day_hit it (k + 1 + int n) b' = Some (h, x, ao)" "resolve_loop it on dn (k + 1) days = dn (days ! n) h x ao"
      have "day_hit it (k + int (Suc n)) b' = Some (h, x, ao)" using n(4) by (simp add: add_ac)
      then show ?thesis unfolding r using n(1,3,5) up [OF n(2)]
        by (intro disjI2 exI [of _ "Suc n"] conjI) (simp_all del: of_nat_Suc)
    qed
  qed
qed simp

lemma resolve_done_result:
  assumes "spy_by day = Some s"
  shows "(bench_by day = None \<and> resolve_done it start ref sr br spy_by bench_by day h x ao = Inr None) \<or>
    (\<exists>bb r. bench_by day = Some bb \<and> resolve_done it start ref sr br spy_by bench_by day h x ao = Inr (Some r) \<and>
       r_kind r = it_kind it \<and> r_item r = it_id it \<and> r_how r = h \<and> r_exit r = x \<and> r_resolved_on r = day) \<or>
    (\<exists>e. resolve_done it start ref sr br spy_by bench_by day h x ao = Inl e \<and> 0 \<in> {ref, sr, br})"
proof (cases "bench_by day")
  case None
  then show ?thesis by (simp add: resolve_done_def assms)
next
  case (Some bb)
  show ?thesis
  proof (cases "0 \<in> {ref, sr, br}")
    case True
    then show ?thesis by (auto simp: resolve_done_def assms Some Let_def bind_e_def split: sum.split)
  next
    case False
    then have "\<exists>y. move f t = Inr y" if "f \<in> {ref, sr, br}" for f t
      using that by (auto simp: move_def ddiv_def)
    then obtain y1 y2 y3 where "move ref x = Inr y1" "move br (if ao then b_open bb else b_close bb) = Inr y2"
      "move sr (if ao then b_open s else b_close s) = Inr y3" by (metis insertCI)
    then show ?thesis by (simp add: resolve_done_def assms Some Let_def)
  qed
qed

text \<open>
  The session of the window that decides: all bars up to it are known, no earlier one touched a
  level or was the horizon's, and it does one of the two.
\<close>

definition undecided :: "item \<Rightarrow> daily_bar list \<Rightarrow> date list \<Rightarrow> nat \<Rightarrow> bool" where
  "undecided it bs days n \<longleftrightarrow>
     (\<forall>m < n. \<exists>b. bar_on bs (days ! m) = Some b \<and> \<not> touches it m b \<and> int m + 1 \<noteq> it_horizon it)"

definition decides :: "item \<Rightarrow> daily_bar list \<Rightarrow> date list \<Rightarrow> nat \<Rightarrow> daily_bar \<Rightarrow> bool" where
  "decides it bs days n b \<longleftrightarrow> n < length days \<and> undecided it bs days n \<and> bar_on bs (days ! n) = Some b \<and>
     (touches it n b \<or> int n + 1 = it_horizon it)"

text \<open>A price that the resolution divides by is zero, or a call has none.\<close>

definition bad_reference :: "item \<Rightarrow> daily_bar list \<Rightarrow> daily_bar list \<Rightarrow> daily_bar list \<Rightarrow> date \<Rightarrow> bool" where
  "bad_reference it bs spy bench d \<longleftrightarrow>
     (case it_ref it of
        None \<Rightarrow> \<exists>b. b_open b = 0 \<and> (bar_on bs d = Some b \<or> bar_on spy d = Some b \<or> bar_on bench d = Some b)
      | Some ref \<Rightarrow> ref = 0 \<or> it_spy_ref it \<in> {None, Some 0} \<or> it_bench_ref it \<in> {None, Some 0})"

text \<open>C12: the first session that touches a level decides, and nothing else. A resolved item sits at the
  session that decides: all bars up to there are known, no earlier session touched a level or was the
  horizon's, and this one touches a level or is the horizon's. How it resolved is exactly what that
  bar did: through a level at the open (the opening print of a pitch's first session, a gap later,
  the target first), otherwise at the invalidation if the bar reached it, otherwise at the target,
  and at the horizon only if it touched nothing; the exit is the level, the open or the close. An
  item stays open only when no session of the window decides yet, when the bar of the first session
  after the undecided ones is missing, or when the benchmark has no bar of the first session or of
  the deciding one. And it raises only on a reference price that is missing or zero.\<close>

theorem resolve_first_touch:
  "let days = py_take (it_horizon it) (sessions_from spy (it_session it)) in
   case resolve it bs spy bench of
     Inl e \<Rightarrow> bad_reference it bs spy bench (days ! 0)
   | Inr None \<Rightarrow>
       undecided it bs days (length days) \<or> bar_on bench (days ! 0) = None \<or>
       (\<exists>n < length days. undecided it bs days n \<and> bar_on bs (days ! n) = None) \<or>
       (\<exists>n b. decides it bs days n b \<and> bar_on bench (days ! n) = None)
   | Inr (Some r) \<Rightarrow> (\<exists>n b. decides it bs days n b \<and> days ! n = r_resolved_on r \<and> (r_kind r, r_item r) = (it_kind it, it_id it) \<and>
       bar_on bench (days ! 0) \<noteq> None \<and> bar_on bench (days ! n) \<noteq> None \<and>
       (r_how r = HOpenThrough \<longleftrightarrow> n = 0 \<and> counts_whole it n \<and> (opens_at_target it b \<or> opens_at_inval it b)) \<and>
       (r_how r = HGapTarget \<longleftrightarrow> 0 < n \<and> opens_at_target it b) \<and>
       (r_how r = HGapInvalidation \<longleftrightarrow> 0 < n \<and> opens_at_inval it b \<and> \<not> opens_at_target it b) \<and>
       (r_how r = HInvalidation \<longleftrightarrow> counts_whole it n \<and> \<not> opens_at_target it b \<and> \<not> opens_at_inval it b \<and> reaches_inval it b) \<and>
       (r_how r = HTarget \<longleftrightarrow> counts_whole it n \<and> \<not> opens_at_target it b \<and> \<not> opens_at_inval it b \<and> \<not> reaches_inval it b \<and> reaches_target it b) \<and>
       (r_how r = HHorizon \<longleftrightarrow> \<not> touches it n b) \<and>
       r_exit r = (case r_how r of HTarget \<Rightarrow> it_target it | HInvalidation \<Rightarrow> it_inval it | HHorizon \<Rightarrow> b_close b | _ \<Rightarrow> b_open b))"
proof -
  define days where "days = py_take (it_horizon it) (sessions_from spy (it_session it))"
  have known: "\<exists>b. bar_on spy d = Some b" if "d \<in> set (sessions_from spy (it_session it))" for d
  proof -
    have "bar_on spy d \<noteq> None" using that by (auto simp: sessions_from_def bar_on_def find_None)
    then show ?thesis by blast
  qed
  have sub: "set days \<subseteq> set (sessions_from spy (it_session it))"
    by (auto simp: days_def py_take_def dest: in_set_takeD split: if_splits)
  have und: "(\<forall>m < n. \<exists>b. bar_on bs (days ! m) = Some b \<and> day_hit it (1 + int m) b = None) \<longleftrightarrow> undecided it bs days n" for n
    by (simp add: undecided_def day_hit_None)
  show ?thesis
  proof (cases "sessions_from spy (it_session it)")
    case Nil
    then have "days = []" "resolve it bs spy bench = Inr None" by (simp_all add: days_def py_take_def resolve_def)
    then show ?thesis by (simp add: days_def [symmetric] undecided_def)
  next
    case (Cons start rest)
    then have hd: "days ! 0 = start" if "days \<noteq> []"
      using that by (auto simp: days_def py_take_def neq_Nil_conv take_Cons' split: if_splits)
    show ?thesis
    proof (cases "bar_on bs start = None \<or> bar_on bench start = None")
      case True
      then have "resolve it bs spy bench = Inr None" using Cons by (auto simp: resolve_def split: option.splits)
      moreover have "days = [] \<or> bar_on bench (days ! 0) = None \<or> (0 < length days \<and> undecided it bs days 0 \<and> bar_on bs (days ! 0) = None)"
        using True hd by (auto simp: undecided_def)
      ultimately show ?thesis by (auto simp: days_def [symmetric] undecided_def [of it bs "[]"])
    next
      case False
      then obtain first bfirst where f: "bar_on bs start = Some first" "bar_on bench start = Some bfirst" by auto
      obtain sfirst where sf: "bar_on spy start = Some sfirst" using known Cons by fastforce
      show ?thesis
      proof (cases "item_refs it first (Some sfirst) bfirst")
        case (Inl e)
        then have "bad_reference it bs spy bench d" for d
          by (auto simp: item_refs_def bad_reference_def split: option.splits)
        moreover have "resolve it bs spy bench = Inl e" using Cons f sf Inl by (simp add: resolve_def)
        ultimately show ?thesis by (simp add: days_def [symmetric])
      next
        case (Inr y)
        obtain ref sr br where y: "y = (ref, sr, br)" by (rule prod_cases3)
        let ?dn = "resolve_done it start ref sr br (bar_on spy) (bar_on bench)"
        have res: "resolve it bs spy bench = resolve_loop it (bar_on bs) ?dn 1 days"
          using Cons f sf Inr y by (simp add: resolve_def days_def)
        show ?thesis
          using resolve_loop_result [of days "bar_on bs" it 1 ?dn] unfolding und res [symmetric]
        proof (elim disjE exE conjE)
          assume "undecided it bs days (length days)" "resolve it bs spy bench = Inr None"
          then show ?thesis by (simp add: days_def [symmetric])
        next
          fix n assume "n < length days" "undecided it bs days n" "bar_on bs (days ! n) = None" "resolve it bs spy bench = Inr None"
          then show ?thesis by (auto simp: days_def [symmetric])
        next
          fix n b h x ao
          assume n: "n < length days" "undecided it bs days n" "bar_on bs (days ! n) = Some b" "day_hit it (1 + int n) b = Some (h, x, ao)"
            and r: "resolve it bs spy bench = ?dn (days ! n) h x ao"
          note hit = day_hit_Some [OF n(4)]
          have d: "decides it bs days n b" using n hit by (simp add: decides_def)
          have s: "days ! 0 = start" by (rule hd) (use n(1) in auto)
          have "days ! n \<in> set (sessions_from spy (it_session it))" using n(1) sub nth_mem by blast
          then obtain sb where "bar_on spy (days ! n) = Some sb" using known by blast
          from resolve_done_result [where spy_by = "bar_on spy", OF this, of "bar_on bench" it start ref sr br h x ao]
          show ?thesis unfolding r [symmetric]
          proof (elim disjE exE conjE)
            assume "bar_on bench (days ! n) = None" "resolve it bs spy bench = Inr None"
            then show ?thesis using d by (auto simp: days_def [symmetric])
          next
            fix bb q assume q: "bar_on bench (days ! n) = Some bb" "resolve it bs spy bench = Inr (Some q)" "r_kind q = it_kind it"
              "r_item q = it_id it" "r_how q = h" "r_exit q = x" "r_resolved_on q = days ! n"
            show ?thesis unfolding Let_def days_def [symmetric] q(2) sum.case option.case
              by (rule exI [of _ n], rule exI [of _ b]) (use d q(1,3-) f(2) s hit in simp)
          next
            fix e assume e: "resolve it bs spy bench = Inl e" "0 \<in> {ref, sr, br}"
            have "bad_reference it bs spy bench start"
              using Inr e(2) f sf unfolding y by (auto simp: item_refs_def bad_reference_def split: option.splits)
            then show ?thesis using e(1) s by (simp add: days_def [symmetric])
          qed
        qed
      qed
    qed
  qed
qed

subsection \<open>An example\<close>

definition sample_bar :: "date \<Rightarrow> dec \<Rightarrow> dec \<Rightarrow> dec \<Rightarrow> dec \<Rightarrow> daily_bar" where
  "sample_bar d op hi lo cl = \<lparr>b_date = d, b_open = op, b_high = hi, b_low = lo, b_close = cl, b_volume = 1000\<rparr>"

definition sample_pitch :: pitch where
  "sample_pitch = \<lparr>p_id = 1, p_analyst = Technical, p_filed_at = 0, p_session = 739870, p_symbol = ''MSFT'',
     p_direction = Up, p_thesis = ''thesis'', p_evidence = [], p_target = 55, p_inval = 45, p_horizon = 2,
     p_conviction = 4, p_bench = ''XLK''\<rparr>"

text \<open>The second session gaps nowhere and trades up through the target.\<close>

definition sample_scored :: desk where
  "sample_scored = empty_desk\<lparr>pitches := [sample_pitch], bars :=
     [(''MSFT'', sample_bar 739870 50 52 49 51), (''MSFT'', sample_bar 739873 51 56 50 54),
      (''SPY'', sample_bar 739870 600 606 598 603), (''SPY'', sample_bar 739873 603 612 600 606),
      (''XLK'', sample_bar 739870 250 252 248 251), (''XLK'', sample_bar 739873 251 256 250 255)]\<rparr>"

definition sample_resolution :: resolution where
  "sample_resolution = \<lparr>r_kind = KPitch, r_item = 1, r_ref_date = 739870, r_ref_price = 50,
     r_resolved_on = 739873, r_how = HTarget, r_exit = 55, r_ret = 10, r_spy_ret = 1, r_bench_ret = 2\<rparr>"

lemma sample_resolve:
  "resolve (pitch_item sample_pitch) [sample_bar 739870 50 52 49 51, sample_bar 739873 51 56 50 54]
     [sample_bar 739870 600 606 598 603, sample_bar 739873 603 612 600 606]
     [sample_bar 739870 250 252 248 251, sample_bar 739873 251 256 250 255] = Inr (Some sample_resolution)"
  by (simp add: resolve_def sessions_from_def bar_on_def sample_bar_def pitch_item_def sample_pitch_def
      item_refs_def py_take_def day_hit_def through_target_def through_inval_def inval_hit_def target_hit_def
      resolve_done_def move_def HUNDRED_def sample_resolution_def numeral_2_eq_2 dec_eval)

lemma sample_series:
  "bars_for sample_scored ''MSFT'' None None = [sample_bar 739870 50 52 49 51, sample_bar 739873 51 56 50 54]"
  "bars_for sample_scored ''SPY'' None None = [sample_bar 739870 600 606 598 603, sample_bar 739873 603 612 600 606]"
  "bars_for sample_scored ''XLK'' None None = [sample_bar 739870 250 252 248 251, sample_bar 739873 251 256 250 255]"
  by (simp_all add: bars_for_def sample_scored_def sample_bar_def insort_key.simps)

lemma sample_items: "load_open_items sample_scored = [pitch_item sample_pitch]"
  by (simp add: load_open_items_def sample_scored_def empty_desk_def open_pitches_def withdrawn_def pitch_resolved_def)

theorem resolve_first_touch_witness:
  "\<exists>n b. [739870, 739873] ! n = r_resolved_on sample_resolution \<and> n < 2 \<and>
     bar_on [sample_bar 739870 50 52 49 51, sample_bar 739873 51 56 50 54] (r_resolved_on sample_resolution) = Some b \<and>
     reaches_target (pitch_item sample_pitch) b \<and> \<not> reaches_inval (pitch_item sample_pitch) b \<and> r_exit sample_resolution = it_target (pitch_item sample_pitch)"
proof -
  let ?it = "pitch_item sample_pitch" and ?bs = "[sample_bar 739870 50 52 49 51, sample_bar 739873 51 56 50 54]"
  let ?spy = "[sample_bar 739870 600 606 598 603, sample_bar 739873 603 612 600 606]"
  let ?bench = "[sample_bar 739870 250 252 248 251, sample_bar 739873 251 256 250 255]"
  have days: "py_take (it_horizon ?it) (sessions_from ?spy (it_session ?it)) = [739870, 739873]"
    by (simp add: py_take_def sessions_from_def sample_bar_def pitch_item_def sample_pitch_def)
  have how: "r_how sample_resolution = HTarget" by (simp add: sample_resolution_def)
  from resolve_first_touch [of ?it ?spy ?bs ?bench, unfolded days Let_def, unfolded sample_resolve sum.case option.case how]
  obtain n b where "decides ?it ?bs [739870, 739873] n b" and n: "[739870, 739873] ! n = r_resolved_on sample_resolution"
    "\<not> reaches_inval ?it b" "reaches_target ?it b"
    and x: "r_exit sample_resolution = (case HTarget of HTarget \<Rightarrow> it_target ?it | HInvalidation \<Rightarrow> it_inval ?it | HHorizon \<Rightarrow> b_close b | _ \<Rightarrow> b_open b)"
    by blast
  then have "n < 2" "bar_on ?bs (r_resolved_on sample_resolution) = Some b" using n(1) by (simp_all add: decides_def)
  then show ?thesis using n x by (intro exI [of _ n] exI [of _ b]) simp
qed

theorem resolve_no_lookahead_witness:
  "resolve (pitch_item sample_pitch) [sample_bar 739870 50 52 49 51]
     [sample_bar 739870 600 606 598 603] [sample_bar 739870 250 252 248 251] \<noteq> Inr (Some sample_resolution)"
proof -
  let ?spy = "[sample_bar 739870 600 606 598 603, sample_bar 739873 603 612 600 606]"
  have "sorted_wrt (<) (map b_date ?spy)" "0 \<le> it_horizon (pitch_item sample_pitch)"
    by (simp_all add: sample_bar_def pitch_item_def sample_pitch_def)
  from resolve_no_lookahead [OF this, of 739870 "[sample_bar 739870 50 52 49 51, sample_bar 739873 51 56 50 54]"
      "[sample_bar 739870 250 252 248 251, sample_bar 739873 251 256 250 255]" sample_resolution]
  show ?thesis by (simp add: known_at_def sample_bar_def sample_resolution_def)
qed

theorem score_once_witness:
  "\<exists>rep st'. score sample_scored = Inr (rep, st') \<and> resolutions st' = [sample_resolution] \<and>
     (\<exists>rep'. score st' = Inr (rep', st') \<and> sr_resolved rep' = [])"
proof -
  have stored: "resolve_stored sample_scored (pitch_item sample_pitch) = Inr (Some sample_resolution)"
    using sample_resolve by (simp add: resolve_stored_def sample_series pitch_item_def sample_pitch_def)
  have e: "it_session (pitch_item sample_pitch) = 739870" by (simp add: pitch_item_def sample_pitch_def)
  have empty: "resolutions sample_scored = []" by (simp add: sample_scored_def empty_desk_def)
  have "\<exists>rep. score sample_scored = Inr (rep, sample_scored\<lparr>resolutions := [sample_resolution]\<rparr>)"
    using resolve_stored_since [of 739870 "pitch_item sample_pitch" sample_scored] stored
    by (simp add: score_def sample_items score_item_def Let_def e insert_resolution_iff empty)
  then obtain rep where run: "score sample_scored = Inr (rep, sample_scored\<lparr>resolutions := [sample_resolution]\<rparr>)"
    by blast
  have wf: "pitches_wf sample_scored" "calls_wf sample_scored" "distinct (map res_key (resolutions sample_scored))"
    by (simp_all add: pitches_wf_def calls_wf_def sample_scored_def empty_desk_def open_pitches_def withdrawn_def
        pitch_resolved_def)
  from score_once [OF run wf]
  have "\<exists>rep'. score (sample_scored\<lparr>resolutions := [sample_resolution]\<rparr>) =
      Inr (rep', sample_scored\<lparr>resolutions := [sample_resolution]\<rparr>) \<and> sr_resolved rep' = []" by blast
  with run show ?thesis by fastforce
qed

end
