(* ===== verification/TC_Indicators.thy ===== *)
theory TC_Indicators
  imports TC_Pitches Complex_Main
begin

text \<open>
  Numbers computed from stored bars (tc/desk/indicators.py) and the evening refresh of the
  bars themselves (tc/desk/bars.py). An indicator answers \<open>None\<close> when the history is too
  short. \<open>Decimal.ln\<close> and \<open>Decimal.sqrt\<close> are the real functions correctly rounded to the
  context's precision; the correlation runs in a local context of 40 digits.
\<close>

section \<open>tc/desk/indicators.py\<close>

definition mean_e :: "dec list \<Rightarrow> exn + dec" where
  "mean_e xs = ddiv (dsum xs) (of_int (int (length xs)))"

text \<open>\<open>xs[-n-1:-1]\<close>, and \<open>bars[-1-n]\<close> of a list with more than \<open>n\<close> elements.\<close>

definition before_last_n :: "nat \<Rightarrow> 'a list \<Rightarrow> 'a list" where
  "before_last_n n xs = butlast (last_n (n + 1) xs)"

definition nth_last :: "nat \<Rightarrow> 'a list \<Rightarrow> 'a" where
  "nth_last n xs = xs ! (length xs - 1 - n)"

definition true_range :: "daily_bar \<Rightarrow> daily_bar \<Rightarrow> dec" where
  "true_range prev cur =
     max (max (dsub (b_high cur) (b_low cur)) \<bar>dsub (b_high cur) (b_close prev)\<bar>) \<bar>dsub (b_low cur) (b_close prev)\<bar>"

definition atr_pct :: "daily_bar list \<Rightarrow> nat \<Rightarrow> exn + dec option" where
  "atr_pct bs n =
     (if length bs < n + 1 \<or> b_close (last bs) \<le> 0 then Inr None
      else let trs = map2 true_range (before_last_n n bs) (last_n n bs) in
        bind_e (mean_e trs) (\<lambda>m. Inr (Some (dmul (ddiv_nz m (b_close (last bs))) HUNDRED))))"

definition sma :: "daily_bar list \<Rightarrow> nat \<Rightarrow> exn + dec option" where
  "sma bs n = (if length bs < n then Inr None
     else bind_e (mean_e (map b_close (last_n n bs))) (\<lambda>m. Inr (Some m)))"

definition pct_from :: "dec \<Rightarrow> dec option \<Rightarrow> dec option" where
  "pct_from x ref = (case ref of None \<Rightarrow> None
     | Some r \<Rightarrow> if r = 0 then None else Some (dmul (ddiv_nz (dsub x r) r) HUNDRED))"

definition pct_change :: "daily_bar list \<Rightarrow> nat \<Rightarrow> dec option" where
  "pct_change bs n =
     (if length bs < n + 1 \<or> b_close (nth_last n bs) = 0 then None
      else let c0 = b_close (nth_last n bs) in
        Some (dmul (ddiv_nz (dsub (b_close (last bs)) c0) c0) HUNDRED))"

text \<open>The dict of closes by date; the later bar of a date wins.\<close>

definition close_on :: "daily_bar list \<Rightarrow> date \<Rightarrow> dec option" where
  "close_on bs d = map_option b_close (find (\<lambda>b. b_date b = d) (rev bs))"

definition rel_strength :: "daily_bar list \<Rightarrow> daily_bar list \<Rightarrow> nat \<Rightarrow> dec option" where
  "rel_strength bs bench n =
     (case pct_change bs n of None \<Rightarrow> None
      | Some own \<Rightarrow>
          (case (close_on bench (b_date (nth_last n bs)), close_on bench (b_date (last bs))) of
             (Some c0, Some c1) \<Rightarrow>
               if c0 = 0 then None else Some (dsub own (dmul (ddiv_nz (dsub c1 c0) c0) HUNDRED))
           | _ \<Rightarrow> None))"

definition high_low :: "daily_bar list \<Rightarrow> nat \<Rightarrow> (dec \<times> dec) option" where
  "high_low bs n =
     (if bs = [] then None
      else let window = (if n = 0 then bs else last_n n bs) in
        Some (Max (set (map b_high window)), Min (set (map b_low window))))"

definition prior_high_low :: "daily_bar list \<Rightarrow> nat \<Rightarrow> (dec \<times> dec) option" where
  "prior_high_low bs n = (if length bs > 1 then high_low (butlast bs) n else None)"

definition volume_ratio :: "daily_bar list \<Rightarrow> nat \<Rightarrow> exn + dec option" where
  "volume_ratio bs n =
     (if length bs < n + 1 then Inr None
      else bind_e (mean_e (map (\<lambda>b. of_int (b_volume b)) (before_last_n n bs))) (\<lambda>avg.
        Inr (if avg = 0 then None else Some (ddiv_nz (of_int (b_volume (last bs))) avg))))"

definition gap_pct :: "daily_bar list \<Rightarrow> dec option" where
  "gap_pct bs =
     (if length bs < 2 \<or> b_close (nth_last 1 bs) = 0 then None
      else let c = b_close (nth_last 1 bs) in Some (dmul (ddiv_nz (dsub (b_open (last bs)) c) c) HUNDRED))"

subsection \<open>Correlation in a 40-digit context\<close>

text \<open>Half-even rounding of a real to \<open>p\<close> significant digits.\<close>

definition half_even_real :: "real \<Rightarrow> int" where
  "half_even_real x =
     (let f = \<lfloor>x\<rfloor>; d = x - of_int f in
      if d < 1 / 2 then f else if d > 1 / 2 then f + 1 else if even f then f else f + 1)"

definition real_to_dec :: "nat \<Rightarrow> real \<Rightarrow> dec" where
  "real_to_dec p x =
     (if x = 0 then 0
      else let e = \<lfloor>log 10 \<bar>x\<bar>\<rfloor> - int p + 1 in of_int (half_even_real (x / 10 powi e)) * 10 powi e)"

definition ctx40 :: "dec \<Rightarrow> dec" where "ctx40 x = round_to 40 x"
definition ln40 :: "dec \<Rightarrow> dec" where "ln40 x = real_to_dec 40 (ln (of_rat x))"
definition sqrt40 :: "dec \<Rightarrow> dec" where "sqrt40 x = real_to_dec 40 (sqrt (of_rat x))"
definition sum40 :: "dec list \<Rightarrow> dec" where "sum40 xs = foldl (\<lambda>a x. ctx40 (a + x)) 0 xs"
definition mean40 :: "dec list \<Rightarrow> dec" where "mean40 xs = ctx40 (sum40 xs / of_int (int (length xs)))"

fun log_returns :: "dec list \<Rightarrow> dec list" where
  "log_returns (c0 # c1 # cs) = ln40 (ctx40 (c1 / c0)) # log_returns (c1 # cs)"
| "log_returns _ = []"

definition common_dates :: "daily_bar list \<Rightarrow> daily_bar list \<Rightarrow> date list" where
  "common_dates a b = sorted_list_of_set (set (map b_date a) \<inter> set (map b_date b))"

definition close_at :: "daily_bar list \<Rightarrow> date \<Rightarrow> dec" where
  "close_at bs d = (case close_on bs d of None \<Rightarrow> 0 | Some c \<Rightarrow> c)"

definition pearson40 :: "dec list \<Rightarrow> dec list \<Rightarrow> dec option" where
  "pearson40 ra rb =
     (let ma = mean40 ra; mb = mean40 rb; sq = (\<lambda>x. ctx40 (x * x));
          da = map (\<lambda>x. ctx40 (x - ma)) ra; db = map (\<lambda>y. ctx40 (y - mb)) rb;
          cov = sum40 (map2 (\<lambda>x y. ctx40 (x * y)) da db);
          va = sum40 (map sq da); vb = sum40 (map sq db) in
      if va = 0 \<or> vb = 0 then None else Some (ctx40 (cov / ctx40 (sqrt40 va * sqrt40 vb))))"

definition log_return_corr :: "daily_bar list \<Rightarrow> daily_bar list \<Rightarrow> nat \<Rightarrow> dec option" where
  "log_return_corr a b n =
     (let dates = last_n (n + 1) (common_dates a b);
          ca = map (close_at a) dates; cb = map (close_at b) dates in
      if length dates < n + 1 \<or> list_ex (\<lambda>c. c \<le> 0) (ca @ cb) then None
      else pearson40 (log_returns ca) (log_returns cb))"

section \<open>tc/desk/bars.py\<close>

definition TOP_UP_DAYS :: int where "TOP_UP_DAYS = 10"
definition STALE_AFTER_SESSIONS :: int where "STALE_AFTER_SESSIONS = TOP_UP_DAYS - 2"

definition carried_symbols :: "desk \<Rightarrow> string set" where
  "carried_symbols st =
     set (map p_symbol (filter (\<lambda>p. \<not> pitch_resolved st (p_id p)) (pitches st))) \<union>
     set (map c_symbol (filter (\<lambda>c. resolution_for st KCall (c_id c) = None) (calls st))) \<union>
     set (map p_bench (pitches st)) \<union> set (map c_bench (calls st)) \<union> set (map q_underlying (proposals st))"

text \<open>\<open>list.sort(key, reverse=True)\<close> keeps equal elements in order.\<close>

definition sort_desc :: "('a \<Rightarrow> 'b :: linorder) \<Rightarrow> 'a list \<Rightarrow> 'a list" where
  "sort_desc f xs = rev (sort_key f (rev xs))"

definition bars_symbols :: "desk \<Rightarrow> desk_config \<Rightarrow> string set \<Rightarrow> string set" where
  "bars_symbols st cfg extra =
     set (map fst (take (bars_universe_size cfg) (sort_desc snd (qualified_symbols st)))) \<union>
     set (etf_list cfg) \<union> set (context_symbols cfg) \<union> {''SPY''} \<union> extra"

definition bar_count :: "desk \<Rightarrow> string \<Rightarrow> int" where
  "bar_count st s = int (length (filter (\<lambda>(s', _). s' = s) (bars st)))"

definition bar_latest :: "desk \<Rightarrow> string \<Rightarrow> date option" where
  "bar_latest st s =
     (let ds = map (\<lambda>(_, b). b_date b) (filter (\<lambda>(s', _). s' = s) (bars st)) in
      if ds = [] then None else Some (Max (set ds)))"

record bars_report =
  br_requested :: int
  br_fetched :: int
  br_failed :: "string list"
  br_blind :: bool

text \<open>How many days to ask for; \<open>have\<close> and \<open>newest\<close> are read before the loop.\<close>

definition days_wanted :: "desk \<Rightarrow> desk_config \<Rightarrow> date \<Rightarrow> string \<Rightarrow> int" where
  "days_wanted st cfg today s =
     (let need = bars_history_days cfg - TOP_UP_DAYS;
          stale = (case bar_latest st s of None \<Rightarrow> True
                   | Some d \<Rightarrow> trading_days_between d today > STALE_AFTER_SESSIONS) in
      if bar_count st s < need \<or> stale then bars_history_days cfg else TOP_UP_DAYS)"

text \<open>
  The sweep. \<open>daily_bars\<close> is the broker's read; the errors that skip one symbol are the
  broker's other failures and \<open>ValueError\<close>, anything else propagates. \<open>st0\<close> is the store
  before the sweep, from which counts and newest dates were read.
\<close>

fun refresh_loop ::
  "(string \<Rightarrow> int \<Rightarrow> exn + daily_bar list) \<Rightarrow> desk \<Rightarrow> desk_config \<Rightarrow> date \<Rightarrow> int \<Rightarrow> string list \<Rightarrow>
   int \<Rightarrow> string list \<Rightarrow> desk \<Rightarrow> exn + bars_report \<times> desk" where
  "refresh_loop daily_bars st0 cfg today n [] fetched failed st =
     Inr (\<lparr>br_requested = n, br_fetched = fetched, br_failed = failed, br_blind = False\<rparr>, st)"
| "refresh_loop daily_bars st0 cfg today n (s # ss) fetched failed st =
     (case daily_bars s (days_wanted st0 cfg today s) of
        Inr bs \<Rightarrow> refresh_loop daily_bars st0 cfg today n ss (fetched + 1) failed (upsert_bars s bs st)
      | Inl BrokerUnauthorized \<Rightarrow>
          Inr (\<lparr>br_requested = n, br_fetched = fetched, br_failed = failed, br_blind = True\<rparr>, st)
      | Inl BrokerError \<Rightarrow> refresh_loop daily_bars st0 cfg today n ss fetched (failed @ [s]) st
      | Inl ValueError \<Rightarrow> refresh_loop daily_bars st0 cfg today n ss fetched (failed @ [s]) st
      | Inl e \<Rightarrow> Inl e)"

definition refresh_bars ::
  "(string \<Rightarrow> int \<Rightarrow> exn + daily_bar list) \<Rightarrow> desk \<Rightarrow> string list \<Rightarrow> desk_config \<Rightarrow> date \<Rightarrow>
   exn + bars_report \<times> desk" where
  "refresh_bars daily_bars st symbols cfg today =
     refresh_loop daily_bars st cfg today (int (length symbols)) symbols 0 [] st"

text \<open>What a sweep that raises leaves: the bars of the symbols before.\<close>

fun refresh_kept ::
  "(string \<Rightarrow> int \<Rightarrow> exn + daily_bar list) \<Rightarrow> desk \<Rightarrow> desk_config \<Rightarrow> date \<Rightarrow> string list \<Rightarrow> desk \<Rightarrow> desk" where
  "refresh_kept daily_bars st0 cfg today [] st = st"
| "refresh_kept daily_bars st0 cfg today (s # ss) st =
     (case daily_bars s (days_wanted st0 cfg today s) of
        Inr bs \<Rightarrow> refresh_kept daily_bars st0 cfg today ss (upsert_bars s bs st)
      | Inl e \<Rightarrow> if e = BrokerError \<or> e = ValueError then refresh_kept daily_bars st0 cfg today ss st else st)"

definition refresh_left ::
  "(string \<Rightarrow> int \<Rightarrow> exn + daily_bar list) \<Rightarrow> desk \<Rightarrow> string list \<Rightarrow> desk_config \<Rightarrow> date \<Rightarrow> desk" where
  "refresh_left daily_bars st symbols cfg today = refresh_kept daily_bars st cfg today symbols st"

section \<open>What a refresh keeps\<close>

lemma upsert_bars_other:
  assumes "s \<noteq> x"
  shows "filter (\<lambda>(s', b). s' = s) (bars (upsert_bars x bs st)) = filter (\<lambda>(s', b). s' = s) (bars st)"
proof -
  have one: "filter (\<lambda>(s', b). s' = s) (upsert_bar x b rows) = filter (\<lambda>(s', b). s' = s) rows" for b rows
    using assms by (induction x b rows rule: upsert_bar.induct) auto
  have "filter (\<lambda>(s', b). s' = s) (fold (upsert_bar x) bs rows) = filter (\<lambda>(s', b). s' = s) rows" for rows
    by (induction bs arbitrary: rows) (simp_all add: one)
  then show ?thesis by (simp add: upsert_bars_def)
qed

text \<open>What one pass over the remaining symbols \<open>ss\<close> leaves.\<close>

definition swept :: "string list \<Rightarrow> int \<Rightarrow> desk \<Rightarrow> bars_report \<Rightarrow> desk \<Rightarrow> bool" where
  "swept ss done_before st rep st' \<longleftrightarrow> bars_wf st' \<and> st' = st\<lparr>bars := bars st'\<rparr> \<and>
     (\<forall>s. s \<notin> set ss \<longrightarrow> filter (\<lambda>(s', b). s' = s) (bars st') = filter (\<lambda>(s', b). s' = s) (bars st)) \<and>
     (\<not> br_blind rep \<longrightarrow> br_fetched rep + int (length (br_failed rep)) = done_before + int (length ss))"

lemma swept_fetch:
  assumes "swept ss (n + 1) (upsert_bars s bs st) rep st'" shows "swept (s # ss) n st rep st'"
proof -
  have "st' = (upsert_bars s bs st)\<lparr>bars := bars st'\<rparr>" using assms by (simp add: swept_def)
  then have "st' = st\<lparr>bars := bars st'\<rparr>" by (simp add: upsert_bars_def)
  then show ?thesis using assms upsert_bars_other by (simp add: swept_def)
qed

lemma swept_skip: "swept ss (n + 1) st rep st' \<Longrightarrow> swept (s # ss) n st rep st'"
  by (simp add: swept_def)

lemma refresh_kept_bars:
  "bars_wf st \<Longrightarrow> bars_wf (refresh_kept db st0 cfg today ss st) \<and>
     refresh_kept db st0 cfg today ss st = st\<lparr>bars := bars (refresh_kept db st0 cfg today ss st)\<rparr>"
proof (induction ss arbitrary: st)
  case (Cons s ss)
  show ?case
  proof (cases "db s (days_wanted st0 cfg today s)")
    case (Inr bs)
    let ?st = "upsert_bars s bs st"
    from Cons.IH [OF upsert_bars_wf [OF Cons.prems], of s bs]
    have "bars_wf (refresh_kept db st0 cfg today ss ?st)"
      "refresh_kept db st0 cfg today ss ?st = ?st\<lparr>bars := bars (refresh_kept db st0 cfg today ss ?st)\<rparr>" by simp_all
    moreover have "?st\<lparr>bars := b\<rparr> = st\<lparr>bars := b\<rparr>" for b by (simp add: upsert_bars_def)
    ultimately show ?thesis using Inr by simp
  next
    case (Inl e)
    then show ?thesis using Cons by simp
  qed
qed simp

lemma refresh_loop_swept:
  assumes "refresh_loop db st0 cfg today n ss f fl st = Inr (rep, st')" and "bars_wf st"
  shows "swept ss (f + int (length fl)) st rep st' \<and> br_requested rep = n \<and> set (br_failed rep) \<subseteq> set fl \<union> set ss"
  using assms
proof (induction ss arbitrary: f fl st)
  case Nil
  then show ?case by (auto simp: swept_def)
next
  case (Cons s ss)
  show ?case
  proof (cases "db s (days_wanted st0 cfg today s)")
    case (Inr bs)
    then have "refresh_loop db st0 cfg today n ss (f + 1) fl (upsert_bars s bs st) = Inr (rep, st')"
      using Cons.prems(1) by simp
    from Cons.IH [OF this upsert_bars_wf [OF Cons.prems(2)]] show ?thesis
      by (auto intro!: swept_fetch simp: add_ac)
  next
    case (Inl e)
    have skip: ?thesis if "refresh_loop db st0 cfg today n ss f (fl @ [s]) st = Inr (rep, st')"
      using Cons.IH [OF that Cons.prems(2)] by (auto intro!: swept_skip simp: add_ac)
    consider "e = BrokerUnauthorized" | "e = BrokerError \<or> e = ValueError"
      | "e \<noteq> BrokerUnauthorized \<and> e \<noteq> BrokerError \<and> e \<noteq> ValueError" by blast
    then show ?thesis
    proof cases
      case 1
      then show ?thesis using Cons.prems Inl by (auto simp: swept_def)
    next
      case 2
      then show ?thesis using Cons.prems(1) Inl by (intro skip) auto
    next
      case 3
      then show ?thesis using Cons.prems(1) Inl by (cases e) auto
    qed
  qed
qed

text \<open>A refresh keeps at most one bar per symbol and date, touches no other table and no
  symbol it was not asked for, and accounts for every symbol: without a dead token, each was
  either fetched or named as failed.\<close>

theorem refresh_bars_sound:
  assumes "refresh_bars db st symbols cfg today = Inr (rep, st')" and "bars_wf st"
  shows "bars_wf st' \<and> st' = st\<lparr>bars := bars st'\<rparr> \<and>
    (\<forall>s. s \<notin> set symbols \<longrightarrow> filter (\<lambda>(s', b). s' = s) (bars st') = filter (\<lambda>(s', b). s' = s) (bars st)) \<and>
    (\<not> br_blind rep \<longrightarrow> br_fetched rep + int (length (br_failed rep)) = br_requested rep) \<and>
    set (br_failed rep) \<subseteq> set symbols"
  using refresh_loop_swept [of db st cfg today "int (length symbols)" symbols 0 "[]" st rep st'] assms
  by (simp add: refresh_bars_def swept_def)

text \<open>One symbol answers, the next is unknown.\<close>

definition sample_feed :: "string \<Rightarrow> int \<Rightarrow> exn + daily_bar list" where
  "sample_feed s n = (if s = ''SPY'' then Inr [\<lparr>b_date = 739870, b_open = 600, b_high = 606, b_low = 598,
     b_close = 603, b_volume = 5\<rparr>] else Inl BrokerError)"

definition sample_config :: desk_config where
  "sample_config = \<lparr>etf_list = [''SPY''], context_symbols = [], checkpoint_date = 739980,
     entry_window_start = hm 10 0, entry_window_end = hm 15 0, bars_universe_size = 400, bars_history_days = 260\<rparr>"

theorem refresh_bars_sound_witness:
  "\<exists>rep st'. refresh_bars sample_feed empty_desk [''SPY'', ''ZZZ''] sample_config 739871 = Inr (rep, st') \<and>
     br_failed rep = [''ZZZ''] \<and> bars_wf st' \<and> br_fetched rep + 1 = br_requested rep"
proof -
  have run: "\<exists>rep st'. refresh_bars sample_feed empty_desk [''SPY'', ''ZZZ''] sample_config 739871 = Inr (rep, st') \<and>
      br_failed rep = [''ZZZ''] \<and> \<not> br_blind rep"
    by (simp add: refresh_bars_def sample_feed_def)
  then obtain rep st' where r: "refresh_bars sample_feed empty_desk [''SPY'', ''ZZZ''] sample_config 739871 = Inr (rep, st')"
      "br_failed rep = [''ZZZ'']" "\<not> br_blind rep" by blast
  have "bars_wf empty_desk" by (simp add: bars_wf_def empty_desk_def)
  from refresh_bars_sound [OF r(1) this] r show ?thesis by auto
qed

section \<open>The average true range\<close>

lemma true_range_nonneg: "0 \<le> true_range p c"
  by (simp add: true_range_def le_max_iff_disj)

lemma mean_e_nonneg:
  assumes "xs \<noteq> []" and "\<And>x. x \<in> set xs \<Longrightarrow> 0 \<le> x"
  shows "\<exists>m. mean_e xs = Inr m \<and> 0 \<le> m"
  using assms dsum_nonneg [OF assms(2)]
  by (auto simp: mean_e_def ddiv_def ddiv_nz_def intro!: ctx28.nonneg divide_nonneg_nonneg)

text \<open>The average true range over one or more sessions never raises; it is unknown
  exactly when the history is too short or the last close is not positive, and is otherwise
  a non-negative percentage.\<close>

theorem atr_pct_total:
  "\<exists>x. atr_pct bs (Suc n) = Inr x \<and>
     (case x of None \<Rightarrow> length bs < n + 2 \<or> b_close (last bs) \<le> 0
      | Some a \<Rightarrow> n + 2 \<le> length bs \<and> 0 < b_close (last bs) \<and> 0 \<le> a)"
proof (cases "length bs < n + 2 \<or> b_close (last bs) \<le> 0")
  case True
  then show ?thesis by (intro exI [of _ None]) (auto simp: atr_pct_def)
next
  case False
  let ?trs = "map2 true_range (before_last_n (Suc n) bs) (last_n (Suc n) bs)"
  have "length ?trs = Suc n" using False by (simp add: before_last_n_def)
  then have "?trs \<noteq> []" by (metis length_0_conv nat.simps(3))
  moreover have "\<And>x. x \<in> set ?trs \<Longrightarrow> 0 \<le> x" using true_range_nonneg by auto
  ultimately obtain m where m: "mean_e ?trs = Inr m" "0 \<le> m" using mean_e_nonneg by meson
  have "0 \<le> dmul (ddiv_nz m (b_close (last bs))) HUNDRED"
    using m False by (auto simp: dmul_def ddiv_nz_def HUNDRED_def intro!: ctx28.nonneg mult_nonneg_nonneg divide_nonneg_nonneg)
  then show ?thesis using False m by (simp add: atr_pct_def Let_def not_less)
qed

end
