(* ===== verification/TC_Options.thy ===== *)
theory TC_Options
  imports TC_Indicators "HOL-Library.Product_Lexorder"
begin

text \<open>
  Which option contract (tc/desk/options.py): the days-to-expiration and delta bands, the
  filter and ranking of a chain, and the reading of OSI symbols. A candidate carries its
  numbers as values where the source renders them as text.
\<close>

section \<open>tc/desk/options.py\<close>

definition EXTRA_WEEK :: int where "EXTRA_WEEK = 7"
definition STRIKE_COUNT :: int where "STRIKE_COUNT = 30"

datatype opt_kind = CALL | PUT

text \<open>\<open>OptionContract\<close> of tc/broker/models.py, the fields the desk reads.\<close>

record option_contract =
  oc_osi :: string
  oc_expiry :: date
  oc_strike :: dec
  oc_kind :: opt_kind
  oc_bid :: dec
  oc_ask :: dec
  oc_delta :: "dec option"
  oc_oi :: int
  oc_dte :: int

record option_candidate =
  cd_osi :: string
  cd_expiry :: date
  cd_strike :: dec
  cd_kind :: opt_kind
  cd_bid :: dec
  cd_ask :: dec
  cd_delta :: dec
  cd_oi :: int
  cd_spread :: dec
  cd_dte :: int
  cd_premium :: dec

definition min_dte :: "int \<Rightarrow> rules \<Rightarrow> exn + int" where
  "min_dte horizon_days r =
     (let calendar = - ((- horizon_days * 7) div 5) in
      bind_e (option_min_dte r) (\<lambda>floor_dte.
      bind_e (option_close_at_dte r) (\<lambda>cl_dte.
      Inr (max floor_dte (calendar + cl_dte + EXTRA_WEEK)))))"

definition delta_band :: "rules \<Rightarrow> exn + dec \<times> dec" where
  "delta_band r =
     bind_e (rules_get r ''manual'' ''option_min_delta'') (\<lambda>a.
     bind_e (rules_get r ''strategy'' ''option_min_delta'') (\<lambda>b.
     bind_e (rules_get r ''manual'' ''option_max_delta'') (\<lambda>hi. Inr (max a b, hi))))"

definition kind_for :: "direction \<Rightarrow> opt_kind" where
  "kind_for d = (if d = Up then CALL else PUT)"

record select_limits =
  sl_lo_dte :: int
  sl_hi_dte :: int
  sl_d_lo :: dec
  sl_d_hi :: dec
  sl_target :: dec
  sl_min_oi :: int
  sl_max_spread :: dec

definition limits_of :: "int \<Rightarrow> rules \<Rightarrow> exn + select_limits" where
  "limits_of horizon_days r =
     bind_e (min_dte horizon_days r) (\<lambda>lo_dte.
     bind_e (rules_int r ''strategy'' ''option_max_dte'') (\<lambda>hi_dte.
     bind_e (delta_band r) (\<lambda>(d_lo, d_hi).
     bind_e (rules_get r ''strategy'' ''option_target_delta'') (\<lambda>tgt.
     bind_e (rules_int r ''manual'' ''option_min_open_interest'') (\<lambda>min_oi.
     bind_e (rules_get r ''manual'' ''option_max_spread_pct_of_mid'') (\<lambda>max_spread.
     Inr \<lparr>sl_lo_dte = lo_dte, sl_hi_dte = hi_dte, sl_d_lo = d_lo, sl_d_hi = d_hi, sl_target = tgt,
          sl_min_oi = min_oi, sl_max_spread = max_spread\<rparr>))))))"

definition spread_of :: "option_contract \<Rightarrow> exn + dec" where
  "spread_of c =
     (let mid = ddiv_nz (dadd (oc_bid c) (oc_ask c)) 2 in
      bind_e (ddiv (dsub (oc_ask c) (oc_bid c)) mid) (\<lambda>x. Inr (dmul x 100)))"

text \<open>One contract of the loop: \<open>continue\<close> is \<open>None\<close>, a ranked candidate carries its sort key.\<close>

definition rank_contract ::
  "select_limits \<Rightarrow> opt_kind \<Rightarrow> dec \<Rightarrow> option_contract \<Rightarrow> exn + ((dec \<times> dec \<times> int) \<times> option_candidate) option" where
  "rank_contract l kind premium_cap c =
     (case oc_delta c of
        None \<Rightarrow> Inr None
      | Some delta \<Rightarrow>
          (let d = \<bar>fix28 delta\<bar> in
           if oc_kind c \<noteq> kind then Inr None
           else if \<not> (sl_lo_dte l \<le> oc_dte c \<and> oc_dte c \<le> sl_hi_dte l) then Inr None
           else if \<not> (sl_d_lo l \<le> d \<and> d \<le> sl_d_hi l) then Inr None
           else if oc_oi c < sl_min_oi l \<or> oc_bid c \<le> 0 \<or> oc_ask c \<le> 0 \<or> oc_ask c < oc_bid c then Inr None
           else bind_e (spread_of c) (\<lambda>spread.
             let premium = dmul (oc_ask c) 100 in
             if spread > sl_max_spread l \<or> premium > premium_cap then Inr None
             else bind_e (quantize half_even 2 spread) (\<lambda>sq.
               bind_e (quantize half_even 2 premium) (\<lambda>pq.
               Inr (Some ((\<bar>dsub d (sl_target l)\<bar>, spread, - oc_oi c),
                 \<lparr>cd_osi = oc_osi c, cd_expiry = oc_expiry c, cd_strike = oc_strike c, cd_kind = oc_kind c,
                  cd_bid = oc_bid c, cd_ask = oc_ask c, cd_delta = d, cd_oi = oc_oi c, cd_spread = sq,
                  cd_dte = oc_dte c, cd_premium = pq\<rparr>)))))))"

definition somes :: "'a option list \<Rightarrow> 'a list" where
  "somes xs = List.map_filter id xs"

definition select :: "option_contract list \<Rightarrow> direction \<Rightarrow> int \<Rightarrow> dec \<Rightarrow> rules \<Rightarrow> exn + option_candidate list" where
  "select contracts direction horizon_days premium_cap r =
     bind_e (limits_of horizon_days r) (\<lambda>l.
     bind_e (map_e (rank_contract l (kind_for direction) premium_cap) contracts) (\<lambda>xs.
     Inr (map snd (take 3 (sort_key fst (somes xs))))))"

text \<open>The chain read is the broker's: \<open>option_chain symbol from to count kind\<close>.\<close>

definition fetch_candidates ::
  "(string \<Rightarrow> date \<Rightarrow> date \<Rightarrow> int \<Rightarrow> opt_kind \<Rightarrow> exn + option_contract list) \<Rightarrow> string \<Rightarrow> direction \<Rightarrow> int \<Rightarrow>
   dec \<Rightarrow> rules \<Rightarrow> date \<Rightarrow> exn + option_candidate list" where
  "fetch_candidates option_chain symbol direction horizon_days premium_cap r today =
     bind_e (min_dte horizon_days r) (\<lambda>lo.
     bind_e (rules_int r ''strategy'' ''option_max_dte'') (\<lambda>hi.
     bind_e (option_chain symbol (today + lo) (today + hi) STRIKE_COUNT (kind_for direction)) (\<lambda>chain.
     select chain direction horizon_days premium_cap r)))"

text \<open>\<open>osi.replace(" ", "").upper()\<close>, and the match of \<open>(\d{6})([CP])(\d{8})$\<close>.\<close>

definition osi_norm :: "string \<Rightarrow> string" where
  "osi_norm s = upper (remove_char CHR '' '' s)"

definition osi_tail :: "string \<Rightarrow> (string \<times> char \<times> string) option" where
  "osi_tail s =
     (let t = last_n 15 (if s \<noteq> [] \<and> last s = CHR 0x0A then butlast s else s) in
      if length t = 15 \<and> list_all is_digit (take 6 t) \<and> t ! 6 \<in> {CHR ''C'', CHR ''P''} \<and>
         list_all is_digit (drop 7 t)
      then Some (take 6 t, t ! 6, drop 7 t) else None)"

text \<open>\<open>strptime(s, "%y%m%d")\<close> on six digits.\<close>

definition parse_yymmdd :: "string \<Rightarrow> exn + date" where
  "parse_yymmdd s =
     (let yy = digits_val (take 2 s); y = (if yy \<le> 68 then 2000 + yy else 1900 + yy) in
      mk_date y (digits_val (take 2 (drop 2 s))) (digits_val (drop 4 s)))"

definition osi_expiry :: "string \<Rightarrow> exn + date" where
  "osi_expiry osi =
     (case osi_tail (osi_norm osi) of None \<Rightarrow> Inl ValueError | Some (ymd, _, _) \<Rightarrow> parse_yymmdd ymd)"

definition same_osi :: "string \<Rightarrow> string \<Rightarrow> bool" where
  "same_osi a b \<longleftrightarrow> osi_norm a = osi_norm b"

section \<open>Properties\<close>

lemma set_somes: "set (somes xs) = {y. Some y \<in> set xs}"
  unfolding somes_def by (induction xs) (auto simp: List.map_filter_def split: option.splits)

lemma map_e_in: "map_e f xs = Inr ys \<Longrightarrow> y \<in> set ys \<Longrightarrow> \<exists>x \<in> set xs. f x = Inr y"
  by (induction xs arbitrary: ys) (auto simp: err)

text \<open>What a ranked contract satisfies.\<close>

definition clears_floors :: "select_limits \<Rightarrow> opt_kind \<Rightarrow> dec \<Rightarrow> option_contract \<Rightarrow> bool" where
  "clears_floors l kind premium_cap c \<longleftrightarrow> oc_kind c = kind \<and> sl_lo_dte l \<le> oc_dte c \<and> oc_dte c \<le> sl_hi_dte l \<and>
     (\<exists>d. oc_delta c = Some d \<and> sl_d_lo l \<le> \<bar>fix28 d\<bar> \<and> \<bar>fix28 d\<bar> \<le> sl_d_hi l) \<and> sl_min_oi l \<le> oc_oi c \<and>
     0 < oc_bid c \<and> oc_bid c \<le> oc_ask c \<and> (\<exists>s. spread_of c = Inr s \<and> s \<le> sl_max_spread l) \<and>
     dmul (oc_ask c) 100 \<le> premium_cap"

lemma rank_contract_clears:
  assumes "rank_contract l k cap c = Inr (Some (key, cand))"
  shows "clears_floors l k cap c \<and> cd_osi cand = oc_osi c \<and> cd_ask cand = oc_ask c \<and>
    (\<exists>d s. oc_delta c = Some d \<and> spread_of c = Inr s \<and> key = (\<bar>dsub \<bar>fix28 d\<bar> (sl_target l)\<bar>, s, - oc_oi c))"
  using assms
  by (auto simp: rank_contract_def clears_floors_def Let_def err not_less not_le split: option.splits if_splits)

text \<open>The candidates offered are at most three, each is a contract of the chain that
  clears every floor (kind, days to expiration, delta, open interest, two-sided market,
  spread, premium cap), and they come in the order of the ranking: any contract that ranks
  strictly before an offered one is offered too.\<close>

theorem select_sound:
  assumes sel: "select chain dir h cap r = Inr cands" and lim: "limits_of h r = Inr l"
  shows "length cands \<le> 3 \<and>
    (\<forall>cd \<in> set cands. \<exists>c \<in> set chain. clears_floors l (kind_for dir) cap c \<and> cd_osi cd = oc_osi c \<and>
       cd_ask cd = oc_ask c) \<and>
    (\<exists>ranked. sorted (map fst ranked) \<and> map snd ranked = cands \<and>
       (\<forall>c \<in> set chain. \<forall>key cd. rank_contract l (kind_for dir) cap c = Inr (Some (key, cd)) \<longrightarrow>
          (\<exists>x \<in> set ranked. key < fst x) \<longrightarrow> cd \<in> set cands))"
proof -
  obtain xs where xs: "map_e (rank_contract l (kind_for dir) cap) chain = Inr xs"
    and c: "cands = map snd (take 3 (sort_key fst (somes xs)))"
    using sel lim by (auto simp: select_def err)
  define S where "S = sort_key fst (somes xs)"
  have mem: "\<exists>c \<in> set chain. rank_contract l (kind_for dir) cap c = Inr (Some y)" if "y \<in> set S" for y
    using that map_e_in [OF xs] by (auto simp: S_def set_somes)
  have all: "y \<in> set S" if m: "x \<in> set chain" "rank_contract l (kind_for dir) cap x = Inr (Some y)" for x y
  proof -
    obtain i where i: "i < length chain" "chain ! i = x" using m(1) by (auto simp: in_set_conv_nth)
    then have "xs ! i = Some y" using map_e_nth [OF xs i(1)] m(2) by simp
    then have "Some y \<in> set xs" using i(1) map_e_length [OF xs] by (auto simp: in_set_conv_nth)
    then show ?thesis by (simp add: S_def set_somes)
  qed
  have srt: "sorted (map fst S)" by (simp add: S_def)
  have "cd \<in> set cands" if "(key, cd) \<in> set S" "x \<in> set (take 3 S)" "key < fst x" for key cd x
  proof -
    have "(key, cd) \<in> set (take 3 S) \<union> set (drop 3 S)" using that(1) by (metis append_take_drop_id set_append)
    moreover have "(key, cd) \<notin> set (drop 3 S)"
    proof
      assume "(key, cd) \<in> set (drop 3 S)"
      moreover have "sorted (map fst (take 3 S) @ map fst (drop 3 S))"
        using srt by (metis append_take_drop_id map_append)
      ultimately have "fst x \<le> key" using that(2) by (fastforce simp: sorted_append)
      then show False using that(3) by simp
    qed
    ultimately show ?thesis by (force simp: c S_def [symmetric])
  qed
  then have top: "\<forall>c \<in> set chain. \<forall>key cd. rank_contract l (kind_for dir) cap c = Inr (Some (key, cd)) \<longrightarrow>
          (\<exists>x \<in> set (take 3 S). key < fst x) \<longrightarrow> cd \<in> set cands" using all by blast
  have "\<forall>cd \<in> set cands. \<exists>c \<in> set chain. clears_floors l (kind_for dir) cap c \<and> cd_osi cd = oc_osi c \<and> cd_ask cd = oc_ask c"
    using mem unfolding c S_def [symmetric] by (fastforce dest: rank_contract_clears in_set_takeD)
  moreover have "sorted (map fst (take 3 S))" using srt by (simp add: take_map [symmetric] sorted_wrt_take)
  moreover have "length cands \<le> 3" "map snd (take 3 S) = cands" by (simp_all add: c S_def)
  ultimately show ?thesis using top by blast
qed

definition sample_contract :: option_contract where
  "sample_contract = \<lparr>oc_osi = ''MSFT  261218C00050000'', oc_expiry = 739968, oc_strike = 50, oc_kind = CALL,
     oc_bid = 2, oc_ask = 21 / 10, oc_delta = Some (1 / 2), oc_oi = 900, oc_dte = 60\<rparr>"

lemma rules_yml_options [simp]:
  "rules_int rules_yml ''manual'' ''option_min_dte'' = Inr 18"
  "rules_int rules_yml ''manual'' ''option_close_at_dte'' = Inr 5"
  "rules_get rules_yml ''manual'' ''option_min_delta'' = Inr (45 / 100)"
  "rules_get rules_yml ''manual'' ''option_max_delta'' = Inr (75 / 100)"
  "rules_get rules_yml ''strategy'' ''option_min_delta'' = Inr (45 / 100)"
  "rules_int rules_yml ''manual'' ''option_min_open_interest'' = Inr 500"
  "rules_get rules_yml ''manual'' ''option_max_spread_pct_of_mid'' = Inr 10"
  "rules_int rules_yml ''strategy'' ''option_max_dte'' = Inr 60"
  "rules_get rules_yml ''strategy'' ''option_target_delta'' = Inr (60 / 100)"
  by (simp_all add: rules_defs rules_yml_def int_of_dec_def)

lemma sample_limits:
  "limits_of 5 rules_yml = Inr \<lparr>sl_lo_dte = 19, sl_hi_dte = 60, sl_d_lo = 45 / 100, sl_d_hi = 75 / 100,
     sl_target = 60 / 100, sl_min_oi = 500, sl_max_spread = 10\<rparr>"
  by (simp add: limits_of_def min_dte_def delta_band_def option_min_dte_def option_close_at_dte_def EXTRA_WEEK_def)

lemma sample_spread: "spread_of (sample_contract\<lparr>oc_ask := 2\<rparr>) = Inr 0"
  by (simp add: spread_of_def sample_contract_def dec_eval)

lemma sample_select:
  "\<exists>cd. select [sample_contract\<lparr>oc_ask := 2\<rparr>, sample_contract\<lparr>oc_delta := None\<rparr>] Up 5 300 rules_yml = Inr [cd]"
  using sample_spread
  by (simp add: select_def sample_limits rank_contract_def kind_for_def somes_def List.map_filter_def)
    (simp add: sample_contract_def dec_eval exI [of _ "1 / 10"])

theorem select_sound_witness:
  "\<exists>cd. select [sample_contract\<lparr>oc_ask := 2\<rparr>, sample_contract\<lparr>oc_delta := None\<rparr>] Up 5 300 rules_yml = Inr [cd] \<and>
     cd_ask cd = 2"
proof -
  obtain cd where cd: "select [sample_contract\<lparr>oc_ask := 2\<rparr>, sample_contract\<lparr>oc_delta := None\<rparr>] Up 5 300 rules_yml = Inr [cd]"
    using sample_select by blast
  show ?thesis using select_sound [OF cd sample_limits] cd
    by (auto simp: clears_floors_def)
qed

text \<open>The shortest expiry considered outlasts the call: it is at least the manual's
  floor, and after the forced close before expiry and a spare week the calendar days left
  still hold the horizon's trading days at five sessions a week. One day less would not.\<close>

theorem min_dte_covers:
  assumes "min_dte h r = Inr n" and "option_min_dte r = Inr floor_dte" and "option_close_at_dte r = Inr cl_dte"
  shows "floor_dte \<le> n \<and> 7 * h \<le> 5 * (n - cl_dte - EXTRA_WEEK) \<and>
    (n = floor_dte \<or> 5 * (n - cl_dte - EXTRA_WEEK - 1) < 7 * h)"
proof -
  have n: "n = max floor_dte (- ((- h * 7) div 5) + cl_dte + EXTRA_WEEK)"
    using assms by (simp add: min_dte_def)
  define q where "q = - ((- h * 7) div 5)"
  have "7 * h \<le> 5 * q" "5 * (q - 1) < 7 * h" unfolding q_def by presburger+
  then show ?thesis using n unfolding q_def [symmetric] by (auto simp: max_def)
qed

theorem min_dte_covers_witness: "min_dte 20 rules_yml = Inr 40 \<and> 7 * 20 \<le> 5 * ((40::int) - 5 - EXTRA_WEEK)"
proof -
  have "min_dte 20 rules_yml = Inr 40"
    by (simp add: min_dte_def option_min_dte_def option_close_at_dte_def EXTRA_WEEK_def)
  then show ?thesis using min_dte_covers [of 20 rules_yml 40 18 5]
    by (simp add: option_min_dte_def option_close_at_dte_def)
qed

text \<open>Padding and case do not matter in a contract symbol: symbols that compare equal
  name the same expiry, and a symbol and its normal form are the same contract.\<close>

theorem same_osi_expiry:
  "(same_osi a b \<longrightarrow> osi_expiry a = osi_expiry b) \<and> same_osi a (osi_norm a)"
proof -
  have up: "up_char x = CHR '' '' \<longleftrightarrow> x = CHR '' ''" for x
  proof
    assume u: "up_char x = CHR '' ''"
    show "x = CHR '' ''"
    proof (cases "97 \<le> code x \<and> code x \<le> 122")
      case True
      then have "code x - 32 < 256" by linarith
      then have "code (up_char x) = code x - 32" using True by (simp add: up_char_def code_char_of)
      moreover have "code CHR '' '' = 32" by (simp add: code_def)
      ultimately have "code x - 32 = 32" unfolding u by metis
      then have False using True by linarith
      then show ?thesis ..
    next
      case False
      then show ?thesis using u by (auto simp: up_char_def)
    qed
  qed (simp add: up_char_def code_def)
  have "remove_char CHR '' '' (upper s) = upper (remove_char CHR '' '' s)" for s
    by (simp add: remove_char_def upper_def filter_map comp_def up)
  then have "osi_norm (osi_norm a) = osi_norm a"
    by (simp add: osi_norm_def remove_char_def)
  then show ?thesis by (simp add: same_osi_def osi_expiry_def)
qed

theorem same_osi_expiry_witness:
  "osi_expiry ''msft  261218c00050000'' = osi_expiry ''MSFT261218C00050000'' \<and>
   osi_expiry ''MSFT261218C00050000'' = Inr 739968"
proof -
  have "same_osi ''msft  261218c00050000'' ''MSFT261218C00050000''" by code_simp
  moreover have "osi_expiry ''MSFT261218C00050000'' = Inr 739968" by code_simp
  ultimately show ?thesis using same_osi_expiry by blast
qed

end
