(* ===== verification/TC_Pm.thy ===== *)
theory TC_Pm
  imports TC_Paper TC_Scoring TC_Options
begin

text \<open>
  The PM's side of the desk (tc/desk/pm.py): calls, funding, extensions, tightenings and exit
  requests. The broker is a parameter: a record of the reads the desk makes of it, each of
  which may raise. An operation returns the new desk; a refusal leaves the desk it was given.
\<close>

section \<open>Broker reads\<close>

record quote =
  qt_last :: dec
  qt_bid :: dec
  qt_ask :: dec
  qt_time :: instant

record broker =
  br_quotes :: "string list \<Rightarrow> exn + (string \<rightharpoonup> quote)"
  br_option_chain :: "string \<Rightarrow> date \<Rightarrow> date \<Rightarrow> int \<Rightarrow> opt_kind \<Rightarrow> exn + option_contract list"

section \<open>tc/desk/pm.py\<close>

definition QUOTE_MAX_AGE_S :: int where "QUOTE_MAX_AGE_S = 300"
definition CORR_BARS :: nat where "CORR_BARS = 80"
definition CORR_DAYS :: nat where "CORR_DAYS = 60"
definition ATR_DAYS :: nat where "ATR_DAYS = 14"

record pm_ctx =
  px_broker :: broker
  px_rules :: rules
  px_desk :: desk_config
  px_reserve :: dec
  px_now :: instant
  px_zone :: zone

definition today :: "pm_ctx \<Rightarrow> date" where
  "today ctx = et_date (px_zone ctx) (px_now ctx)"

record call_in =
  ci_pitch :: "int option"
  ci_symbol :: string
  ci_direction :: direction
  ci_thesis :: string
  ci_target :: string
  ci_inval :: string
  ci_horizon :: int
  ci_conviction :: int
  ci_bench :: string
  ci_funding :: funding
  ci_max_entry :: "string option"
  ci_option :: "string option"
  ci_legacy :: bool

record call_out =
  co_call :: int
  co_origin :: origin
  co_ref :: dec
  co_proposal :: "proposal option"

record plan =
  pl_instr :: instrument
  pl_symbol :: string
  pl_qty :: int
  pl_max_entry :: dec
  pl_atr :: "dec option"

text \<open>\<open>list(dict.fromkeys(xs))\<close>: the first of each.\<close>

definition first_of_each :: "'a list \<Rightarrow> 'a list" where
  "first_of_each xs = rev (remdups (rev xs))"

definition check_quote :: "instant \<Rightarrow> (string \<rightharpoonup> quote) \<Rightarrow> string \<Rightarrow> exn + unit" where
  "check_quote now got s =
     (case got s of
        None \<Rightarrow> Inl (FundRefused NoQuote)
      | Some q \<Rightarrow> raise_if (now - qt_time q > us_of_s QUOTE_MAX_AGE_S) (FundRefused StaleQuote))"

definition fresh_quotes :: "pm_ctx \<Rightarrow> string list \<Rightarrow> exn + (string \<rightharpoonup> quote)" where
  "fresh_quotes ctx symbols =
     (let wanted = first_of_each symbols in
      case br_quotes (px_broker ctx) wanted of
        Inl e \<Rightarrow> if e = BrokerUnauthorized then Inl (FundRefused BrokerBlind)
                 else if e = BrokerError then Inl (FundRefused QuoteReadFailed) else Inl e
      | Inr got \<Rightarrow> bind_e (fold_e (\<lambda>s _. check_quote (px_now ctx) got s) wanted ()) (\<lambda>_. Inr got))"

definition quote_of :: "(string \<rightharpoonup> quote) \<Rightarrow> string \<Rightarrow> exn + quote" where
  "quote_of got s = the_or (KeyError s) (got s)"

definition correlated_with :: "desk \<Rightarrow> rules \<Rightarrow> string \<Rightarrow> book_state_t \<Rightarrow> exn + string set" where
  "correlated_with st r symbol book =
     bind_e (rules_get r ''manual'' ''correlation_threshold'') (\<lambda>threshold.
     let mine = bars_for st symbol None (Some CORR_BARS) in
     Inr (foldl (\<lambda>out h.
            if h_symbol h = symbol \<or> h_symbol h \<in> out then out
            else case log_return_corr mine (bars_for st (h_symbol h) None (Some CORR_BARS)) CORR_DAYS of
                   Some x \<Rightarrow> if x > threshold then insert (h_symbol h) out else out
                 | None \<Rightarrow> out) {} (holdings book)))"

text \<open>The chase ceiling over a price: \<open>price * (1 + chase / 100)\<close>.\<close>

definition chase_ceiling :: "dec \<Rightarrow> dec \<Rightarrow> dec" where
  "chase_ceiling price chase = dmul price (dadd 1 (ddiv_nz chase 100))"

definition fund_shares ::
  "pm_ctx \<Rightarrow> desk \<Rightarrow> call_in \<Rightarrow> string \<Rightarrow> string \<Rightarrow> dec \<Rightarrow> dec \<Rightarrow> dec \<Rightarrow> book_state_t \<Rightarrow> string set \<Rightarrow> exn + plan" where
  "fund_shares ctx st cin symbol bench last_px inval chase book correlated =
     bind_e (raise_if (ci_direction cin \<noteq> Up) (FundRefused SharesFundUpOnly)) (\<lambda>_.
     bind_e (the_or (FundRefused NeedsMaxEntry) (ci_max_entry cin)) (\<lambda>txt.
     bind_e (parse_price txt) (\<lambda>max_entry.
     bind_e (raise_if (max_entry > chase_ceiling last_px chase) (FundRefused ChasesPrice)) (\<lambda>_.
     bind_e (atr_pct (bars_for st symbol None (Some CORR_BARS)) ATR_DAYS) (\<lambda>a.
     bind_e (the_or (FundRefused NoAtr) a) (\<lambda>atr.
     bind_e (rules_get (px_rules ctx) ''strategy'' ''max_daily_atr_pct'') (\<lambda>ceiling_pct.
     bind_e (if atr > ceiling_pct then bind_e (cents atr) (\<lambda>_. Inl (FundRefused AtrOverCeiling)) else Inr ()) (\<lambda>_.
     bind_e (raise_if (inval \<ge> max_entry) (FundRefused InvalidationAboveEntry)) (\<lambda>_.
     bind_e (share_quantity (ci_conviction cin) (equity book) max_entry (px_rules ctx)) (\<lambda>qty.
     bind_e (check_book book symbol bench (dmul max_entry (of_int qty)) False correlated (px_rules ctx)
              (px_reserve ctx)) (\<lambda>_.
     Inr \<lparr>pl_instr = Shares, pl_symbol = symbol, pl_qty = qty, pl_max_entry = max_entry, pl_atr = Some atr\<rparr>)))))))))))"

definition fund_option ::
  "pm_ctx \<Rightarrow> desk \<Rightarrow> call_in \<Rightarrow> string \<Rightarrow> string \<Rightarrow> dec \<Rightarrow> book_state_t \<Rightarrow> string set \<Rightarrow> exn + plan" where
  "fund_option ctx st cin symbol bench chase book correlated =
     (let want = (if ci_direction cin = Up then CallOpt else PutOpt);
          want_f = (if ci_direction cin = Up then FCall else FPut); r = px_rules ctx in
      bind_e (raise_if (ci_funding cin \<noteq> want_f) (FundRefused WrongOptionSide)) (\<lambda>_.
      bind_e (case ci_option cin of None \<Rightarrow> Inl (FundRefused NeedsOptionSymbol)
              | Some s \<Rightarrow> if s = [] then Inl (FundRefused NeedsOptionSymbol) else Inr s) (\<lambda>wanted_osi.
      bind_e (conviction_pct KOption (ci_conviction cin) r) (\<lambda>pct.
      bind_e (cap_dollars pct (equity book)) (\<lambda>cap.
      bind_e (case fetch_candidates (br_option_chain (px_broker ctx)) symbol (ci_direction cin) (ci_horizon cin)
                     cap r (today ctx) of
                Inl e \<Rightarrow> if e = BrokerError \<or> e = BrokerUnauthorized then Inl (FundRefused ChainReadFailed) else Inl e
              | Inr cs \<Rightarrow> Inr cs) (\<lambda>cands.
      bind_e (the_or (FundRefused ContractNotAmongCandidates)
                (find (\<lambda>c. same_osi (cd_osi c) wanted_osi) cands)) (\<lambda>chosen.
      bind_e (fresh_quotes ctx [cd_osi chosen]) (\<lambda>got.
      bind_e (quote_of got (cd_osi chosen)) (\<lambda>q.
      bind_e (cents (chase_ceiling (qt_ask q) chase)) (\<lambda>ceiling_px.
      bind_e (case ci_max_entry cin of
                None \<Rightarrow> Inr ceiling_px
              | Some txt \<Rightarrow> bind_e (parse_price txt) (\<lambda>m.
                  bind_e (raise_if (m > ceiling_px) (FundRefused ChasesPrice)) (\<lambda>_. Inr m))) (\<lambda>max_entry.
      bind_e (option_quantity (ci_conviction cin) (equity book) max_entry r) (\<lambda>qty.
      bind_e (check_book book symbol bench (dmul (dmul max_entry 100) (of_int qty)) True correlated r
               (px_reserve ctx)) (\<lambda>_.
      Inr \<lparr>pl_instr = want, pl_symbol = cd_osi chosen, pl_qty = qty, pl_max_entry = max_entry,
           pl_atr = None\<rparr>)))))))))))))"

definition fund :: "pm_ctx \<Rightarrow> desk \<Rightarrow> call_in \<Rightarrow> string \<Rightarrow> string \<Rightarrow> dec \<Rightarrow> dec \<Rightarrow> exn + plan" where
  "fund ctx st cin symbol bench last_px inval =
     bind_e (conviction_pct (if ci_funding cin = FShares then KShares else KOption) (ci_conviction cin) (px_rules ctx)) (\<lambda>_.
     bind_e (rules_get (px_rules ctx) ''strategy'' ''max_entry_chase_pct'') (\<lambda>chase.
     bind_e (book_state st None) (\<lambda>book.
     bind_e (correlated_with st (px_rules ctx) symbol book) (\<lambda>correlated.
     if ci_funding cin = FShares
     then fund_shares ctx st cin symbol bench last_px inval chase book correlated
     else fund_option ctx st cin symbol bench chase book correlated))))"

text \<open>The quotes every call is stamped with: the last prices of the symbol, SPY and the benchmark.\<close>

definition stamp_quotes :: "pm_ctx \<Rightarrow> string \<Rightarrow> string \<Rightarrow> exn + dec \<times> dec \<times> dec" where
  "stamp_quotes ctx symbol bench =
     bind_e (fresh_quotes ctx [symbol, ''SPY'', bench]) (\<lambda>q.
     bind_e (quote_of q symbol) (\<lambda>a. bind_e (quote_of q ''SPY'') (\<lambda>b. bind_e (quote_of q bench) (\<lambda>c.
     Inr (qt_last a, qt_last b, qt_last c)))))"

definition legacy_call ::
  "pm_ctx \<Rightarrow> desk \<Rightarrow> call_in \<Rightarrow> string \<Rightarrow> string \<Rightarrow> dec \<Rightarrow> dec \<Rightarrow> exn + call_out \<times> desk" where
  "legacy_call ctx st cin symbol bench target inval =
     bind_e (raise_if (ci_funding cin \<noteq> FNone) (CallRefused LegacyFunded)) (\<lambda>_.
     bind_e (raise_if (case real_positions st of None \<Rightarrow> True | Some ps \<Rightarrow> symbol \<notin> fst ` set ps)
              (CallRefused NotInRealAccount)) (\<lambda>_.
     bind_e (raise_if (open_call_for st symbol (ci_direction cin) True \<noteq> None) (CallRefused LegacyCallOpen)) (\<lambda>_.
     bind_e (stamp_quotes ctx symbol bench) (\<lambda>(last_px, spy_ref, bench_ref).
     bind_e (check_levels (ci_direction cin) last_px target inval (px_rules ctx)) (\<lambda>_.
     bind_e (insert_call st \<lparr>c_id = 0, c_made_at = px_now ctx, c_session = today ctx, c_origin = OLegacy,
              c_pitch_id = None, c_extends = None, c_symbol = symbol, c_direction = ci_direction cin,
              c_thesis = ci_thesis cin, c_target = target, c_inval = inval, c_horizon = ci_horizon cin,
              c_conviction = ci_conviction cin, c_bench = bench, c_ref_price = last_px, c_spy_ref = spy_ref,
              c_bench_ref = bench_ref, c_funding = FNone\<rparr>) (\<lambda>(c, st').
     Inr (\<lparr>co_call = c_id c, co_origin = OLegacy, co_ref = last_px, co_proposal = None\<rparr>, st')))))))"

text \<open>The adopted pitch must be open and agree with the call; the call's origin.\<close>

definition adopt :: "desk \<Rightarrow> call_in \<Rightarrow> string \<Rightarrow> exn + origin" where
  "adopt st cin symbol =
     (case ci_pitch cin of
        None \<Rightarrow> Inr OPm
      | Some k \<Rightarrow> (case get_pitch st k of
            None \<Rightarrow> Inl (CallRefused PitchNotOpen)
          | Some (p, w) \<Rightarrow>
              if w \<or> resolution_for st KPitch (p_id p) \<noteq> None then Inl (CallRefused PitchNotOpen)
              else if (p_symbol p, p_direction p) \<noteq> (symbol, ci_direction cin) then Inl (CallRefused PitchMismatch)
              else Inr OPitch))"

definition submit_call :: "pm_ctx \<Rightarrow> desk \<Rightarrow> call_in \<Rightarrow> exn + call_out \<times> desk" where
  "submit_call ctx st cin =
     (let symbol = upper (strip (ci_symbol cin)); r = px_rules ctx in
      bind_e (check_benchmark (ci_bench cin)) (\<lambda>bench.
      bind_e (check_horizon (ci_horizon cin) r) (\<lambda>_.
      bind_e (parse_price (ci_target cin)) (\<lambda>target.
      bind_e (parse_price (ci_inval cin)) (\<lambda>inval.
      if ci_legacy cin then legacy_call ctx st cin symbol bench target inval
      else
      bind_e (raise_if (symbol \<notin> tradeable_symbols st (px_desk ctx)) (CallRefused CallNotTradeable)) (\<lambda>_.
      bind_e (rules_int r ''strategy'' ''desk_max_new_calls_per_day'') (\<lambda>cap.
      bind_e (raise_if (calls_made_on st (today ctx) \<ge> cap) (CallRefused DailyCallCap)) (\<lambda>_.
      bind_e (raise_if (open_call_for st symbol (ci_direction cin) False \<noteq> None) (CallRefused CallStillOpen)) (\<lambda>_.
      bind_e (adopt st cin symbol) (\<lambda>origin.
      bind_e (stamp_quotes ctx symbol bench) (\<lambda>(last_px, spy_ref, bench_ref).
      bind_e (check_levels (ci_direction cin) last_px target inval r) (\<lambda>_.
      bind_e (if ci_funding cin = FNone then Inr None
              else bind_e (fund ctx st cin symbol bench last_px inval) (\<lambda>p. Inr (Some p))) (\<lambda>pl.
      bind_e (insert_call st \<lparr>c_id = 0, c_made_at = px_now ctx, c_session = today ctx, c_origin = origin,
               c_pitch_id = ci_pitch cin, c_extends = None, c_symbol = symbol, c_direction = ci_direction cin,
               c_thesis = ci_thesis cin, c_target = target, c_inval = inval, c_horizon = ci_horizon cin,
               c_conviction = ci_conviction cin, c_bench = bench, c_ref_price = last_px, c_spy_ref = spy_ref,
               c_bench_ref = bench_ref, c_funding = ci_funding cin\<rparr>) (\<lambda>(c, st1).
      case pl of
        None \<Rightarrow> Inr (\<lparr>co_call = c_id c, co_origin = c_origin c, co_ref = last_px, co_proposal = None\<rparr>, st1)
      | Some p \<Rightarrow>
          bind_e (create_proposal st1 (c_id c) (px_now ctx) (pl_instr p) (pl_symbol p) symbol (pl_qty p)
                   (pl_max_entry p) (pl_atr p)) (\<lambda>(prop, st2).
          Inr (\<lparr>co_call = c_id c, co_origin = c_origin c, co_ref = last_px, co_proposal = Some prop\<rparr>, st2))))))))))))))))"

fun held_by_loop :: "desk \<Rightarrow> int \<Rightarrow> paper_position list \<Rightarrow> exn + bool" where
  "held_by_loop st k [] = Inr False"
| "held_by_loop st k (p # ps) =
     bind_e (current_call_id st (pp_call p)) (\<lambda>c. if c = k then Inr True else held_by_loop st k ps)"

definition held_by :: "desk \<Rightarrow> int \<Rightarrow> exn + bool" where
  "held_by st k = held_by_loop st k (open_positions st)"

definition extend_call ::
  "pm_ctx \<Rightarrow> desk \<Rightarrow> int \<Rightarrow> string \<Rightarrow> string \<Rightarrow> int \<Rightarrow> string \<Rightarrow> exn + call_out \<times> desk" where
  "extend_call ctx st k target inval horizon_days thesis_txt =
     bind_e (case get_call st k of None \<Rightarrow> Inl (CallRefused NoDeskCall)
             | Some c \<Rightarrow> if c_origin c = OLegacy then Inl (CallRefused NoDeskCall) else Inr c) (\<lambda>old.
     bind_e (raise_if (c_extends old \<noteq> None \<or> is_extended st k) (CallRefused AlreadyExtended)) (\<lambda>_.
     bind_e (raise_if (case resolution_for st KCall k of None \<Rightarrow> True | Some x \<Rightarrow> r_how x \<noteq> HHorizon)
              (CallRefused NotAtHorizon)) (\<lambda>_.
     bind_e (held_by st k) (\<lambda>held.
     bind_e (raise_if (\<not> held) (CallRefused NoOpenPosition)) (\<lambda>_.
     bind_e (check_horizon horizon_days (px_rules ctx)) (\<lambda>_.
     bind_e (parse_price target) (\<lambda>t.
     bind_e (parse_price inval) (\<lambda>i.
     bind_e (stamp_quotes ctx (c_symbol old) (c_bench old)) (\<lambda>(last_px, spy_ref, bench_ref).
     bind_e (check_levels (c_direction old) last_px t i (px_rules ctx)) (\<lambda>_.
     bind_e (insert_call st \<lparr>c_id = 0, c_made_at = px_now ctx, c_session = today ctx, c_origin = OPm,
              c_pitch_id = None, c_extends = Some k, c_symbol = c_symbol old, c_direction = c_direction old,
              c_thesis = thesis_txt, c_target = t, c_inval = i, c_horizon = horizon_days,
              c_conviction = c_conviction old, c_bench = c_bench old, c_ref_price = last_px, c_spy_ref = spy_ref,
              c_bench_ref = bench_ref, c_funding = c_funding old\<rparr>) (\<lambda>(c, st').
     Inr (\<lparr>co_call = c_id c, co_origin = c_origin c, co_ref = last_px, co_proposal = None\<rparr>, st'))))))))))))"

text \<open>The new level sits strictly between the current one and the last price.\<close>

definition tightens :: "direction \<Rightarrow> dec \<Rightarrow> dec \<Rightarrow> dec \<Rightarrow> bool" where
  "tightens direction cur new last_px =
     (if direction = Up then cur < new \<and> new < last_px else last_px < new \<and> new < cur)"

definition tighten_call :: "pm_ctx \<Rightarrow> desk \<Rightarrow> int \<Rightarrow> string \<Rightarrow> exn + dec \<times> desk" where
  "tighten_call ctx st k inval =
     bind_e (the_or (CallRefused NoCall) (get_call st k)) (\<lambda>call.
     bind_e (raise_if (c_origin call = OLegacy) (CallRefused LegacyStop)) (\<lambda>_.
     bind_e (raise_if (resolution_for st KCall k \<noteq> None) (CallRefused CallResolved)) (\<lambda>_.
     bind_e (held_by st k) (\<lambda>held.
     bind_e (raise_if (\<not> held) (CallRefused NoOpenPosition)) (\<lambda>_.
     bind_e (parse_price inval) (\<lambda>new.
     let cur = effective_invalidation st call in
     bind_e (fresh_quotes ctx [c_symbol call]) (\<lambda>got.
     bind_e (quote_of got (c_symbol call)) (\<lambda>q.
     bind_e (raise_if (\<not> tightens (c_direction call) cur new (qt_last q)) (CallRefused NotATightening)) (\<lambda>_.
     bind_e (tighten st k new (px_now ctx)) (\<lambda>st'. Inr (new, st')))))))))))"

datatype exit_kind = PaperExit | LegacyExit

definition request_exit_for :: "pm_ctx \<Rightarrow> desk \<Rightarrow> string \<Rightarrow> string \<Rightarrow> exn + exit_kind \<times> desk" where
  "request_exit_for ctx st symbol reason =
     (let sym = upper (strip symbol); held = filter (\<lambda>p. pp_underlying p = sym) (open_positions st) in
      bind_e (fold_e (\<lambda>p s. bind_e (request_exit s sym (Some (pp_pid p)) reason (px_now ctx)) (\<lambda>(_, s'). Inr s'))
               held st) (\<lambda>st1.
      if held \<noteq> [] then Inr (PaperExit, st1)
      else (case real_positions st1 of
              Some ps \<Rightarrow> if sym \<in> fst ` set ps
                        then bind_e (request_exit st1 sym None reason (px_now ctx)) (\<lambda>(_, st2). Inr (LegacyExit, st2))
                        else Inl (CallRefused NothingHeld)
            | None \<Rightarrow> Inl (CallRefused NothingHeld))))"

record position_view =
  pv_pid :: int
  pv_call :: int
  pv_symbol :: string
  pv_instr :: instrument
  pv_qty :: int
  pv_entry :: dec
  pv_mark :: "dec option"
  pv_trigger :: "dec option"
  pv_target :: dec
  pv_inval :: dec
  pv_horizon :: int
  pv_session :: date

record legacy_view =
  lv_symbol :: string
  lv_qty :: int
  lv_value :: dec
  lv_call :: "int option"

record paper_book_out =
  pb_start :: "date option"
  pb_equity :: "dec option"
  pb_cash :: "dec option"
  pb_premium :: "dec option"
  pb_positions :: "position_view list"
  pb_pending :: "proposal list"
  pb_legacy :: "legacy_view list"

definition legacy_of :: "desk \<Rightarrow> string \<times> int \<times> dec \<Rightarrow> legacy_view" where
  "legacy_of st = (\<lambda>(s, n, v).
     let lc = (case open_call_for st s Up True of Some c \<Rightarrow> Some c | None \<Rightarrow> open_call_for st s Down True) in
     \<lparr>lv_symbol = s, lv_qty = n, lv_value = v, lv_call = map_option c_id lc\<rparr>)"

definition position_view_of :: "desk \<Rightarrow> paper_position \<Rightarrow> exn + position_view" where
  "position_view_of st p =
     bind_e (current_call_id st (pp_call p)) (\<lambda>cid.
     bind_e (the_or AssertionError (get_call st cid)) (\<lambda>call.
     let inval = effective_invalidation st call in
     Inr \<lparr>pv_pid = pp_pid p, pv_call = c_id call, pv_symbol = pp_symbol p, pv_instr = pp_instr p, pv_qty = pp_qty p,
          pv_entry = pp_entry p, pv_mark = marks_tbl st (pp_symbol p),
          pv_trigger = map_option (\<lambda>t. max t inval) (pp_trigger p), pv_target = c_target call, pv_inval = inval,
          pv_horizon = c_horizon call, pv_session = c_session call\<rparr>))"

definition paper_book_view :: "desk \<Rightarrow> exn + paper_book_out" where
  "paper_book_view st =
     (let legacy = map (legacy_of st) (case real_positions st of None \<Rightarrow> [] | Some ps \<Rightarrow> ps) in
      case paper_book st of
        None \<Rightarrow> Inr \<lparr>pb_start = None, pb_equity = None, pb_cash = None, pb_premium = None, pb_positions = [],
                    pb_pending = [], pb_legacy = legacy\<rparr>
      | Some (d, _) \<Rightarrow>
          bind_e (book_state st None) (\<lambda>state.
          bind_e (map_e (position_view_of st) (open_positions st)) (\<lambda>ps.
          bind_e (cents (equity state)) (\<lambda>e. bind_e (cents (book_cash state)) (\<lambda>c.
          bind_e (cents (open_premium state)) (\<lambda>op.
          Inr \<lparr>pb_start = Some d, pb_equity = Some e, pb_cash = Some c, pb_premium = Some op, pb_positions = ps,
               pb_pending = pending_proposals st, pb_legacy = legacy\<rparr>))))))"

section \<open>What a new call changes\<close>

lemma insert_call_facts:
  assumes "insert_call st c = Inr (c', st')"
  shows "c' = c\<lparr>c_id := next_id c_id (calls st)\<rparr>" "st' = st\<lparr>calls := calls st @ [c']\<rparr>" "call_ok st c"
  using assms by (auto simp: insert_call_def Let_def split: if_splits)

lemma find_snoc: "find P (xs @ [x]) = (case find P xs of None \<Rightarrow> if P x then Some x else None | Some y \<Rightarrow> Some y)"
  by (induction xs) auto

lemma extension_of_insert:
  assumes "insert_call st c = Inr (c', st')" and "c_extends c = None"
  shows "extension_of st' k = extension_of st k"
  using insert_call_facts(1,2) [OF assms(1)] assms(2)
  by (auto simp: extension_of_def find_snoc split: option.split)

lemma follow_extensions_mono:
  "follow_extensions n st k = Inr k' \<Longrightarrow> n \<le> m \<Longrightarrow> follow_extensions m st k = Inr k'"
proof (induction n arbitrary: k m)
  case (Suc n)
  then show ?case by (cases m) (auto split: option.splits)
qed simp

lemma current_call_id_insert:
  assumes ins: "insert_call st c = Inr (c', st')" "c_extends c = None" and wf: "calls_wf st"
  shows "current_call_id st' k = current_call_id st k"
proof -
  have same: "follow_extensions n st' j = follow_extensions n st j" for n j
    by (induction n arbitrary: j) (simp_all add: extension_of_insert [OF ins] split: option.split)
  obtain k' where "current_call_id st k = Inr k'" using current_call_id_exists [OF wf] by blast
  moreover have "length (calls st) \<le> length (calls st')" using insert_call_facts(2) [OF ins(1)] by simp
  ultimately show ?thesis
    by (simp add: current_call_id_def same del: follow_extensions.simps) (meson Suc_le_mono follow_extensions_mono)
qed

lemma current_call_id_in:
  assumes "current_call_id st k = Inr k'" and "k \<in> c_id ` set (calls st)"
  shows "k' \<in> c_id ` set (calls st)"
proof -
  have "k' \<in> c_id ` set (calls st)" if "follow_extensions n st j = Inr k'" "j \<in> c_id ` set (calls st)" for n j
    using that
  proof (induction n arbitrary: j)
    case (Suc n)
    show ?case
    proof (cases "extension_of st j")
      case (Some c)
      then have "c_id c \<in> c_id ` set (calls st)" by (auto simp: extension_of_def dest: find_Some_in)
      with Suc Some show ?thesis by simp
    qed (use Suc in simp)
  qed simp
  with assms show ?thesis by (auto simp: current_call_id_def simp del: follow_extensions.simps)
qed

lemma bench_of_insert:
  assumes "insert_call st c = Inr (c', st')" and "k \<in> c_id ` set (calls st)"
  shows "bench_of st' k = bench_of st k"
proof -
  obtain x where "get_call st k = Some x"
    using assms(2) by (cases "get_call st k") (auto simp: get_call_def find_None)
  then show ?thesis using insert_call_facts(2) [OF assms(1)] by (simp add: bench_of_def get_call_def find_snoc)
qed

text \<open>A call that extends nothing does not move the book.\<close>

lemma book_state_insert_call:
  assumes ins: "insert_call st c = Inr (c', st')" "c_extends c = None" and wf: "book_wf st"
  shows "book_state st' ex = book_state st ex"
proof -
  note f = insert_call_facts(2) [OF ins(1)]
  have tbl: "proposals st' = proposals st" "fills st' = fills st" "outcomes st' = outcomes st"
    "paper_book st' = paper_book st" "marks_tbl st' = marks_tbl st" by (simp_all add: f)
  have pos: "open_positions st' = open_positions st"
  proof -
    have "position_of st' = position_of st" by (intro ext) (simp add: position_of_def sold_def tbl)
    then show ?thesis by (simp add: open_positions_def tbl)
  qed
  have com: "committed_proposals st' = committed_proposals st"
    by (simp add: committed_proposals_def has_outcome_def has_buy_def tbl)
  have cash: "cash st' e = cash st e" for e by (simp add: cash_def joined_fills_def tbl)
  have "position_holding st' p = position_holding st p" if "p \<in> set (open_positions st)" for p
  proof -
    have "pp_call p \<in> c_id ` set (calls st)"
      using that open_position_facts [OF wf] book_wfD(3) [OF wf] by (auto simp: position_of_def)
    moreover obtain k where k: "current_call_id st (pp_call p) = Inr k"
      using current_call_id_exists [OF book_wfD(1) [OF wf]] by blast
    ultimately have "bench_of st' k = bench_of st k" using bench_of_insert [OF ins(1)] current_call_id_in by blast
    then show ?thesis
      using k current_call_id_insert [OF ins book_wfD(1) [OF wf]] by (simp add: position_holding_def tbl)
  qed
  then have m: "map_e (position_holding st') (open_positions st) = map_e (position_holding st) (open_positions st)"
    by (intro map_e_cong) auto
  have "proposal_holding st' q = proposal_holding st q" if "q \<in> set (committed_proposals st)" for q
    using that bench_of_insert [OF ins(1)] book_wfD(3) [OF wf] by (simp add: committed_facts proposal_holding_def)
  then have ph: "map (proposal_holding st') (filter (\<lambda>q. Some (q_id q) \<noteq> ex) (committed_proposals st)) =
      map (proposal_holding st) (filter (\<lambda>q. Some (q_id q) \<noteq> ex) (committed_proposals st))" by auto
  show ?thesis unfolding book_state_def pos com cash m tbl Let_def ph by (rule refl)
qed

section \<open>Tightening\<close>

lemma effective_after_tighten:
  assumes "tighten st k new now = Inr st'"
  shows "effective_invalidation st' c = (if c_id c = k then new else effective_invalidation st c)"
  using assms by (auto simp: tighten_def effective_invalidation_def split: if_splits)

lemma tighten_call_facts:
  assumes "tighten_call ctx st k txt = Inr (new, st')"
  shows "\<exists>c (q :: quote). get_call st k = Some c \<and> c_origin c \<noteq> OLegacy \<and> resolution_for st KCall k = None \<and>
      held_by st k = Inr True \<and> tightens (c_direction c) (effective_invalidation st c) new (qt_last q) \<and>
      tighten st k new (px_now ctx) = Inr st'"
  using assms by (auto simp: tighten_call_def err Let_def)

text \<open>A tightening is accepted only for an open desk call with an open paper position,
  and only moves the invalidation strictly towards the last price: up for an up call, down
  for a down call, never back. It changes no other call's level and no other table.\<close>

theorem tighten_call_monotone:
  assumes "tighten_call ctx st k txt = Inr (new, st')"
  shows "\<exists>c last_px. get_call st k = Some c \<and> c_origin c \<noteq> OLegacy \<and> resolution_for st KCall k = None \<and>
    held_by st k = Inr True \<and> effective_invalidation st' c = new \<and>
    (if c_direction c = Up then effective_invalidation st c < new \<and> new < last_px
     else last_px < new \<and> new < effective_invalidation st c) \<and>
    (\<forall>c'. c_id c' \<noteq> k \<longrightarrow> effective_invalidation st' c' = effective_invalidation st c') \<and>
    st' = st\<lparr>tightenings := tightenings st'\<rparr>"
proof -
  from tighten_call_facts [OF assms] obtain c and q :: quote where c: "get_call st k = Some c" "c_origin c \<noteq> OLegacy" "resolution_for st KCall k = None"
    "held_by st k = Inr True"
    and ok: "tightens (c_direction c) (effective_invalidation st c) new (qt_last q)"
    and t: "tighten st k new (px_now ctx) = Inr st'" by blast
  have "st' = st\<lparr>tightenings := tightenings st'\<rparr>" using t by (auto simp: tighten_def split: if_splits)
  moreover have "c_id c = k" using get_call_in [OF c(1)] by simp
  ultimately show ?thesis
    using c ok effective_after_tighten [OF t]
    by (intro exI [of _ c] exI [of _ "qt_last q"]) (auto simp: tightens_def)
qed

section \<open>Extensions\<close>

text \<open>A call is extended at most once, and an extension is not extended again.\<close>

definition ext_wf :: "desk \<Rightarrow> bool" where
  "ext_wf st \<longleftrightarrow>
     (\<forall>c \<in> set (calls st). \<forall>k. c_extends c = Some k \<longrightarrow>
        (\<exists>old \<in> set (calls st). c_id old = k \<and> c_extends old = None) \<and>
        (\<forall>c' \<in> set (calls st). c_extends c' = Some k \<longrightarrow> c' = c))"

lemma ext_wf_insert_plain:
  assumes "insert_call st c = Inr (c', st')" and "c_extends c = None" and "ext_wf st"
  shows "ext_wf st'"
  using assms(3) insert_call_facts(1,2) [OF assms(1)] assms(2) by (fastforce simp: ext_wf_def)

lemma get_call_unique: "calls_wf st \<Longrightarrow> c \<in> set (calls st) \<Longrightarrow> get_call st (c_id c) = Some c"
proof -
  assume wf: "calls_wf st" and c: "c \<in> set (calls st)"
  then obtain x where x: "get_call st (c_id c) = Some x"
    by (cases "get_call st (c_id c)") (auto simp: get_call_def find_None)
  then have "x \<in> set (calls st)" "c_id x = c_id c" using get_call_in by auto
  then have "x = c" using sorted_ids_inj [of c_id "calls st" x c] wf c by (simp add: calls_wf_def)
  with x show ?thesis by simp
qed

lemma extend_call_facts:
  assumes "extend_call ctx st k tg iv h th = Inr (out, st')"
  shows "\<exists>old c'. get_call st k = Some old \<and> c_origin old \<noteq> OLegacy \<and> c_extends old = None \<and> extension_of st k = None \<and>
    (\<exists>x. resolution_for st KCall k = Some x \<and> r_how x = HHorizon) \<and> held_by st k = Inr True \<and>
    co_call out = c_id c' \<and> (\<exists>c. insert_call st c = Inr (c', st') \<and>
    c_extends c = Some k \<and> c_symbol c = c_symbol old \<and> c_direction c = c_direction old \<and>
    c_conviction c = c_conviction old \<and> c_origin c = OPm)"
  using assms
  by (auto simp: extend_call_def err is_extended_def split: option.splits if_splits)
    (rule exI, rule conjI, rule refl, rule exI, rule conjI, assumption, simp)

lemma extend_call_ext_wf:
  assumes "extend_call ctx st k tg iv h th = Inr (out, st')" and wf: "calls_wf st" "ext_wf st"
  shows "ext_wf st' \<and> extension_of st' k \<noteq> None"
proof -
  obtain old c c' where old: "get_call st k = Some old" "c_extends old = None" "extension_of st k = None"
    and ins: "insert_call st c = Inr (c', st')" "c_extends c = Some k"
    using extend_call_facts [OF assms(1)] by blast
  have st': "st' = st\<lparr>calls := calls st @ [c']\<rparr>" "c_extends c' = Some k" "c_id c' = next_id c_id (calls st)"
    using insert_call_facts [OF ins(1)] ins(2) by simp_all
  have none: "\<forall>x \<in> set (calls st). c_extends x \<noteq> Some k"
    using old(3) by (simp add: extension_of_def find_None)
  have o: "old \<in> set (calls st)" "c_id old = k" using get_call_in [OF old(1)] by auto
  have "ext_wf st'" unfolding ext_wf_def
  proof (intro ballI allI impI conjI)
    fix x j assume x: "x \<in> set (calls st')" "c_extends x = Some j"
    show "\<exists>old \<in> set (calls st'). c_id old = j \<and> c_extends old = None"
      using x wf(2) o old(2) st'(2) unfolding st'(1) ext_wf_def by (cases "x = c'") fastforce+
    fix y assume "y \<in> set (calls st')" "c_extends y = Some j"
    then show "y = x" using x none wf(2) st'(2) unfolding st'(1) ext_wf_def by auto
  qed
  moreover have "extension_of st' k \<noteq> None" using st' by (auto simp: extension_of_def find_snoc split: option.split)
  ultimately show ?thesis by simp
qed

text \<open>Only a call that ran to its horizon with its position still open can be extended, and
  only once: afterwards it is extended by exactly the new call, a second extension of either
  of them is refused, and following the chain from it ends at the new call.\<close>

theorem extend_call_once:
  assumes ext: "extend_call ctx st k tg iv h th = Inr (out, st')" and wf: "calls_wf st" "ext_wf st"
  shows "(\<exists>x. resolution_for st KCall k = Some x \<and> r_how x = HHorizon) \<and> held_by st k = Inr True \<and>
    ext_wf st' \<and> current_call_id st' k = Inr (co_call out) \<and>
    extend_call ctx' st' k tg' iv' h' th' = Inl (CallRefused AlreadyExtended) \<and>
    extend_call ctx' st' (co_call out) tg' iv' h' th' = Inl (CallRefused AlreadyExtended)"
proof -
  obtain old c c' where old: "get_call st k = Some old" "c_origin old \<noteq> OLegacy" "c_extends old = None" "extension_of st k = None"
    and res: "\<exists>x. resolution_for st KCall k = Some x \<and> r_how x = HHorizon" "held_by st k = Inr True"
    and out: "co_call out = c_id c'" and ins: "insert_call st c = Inr (c', st')" "c_extends c = Some k" "c_origin c = OPm"
    using extend_call_facts [OF ext] by blast
  have st': "st' = st\<lparr>calls := calls st @ [c']\<rparr>" "c_extends c' = Some k" "c_id c' = next_id c_id (calls st)"
    using insert_call_facts [OF ins(1)] ins(2) by simp_all
  have wf': "calls_wf st'" using insert_call_wf [OF ins(1) wf(1)] .
  have e: "ext_wf st'" using extend_call_ext_wf [OF ext wf] by simp
  have x1: "extension_of st' k = Some c'" using old(4) st' by (auto simp: extension_of_def find_snoc)
  have c': "get_call st' (c_id c') = Some c'" by (rule get_call_unique [OF wf']) (simp add: st'(1))
  have x2: "extension_of st' (c_id c') = None" unfolding extension_of_def find_None
  proof (intro ballI notI)
    fix x assume x: "x \<in> set (calls st')" "c_extends x = Some (c_id c')"
    from e [unfolded ext_wf_def, rule_format, OF x] obtain y where "y \<in> set (calls st')" "c_id y = c_id c'" "c_extends y = None"
      by blast
    then show False using get_call_unique [OF wf', of y] c' st'(2) by (metis option.inject option.distinct(1))
  qed
  have o': "get_call st' k = Some old" using old(1) by (simp add: st'(1) get_call_def find_snoc)
  have len: "length (calls st') = Suc (length (calls st))" by (simp add: st'(1))
  have "current_call_id st' k = Inr (c_id c')" by (simp add: current_call_id_def x1 x2 len)
  moreover have "extend_call ctx' st' k tg' iv' h' th' = Inl (CallRefused AlreadyExtended)"
    using old(2,3) x1 by (simp add: extend_call_def o' is_extended_def)
  moreover have "extend_call ctx' st' (c_id c') tg' iv' h' th' = Inl (CallRefused AlreadyExtended)"
  proof -
    have "c_origin c' = OPm" using insert_call_facts(1) [OF ins(1)] ins(3) by simp
    then show ?thesis using st'(2) by (simp add: extend_call_def c')
  qed
  ultimately show ?thesis using res e by (simp add: out)
qed

section \<open>Funding keeps the limits\<close>

lemma fund_checked:
  assumes "fund ctx st cin symbol bench last_px inval = Inr pl"
  shows "\<exists>book corr ntl. book_state st None = Inr book \<and> correlated_with st (px_rules ctx) symbol book = Inr corr \<and>
    check_book book symbol bench ntl (pl_instr pl \<noteq> Shares) corr (px_rules ctx) (px_reserve ctx) = Inr () \<and>
    1 \<le> pl_qty pl \<and>
    ntl = (if pl_instr pl = Shares then dmul (pl_max_entry pl) (of_int (pl_qty pl))
           else dmul (dmul (pl_max_entry pl) 100) (of_int (pl_qty pl)))"
proof -
  obtain chase book corr where b: "book_state st None = Inr book"
    "correlated_with st (px_rules ctx) symbol book = Inr corr"
    and f: "if ci_funding cin = FShares then fund_shares ctx st cin symbol bench last_px inval chase book corr = Inr pl
            else fund_option ctx st cin symbol bench chase book corr = Inr pl"
    using assms by (auto simp: fund_def err split: if_splits)
  have q1: "1 \<le> n" if "share_quantity cv eq me r = Inr n" for cv eq me r n
    using that by (auto simp: share_quantity_def err not_less)
  have q2: "1 \<le> n" if "option_quantity cv eq me r = Inr n" for cv eq me r n
    using that by (auto simp: option_quantity_def err not_less Let_def)
  show ?thesis
  proof (cases "ci_funding cin = FShares")
    case True
    with f have "fund_shares ctx st cin symbol bench last_px inval chase book corr = Inr pl" by simp
    then show ?thesis using b q1 by (auto simp: fund_shares_def err)
  next
    case False
    with f have "fund_option ctx st cin symbol bench chase book corr = Inr pl" by simp
    then show ?thesis using b q2 by (auto simp: fund_option_def err Let_def split: if_splits)
  qed
qed

lemma submit_call_shape:
  assumes "submit_call ctx st cin = Inr (out, st')"
  shows "\<exists>c c' st1. insert_call st c = Inr (c', st1) \<and> c_extends c = None \<and> c_session c = today ctx \<and>
    co_call out = c_id c' \<and>
    (co_proposal out = None \<and> st' = st1 \<or>
     (\<exists>pl p inval bench. \<not> ci_legacy cin \<and> fund ctx st cin (upper (strip (ci_symbol cin))) bench (co_ref out) inval = Inr pl \<and>
        co_proposal out = Some p \<and>
        create_proposal st1 (c_id c') (px_now ctx) (pl_instr pl) (pl_symbol pl) (upper (strip (ci_symbol cin)))
          (pl_qty pl) (pl_max_entry pl) (pl_atr pl) = Inr (p, st')))"
proof (cases "ci_legacy cin")
  case True
  then show ?thesis using assms
    by (auto simp: submit_call_def legacy_call_def err Let_def)
      (rule exI, rule exI, rule conjI, assumption, simp)
next
  case False
  show ?thesis
  proof (cases "ci_funding cin = FNone")
    case True
    then show ?thesis using assms False
      by (auto simp: submit_call_def err Let_def) (rule exI, rule exI, rule conjI, assumption, simp)
  next
    case fd: False
    then show ?thesis using assms False
      by (auto simp: submit_call_def err Let_def) (rule exI, rule exI, rule exI, rule conjI, assumption, auto)
  qed
qed

lemma submit_call_book_wf:
  assumes "submit_call ctx st cin = Inr (out, st')" and "book_wf st"
  shows "book_wf st'"
  using submit_call_shape [OF assms(1)] insert_call_book_wf create_proposal_book_wf assms(2) by metis

text \<open>With exact products the amount checked is the amount committed.\<close>

lemma worst_case_exact:
  assumes g: "m * 10 ^ j \<in> \<int>" "1 \<le> (n :: int)" and f: "fits j (m * of_int n * 100)"
  shows "dmul (dmul m 100) (of_int n) = m * of_int n * 100" "dmul (dmul m (of_int n)) 100 = m * of_int n * 100"
proof -
  have i: "m * 10 ^ j * of_int n \<in> \<int>" "m * 10 ^ j * 100 \<in> \<int>" using g(1) by auto
  have a: "\<bar>m\<bar> \<le> \<bar>m\<bar> * of_int n" using g(2) by (simp add: mult_le_cancel_left1)
  have "fits j (m * of_int n)"
    by (rule fits_mono_abs [OF f]) (use i(1) g(2) in \<open>simp_all add: abs_mult mult_ac\<close>)
  moreover have "fits j (m * 100)"
    by (rule fits_mono_abs [OF f]) (use i(2) a g(2) in \<open>simp_all add: abs_mult mult_ac\<close>)
  ultimately show "dmul (dmul m 100) (of_int n) = m * of_int n * 100" "dmul (dmul m (of_int n)) 100 = m * of_int n * 100"
    using fits_exact [OF f] by (simp_all add: dmul_def fits_exact mult_ac)
qed

lemma check_book_cash:
  "check_book book symbol bench ntl opt corr r reserve = Inr () \<Longrightarrow> reserve \<le> dsub (book_cash book) ntl"
  "check_book book symbol bench ntl opt corr r reserve = Inr () \<Longrightarrow>
   \<exists>m. rules_int r ''strategy'' ''max_funded_positions'' = Inr m \<and> int (length (holdings book)) < m"
  by (auto simp: check_book_def err Let_def not_less not_le)

lemma submit_call_checked:
  assumes sub: "submit_call ctx st cin = Inr (out, st')" and p: "co_proposal out = Some p"
    and g: "q_max_entry p * 10 ^ j \<in> \<int>" "fits j (q_max_entry p * of_int (q_qty p) * 100)"
    and b: "book_state st None = Inr b"
  shows "\<exists>bench corr. check_book b (q_underlying p) bench (worst_case p) (q_instr p \<noteq> Shares) corr (px_rules ctx)
    (px_reserve ctx) = Inr ()"
proof -
  obtain c c' st1 inval bench and pl :: plan where ins: "insert_call st c = Inr (c', st1)" "c_extends c = None"
    and f: "fund ctx st cin (upper (strip (ci_symbol cin))) bench (co_ref out) inval = Inr pl"
    and new: "create_proposal st1 (c_id c') (px_now ctx) (pl_instr pl) (pl_symbol pl) (upper (strip (ci_symbol cin)))
          (pl_qty pl) (pl_max_entry pl) (pl_atr pl) = Inr (p, st')"
    using submit_call_shape [OF sub] p by auto
  have q: "q_instr p = pl_instr pl" "q_qty p = pl_qty pl" "q_max_entry p = pl_max_entry pl"
    "q_underlying p = upper (strip (ci_symbol cin))"
    using new by (auto simp: create_proposal_def Let_def split: if_splits)
  obtain corr ntl where ck: "check_book b (q_underlying p) bench ntl (q_instr p \<noteq> Shares) corr (px_rules ctx) (px_reserve ctx) = Inr ()"
    "1 \<le> q_qty p" "ntl = (if q_instr p = Shares then dmul (q_max_entry p) (of_int (q_qty p))
           else dmul (dmul (q_max_entry p) 100) (of_int (q_qty p)))"
    using fund_checked [OF f] unfolding b sum.inject q by blast
  have "ntl = worst_case p"
    using ck(3) worst_case_exact [OF g(1) ck(2) g(2)]
    by (cases "q_instr p") (simp_all add: worst_case_def dmul_def)
  with ck(1) show ?thesis by auto
qed

text \<open>C3: funding a call never spends into the reserve. When a call is accepted with a
  proposal, the book counts the proposal's worst-case cost as spent from that moment on: the
  cash left still covers the reserve, the equity has not moved, and the number of positions
  and pending proposals is within the limit.\<close>

theorem submit_call_keeps_reserve:
  assumes sub: "submit_call ctx st cin = Inr (out, st')" and p: "co_proposal out = Some p"
    and wf: "book_wf st" and b: "paper_book st = Some (d, e)" "book_state st None = Inr b"
    and g: "q_max_entry p * 10 ^ j \<in> \<int>" "fits j (q_max_entry p * of_int (q_qty p) * 100)"
    and fit: "amounts_fit j (cash st e) (map market_value (holdings b)) (worst_case p)"
    and m: "rules_int (px_rules ctx) ''strategy'' ''max_funded_positions'' = Inr m"
  shows "\<exists>b'. book_state st' None = Inr b' \<and> px_reserve ctx \<le> book_cash b' \<and> equity b' = equity b \<and>
    int (length (holdings b')) \<le> m"
proof -
  obtain c c' st1 and pl :: plan where ins: "insert_call st c = Inr (c', st1)" "c_extends c = None"
    and new: "create_proposal st1 (c_id c') (px_now ctx) (pl_instr pl) (pl_symbol pl) (upper (strip (ci_symbol cin)))
          (pl_qty pl) (pl_max_entry pl) (pl_atr pl) = Inr (p, st')"
    using submit_call_shape [OF sub] p by auto
  note st1 = insert_call_facts(2) [OF ins(1)]
  have wf1: "book_wf st1" by (rule insert_call_book_wf [OF ins(1) wf])
  have c1: "cash st1 e = cash st e" "paper_book st1 = Some (d, e)"
    using b(1) by (simp_all add: st1 cash_def joined_fills_def)
  have b1: "book_state st1 None = Inr b" using b(2) book_state_insert_call [OF ins wf] by simp
  have fit1: "amounts_fit j (cash st1 e) (map market_value (holdings b)) (worst_case p)" using fit c1 by simp
  obtain b' where b': "book_state st' None = Inr b'" "equity b' = equity b" "book_cash b' = book_cash b - worst_case p"
    "holdings b' = holdings b @ [proposal_holding st1 p]"
    using commit_effect [OF new wf1 c1(2) b1 fit1] by blast
  obtain bench corr where ck: "check_book b (q_underlying p) bench (worst_case p) (q_instr p \<noteq> Shares) corr (px_rules ctx)
    (px_reserve ctx) = Inr ()" using submit_call_checked [OF sub p g b(2)] by blast
  have "dsub (book_cash b) (worst_case p) = book_cash b - worst_case p"
    using commit_cash_exact [OF b1 c1(2) fit1] .
  then show ?thesis
    using b' check_book_cash [OF ck] m by auto
qed

section \<open>An example desk\<close>

text \<open>Quotes a moment old for the three symbols of a call, no option chain.\<close>

definition sample_quotes :: "string \<rightharpoonup> quote" where
  "sample_quotes = [''MSFT'' \<mapsto> \<lparr>qt_last = 50, qt_bid = 50, qt_ask = 50, qt_time = combine 739870 (hm 15 0)\<rparr>,
     ''SPY'' \<mapsto> \<lparr>qt_last = 600, qt_bid = 600, qt_ask = 600, qt_time = combine 739870 (hm 15 0)\<rparr>,
     ''XLK'' \<mapsto> \<lparr>qt_last = 250, qt_bid = 250, qt_ask = 250, qt_time = combine 739870 (hm 15 0)\<rparr>]"

definition sample_broker :: broker where
  "sample_broker = \<lparr>br_quotes = (\<lambda>_. Inr sample_quotes), br_option_chain = (\<lambda>_ _ _ _ _. Inr [])\<rparr>"

definition sample_ctx :: pm_ctx where
  "sample_ctx = \<lparr>px_broker = sample_broker, px_rules = rules_yml, px_desk = sample_config, px_reserve = 900,
     px_now = combine 739870 (hm 15 1), px_zone = edt\<rparr>"

text \<open>Fifteen sessions of MSFT with a daily range of one dollar around 50: an ATR of two percent.\<close>

definition sample_bars15 :: "(string \<times> daily_bar) list" where
  "sample_bars15 = map (\<lambda>d. (''MSFT'', sample_bar d 50 (101 / 2) (99 / 2) 50)) (map int [739850..<739865])"

definition sample_funded_in :: call_in where
  "sample_funded_in = \<lparr>ci_pitch = None, ci_symbol = ''msft'', ci_direction = Up, ci_thesis = ''a long enough thesis'',
     ci_target = ''54.50'', ci_inval = ''48'', ci_horizon = 5, ci_conviction = 4, ci_bench = ''xlk'',
     ci_funding = FShares, ci_max_entry = Some ''50'', ci_option = None, ci_legacy = False\<rparr>"

definition sample_pm_desk :: desk where
  "sample_pm_desk = empty_desk\<lparr>bars := sample_bars15, paper_book := Some (739870, 10000),
     qualified_symbols := [(''MSFT'', 1)]\<rparr>"

lemma sample_stamp: "stamp_quotes sample_ctx ''MSFT'' ''XLK'' = Inr (50, 600, 250)"
  by (simp add: stamp_quotes_def fresh_quotes_def sample_ctx_def sample_broker_def first_of_each_def check_quote_def
      sample_quotes_def QUOTE_MAX_AGE_S_def us_defs combine_def quote_of_def err raise_if_def)

lemma sample_atr: "atr_pct (bars_for sample_pm_desk ''MSFT'' None (Some CORR_BARS)) ATR_DAYS = Inr (Some 2)"
proof -
  have "bars_for sample_pm_desk ''MSFT'' None (Some CORR_BARS) =
      map (\<lambda>d. sample_bar d 50 (101 / 2) (99 / 2) 50) (map int [739850..<739865])"
    by (simp add: bars_for_def sample_pm_desk_def sample_bars15_def CORR_BARS_def last_n_def upt_rec sample_bar_def)
  then show ?thesis
    by (simp add: atr_pct_def ATR_DAYS_def last_n_def before_last_n_def true_range_def mean_e_def sample_bar_def
        upt_rec HUNDRED_def dec_eval)
qed

lemma sample_pm_state: "book_state sample_pm_desk None = Inr \<lparr>equity = 10000, book_cash = 10000, holdings = []\<rparr>"
  by (simp add: book_state_def sample_pm_desk_def empty_desk_def open_positions_def committed_proposals_def
      cash_def joined_fills_def dec_eval)

lemma sample_pm_wf: "book_wf sample_pm_desk"
  by (simp add: book_wf_def calls_wf_def sample_pm_desk_def empty_desk_def)

lemma sample_share_quantity: "share_quantity 4 10000 50 rules_yml = Inr 30"
  by (simp add: share_quantity_def conviction_pct_yml cap_dollars_def HUNDRED_def dec_eval
      cong: bind_e_weak_cong let_weak_cong)

lemma sample_fund:
  "fund sample_ctx sample_pm_desk sample_funded_in ''MSFT'' ''XLK'' 50 48 =
     Inr \<lparr>pl_instr = Shares, pl_symbol = ''MSFT'', pl_qty = 30, pl_max_entry = 50, pl_atr = Some 2\<rparr>"
proof -
  have p: "parse_price ''50'' = Inr 50" by code_simp
  have c: "check_book \<lparr>equity = 10000, book_cash = 10000, holdings = []\<rparr> ''MSFT'' ''XLK'' 1500 False {} rules_yml 900 = Inr ()"
    by (simp add: check_book_def over_cap_def cap_dollars_def HUNDRED_def dec_eval
        cong: bind_e_weak_cong let_weak_cong)
  show ?thesis
    by (simp add: fund_def sample_funded_in_def sample_pm_state correlated_with_def fund_shares_def p sample_atr
        sample_ctx_def chase_ceiling_def sample_share_quantity c conviction_pct_yml dec_eval
        cong: bind_e_weak_cong let_weak_cong)
qed

lemma sample_submit_call:
  "\<exists>out p st'. submit_call sample_ctx sample_pm_desk sample_funded_in = Inr (out, st') \<and>
     co_proposal out = Some p \<and> q_max_entry p = 50 \<and> q_qty p = 30 \<and> q_instr p = Shares"
proof -
  have t: "tradeable_symbols sample_pm_desk sample_config = {''MSFT'', ''SPY''}"
    by (auto simp: tradeable_symbols_def sample_pm_desk_def sample_config_def)
  have l: "check_levels Up 50 (109 / 2) 48 rules_yml = Inr ()"
    by (simp add: check_levels_def level_distance_def dec_eval)
  have d: "rules_int rules_yml ''strategy'' ''desk_max_new_calls_per_day'' = Inr 5"
    by (simp add: rules_defs rules_yml_def int_of_dec_def)
  have c: "calls sample_pm_desk = []" "check_horizon 5 rules_yml = Inr ()"
    by (simp_all add: sample_pm_desk_def empty_desk_def check_horizon_def)
  have f: "ci_symbol sample_funded_in = ''msft''" "ci_bench sample_funded_in = ''xlk''" "ci_target sample_funded_in = ''54.50''"
    "ci_inval sample_funded_in = ''48''" "ci_horizon sample_funded_in = 5" "ci_conviction sample_funded_in = 4"
    "ci_funding sample_funded_in = FShares" "\<not> ci_legacy sample_funded_in" "ci_pitch sample_funded_in = None"
    "ci_direction sample_funded_in = Up" "px_rules sample_ctx = rules_yml" "px_desk sample_ctx = sample_config"
    by (simp_all add: sample_funded_in_def sample_ctx_def)
  show ?thesis
    by (simp add: submit_call_def f sample_text c t d calls_made_on_def open_call_for_def adopt_def sample_stamp l
        sample_fund insert_call_def call_ok_def create_proposal_def Let_def cong: bind_e_weak_cong)
qed

theorem submit_call_keeps_reserve_witness:
  "\<exists>out st' b'. submit_call sample_ctx sample_pm_desk sample_funded_in = Inr (out, st') \<and>
     book_state st' None = Inr b' \<and> 900 \<le> book_cash b' \<and> equity b' = 10000"
proof -
  obtain out p st' where sub: "submit_call sample_ctx sample_pm_desk sample_funded_in = Inr (out, st')"
    "co_proposal out = Some p" and q: "q_max_entry p = 50" "q_qty p = 30" "q_instr p = Shares"
    using sample_submit_call by blast
  have w: "worst_case p = 1500" by (simp add: worst_case_def q dec_eval)
  have b: "paper_book sample_pm_desk = Some (739870, 10000)" "cash sample_pm_desk 10000 = 10000"
    by (simp_all add: sample_pm_desk_def cash_def joined_fills_def empty_desk_def)
  have g: "q_max_entry p * 10 ^ 0 \<in> \<int>" "fits 0 (q_max_entry p * of_int (q_qty p) * 100)"
    "amounts_fit 0 (cash sample_pm_desk 10000) (map market_value (holdings
        \<lparr>equity = 10000, book_cash = 10000, holdings = []\<rparr>)) (worst_case p)"
    by (simp_all add: q w b fits_def amounts_fit_def)
  have m: "rules_int (px_rules sample_ctx) ''strategy'' ''max_funded_positions'' = Inr 8" by (simp add: sample_ctx_def)
  have r: "px_reserve sample_ctx = 900" by (simp add: sample_ctx_def)
  show ?thesis
    using submit_call_keeps_reserve [OF sub sample_pm_wf b(1) sample_pm_state g m] sub(1) r by auto
qed

text \<open>A desk that holds thirty shares on call 1, which has run to its horizon.\<close>

definition sample_held :: desk where
  "sample_held = empty_desk\<lparr>calls := [sample_call 1 None], paper_book := Some (739870, 10000),
     proposals := [\<lparr>q_id = 1, q_call = 1, q_created = 0, q_instr = Shares, q_symbol = ''MSFT'', q_underlying = ''MSFT'',
       q_qty = 30, q_max_entry = 50, q_atr = Some 2, q_posted = Some 0, q_deadline = Some 0, q_msg = None\<rparr>],
     outcomes := [\<lparr>o_pid = 1, o_at = 0, o_outcome = Filled, o_vetoed = False, o_approved = False\<rparr>],
     fills := [\<lparr>f_pid = 1, f_at = 0, f_side = Buy, f_qty = 30, f_price = 50, f_reason = ''entry'',
       f_stop_trigger = Some 47, f_stop_limit = Some 44\<rparr>]\<rparr>"

lemma sample_held_by: "held_by sample_held 1 = Inr True"
  by (simp add: held_by_def open_positions_def sample_held_def empty_desk_def position_of_def sold_def
      current_call_id_def extension_of_def sample_call_def)

lemma sample_get_call: "get_call sample_held 1 = Some (sample_call 1 None)"
  by (simp add: get_call_def sample_held_def sample_call_def)

lemma sample_fresh: "fresh_quotes sample_ctx [''MSFT''] = Inr sample_quotes"
  by (simp add: fresh_quotes_def sample_ctx_def sample_broker_def first_of_each_def check_quote_def
      sample_quotes_def QUOTE_MAX_AGE_S_def us_defs combine_def raise_if_def)

theorem tighten_call_monotone_witness:
  "\<exists>st'. tighten_call sample_ctx sample_held 1 ''48'' = Inr (48, st') \<and>
     effective_invalidation sample_held (sample_call 1 None) = 46 \<and>
     effective_invalidation st' (sample_call 1 None) = 48"
proof -
  have e: "effective_invalidation sample_held (sample_call 1 None) = 46"
    by (simp add: effective_invalidation_def sample_held_def empty_desk_def sample_call_def)
  have "\<exists>st'. tighten sample_held 1 48 (px_now sample_ctx) = Inr st'"
    by (simp add: tighten_def sample_held_def sample_call_def)
  then obtain st' where st': "tighten sample_held 1 48 (px_now sample_ctx) = Inr st'" by blast
  have t: "tighten_call sample_ctx sample_held 1 ''48'' = Inr (48, st')"
    using st' e
    by (simp add: tighten_call_def sample_get_call sample_held_by sample_text resolution_for_def tightens_def)
      (simp add: sample_held_def empty_desk_def sample_call_def sample_fresh quote_of_def sample_quotes_def)
  from tighten_call_monotone [OF t] t e show ?thesis by (auto simp: sample_get_call)
qed

theorem extend_call_once_witness:
  "\<exists>out st'. extend_call sample_ctx (sample_held\<lparr>resolutions := [\<lparr>r_kind = KCall, r_item = 1, r_ref_date = 739863,
       r_ref_price = 50, r_resolved_on = 739869, r_how = HHorizon, r_exit = 50, r_ret = 0, r_spy_ret = 0,
       r_bench_ret = 0\<rparr>]\<rparr>) 1 ''54.50'' ''48'' 5 ''still valid'' = Inr (out, st') \<and>
     current_call_id st' 1 = Inr (co_call out)"
proof -
  let ?st = "sample_held\<lparr>resolutions := [\<lparr>r_kind = KCall, r_item = 1, r_ref_date = 739863,
       r_ref_price = 50, r_resolved_on = 739869, r_how = HHorizon, r_exit = 50, r_ret = 0, r_spy_ret = 0,
       r_bench_ret = 0\<rparr>]\<rparr>"
  have h: "held_by ?st 1 = Inr True"
    by (simp add: held_by_def open_positions_def sample_held_def empty_desk_def position_of_def sold_def
      current_call_id_def extension_of_def sample_call_def)
  have g: "get_call ?st 1 = Some (sample_call 1 None)" using sample_get_call by (simp add: get_call_def)
  have x: "\<not> is_extended ?st 1" by (simp add: is_extended_def extension_of_def sample_held_def sample_call_def)
  have l: "check_levels Up 50 (109 / 2) 48 rules_yml = Inr ()" "check_horizon 5 rules_yml = Inr ()"
    by (simp_all add: check_levels_def level_distance_def check_horizon_def dec_eval)
  have s: "c_symbol (sample_call 1 None) = ''MSFT''" "c_bench (sample_call 1 None) = ''XLK''"
    "c_direction (sample_call 1 None) = Up" "c_origin (sample_call 1 None) = OPm" "c_extends (sample_call 1 None) = None"
    "c_conviction (sample_call 1 None) = 4" "px_rules sample_ctx = rules_yml"
    by (simp_all add: sample_call_def sample_ctx_def)
  have "\<exists>out st'. extend_call sample_ctx ?st 1 ''54.50'' ''48'' 5 ''still valid'' = Inr (out, st')"
    by (simp add: extend_call_def g x h s l sample_stamp sample_text resolution_for_def err)
      (simp add: insert_call_def call_ok_def sample_held_def sample_call_def Let_def)
  then obtain out st' where e: "extend_call sample_ctx ?st 1 ''54.50'' ''48'' 5 ''still valid'' = Inr (out, st')" by blast
  have "calls_wf ?st" "ext_wf ?st" by (simp_all add: calls_wf_def ext_wf_def sample_held_def sample_call_def)
  from extend_call_once [OF e this] e show ?thesis by blast
qed

end
