(* ===== verification/TC_Post.thy ===== *)
theory TC_Post
  imports TC_Pm
begin

text \<open>
  Posting proposals behind their veto window (tc/desk/post.py) and reading the reactions to
  them (tc/desk/approval.py). Discord is a parameter: the outcome of each request by attempt
  number, and the message id a post returns. The rendered text of a message is not modelled;
  a message is the data it shows.
\<close>

section \<open>tc/desk/approval.py\<close>

definition RATE_LIMIT_RETRIES :: nat where "RATE_LIMIT_RETRIES = 2"
definition RATE_LIMIT_WAIT_CAP_S :: rat where "RATE_LIMIT_WAIT_CAP_S = 5"

record reaction =
  veto :: bool
  approve :: bool
  unreadable :: bool

record discord_user =
  u_bot :: bool
  u_id :: string

text \<open>A \<open>retry_after\<close> value: one \<open>float()\<close> accepts, or one it refuses.\<close>

datatype retry_val = RNum rat | RBad

text \<open>The body: not JSON, a list of users, an object with an optional \<open>retry_after\<close>, or anything else.\<close>

datatype body = JBad | JUsers "discord_user list" | JDict "retry_val option" | JOther

record response =
  rs_status :: int
  rs_body :: body
  rs_retry_header :: "retry_val option"

datatype http_outcome = HttpError | Resp response

definition retry_after :: "response \<Rightarrow> rat" where
  "retry_after r =
     (let wait0 = (case rs_body r of JDict w \<Rightarrow> w | _ \<Rightarrow> None);
          wait = (case wait0 of None \<Rightarrow> rs_retry_header r | Some w \<Rightarrow> Some w);
          secs = (case wait of None \<Rightarrow> 1 | Some RBad \<Rightarrow> 1 | Some (RNum x) \<Rightarrow> x) in
      min (max secs 0) RATE_LIMIT_WAIT_CAP_S)"

text \<open>
  The request loop: \<open>left\<close> retries remain. The result is the last response, if one came,
  with the number of requests made and the waits slept.
\<close>

fun users_loop :: "(nat \<Rightarrow> http_outcome) \<Rightarrow> nat \<Rightarrow> nat \<Rightarrow> rat list \<Rightarrow> response option \<times> nat \<times> rat list" where
  "users_loop get attempt left waits =
     (case get attempt of
        HttpError \<Rightarrow> (None, attempt + 1, waits)
      | Resp r \<Rightarrow>
          (case left of
             0 \<Rightarrow> (Some r, attempt + 1, waits)
           | Suc left' \<Rightarrow>
               if rs_status r \<noteq> 429 then (Some r, attempt + 1, waits)
               else users_loop get (attempt + 1) left' (waits @ [retry_after r])))"

declare users_loop.simps [simp del]

definition users :: "(nat \<Rightarrow> http_outcome) \<Rightarrow> discord_user list option" where
  "users get =
     (case fst (users_loop get 0 RATE_LIMIT_RETRIES []) of
        None \<Rightarrow> None
      | Some r \<Rightarrow>
          if rs_status r = 404 then Some []
          else if \<not> (200 \<le> rs_status r \<and> rs_status r < 300) then None
          else (case rs_body r of JUsers us \<Rightarrow> Some us | _ \<Rightarrow> None))"

definition counts :: "string option \<Rightarrow> discord_user list \<Rightarrow> bool" where
  "counts approver us = list_ex (\<lambda>u. \<not> u_bot u \<and> (approver = None \<or> Some (u_id u) = approver)) us"

definition read_reactions :: "string option \<Rightarrow> (nat \<Rightarrow> http_outcome) \<Rightarrow> (nat \<Rightarrow> http_outcome) \<Rightarrow> reaction" where
  "read_reactions approver get_veto get_approve =
     (let vetoes = users get_veto; approvals = users get_approve in
      \<lparr>veto = (case vetoes of None \<Rightarrow> False | Some us \<Rightarrow> counts approver us),
       approve = (case (vetoes, approvals) of (Some _, Some us) \<Rightarrow> counts approver us | _ \<Rightarrow> False),
       unreadable = (vetoes = None \<or> approvals = None)\<rparr>)"

definition no_reactions :: reaction where
  "no_reactions = \<lparr>veto = False, approve = False, unreadable = False\<rparr>"

lemma users_loop_bounds:
  assumes "users_loop get a left ws = (r, n, ws')" and "\<forall>w \<in> set ws. 0 \<le> w \<and> w \<le> RATE_LIMIT_WAIT_CAP_S"
  shows "n \<le> a + left + 1 \<and> length ws' \<le> length ws + left \<and> (\<forall>w \<in> set ws'. 0 \<le> w \<and> w \<le> RATE_LIMIT_WAIT_CAP_S)"
  using assms
proof (induction get a left ws rule: users_loop.induct)
  case (1 get a left ws)
  have "0 \<le> retry_after x \<and> retry_after x \<le> RATE_LIMIT_WAIT_CAP_S" for x
    by (simp add: retry_after_def Let_def RATE_LIMIT_WAIT_CAP_S_def)
  with 1 show ?case
    by (subst (asm) users_loop.simps) (fastforce split: http_outcome.splits nat.splits if_splits)
qed

text \<open>Reading one emoji makes at most three requests and sleeps at most ten seconds in
  all, whatever the server answers.\<close>

theorem users_bounded:
  "\<exists>r n waits. users_loop get 0 RATE_LIMIT_RETRIES [] = (r, n, waits) \<and> n \<le> 3 \<and> 0 \<le> sum_list waits \<and>
     sum_list waits \<le> 10"
proof -
  obtain r n waits where l: "users_loop get 0 RATE_LIMIT_RETRIES [] = (r, n, waits)" by (metis prod_cases3)
  have b: "n \<le> 3" "length waits \<le> 2" "\<forall>w \<in> set waits. 0 \<le> w \<and> w \<le> 5"
    using users_loop_bounds [OF l] by (auto simp: RATE_LIMIT_RETRIES_def RATE_LIMIT_WAIT_CAP_S_def)
  have "sum_list waits \<le> of_nat (length waits) * 5" using b(3)
    by (induction waits) (auto simp: algebra_simps)
  also have "\<dots> \<le> 2 * 5" using b(2) by (intro mult_right_mono) auto
  finally show ?thesis using l b by (auto intro: sum_list_nonneg)
qed

text \<open>An approval counts only when both reads succeeded and a person who may decide
  reacted; a veto that was read counts whether or not the approvals could be read; and
  whenever a read failed the reaction says so.\<close>

theorem approval_needs_both_reads:
  "(approve (read_reactions ap gv ga) \<longleftrightarrow>
      (\<exists>vs us. users gv = Some vs \<and> users ga = Some us \<and>
         (\<exists>u \<in> set us. \<not> u_bot u \<and> (ap = None \<or> ap = Some (u_id u))))) \<and>
   (veto (read_reactions ap gv ga) \<longleftrightarrow>
      (\<exists>vs. users gv = Some vs \<and> (\<exists>u \<in> set vs. \<not> u_bot u \<and> (ap = None \<or> ap = Some (u_id u))))) \<and>
   (unreadable (read_reactions ap gv ga) \<longleftrightarrow> users gv = None \<or> users ga = None)"
  by (auto simp: read_reactions_def Let_def counts_def list_ex_iff split: option.split)

section \<open>tc/desk/post.py\<close>

datatype stop_text = OptionNoStop | StopTooTight | StopAt dec dec

record proposal_msg =
  m_proposal :: proposal
  m_call :: call_row
  m_deadline :: instant
  m_stop :: stop_text

definition stop_text :: "desk \<Rightarrow> rules \<Rightarrow> proposal \<Rightarrow> call_row \<Rightarrow> exn + stop_text" where
  "stop_text st r p call =
     (if q_instr p \<noteq> Shares then Inr OptionNoStop
      else let inval = effective_invalidation st call in
        (case entry_stop (q_max_entry p) (case q_atr p of None \<Rightarrow> 0 | Some a \<Rightarrow> a) inval r of
           Inr g \<Rightarrow> Inr (StopAt (trigger g) (limit g))
         | Inl (SizingRefused _) \<Rightarrow> Inr StopTooTight
         | Inl e \<Rightarrow> Inl e))"

text \<open>\<open>.astimezone(ET)\<close> of a stored datetime, as Eastern local time.\<close>

definition to_et :: "zone \<Rightarrow> datetime \<Rightarrow> wall" where
  "to_et z a = (if dt_tz a = TzET then dt_wall a else et_wall z (instant_of z a))"

definition posting_end :: "zone \<Rightarrow> desk_config \<Rightarrow> int \<Rightarrow> date \<Rightarrow> market_window option \<Rightarrow> wall" where
  "posting_end z cfg veto_us day window =
     (let end_w = combine day (entry_window_end cfg) in
      case window of
        None \<Rightarrow> end_w
      | Some w \<Rightarrow> (case rth_end w of
            None \<Rightarrow> end_w
          | Some e \<Rightarrow> if w_date w = day then min end_w (to_et z e - veto_us) else end_w))"

text \<open>\<open>max(now, opens) + veto\<close>: \<open>now\<close> is in UTC, \<open>opens\<close> in Eastern time.\<close>

definition deadline_of :: "zone \<Rightarrow> instant \<Rightarrow> wall \<Rightarrow> int \<Rightarrow> instant" where
  "deadline_of z now opens veto_us =
     (if instant_of z (et_dt opens) > now then instant_of z (et_dt (opens + veto_us)) else now + veto_us)"

definition post_one ::
  "zone \<Rightarrow> (proposal_msg \<Rightarrow> string option) \<Rightarrow> rules \<Rightarrow> wall \<Rightarrow> wall \<Rightarrow> int \<Rightarrow> instant \<Rightarrow> proposal \<Rightarrow>
   int list \<times> desk \<Rightarrow> exn + int list \<times> desk" where
  "post_one z post_message r opens end_w veto_us now p = (\<lambda>(posted, st).
     let expire = bind_e (record_outcome st (q_id p) now Expired False False) (\<lambda>st'. Inr (posted, st')) in
     if et_date z (q_created p) < et_date z now then expire
     else if et_wall z now \<ge> end_w then expire
     else (case get_call st (q_call p) of
        None \<Rightarrow> Inl RuntimeError
      | Some call \<Rightarrow>
          let deadline = deadline_of z now opens veto_us in
          bind_e (stop_text st r p call) (\<lambda>stop.
          case post_message \<lparr>m_proposal = p, m_call = call, m_deadline = deadline, m_stop = stop\<rparr> of
            None \<Rightarrow> expire
          | Some mid \<Rightarrow> (case mark_posted st (q_id p) now deadline (Some mid) of
                (True, st') \<Rightarrow> Inr (posted @ [q_id p], st')
              | (False, st') \<Rightarrow> Inr (posted, st')))))"

definition post_proposals ::
  "zone \<Rightarrow> (proposal_msg \<Rightarrow> string option) \<Rightarrow> rules \<Rightarrow> desk_config \<Rightarrow> instant \<Rightarrow> market_window option \<Rightarrow> desk \<Rightarrow>
   exn + int list \<times> desk" where
  "post_proposals z post_message r cfg now window st =
     bind_e (rules_int r ''strategy'' ''veto_window_minutes'') (\<lambda>minutes.
     let veto_us = us_of_min minutes; day = et_date z now;
         opens = combine day (entry_window_start cfg);
         end_w = posting_end z cfg veto_us day window in
     fold_e (post_one z post_message r opens end_w veto_us now) (unposted_proposals st) ([], st))"

text \<open>What a posting pass that raises leaves: the proposals before the one that raises are settled.\<close>

definition post_left ::
  "zone \<Rightarrow> (proposal_msg \<Rightarrow> string option) \<Rightarrow> rules \<Rightarrow> desk_config \<Rightarrow> instant \<Rightarrow> market_window option \<Rightarrow> desk \<Rightarrow> desk" where
  "post_left z post_message r cfg now window st =
     (case rules_int r ''strategy'' ''veto_window_minutes'' of
        Inl e \<Rightarrow> st
      | Inr minutes \<Rightarrow>
          let veto_us = us_of_min minutes; day = et_date z now;
              opens = combine day (entry_window_start cfg);
              end_w = posting_end z cfg veto_us day window in
          snd (fold_kept (post_one z post_message r opens end_w veto_us now) (\<lambda>_ s. s) (unposted_proposals st) ([], st)))"

definition pitch_counts_since :: "desk \<Rightarrow> instant \<Rightarrow> analyst \<Rightarrow> int" where
  "pitch_counts_since st since a =
     int (length (filter (\<lambda>p. p_analyst p = a \<and> p_filed_at p \<ge> since) (pitches st)))"

section \<open>Every proposal is settled\<close>

text \<open>What posting makes of a proposal.\<close>

definition posted_form :: "instant \<Rightarrow> instant \<Rightarrow> string \<Rightarrow> proposal \<Rightarrow> proposal" where
  "posted_form now deadline mid p = p\<lparr>q_posted := Some now, q_deadline := Some deadline, q_msg := Some mid\<rparr>"

definition may_post :: "zone \<Rightarrow> wall \<Rightarrow> instant \<Rightarrow> proposal \<Rightarrow> bool" where
  "may_post z end_w now p \<longleftrightarrow> et_date z now \<le> et_date z (q_created p) \<and> et_wall z now < end_w"

text \<open>A pass over the unposted proposals, from \<open>st\<close> to \<open>st'\<close>.\<close>

definition settles :: "zone \<Rightarrow> wall \<Rightarrow> instant \<Rightarrow> instant \<Rightarrow> desk \<Rightarrow> desk \<Rightarrow> bool" where
  "settles z end_w now deadline st st' \<longleftrightarrow> book_wf st' \<and> fills st' = fills st \<and> calls st' = calls st \<and>
     prefix (outcomes st) (outcomes st') \<and>
     (\<forall>q \<in> set (proposals st'). q \<in> set (proposals st) \<or>
        (\<exists>p \<in> set (unposted_proposals st). \<exists>mid. may_post z end_w now p \<and> q = posted_form now deadline mid p))"

lemma unposted_in: "p \<in> set (unposted_proposals st) \<longleftrightarrow>
   p \<in> set (proposals st) \<and> q_posted p = None \<and> \<not> has_outcome st (q_id p)"
  by (auto simp: unposted_proposals_def)

lemma expire_settles:
  assumes "record_outcome st (q_id p) now Expired False False = Inr st'" and "book_wf st"
  shows "settles z end_w now deadline st st' \<and>
    unposted_proposals st' = filter (\<lambda>q. q_id q \<noteq> q_id p) (unposted_proposals st)"
proof -
  obtain x where st': "st' = st\<lparr>outcomes := outcomes st @ [x]\<rparr>" and x: "o_pid x = q_id p"
    using assms(1) by (auto simp: record_outcome_def split: if_splits)
  have "book_wf st'" by (rule record_outcome_book_wf [OF assms(1) _ assms(2)]) simp
  moreover have "unposted_proposals st' = filter (\<lambda>q. q_id q \<noteq> q_id p) (unposted_proposals st)"
    using x by (auto simp: unposted_proposals_def has_outcome_def st' intro!: filter_cong)
  ultimately show ?thesis by (simp add: settles_def st')
qed

lemma mark_settles:
  assumes p: "p \<in> set (unposted_proposals st)" "may_post z end_w now p" and wf: "book_wf st"
  shows "fst (mark_posted st (q_id p) now deadline (Some mid)) \<and>
    settles z end_w now deadline st (snd (mark_posted st (q_id p) now deadline (Some mid))) \<and>
    unposted_proposals (snd (mark_posted st (q_id p) now deadline (Some mid))) =
      filter (\<lambda>q. q_id q \<noteq> q_id p) (unposted_proposals st)"
proof -
  define st' where "st' = snd (mark_posted st (q_id p) now deadline (Some mid))"
  define g where "g = (\<lambda>q :: proposal. if q_id q = q_id p \<and> q_posted q = None
      then q\<lparr>q_posted := Some now, q_deadline := Some deadline, q_msg := Some mid\<rparr> else q)"
  have ps: "st' = st\<lparr>proposals := map g (proposals st)\<rparr>" by (simp add: st'_def g_def mark_posted_def)
  have pp: "p \<in> set (proposals st)" "q_posted p = None" "\<not> has_outcome st (q_id p)" using p(1) by (auto simp: unposted_in)
  have uniq: "q = p" if "q \<in> set (proposals st)" "q_id q = q_id p" for q
    using sorted_ids_inj [OF book_wfD(2) [OF wf]] that pp(1) by blast
  have "q \<in> set (proposals st) \<or> q = posted_form now deadline mid p" if "q \<in> set (proposals st')" for q
    using that uniq by (auto simp: ps g_def posted_form_def)
  moreover have "book_wf st'" using mark_posted_book_wf [OF wf] by (simp add: st'_def)
  ultimately have "settles z end_w now deadline st st'"
    using p unfolding settles_def by (auto simp: ps)
  moreover have "unposted_proposals st' = filter (\<lambda>q. q_id q \<noteq> q_id p) (unposted_proposals st)"
  proof -
    have keep: "map g xs = xs" if "\<forall>q \<in> set xs. q_id q \<noteq> q_id p" for xs
      using that by (simp add: g_def map_idI)
    have "filter (\<lambda>q. q_posted q = None \<and> \<not> has_outcome st (q_id q)) (map g xs) =
        filter (\<lambda>q. q_id q \<noteq> q_id p) (filter (\<lambda>q. q_posted q = None \<and> \<not> has_outcome st (q_id q)) xs)"
      if "set xs \<subseteq> set (proposals st)" for xs
      using that by (induction xs) (auto simp: g_def)
    then show ?thesis by (simp add: unposted_proposals_def ps has_outcome_def)
  qed
  moreover have "fst (mark_posted st (q_id p) now deadline (Some mid))"
    using pp by (auto simp: mark_posted_def list_ex_iff)
  ultimately show ?thesis by (simp add: st'_def)
qed

lemma post_one_settles:
  assumes run: "post_one z pm r opens end_w v now p (posted, st) = Inr (posted', st')"
    and p: "p \<in> set (unposted_proposals st)" and wf: "book_wf st"
  shows "settles z end_w now (deadline_of z now opens v) st st' \<and>
    unposted_proposals st' = filter (\<lambda>q. q_id q \<noteq> q_id p) (unposted_proposals st)"
proof -
  consider "record_outcome st (q_id p) now Expired False False = Inr st'"
    | mid where "may_post z end_w now p" "st' = snd (mark_posted st (q_id p) now (deadline_of z now opens v) (Some mid))"
    using run unfolding post_one_def may_post_def
    by (auto simp: Let_def err not_less not_le case_prod_beta split: if_splits option.splits bool.splits)
  then show ?thesis
  proof cases
    case 1
    then show ?thesis by (rule expire_settles [OF _ wf])
  next
    case 2
    then show ?thesis using mark_settles [OF p _ wf] by simp
  qed
qed

lemma settles_trans:
  assumes "settles z e now dl st st1" "settles z e now dl st1 st2"
    and "set (unposted_proposals st1) \<subseteq> set (unposted_proposals st)"
  shows "settles z e now dl st st2"
  using assms unfolding settles_def
  by (auto intro: prefix_order.trans) (metis subsetD)+

lemma post_fold_settles:
  assumes "fold_e (post_one z pm r opens end_w v now) ps (posted, st) = Inr (posted', st')"
    and "unposted_proposals st = ps" and "book_wf st"
  shows "settles z end_w now (deadline_of z now opens v) st st' \<and> unposted_proposals st' = []"
  using assms
proof (induction ps arbitrary: posted st)
  case Nil
  then show ?case by (auto simp: settles_def)
next
  case (Cons p ps)
  from Cons.prems(1) obtain posted1 st1 where s: "post_one z pm r opens end_w v now p (posted, st) = Inr (posted1, st1)"
    "fold_e (post_one z pm r opens end_w v now) ps (posted1, st1) = Inr (posted', st')" by (auto simp: err)
  have one: "settles z end_w now (deadline_of z now opens v) st st1"
    "unposted_proposals st1 = filter (\<lambda>q. q_id q \<noteq> q_id p) (unposted_proposals st)"
    using post_one_settles [OF s(1) _ Cons.prems(3)] Cons.prems(2) by auto
  have "sorted_wrt (<) (map q_id (unposted_proposals st))"
    using book_wfD(2) [OF Cons.prems(3)] unfolding unposted_proposals_def by (auto simp: sorted_wrt_map intro: sorted_wrt_filter)
  then have rest: "unposted_proposals st1 = ps"
    unfolding one(2) using Cons.prems(2) by (auto intro!: filter_True)
  have "book_wf st1" using one(1) by (simp add: settles_def)
  from Cons.IH [OF s(2) rest this] settles_trans [OF one(1)] one(2) show ?case by auto
qed

text \<open>A posting pass leaves no proposal waiting: every one without an outcome is
  posted or expired. It is posted only on the day it was made and before the posting ends,
  always with a message to react to, and always with a veto window of the full length still
  ahead of it. Nothing is bought or sold and no recorded outcome changes.\<close>

theorem post_proposals_settles:
  assumes run: "post_proposals z pm r cfg now window st = Inr (ids, st')" and wf: "book_wf st"
    and v: "rules_int r ''strategy'' ''veto_window_minutes'' = Inr minutes"
    and dst: "wall_off z (combine (et_date z now) (entry_window_start cfg) + us_of_min minutes) =
      wall_off z (combine (et_date z now) (entry_window_start cfg))"
  shows "unposted_proposals st' = [] \<and> book_wf st' \<and> fills st' = fills st \<and> prefix (outcomes st) (outcomes st') \<and>
    (\<forall>q \<in> set (proposals st'). q \<notin> set (proposals st) \<longrightarrow>
       q_posted q = Some now \<and> q_msg q \<noteq> None \<and> (\<exists>dl. q_deadline q = Some dl \<and> now + us_of_min minutes \<le> dl) \<and>
       et_date z now \<le> et_date z (q_created q) \<and>
       et_wall z now < posting_end z cfg (us_of_min minutes) (et_date z now) window)"
proof -
  let ?opens = "combine (et_date z now) (entry_window_start cfg)"
  let ?close = "posting_end z cfg (us_of_min minutes) (et_date z now) window"
  let ?dl = "deadline_of z now ?opens (us_of_min minutes)"
  have "settles z ?close now ?dl st st' \<and> unposted_proposals st' = []"
    by (rule post_fold_settles [OF _ refl wf]) (use run v in \<open>simp add: post_proposals_def Let_def\<close>)
  moreover have "now + us_of_min minutes \<le> ?dl"
    using dst by (auto simp: deadline_of_def instant_of_def utcoffset_def et_dt_def)
  ultimately show ?thesis
    by (auto simp: settles_def may_post_def posted_form_def)
qed

definition sample_posting :: desk where
  "sample_posting = sample_held\<lparr>proposals := proposals sample_held @
     [\<lparr>q_id = 2, q_call = 1, q_created = combine 739870 (hm 13 50), q_instr = CallOpt, q_symbol = ''MSFT  261218C00050000'',
       q_underlying = ''MSFT'', q_qty = 1, q_max_entry = 2, q_atr = None, q_posted = None, q_deadline = None, q_msg = None\<rparr>]\<rparr>"

theorem post_proposals_settles_witness:
  "\<exists>st'. post_proposals edt (\<lambda>_. Some ''m1'') rules_yml sample_config (combine 739870 (hm 13 55)) None sample_posting =
     Inr ([2], st') \<and> unposted_proposals st' = [] \<and> fills st' = fills sample_posting"
proof -
  have v: "rules_int rules_yml ''strategy'' ''veto_window_minutes'' = Inr 10"
    by (simp add: rules_defs rules_yml_def int_of_dec_def)
  have wf: "book_wf sample_posting"
    by (simp add: book_wf_def calls_wf_def sample_posting_def sample_held_def empty_desk_def sample_call_def
        fills_ok_def buys_def sold_def filled_outcome_def)
  have dst: "wall_off edt (combine (et_date edt (combine 739870 (hm 13 55))) (entry_window_start sample_config) + us_of_min 10) =
      wall_off edt (combine (et_date edt (combine 739870 (hm 13 55))) (entry_window_start sample_config))"
    by (simp add: edt_def)
  have "\<exists>st'. post_proposals edt (\<lambda>_. Some ''m1'') rules_yml sample_config (combine 739870 (hm 13 55)) None sample_posting =
     Inr ([2], st')"
    by (simp add: post_proposals_def v Let_def unposted_proposals_def sample_posting_def sample_held_def empty_desk_def
        has_outcome_def post_one_def et_date_def et_wall_def edt_def us_defs combine_def date_of_def posting_end_def
        sample_config_def get_call_def sample_call_def stop_text_def mark_posted_def)
  then obtain st' where run: "post_proposals edt (\<lambda>_. Some ''m1'') rules_yml sample_config (combine 739870 (hm 13 55)) None
      sample_posting = Inr ([2], st')" by blast
  from post_proposals_settles [OF run wf v dst] run show ?thesis by blast
qed

end
