(* ===== verification/TC_Watch.thy ===== *)
theory TC_Watch
  imports TC_Post "HOL-Library.List_Lexorder" "HOL-Library.Char_ord"
begin

text \<open>
  The five-minute watch of the paper book (tc/desk/watch.py): entries whose veto window has
  closed are filled, positions are exited. The broker's quotes and the reader of reactions
  are parameters. An exception ends the run; what the pass wrote before it is \<open>watch_left\<close>.
\<close>

section \<open>tc/desk/watch.py\<close>

definition ENTRY_CUTOFF :: time where "ENTRY_CUTOFF = hm 15 55"
definition RESOLVED_EXIT_FROM :: time where "RESOLVED_EXIT_FROM = hm 10 0"

record watch_report =
  wr_filled :: "int list"
  wr_skipped :: "(int \<times> outcome) list"
  wr_exits :: "(int \<times> string) list"
  wr_recommended :: "string list"
  wr_blind :: bool
  wr_outside :: bool

record watch_env =
  we_zone :: zone
  we_broker :: broker
  we_reactions :: "string \<Rightarrow> reaction"
  we_rules :: rules
  we_reserve :: dec
  we_now :: instant

definition sorted_quotes :: "watch_env \<Rightarrow> string list \<Rightarrow> exn + (string \<rightharpoonup> quote)" where
  "sorted_quotes env symbols = br_quotes (we_broker env) (sort (remdups symbols))"

definition stale :: "quote option \<Rightarrow> instant \<Rightarrow> bool" where
  "stale q now = (case q of None \<Rightarrow> False | Some x \<Rightarrow> now - qt_time x > us_of_s QUOTE_MAX_AGE_S)"

text \<open>An outcome other than a fill, and its line in the report.\<close>

definition skip :: "watch_env \<Rightarrow> proposal \<Rightarrow> outcome \<Rightarrow> bool \<Rightarrow> bool \<Rightarrow> watch_report \<times> desk \<Rightarrow> exn + watch_report \<times> desk" where
  "skip env p oc v a = (\<lambda>(rep, st).
     bind_e (record_outcome st (q_id p) (we_now env) oc v a) (\<lambda>st'.
     Inr (rep\<lparr>wr_skipped := wr_skipped rep @ [(q_id p, oc)]\<rparr>, st')))"

text \<open>The stop a share entry is filled with, or the refusal that skips it.\<close>

definition share_stop :: "watch_env \<Rightarrow> proposal \<Rightarrow> dec \<Rightarrow> dec \<Rightarrow> exn + stop_geometry_t" where
  "share_stop env p ask inval =
     bind_e (raise_if (ask \<le> inval) (SizingRefused AskAtOrBelowInvalidation)) (\<lambda>_.
     entry_stop ask (case q_atr p of None \<Rightarrow> 0 | Some a \<Rightarrow> a) inval (we_rules env))"

definition through :: "direction \<Rightarrow> dec \<Rightarrow> dec \<Rightarrow> bool" where
  "through d last_px inval = (if d = Up then last_px \<le> inval else last_px \<ge> inval)"

definition entry_notional :: "proposal \<Rightarrow> dec \<Rightarrow> dec" where
  "entry_notional p ask = dmul (dmul ask (of_int (q_qty p))) (of_int (MULT (q_instr p)))"

text \<open>The two writes of a fill.\<close>

definition enter ::
  "watch_env \<Rightarrow> proposal \<Rightarrow> dec \<Rightarrow> reaction \<Rightarrow> dec option \<Rightarrow> dec option \<Rightarrow> watch_report \<times> desk \<Rightarrow> exn + watch_report \<times> desk" where
  "enter env p ask r trig lmt = (\<lambda>(rep, st).
     bind_e (record_fill st (q_id p) (we_now env) Buy (q_qty p) ask ''entry'' trig lmt) (\<lambda>st1.
     bind_e (record_outcome st1 (q_id p) (we_now env) Filled (veto r) (approve r)) (\<lambda>st2.
     Inr (rep\<lparr>wr_filled := wr_filled rep @ [q_id p]\<rparr>, st2))))"

text \<open>The book check at the price actually paid, against the book without this proposal.\<close>

definition recheck :: "watch_env \<Rightarrow> desk \<Rightarrow> proposal \<Rightarrow> string \<Rightarrow> dec \<Rightarrow> exn + unit" where
  "recheck env st p bench ask =
     bind_e (book_state st (Some (q_id p))) (\<lambda>book.
     bind_e (correlated_with st (we_rules env) (q_underlying p) book) (\<lambda>corr.
     check_book book (q_underlying p) bench (entry_notional p ask) (q_instr p \<noteq> Shares) corr (we_rules env)
       (we_reserve env)))"

definition fill_entry ::
  "watch_env \<Rightarrow> proposal \<Rightarrow> quote option \<Rightarrow> quote option \<Rightarrow> reaction \<Rightarrow> watch_report \<times> desk \<Rightarrow> exn + watch_report \<times> desk" where
  "fill_entry env p q u r = (\<lambda>(rep, st).
     case q of
       None \<Rightarrow> skip env p SkippedPrice (veto r) (approve r) (rep, st)
     | Some qq \<Rightarrow>
       if qt_ask qq \<le> 0 \<or> qt_ask qq > q_max_entry p
       then skip env p SkippedPrice (veto r) (approve r) (rep, st)
       else
       bind_e (current_call_id st (q_call p)) (\<lambda>cid.
       bind_e (the_or AssertionError (get_call st cid)) (\<lambda>call.
       let inval = effective_invalidation st call; ask = qt_ask qq;
           invalid = skip env p SkippedInvalid (veto r) (approve r) (rep, st);
           proceed = (\<lambda>trig lmt.
             case recheck env st p (c_bench call) ask of
               Inr _ \<Rightarrow> enter env p ask r trig lmt (rep, st)
             | Inl (SizingRefused _) \<Rightarrow> invalid
             | Inl e \<Rightarrow> Inl e) in
       if q_instr p = Shares then
         (case share_stop env p ask inval of
            Inr g \<Rightarrow> proceed (Some (trigger g)) (Some (limit g))
          | Inl (SizingRefused _) \<Rightarrow> invalid
          | Inl e \<Rightarrow> Inl e)
       else
         (case u of
            Some uu \<Rightarrow> if through (c_direction call) (qt_last uu) inval then invalid else proceed None None
          | None \<Rightarrow> proceed None None))))"

definition entry_one :: "watch_env \<Rightarrow> proposal \<Rightarrow> watch_report \<times> desk \<Rightarrow> exn + watch_report \<times> desk" where
  "entry_one env p = (\<lambda>(rep, st).
     case q_posted p of
       None \<Rightarrow> Inr (rep, st)
     | Some posted_at \<Rightarrow>
       let z = we_zone env; now = we_now env in
       if et_date z posted_at < et_date z now \<or> et_time z now \<ge> ENTRY_CUTOFF
       then skip env p Expired False False (rep, st)
       else
       let r = (case q_msg p of None \<Rightarrow> no_reactions | Some m \<Rightarrow> if m = [] then no_reactions else we_reactions env m);
           due = (approve r \<or> (case q_deadline p of None \<Rightarrow> False | Some d \<Rightarrow> now \<ge> d)) in
       if \<not> due then Inr (rep, st)
       else
       (case sorted_quotes env [q_symbol p, q_underlying p] of
          Inl e \<Rightarrow>
            if e = BrokerUnauthorized then
              bind_e (skip env p SkippedBlind (veto r) (approve r) (rep, st)) (\<lambda>(rep', st').
              Inr (rep'\<lparr>wr_blind := True\<rparr>, st'))
            else if e = BrokerError then Inr (rep, st) else Inl e
        | Inr quotes \<Rightarrow>
            if stale (quotes (q_symbol p)) now \<or> stale (quotes (q_underlying p)) now then Inr (rep, st)
            else fill_entry env p (quotes (q_symbol p)) (quotes (q_underlying p)) r (rep, st)))"

definition entries :: "watch_env \<Rightarrow> watch_report \<times> desk \<Rightarrow> exn + watch_report \<times> desk" where
  "entries env = (\<lambda>(rep, st). fold_e (entry_one env) (pending_proposals st) (rep, st))"

definition exit_reason ::
  "watch_env \<Rightarrow> paper_position \<Rightarrow> bool \<Rightarrow> dec \<Rightarrow> dec \<Rightarrow> quote \<Rightarrow> quote \<Rightarrow> exn + (string \<times> dec) option" where
  "exit_reason env pos up target inval u t =
     (if pp_instr pos = Shares then
        bind_e (ceil_cents inval) (\<lambda>thesis_px.
        let raw = (case pp_trigger pos of None \<Rightarrow> 0 | Some x \<Rightarrow> x); trig = max raw thesis_px in
        bind_e (if trig > raw
                then bind_e (stop_limit_pct_below_trigger (we_rules env)) (\<lambda>pct.
                  bind_e (floor_cents (ddiv_nz (dmul trig (dsub HUNDRED pct)) HUNDRED)) (\<lambda>l. Inr (Some l)))
                else Inr (pp_limit pos)) (\<lambda>lmt.
        if qt_last u \<le> trig
        then Inr (Some (''stop'', if (case lmt of None \<Rightarrow> True | Some l \<Rightarrow> qt_last u \<ge> l) then trig else qt_bid t))
        else if qt_last u \<ge> target then Inr (Some (''target'', qt_bid t))
        else Inr None))
      else if (if up then qt_last u \<le> inval else qt_last u \<ge> inval) then Inr (Some (''invalidation'', qt_bid t))
      else if (if up then qt_last u \<ge> target else qt_last u \<le> target) then Inr (Some (''target'', qt_bid t))
      else bind_e (osi_expiry (pp_symbol pos)) (\<lambda>expiry.
        bind_e (option_close_at_dte (we_rules env)) (\<lambda>dte.
        if expiry - et_date (we_zone env) (we_now env) \<le> dte then Inr (Some (''dte_close'', qt_bid t)) else Inr None)))"

definition exit_one ::
  "watch_env \<Rightarrow> (string \<rightharpoonup> quote) \<Rightarrow> int set \<Rightarrow> paper_position \<Rightarrow> watch_report \<times> desk \<Rightarrow> exn + watch_report \<times> desk" where
  "exit_one env quotes wanted pos = (\<lambda>(rep, st).
     let now = we_now env in
     case (quotes (pp_underlying pos), quotes (pp_symbol pos)) of
       (Some u, Some t) \<Rightarrow>
         if stale (Some u) now \<or> stale (Some t) now then Inr (rep, st)
         else
         let st1 = upsert_mark st (pp_symbol pos) (if pp_instr pos \<noteq> Shares then qt_bid t else qt_last u) in
         bind_e (current_call_id st1 (pp_call pos)) (\<lambda>cid.
         bind_e (the_or AssertionError (get_call st1 cid)) (\<lambda>call.
         let inval = effective_invalidation st1 call in
         bind_e (exit_reason env pos (c_direction call = Up) (c_target call) inval u t) (\<lambda>h0.
         let h1 = (if h0 = None \<and> et_time (we_zone env) now \<ge> RESOLVED_EXIT_FROM \<and>
                      resolution_for st1 KCall cid \<noteq> None then Some (''call_resolved'', qt_bid t) else h0);
             h2 = (if h1 = None \<and> pp_pid pos \<in> wanted then Some (''pm_exit'', qt_bid t) else h1) in
         case h2 of
           None \<Rightarrow> Inr (rep, st1)
         | Some (reason, price) \<Rightarrow>
             bind_e (record_fill st1 (pp_pid pos) now Sell (pp_qty pos) price reason None None) (\<lambda>st2.
             Inr (rep\<lparr>wr_exits := wr_exits rep @ [(pp_pid pos, reason)]\<rparr>, st2)))))
     | _ \<Rightarrow> Inr (rep, st))"

definition request_one :: "watch_env \<Rightarrow> int set \<Rightarrow> exit_request \<Rightarrow> watch_report \<times> desk \<Rightarrow> watch_report \<times> desk" where
  "request_one env still_open x = (\<lambda>(rep, st).
     case x_pid x of
       None \<Rightarrow> (rep\<lparr>wr_recommended := wr_recommended rep @ [x_symbol x]\<rparr>, mark_exit_done st (x_id x) (we_now env))
     | Some k \<Rightarrow> if k \<notin> still_open then (rep, mark_exit_done st (x_id x) (we_now env)) else (rep, st))"

definition settle_requests :: "watch_env \<Rightarrow> exit_request list \<Rightarrow> watch_report \<times> desk \<Rightarrow> watch_report \<times> desk" where
  "settle_requests env reqs = (\<lambda>(rep, st).
     fold (request_one env (set (map pp_pid (open_positions st)))) reqs (rep, st))"

definition exits :: "watch_env \<Rightarrow> watch_report \<times> desk \<Rightarrow> exn + watch_report \<times> desk" where
  "exits env = (\<lambda>(rep, st).
     let poss = open_positions st; reqs = pending_exit_requests st in
     if poss = [] then Inr (settle_requests env reqs (rep, st))
     else
     (case sorted_quotes env (map pp_underlying poss @ map pp_symbol poss) of
        Inl e \<Rightarrow> if e = BrokerUnauthorized then Inr (rep\<lparr>wr_blind := True\<rparr>, st)
                 else if e = BrokerError then Inr (rep, st) else Inl e
      | Inr quotes \<Rightarrow>
          let wanted = set (List.map_filter x_pid reqs) in
          bind_e (fold_e (exit_one env quotes wanted) poss (rep, st)) (\<lambda>s. Inr (settle_requests env reqs s))))"

definition empty_report :: watch_report where
  "empty_report = \<lparr>wr_filled = [], wr_skipped = [], wr_exits = [], wr_recommended = [], wr_blind = False, wr_outside = False\<rparr>"

definition watch_window :: "zone \<Rightarrow> instant \<Rightarrow> market_window option \<Rightarrow> market_window" where
  "watch_window z now window =
     (let d = et_date z now in
      case window of None \<Rightarrow> fallback_window d | Some w \<Rightarrow> if w_date w = d then w else fallback_window d)"

definition run_desk_watch :: "watch_env \<Rightarrow> market_window option \<Rightarrow> desk \<Rightarrow> exn + watch_report \<times> desk" where
  "run_desk_watch env window st =
     bind_e (phase_for (we_zone env) \<lparr>dt_wall = we_now env, dt_tz = TzFixed 0\<rparr>
               (watch_window (we_zone env) (we_now env) window)) (\<lambda>ph.
     if ph \<noteq> RTH then Inr (empty_report\<lparr>wr_outside := True\<rparr>, st)
     else bind_e (entries env (empty_report, st)) (exits env))"

text \<open>
  What a pass that raises leaves behind: the entries and the exits before the one that raises. An
  entry writes its fill and its outcome last (\<open>enter_writes_both\<close>); an exit writes the mark
  before anything in it can raise.
\<close>

definition mark_left :: "watch_env \<Rightarrow> (string \<rightharpoonup> quote) \<Rightarrow> paper_position \<Rightarrow> watch_report \<times> desk \<Rightarrow> watch_report \<times> desk" where
  "mark_left env quotes pos = (\<lambda>(rep, st).
     case (quotes (pp_underlying pos), quotes (pp_symbol pos)) of
       (Some u, Some t) \<Rightarrow>
         if stale (Some u) (we_now env) \<or> stale (Some t) (we_now env) then (rep, st)
         else (rep, upsert_mark st (pp_symbol pos) (if pp_instr pos \<noteq> Shares then qt_bid t else qt_last u))
     | _ \<Rightarrow> (rep, st))"

definition exits_left :: "watch_env \<Rightarrow> watch_report \<times> desk \<Rightarrow> desk" where
  "exits_left env = (\<lambda>(rep, st).
     let poss = open_positions st; wanted = set (List.map_filter x_pid (pending_exit_requests st)) in
     case sorted_quotes env (map pp_underlying poss @ map pp_symbol poss) of
       Inl e \<Rightarrow> st
     | Inr quotes \<Rightarrow> snd (fold_kept (exit_one env quotes wanted) (mark_left env quotes) poss (rep, st)))"

definition watch_left :: "watch_env \<Rightarrow> market_window option \<Rightarrow> desk \<Rightarrow> desk" where
  "watch_left env window st =
     (case phase_for (we_zone env) \<lparr>dt_wall = we_now env, dt_tz = TzFixed 0\<rparr>
             (watch_window (we_zone env) (we_now env) window) of
        Inl e \<Rightarrow> st
      | Inr ph \<Rightarrow>
          if ph \<noteq> RTH then st
          else
            (case entries env (empty_report, st) of
               Inl e \<Rightarrow> snd (fold_kept (entry_one env) (\<lambda>_ s. s) (pending_proposals st) (empty_report, st))
             | Inr s \<Rightarrow> exits_left env s))"

section \<open>Entries\<close>

text \<open>When an entry may be filled: posted today, before the cutoff, and approved or past its
  veto deadline.\<close>

definition entry_allowed :: "watch_env \<Rightarrow> proposal \<Rightarrow> bool" where
  "entry_allowed env p \<longleftrightarrow>
     (\<exists>t. q_posted p = Some t \<and> et_date (we_zone env) (we_now env) \<le> et_date (we_zone env) t) \<and>
     et_time (we_zone env) (we_now env) < ENTRY_CUTOFF \<and>
     ((\<exists>m. q_msg p = Some m \<and> m \<noteq> [] \<and> approve (we_reactions env m)) \<or>
      (\<exists>d. q_deadline p = Some d \<and> d \<le> we_now env))"

text \<open>A fill that is a proper entry of \<open>p\<close>.\<close>

definition entry_fill_ok :: "watch_env \<Rightarrow> proposal \<Rightarrow> fill_row \<Rightarrow> bool" where
  "entry_fill_ok env p f \<longleftrightarrow> f_pid f = q_id p \<and> f_side f = Buy \<and> f_qty f = q_qty p \<and> f_at f = we_now env \<and>
     0 < f_price f \<and> f_price f \<le> q_max_entry p \<and> entry_allowed env p"

definition same_besides_book :: "desk \<Rightarrow> desk \<Rightarrow> bool" where
  "same_besides_book st st' \<longleftrightarrow> calls st' = calls st \<and> pitches st' = pitches st \<and> resolutions st' = resolutions st \<and>
     tightenings st' = tightenings st \<and> bars st' = bars st \<and> proposals st' = proposals st \<and>
     paper_book st' = paper_book st \<and> withdrawals st' = withdrawals st"

lemma same_besides_book_trans:
  "same_besides_book a b \<Longrightarrow> same_besides_book b c \<Longrightarrow> same_besides_book a c"
  by (simp add: same_besides_book_def)

lemma skip_effect:
  assumes "skip env p oc v a (rep, st) = Inr (rep', st')" and "oc \<noteq> Filled" and "book_wf st"
  shows "book_wf st' \<and> fills st' = fills st \<and> same_besides_book st st' \<and> marks_tbl st' = marks_tbl st \<and>
    (\<exists>x. outcomes st' = outcomes st @ [x] \<and> o_pid x = q_id p) \<and> wr_filled rep' = wr_filled rep"
proof -
  have r: "record_outcome st (q_id p) (we_now env) oc v a = Inr st'" "wr_filled rep' = wr_filled rep"
    using assms(1) by (auto simp: skip_def err)
  have "book_wf st'" by (rule record_outcome_book_wf [OF r(1) assms(2,3)])
  then show ?thesis using r by (auto simp: record_outcome_def same_besides_book_def split: if_splits)
qed

lemma fill_entry_cases:
  assumes "fill_entry env p q u r (rep, st) = Inr (rep', st')"
  shows "(\<exists>oc. oc \<noteq> Filled \<and> skip env p oc (veto r) (approve r) (rep, st) = Inr (rep', st')) \<or>
    (\<exists>qq cid call trig lmt. q = Some qq \<and> 0 < qt_ask qq \<and> qt_ask qq \<le> q_max_entry p \<and>
       current_call_id st (q_call p) = Inr cid \<and> get_call st cid = Some call \<and>
       recheck env st p (c_bench call) (qt_ask qq) = Inr () \<and>
       (q_instr p = Shares \<longrightarrow> (\<exists>g. share_stop env p (qt_ask qq) (effective_invalidation st call) = Inr g \<and>
          trig = Some (trigger g) \<and> lmt = Some (limit g))) \<and>
       enter env p (qt_ask qq) r trig lmt (rep, st) = Inr (rep', st'))"
proof (cases q)
  case None
  then show ?thesis using assms by (auto simp: fill_entry_def intro!: exI [of _ SkippedPrice])
next
  case (Some qq)
  show ?thesis
  proof (cases "qt_ask qq \<le> 0 \<or> qt_ask qq > q_max_entry p")
    case True
    then show ?thesis using assms Some by (auto simp: fill_entry_def intro!: exI [of _ SkippedPrice])
  next
    case False
    obtain cid call where c: "current_call_id st (q_call p) = Inr cid" "get_call st cid = Some call"
      using assms Some False by (auto simp: fill_entry_def err)
    define skipped where "skipped \<longleftrightarrow> skip env p SkippedInvalid (veto r) (approve r) (rep, st) = Inr (rep', st')"
    define entered where "entered trig lmt \<longleftrightarrow> recheck env st p (c_bench call) (qt_ask qq) = Inr () \<and>
      enter env p (qt_ask qq) r trig lmt (rep, st) = Inr (rep', st')" for trig lmt
    have proceed: "skipped \<or> entered trig lmt"
      if "(case recheck env st p (c_bench call) (qt_ask qq) of Inr _ \<Rightarrow> enter env p (qt_ask qq) r trig lmt (rep, st)
             | Inl (SizingRefused _) \<Rightarrow> skip env p SkippedInvalid (veto r) (approve r) (rep, st) | Inl e \<Rightarrow> Inl e) = Inr (rep', st')"
      for trig lmt
      using that unfolding skipped_def entered_def by (auto split: sum.splits exn.splits)
    have "skipped \<or> (\<exists>trig lmt. entered trig lmt \<and> (q_instr p = Shares \<longrightarrow>
        (\<exists>g. share_stop env p (qt_ask qq) (effective_invalidation st call) = Inr g \<and> trig = Some (trigger g) \<and> lmt = Some (limit g))))"
    proof (cases "q_instr p = Shares")
      case True
      show ?thesis
      proof (cases "share_stop env p (qt_ask qq) (effective_invalidation st call)")
        case (Inr g)
        then show ?thesis using assms Some False c True proceed [of "Some (trigger g)" "Some (limit g)"]
          by (auto simp: fill_entry_def Let_def)
      next
        case (Inl e)
        then show ?thesis using assms Some False c True
          by (cases e) (auto simp: fill_entry_def Let_def skipped_def)
      qed
    next
      case opt: False
      then show ?thesis using assms Some False c proceed [of None None]
        by (auto simp: fill_entry_def Let_def skipped_def split: option.splits if_splits)
    qed
    then show ?thesis using Some False c unfolding skipped_def entered_def
      by (auto simp: not_le not_less)
  qed
qed

lemma enter_effect:
  assumes run: "enter env p ask r trig lmt (rep, st) = Inr (rep', st')"
    and p: "p \<in> set (committed_proposals st)" and wf: "book_wf st"
  shows "book_wf st' \<and> same_besides_book st st' \<and> wr_filled rep' = wr_filled rep @ [q_id p] \<and>
    (\<exists>f. fills st' = fills st @ [f] \<and> f_pid f = q_id p \<and> f_side f = Buy \<and> f_qty f = q_qty p \<and>
       f_at f = we_now env \<and> f_price f = ask) \<and>
    (\<exists>x. outcomes st' = outcomes st @ [x] \<and> o_pid x = q_id p)"
proof -
  obtain st1 where w: "record_fill st (q_id p) (we_now env) Buy (q_qty p) ask ''entry'' trig lmt = Inr st1"
    "record_outcome st1 (q_id p) (we_now env) Filled (veto r) (approve r) = Inr st'"
    "wr_filled rep' = wr_filled rep @ [q_id p]"
    using run by (auto simp: enter_def err)
  have "book_wf st'" by (rule entry_book_wf [OF w(1,2) p wf])
  then show ?thesis using w by (auto simp: record_fill_def record_outcome_def same_besides_book_def split: if_splits)
qed

text \<open>One pending proposal: what a pass may write for it, and that it touches no other.\<close>

lemma entry_one_effect:
  assumes run: "entry_one env p (rep, st) = Inr (rep', st')"
    and p: "p \<in> set (committed_proposals st)" and wf: "book_wf st"
  shows "book_wf st' \<and> same_besides_book st st' \<and>
    (\<exists>fs. fills st' = fills st @ fs \<and> (\<forall>f \<in> set fs. entry_fill_ok env p f)) \<and>
    (\<exists>xs. outcomes st' = outcomes st @ xs \<and> (\<forall>x \<in> set xs. o_pid x = q_id p))"
proof -
  consider "st' = st" | oc v a rep1 where "oc \<noteq> Filled" "skip env p oc v a (rep, st) = Inr (rep1, st')"
    | q u r where "entry_allowed env p" "fill_entry env p q u r (rep, st) = Inr (rep', st')"
  proof (cases "q_posted p")
    case None
    then show ?thesis using run that(1) by (simp add: entry_one_def)
  next
    case (Some t)
    define r where "r = (case q_msg p of None \<Rightarrow> no_reactions
       | Some m \<Rightarrow> if m = [] then no_reactions else we_reactions env m)"
    define due where "due \<longleftrightarrow> approve r \<or> (case q_deadline p of None \<Rightarrow> False | Some d \<Rightarrow> we_now env \<ge> d)"
    show ?thesis
    proof (cases "(et_date (we_zone env) t < et_date (we_zone env) (we_now env) \<or>
        et_time (we_zone env) (we_now env) \<ge> ENTRY_CUTOFF) \<or> \<not> due")
      case True
      then show ?thesis using run Some that(1) that(2) [of Expired False False rep']
        by (auto simp: entry_one_def r_def [symmetric] due_def Let_def split: if_splits)
    next
      case False
      then have "entry_allowed env p"
        using Some unfolding entry_allowed_def due_def r_def
        by (auto simp: no_reactions_def not_less not_le split: option.splits if_splits)
      then show ?thesis using run Some False that(1) that(2) [of SkippedBlind "veto r" "approve r"] that(3)
        by (auto simp: entry_one_def r_def [symmetric] due_def Let_def err split: if_splits sum.splits)
    qed
  qed
  then show ?thesis
  proof cases
    case 1
    then show ?thesis using wf by (simp add: same_besides_book_def)
  next
    case 2
    from skip_effect [OF 2(2,1) wf] show ?thesis by (metis append_Nil2 empty_iff list.set(1) list.set_intros(1) set_ConsD)
  next
    case 3
    from fill_entry_cases [OF 3(2)] show ?thesis
    proof (elim disjE exE conjE)
      fix oc assume "oc \<noteq> Filled" "skip env p oc (veto r) (approve r) (rep, st) = Inr (rep', st')"
      from skip_effect [OF this(2,1) wf] show ?thesis
        by (metis append_Nil2 empty_iff list.set(1) list.set_intros(1) set_ConsD)
    next
      fix qq trig lmt assume a: "0 < qt_ask qq" "qt_ask qq \<le> q_max_entry p"
        "enter env p (qt_ask qq) r trig lmt (rep, st) = Inr (rep', st')"
      from enter_effect [OF a(3) p wf] obtain f x where "book_wf st'" "same_besides_book st st'"
        "fills st' = fills st @ [f]" "outcomes st' = outcomes st @ [x]" "o_pid x = q_id p"
        "f_pid f = q_id p" "f_side f = Buy" "f_qty f = q_qty p" "f_at f = we_now env" "f_price f = qt_ask qq" by blast
      then show ?thesis using a(1,2) 3(1) by (auto simp: entry_fill_ok_def)
    qed
  qed
qed

lemma committed_kept:
  assumes "same_besides_book st st'" and "fills st' = fills st @ fs" "\<forall>f \<in> set fs. f_pid f = k"
    and "outcomes st' = outcomes st @ xs" "\<forall>x \<in> set xs. o_pid x = k"
    and "q \<in> set (committed_proposals st)" "q_id q \<noteq> k"
  shows "q \<in> set (committed_proposals st')"
  using assms by (auto simp: committed_facts has_outcome_def buys_def same_besides_book_def)

lemma entries_fold_effect:
  assumes "fold_e (entry_one env) ps (rep, st) = Inr (rep', st')" and "set ps \<subseteq> set (committed_proposals st)"
    and "distinct (map q_id ps)" and "book_wf st"
  shows "book_wf st' \<and> same_besides_book st st' \<and> prefix (outcomes st) (outcomes st') \<and>
    (\<exists>fs. fills st' = fills st @ fs \<and> (\<forall>f \<in> set fs. \<exists>p \<in> set ps. entry_fill_ok env p f))"
  using assms
proof (induction ps arbitrary: rep st)
  case Nil
  then show ?case by (auto simp: same_besides_book_def)
next
  case (Cons p ps)
  from Cons.prems(1) obtain rep1 st1 where s: "entry_one env p (rep, st) = Inr (rep1, st1)"
    "fold_e (entry_one env) ps (rep1, st1) = Inr (rep', st')" by (auto simp: err)
  from entry_one_effect [OF s(1) _ Cons.prems(4)] Cons.prems(2)
  obtain fs xs where one: "book_wf st1" "same_besides_book st st1" "fills st1 = fills st @ fs"
    "\<forall>f \<in> set fs. entry_fill_ok env p f" "outcomes st1 = outcomes st @ xs" "\<forall>x \<in> set xs. o_pid x = q_id p" by auto
  have "q \<in> set (committed_proposals st1)" if "q \<in> set ps" for q
  proof (rule committed_kept [OF one(2,3) _ one(5,6)])
    show "\<forall>f \<in> set fs. f_pid f = q_id p" using one(4) by (simp add: entry_fill_ok_def)
    show "q \<in> set (committed_proposals st)" "q_id q \<noteq> q_id p"
      using Cons.prems(2) that key_neq [OF that Cons.prems(3)] by auto
  qed
  then have "set ps \<subseteq> set (committed_proposals st1)" by blast
  from Cons.IH [OF s(2) this _ one(1)] Cons.prems(3)
  obtain fs' where rest: "book_wf st'" "same_besides_book st1 st'" "prefix (outcomes st1) (outcomes st')"
    "fills st' = fills st1 @ fs'" "\<forall>f \<in> set fs'. \<exists>p \<in> set ps. entry_fill_ok env p f" by auto
  have "prefix (outcomes st) (outcomes st')" using rest(3) one(5) by (metis prefix_order.trans prefixI)
  then show ?case
    using rest one same_besides_book_trans [OF one(2) rest(2)] by (intro conjI exI [of _ "fs @ fs'"]) auto
qed

section \<open>Exits\<close>

text \<open>The position can be sold in full: what it says is still open in the table.\<close>

definition sellable :: "desk \<Rightarrow> paper_position \<Rightarrow> bool" where
  "sellable st pos \<longleftrightarrow> (\<exists>p \<in> set (proposals st). q_id p = pp_pid pos \<and> buys st (pp_pid pos) \<noteq> [] \<and>
     pp_qty pos = q_qty p - sold st (pp_pid pos))"

lemma open_sellable: "book_wf st \<Longrightarrow> pos \<in> set (open_positions st) \<Longrightarrow> sellable st pos"
  by (auto simp: open_position_facts sellable_def position_of_def)

definition exit_fill_ok :: "paper_position \<Rightarrow> fill_row \<Rightarrow> bool" where
  "exit_fill_ok pos f \<longleftrightarrow> f_pid f = pp_pid pos \<and> f_side f = Sell \<and> f_qty f = pp_qty pos"

lemma exit_one_effect:
  assumes run: "exit_one env quotes wanted pos (rep, st) = Inr (rep', st')"
    and pos: "sellable st pos" and wf: "book_wf st"
  shows "book_wf st' \<and> same_besides_book st st' \<and> outcomes st' = outcomes st \<and>
    (\<exists>fs. fills st' = fills st @ fs \<and> length fs \<le> 1 \<and> (\<forall>f \<in> set fs. exit_fill_ok pos f))"
proof -
  have mark: "book_wf (upsert_mark st s x)" "same_besides_book st (upsert_mark st s x)"
    "outcomes (upsert_mark st s x) = outcomes st" "fills (upsert_mark st s x) = fills st"
    "sellable (upsert_mark st s x) pos" for s x
    using wf pos book_wf_cong [of "upsert_mark st s x" st]
    by (simp_all add: upsert_mark_def same_besides_book_def sellable_def buys_def sold_def)
  consider "st' = st" | s x where "st' = upsert_mark st s x"
    | s x price why where "record_fill (upsert_mark st s x) (pp_pid pos) (we_now env) Sell (pp_qty pos) price why None None = Inr st'"
    using run unfolding exit_one_def
    by (auto simp: Let_def err split: option.splits if_splits)
  then show ?thesis
  proof cases
    case 1
    then show ?thesis using wf by (simp add: same_besides_book_def)
  next
    case 2
    then show ?thesis using mark by simp
  next
    case 3
    obtain p where p: "p \<in> set (proposals (upsert_mark st s x))" "q_id p = pp_pid pos" "buys (upsert_mark st s x) (pp_pid pos) \<noteq> []"
      "pp_qty pos \<le> q_qty p - sold (upsert_mark st s x) (pp_pid pos)" using mark(5) [of s x] unfolding sellable_def by auto
    have "book_wf st'" by (rule sell_book_wf [OF 3 p mark(1)])
    then show ?thesis using 3 mark(2-4)
      by (auto simp: record_fill_def same_besides_book_def exit_fill_ok_def split: if_splits)
  qed
qed

lemma sellable_kept:
  assumes "sellable st pos" "same_besides_book st st'" "fills st' = fills st @ fs" "\<forall>f \<in> set fs. f_pid f \<noteq> pp_pid pos"
  shows "sellable st' pos"
proof -
  have "buys st' (pp_pid pos) = buys st (pp_pid pos)" "sold st' (pp_pid pos) = sold st (pp_pid pos)"
    using assms(3,4) by (auto simp: buys_def sold_def filter_empty_conv)
  then show ?thesis using assms(1,2) by (simp add: sellable_def same_besides_book_def)
qed

lemma exits_fold_effect:
  assumes "fold_e (exit_one env quotes wanted) poss (rep, st) = Inr (rep', st')"
    and "\<forall>pos \<in> set poss. sellable st pos" and "distinct (map pp_pid poss)" and "book_wf st"
  shows "book_wf st' \<and> same_besides_book st st' \<and> outcomes st' = outcomes st \<and>
    (\<exists>fs. fills st' = fills st @ fs \<and> (\<forall>f \<in> set fs. \<exists>pos \<in> set poss. exit_fill_ok pos f) \<and> distinct (map f_pid fs))"
  using assms
proof (induction poss arbitrary: rep st)
  case Nil
  then show ?case by (auto simp: same_besides_book_def)
next
  case (Cons pos poss)
  from Cons.prems(1) obtain rep1 st1 where s: "exit_one env quotes wanted pos (rep, st) = Inr (rep1, st1)"
    "fold_e (exit_one env quotes wanted) poss (rep1, st1) = Inr (rep', st')" by (auto simp: err)
  from exit_one_effect [OF s(1) _ Cons.prems(4)] Cons.prems(2)
  obtain fs where one: "book_wf st1" "same_besides_book st st1" "outcomes st1 = outcomes st"
    "fills st1 = fills st @ fs" "length fs \<le> 1" "\<forall>f \<in> set fs. exit_fill_ok pos f" by auto
  have "sellable st1 q" if "q \<in> set poss" for q
  proof (rule sellable_kept [OF _ one(2,4)])
    show "sellable st q" using Cons.prems(2) that by simp
    have "pp_pid pos \<noteq> pp_pid q" using key_neq [OF that Cons.prems(3)] by simp
    then show "\<forall>f \<in> set fs. f_pid f \<noteq> pp_pid q" using one(6) by (auto simp: exit_fill_ok_def)
  qed
  then have "\<forall>q \<in> set poss. sellable st1 q" by blast
  from Cons.IH [OF s(2) this _ one(1)] Cons.prems(3)
  obtain fs' where rest: "book_wf st'" "same_besides_book st1 st'" "outcomes st' = outcomes st1"
    "fills st' = fills st1 @ fs'" "\<forall>f \<in> set fs'. \<exists>pos \<in> set poss. exit_fill_ok pos f" "distinct (map f_pid fs')" by auto
  have "distinct (map f_pid fs)" using one(5) by (cases fs) auto
  moreover have "f_pid ` set fs \<inter> f_pid ` set fs' = {}"
  proof -
    have "f_pid ` set fs \<subseteq> {pp_pid pos}" using one(6) by (auto simp: exit_fill_ok_def)
    moreover have "f_pid ` set fs' \<subseteq> pp_pid ` set poss" using rest(5) by (auto simp: exit_fill_ok_def)
    moreover have "pp_pid pos \<notin> pp_pid ` set poss" using Cons.prems(3) by simp
    ultimately show ?thesis by (rule disjoint_singleton)
  qed
  ultimately have "distinct (map f_pid (fs @ fs'))" using rest(6) by simp
  then show ?case
    using rest one same_besides_book_trans [OF one(2) rest(2)] by (intro conjI exI [of _ "fs @ fs'"]) auto
qed

lemma settle_requests_effect:
  assumes "settle_requests env reqs (rep, st) = (rep', st')"
  shows "st' = st\<lparr>exit_requests := exit_requests st'\<rparr>"
proof -
  have "snd (fold (request_one env op) reqs (rp, s)) = s\<lparr>exit_requests := exit_requests (snd (fold (request_one env op) reqs (rp, s)))\<rparr>"
    for op rp s
  proof (induction reqs arbitrary: rp s)
    case (Cons x reqs)
    obtain rp1 s1 where o: "request_one env op x (rp, s) = (rp1, s1)" by force
    have "s1 = s\<lparr>exit_requests := exit_requests s1\<rparr>"
      using o by (auto simp: request_one_def mark_exit_done_def split: option.splits if_splits)
    moreover have "snd (fold (request_one env op) reqs (rp1, s1)) =
        s1\<lparr>exit_requests := exit_requests (snd (fold (request_one env op) reqs (rp1, s1)))\<rparr>" by (rule Cons.IH)
    ultimately show ?case by (metis (no_types, lifting) desk.update_convs(12) fold_simps(2) o desk.surjective)
  qed simp
  from this [of "set (map pp_pid (open_positions st))" rep st] assms show ?thesis
    by (simp add: settle_requests_def)
qed

lemma open_pids_distinct:
  assumes "book_wf st" shows "distinct (map pp_pid (open_positions st))"
proof -
  have "distinct (map pp_pid (concat (map (\<lambda>p. map (position_of st p) (buys st (q_id p))) ps)))"
    if "\<forall>p \<in> set ps. length (buys st (q_id p)) \<le> 1" "distinct (map q_id ps)" for ps
    using that
  proof (induction ps)
    case (Cons p ps)
    let ?pids = "\<lambda>p. map pp_pid (map (position_of st p) (buys st (q_id p)))"
    have "distinct (?pids p)" using Cons.prems(1) by (cases "buys st (q_id p)") auto
    moreover have "set (?pids p) \<inter> (\<Union>q \<in> set ps. set (?pids q)) = {}"
    proof (rule disjoint_singleton)
      show "set (?pids p) \<subseteq> {q_id p}" by (auto simp: position_of_def)
      show "(\<Union>q \<in> set ps. set (?pids q)) \<subseteq> q_id ` set ps" by (auto simp: position_of_def)
      show "q_id p \<notin> q_id ` set ps" using Cons.prems(2) by simp
    qed
    ultimately show ?case using Cons by (simp add: map_concat image_Union image_image comp_def)
  qed simp
  moreover have "length (buys st (q_id p)) \<le> 1" if "p \<in> set (proposals st)" for p
    using book_wfD(3) [OF assms that] by (auto simp: fills_ok_def split: list.splits)
  moreover have "distinct (map q_id (proposals st))"
    using book_wfD(2) [OF assms] by (simp add: strict_sorted_iff)
  ultimately show ?thesis unfolding open_positions_def buys_def by (blast intro: distinct_map_filter)
qed

section \<open>A whole pass\<close>

lemma sale_closes:
  assumes wf: "book_wf st'" and eq: "same_besides_book st st'" "fills st' = fills st @ fs" "distinct (map f_pid fs)"
    and f: "f \<in> set fs" "exit_fill_ok pos f" "sellable st pos"
  shows "f_pid f \<notin> pp_pid ` set (open_positions st')"
proof
  assume "f_pid f \<in> pp_pid ` set (open_positions st')"
  then obtain q where q: "q \<in> set (open_positions st')" and same: "pp_pid q = f_pid f" by auto
  obtain p where p: "p \<in> set (proposals st')" "q_id p = f_pid f" "sold st' (f_pid f) < q_qty p"
    using q same open_position_facts [OF wf] by (auto simp: position_of_def)
  obtain p' where p': "p' \<in> set (proposals st')" "q_id p' = f_pid f" "f_qty f = q_qty p' - sold st (f_pid f)"
    using f(2,3) eq(1) by (auto simp: sellable_def exit_fill_ok_def same_besides_book_def)
  have "filter (\<lambda>g. f_pid g = f_pid f \<and> f_side g = Sell) fs = [f]"
    using filter_key_single [OF eq(3) f(1)] f(2)
    by (simp add: exit_fill_ok_def flip: filter_filter)
  then have "sold st' (f_pid f) = sold st (f_pid f) + f_qty f" using eq(2) by (simp add: sold_def)
  moreover have "p = p'"
    using sorted_ids_inj [of q_id "proposals st'" p p'] book_wfD(2) [OF wf] p p' by simp
  ultimately show False using p p' by simp
qed

lemma exits_effect:
  assumes run: "exits env (rep, st) = Inr (rep', st')" and wf: "book_wf st"
  shows "book_wf st' \<and> same_besides_book st st' \<and> outcomes st' = outcomes st \<and>
    (\<exists>fs. fills st' = fills st @ fs \<and> (\<forall>f \<in> set fs. \<exists>pos \<in> set (open_positions st). exit_fill_ok pos f) \<and>
       distinct (map f_pid fs))"
proof -
  have settled: "book_wf b \<and> same_besides_book a b \<and> outcomes b = outcomes a \<and> fills b = fills a"
    if set: "settle_requests env reqs (rp, a) = (rp', b)" and w: "book_wf a" for reqs rp rp' a b
  proof -
    obtain xs where "b = a\<lparr>exit_requests := xs\<rparr>" using settle_requests_effect [OF set] by blast
    then show ?thesis using w book_wf_cong [of b a] by (simp add: same_besides_book_def)
  qed
  consider "st' = st" | rp where "settle_requests env (pending_exit_requests st) (rep, st) = (rp, st')"
    | quotes wanted rp s where "fold_e (exit_one env quotes wanted) (open_positions st) (rep, st) = Inr (rp, s)"
        "settle_requests env (pending_exit_requests st) (rp, s) = (rep', st')"
    using run by (auto simp: exits_def Let_def err split: if_splits sum.splits)
  then show ?thesis
  proof cases
    case 1
    then show ?thesis using wf by (simp add: same_besides_book_def)
  next
    case 2
    from settled [OF this wf] show ?thesis by simp
  next
    case 3
    have "\<forall>pos \<in> set (open_positions st). sellable st pos" using open_sellable [OF wf] by blast
    from exits_fold_effect [OF 3(1) this open_pids_distinct [OF wf] wf]
    obtain fs where fs: "book_wf s" "same_besides_book st s" "outcomes s = outcomes st" "fills s = fills st @ fs"
      "\<forall>f \<in> set fs. \<exists>pos \<in> set (open_positions st). exit_fill_ok pos f" "distinct (map f_pid fs)" by blast
    from settled [OF 3(2) fs(1)] have "book_wf st'" "same_besides_book s st'" "outcomes st' = outcomes s" "fills st' = fills s"
      by simp_all
    then show ?thesis using fs same_besides_book_trans [OF fs(2)] by simp
  qed
qed

text \<open>A pass during regular hours.\<close>

lemma watch_pass:
  assumes r: "entries env (rp0, st) = Inr (rp, s)" "exits env (rp, s) = Inr (rep, st')" and wf: "book_wf st"
  shows "book_wf st' \<and> same_besides_book st st' \<and> prefix (outcomes st) (outcomes st') \<and>
    (\<exists>es xs. fills st' = fills st @ es @ xs \<and>
       (\<forall>f \<in> set es. \<exists>p \<in> set (pending_proposals st). entry_fill_ok env p f) \<and>
       (\<forall>f \<in> set xs. f_side f = Sell \<and> f_pid f \<notin> pp_pid ` set (open_positions st')) \<and> distinct (map f_pid xs))"
proof -
  have d: "distinct (map q_id (pending_proposals st))"
    using book_wfD(2) [OF wf] unfolding pending_proposals_def by (intro distinct_map_filter) (simp add: strict_sorted_iff)
  have "set (pending_proposals st) \<subseteq> set (committed_proposals st)" by (simp add: pending_committed [OF wf])
  from entries_fold_effect [OF r(1) [unfolded entries_def split_conv] this d wf]
  obtain es where en: "book_wf s" "same_besides_book st s" "prefix (outcomes st) (outcomes s)" "fills s = fills st @ es"
    "\<forall>f \<in> set es. \<exists>p \<in> set (pending_proposals st). entry_fill_ok env p f" by blast
  from exits_effect [OF r(2) en(1)]
  obtain xs where ex: "book_wf st'" "same_besides_book s st'" "outcomes st' = outcomes s" "fills st' = fills s @ xs"
    "\<forall>f \<in> set xs. \<exists>pos \<in> set (open_positions s). exit_fill_ok pos f" "distinct (map f_pid xs)" by blast
  have "f_side f = Sell \<and> f_pid f \<notin> pp_pid ` set (open_positions st')" if f: "f \<in> set xs" for f
  proof -
    obtain pos where pos: "pos \<in> set (open_positions s)" "exit_fill_ok pos f" using ex(5) f by blast
    from sale_closes [OF ex(1,2,4,6) f pos(2) open_sellable [OF en(1) pos(1)]] pos(2)
    show ?thesis by (simp add: exit_fill_ok_def)
  qed
  then show ?thesis
    using ex en same_besides_book_trans [OF en(2) ex(2)] by (intro conjI exI [of _ es] exI [of _ xs]) simp_all
qed

lemma run_desk_watch_cases:
  assumes "run_desk_watch env window st = Inr (rep, st')"
  obtains (outside) "st' = st"
  | (rth) rp s where "phase_for (we_zone env) \<lparr>dt_wall = we_now env, dt_tz = TzFixed 0\<rparr> (watch_window (we_zone env) (we_now env) window) = Inr RTH"
      "entries env (empty_report, st) = Inr (rp, s)" "exits env (rp, s) = Inr (rep, st')"
  using assms by (auto simp: run_desk_watch_def err split: if_splits)

lemma run_desk_watch_effect:
  assumes "run_desk_watch env window st = Inr (rep, st')" and wf: "book_wf st"
  shows "book_wf st' \<and> same_besides_book st st' \<and> prefix (outcomes st) (outcomes st') \<and> prefix (fills st) (fills st')"
  using assms(1)
proof (cases rule: run_desk_watch_cases)
  case outside
  then show ?thesis using wf by (simp add: same_besides_book_def)
next
  case (rth rp s)
  from watch_pass [OF rth(2,3) wf] show ?thesis by auto
qed

text \<open>A pass that raises keeps the book as well.\<close>

lemma enter_writes_both:
  assumes "p \<in> set (committed_proposals st)" and "record_fill st (q_id p) t Buy n x why tr lm = Inr st1"
  shows "\<exists>st2. record_outcome st1 (q_id p) t Filled v a = Inr st2"
  using assms by (auto simp: committed_facts record_fill_def record_outcome_def has_outcome_def split: if_splits)

lemma mark_left_effect:
  assumes "book_wf st"
  shows "book_wf (snd (mark_left env quotes pos (rep, st))) \<and> same_besides_book st (snd (mark_left env quotes pos (rep, st))) \<and>
    outcomes (snd (mark_left env quotes pos (rep, st))) = outcomes st \<and> fills (snd (mark_left env quotes pos (rep, st))) = fills st"
proof -
  have "snd (mark_left env quotes pos (rep, st)) = st \<or> (\<exists>s x. snd (mark_left env quotes pos (rep, st)) = upsert_mark st s x)"
    by (cases "quotes (pp_underlying pos)"; cases "quotes (pp_symbol pos)") (auto simp: mark_left_def)
  then consider "snd (mark_left env quotes pos (rep, st)) = st" | s x where "snd (mark_left env quotes pos (rep, st)) = upsert_mark st s x" by blast
  then show ?thesis
  proof cases
    case 2
    have "book_wf (upsert_mark st s x)" using assms book_wf_cong [of "upsert_mark st s x" st] by (simp add: upsert_mark_def)
    then show ?thesis unfolding 2 by (simp add: upsert_mark_def same_besides_book_def)
  qed (use assms in \<open>simp add: same_besides_book_def\<close>)
qed

lemma exits_left_effect:
  assumes "exits env (rep, st) = Inl e" and wf: "book_wf st"
  shows "book_wf (exits_left env (rep, st)) \<and> same_besides_book st (exits_left env (rep, st)) \<and>
    outcomes (exits_left env (rep, st)) = outcomes st \<and> prefix (fills st) (fills (exits_left env (rep, st)))"
proof -
  let ?poss = "open_positions st" and ?wanted = "set (List.map_filter x_pid (pending_exit_requests st))"
  show ?thesis
  proof (cases "sorted_quotes env (map pp_underlying ?poss @ map pp_symbol ?poss)")
    case (Inl e')
    then show ?thesis using wf by (simp add: exits_left_def same_besides_book_def)
  next
    case (Inr quotes)
    then have "fold_e (exit_one env quotes ?wanted) ?poss (rep, st) = Inl e"
      using assms(1) by (auto simp: exits_def Let_def err split: if_splits)
    then obtain ys x zs t where s: "?poss = ys @ x # zs" "fold_e (exit_one env quotes ?wanted) ys (rep, st) = Inr t"
      "fold_kept (exit_one env quotes ?wanted) (mark_left env quotes) ?poss (rep, st) = mark_left env quotes x t"
      by (rule fold_kept_split [where k = "mark_left env quotes"])
    obtain rp a where t: "t = (rp, a)" by force
    have ok: "\<forall>pos \<in> set ys. sellable st pos" using open_sellable [OF wf] s(1) by simp
    have d: "distinct (map pp_pid ys)" using open_pids_distinct [OF wf] unfolding s(1) by simp
    from exits_fold_effect [OF s(2) [unfolded t] ok d wf]
    obtain fs where a: "book_wf a" "same_besides_book st a" "outcomes a = outcomes st" "fills a = fills st @ fs" by blast
    have left: "exits_left env (rep, st) = snd (mark_left env quotes x (rp, a))" using Inr s(3) t by (simp add: exits_left_def Let_def)
    from mark_left_effect [OF a(1), of env quotes x rp] show ?thesis
      unfolding left using a same_besides_book_trans [OF a(2)] by simp
  qed
qed

lemma watch_left_effect:
  assumes "run_desk_watch env window st = Inl e" and wf: "book_wf st"
  shows "book_wf (watch_left env window st) \<and> same_besides_book st (watch_left env window st) \<and>
    prefix (outcomes st) (outcomes (watch_left env window st)) \<and> prefix (fills st) (fills (watch_left env window st))"
proof -
  have same: ?thesis if "watch_left env window st = st" using wf unfolding that by (simp add: same_besides_book_def)
  show ?thesis
  proof (cases "phase_for (we_zone env) \<lparr>dt_wall = we_now env, dt_tz = TzFixed 0\<rparr> (watch_window (we_zone env) (we_now env) window) = Inr RTH")
    case False
    then show ?thesis by (intro same) (auto simp: watch_left_def split: sum.split)
  next
    case rth: True
    have d: "distinct (map q_id (pending_proposals st))"
      using book_wfD(2) [OF wf] unfolding pending_proposals_def by (intro distinct_map_filter) (simp add: strict_sorted_iff)
    have c: "set (pending_proposals st) \<subseteq> set (committed_proposals st)" by (simp add: pending_committed [OF wf])
    show ?thesis
    proof (cases "entries env (empty_report, st)")
      case (Inl e')
      then have "fold_e (entry_one env) (pending_proposals st) (empty_report, st) = Inl e'" by (simp add: entries_def)
      then obtain ys x zs t where s: "pending_proposals st = ys @ x # zs" "fold_e (entry_one env) ys (empty_report, st) = Inr t"
        "fold_kept (entry_one env) (\<lambda>_ s. s) (pending_proposals st) (empty_report, st) = t"
        by (rule fold_kept_split [where k = "\<lambda>_ s. s"])
      obtain rp a where t: "t = (rp, a)" by force
      have "set ys \<subseteq> set (committed_proposals st)" "distinct (map q_id ys)" using c d unfolding s(1) by auto
      from entries_fold_effect [OF s(2) [unfolded t] this wf] show ?thesis
        using rth Inl s(3) t by (auto simp: watch_left_def)
    next
      case (Inr y)
      obtain rp s where y: "y = (rp, s)" by force
      from entries_fold_effect [OF Inr [unfolded y entries_def split_conv] c d wf]
      obtain fs where en: "book_wf s" "same_besides_book st s" "prefix (outcomes st) (outcomes s)" "fills s = fills st @ fs" by blast
      have "exits env (rp, s) = Inl e" using assms(1) rth Inr y by (simp add: run_desk_watch_def)
      note ex = exits_left_effect [OF this en(1)]
      have "prefix (fills st) (fills s)" by (simp add: en(4))
      then have "prefix (fills st) (fills (exits_left env (rp, s)))" using ex prefix_order.trans by blast
      moreover have "watch_left env window st = exits_left env (rp, s)" using rth Inr y by (simp add: watch_left_def)
      ultimately show ?thesis using ex en same_besides_book_trans [OF en(2)] by simp
    qed
  qed
qed

text \<open>C4: what a pass of the watch may do to the book. It keeps the book consistent and every other
  table as it was. The fills it adds are first entries, each for the whole quantity of a proposal
  that was pending, posted today, before 15:55, past its veto deadline or approved, and at an ask
  no higher than the proposal's limit; then sales, each of which closes a position completely, at
  most one per position. Outside regular hours it changes nothing.\<close>

theorem run_desk_watch_sound:
  assumes run: "run_desk_watch env window st = Inr (rep, st')" and wf: "book_wf st"
  shows "book_wf st' \<and> same_besides_book st st' \<and> prefix (outcomes st) (outcomes st') \<and> 
    (phase_for (we_zone env) \<lparr>dt_wall = we_now env, dt_tz = TzFixed 0\<rparr> (watch_window (we_zone env) (we_now env) window) \<noteq> Inr RTH
       \<longrightarrow> st' = st) \<and>
    (\<exists>es xs. fills st' = fills st @ es @ xs \<and>
       (\<forall>f \<in> set es. \<exists>p \<in> set (pending_proposals st). entry_fill_ok env p f) \<and>
       (\<forall>f \<in> set xs. f_side f = Sell \<and> f_pid f \<notin> pp_pid ` set (open_positions st')) \<and> distinct (map f_pid xs))"
  using run
proof (cases rule: run_desk_watch_cases)
  case outside
  then show ?thesis using wf by (intro conjI exI [of _ "[]"]) (simp_all add: same_besides_book_def)
next
  case (rth rp s)
  from watch_pass [OF rth(2,3) wf] rth(1) show ?thesis by blast
qed

text \<open>The example position is through its stop: last price 46 against a trigger of 47.\<close>

definition sample_env :: watch_env where
  "sample_env = \<lparr>we_zone = edt, we_broker = sample_broker\<lparr>br_quotes := (\<lambda>_. Inr [''MSFT'' \<mapsto>
       \<lparr>qt_last = 46, qt_bid = 46, qt_ask = 46, qt_time = combine 739870 (hm 15 0)\<rparr>])\<rparr>,
     we_reactions = (\<lambda>_. no_reactions), we_rules = rules_yml, we_reserve = 900, we_now = combine 739870 (hm 15 1)\<rparr>"

lemma sample_held_wf: "book_wf sample_held"
  by (simp add: book_wf_def calls_wf_def sample_held_def empty_desk_def sample_call_def fills_ok_def buys_def
      filled_outcome_def sold_def)

lemma sample_watch_rth: "phase_for edt \<lparr>dt_wall = combine 739870 (hm 15 1), dt_tz = TzFixed 0\<rparr>
    (watch_window edt (combine 739870 (hm 15 1)) None) = Inr RTH"
  by code_simp

lemma sample_stop_hit:
  "exit_reason sample_env (position_of sample_held (hd (proposals sample_held)) (hd (fills sample_held))) True 55 46
     \<lparr>qt_last = 46, qt_bid = 46, qt_ask = 46, qt_time = tm\<rparr> \<lparr>qt_last = 46, qt_bid = 46, qt_ask = 46, qt_time = tm\<rparr> =
   Inr (Some (''stop'', 47))"
  by (simp add: exit_reason_def sample_held_def position_of_def dec_eval cong: bind_e_weak_cong let_weak_cong)

lemma sample_exit:
  "\<exists>rep st'. exits sample_env (empty_report, sample_held) = Inr (rep, st') \<and> open_positions st' = []"
proof -
  define pos where "pos = position_of sample_held (hd (proposals sample_held)) (hd (fills sample_held))"
  define q where "q = \<lparr>qt_last = 46, qt_bid = 46, qt_ask = 46, qt_time = combine 739870 (hm 15 0)\<rparr> "
  define st1 where "st1 = upsert_mark sample_held ''MSFT'' (46 :: dec)"
  have o: "open_positions sample_held = [pos]" "pending_exit_requests sample_held = []"
    by (simp_all add: open_positions_def sample_held_def empty_desk_def sold_def position_of_def pos_def pending_exit_requests_def)
  have p: "pp_underlying pos = ''MSFT''" "pp_symbol pos = ''MSFT''" "pp_instr pos = Shares" "pp_call pos = 1" "pp_pid pos = 1" "pp_qty pos = 30"
    by (simp_all add: pos_def position_of_def sample_held_def sold_def)
  have c: "current_call_id st1 1 = Inr 1" "get_call st1 1 = Some (sample_call 1 None)" "effective_invalidation st1 (sample_call 1 None) = 46"
    by (simp_all add: st1_def upsert_mark_def sample_held_def empty_desk_def current_call_id_def extension_of_def sample_call_def
        get_call_def effective_invalidation_def)
  have s: "exit_reason sample_env pos True 55 46 q q = Inr (Some (''stop'', 47))"
    unfolding pos_def q_def by (rule sample_stop_hit)
  have e: "sorted_quotes sample_env [''MSFT'', ''MSFT''] = Inr [''MSFT'' \<mapsto> q]" "\<not> stale (Some q) (we_now sample_env)"
    by (simp_all add: sample_env_def sorted_quotes_def q_def stale_def QUOTE_MAX_AGE_S_def us_defs combine_def)
  have k: "qt_last q = 46" "c_direction (sample_call 1 None) = Up" "c_target (sample_call 1 None) = 55" "wr_exits empty_report = []"
    by (simp_all add: q_def sample_call_def empty_report_def)
  have one: "exit_one sample_env [''MSFT'' \<mapsto> q] {} pos (empty_report, sample_held) =
      bind_e (record_fill st1 1 (we_now sample_env) Sell 30 47 ''stop'' None None) (\<lambda>st2.
        Inr (empty_report\<lparr>wr_exits := [(1, ''stop'')]\<rparr>, st2))"
    using c s e(2) k by (simp add: exit_one_def p st1_def [symmetric])
  show ?thesis
    using e one o p by (simp add: exits_def List.map_filter_def Let_def)
      (simp add: record_fill_def settle_requests_def st1_def upsert_mark_def sample_held_def open_positions_def sold_def
        position_of_def empty_desk_def)
qed

lemma sample_watch:
  "\<exists>rep st'. run_desk_watch sample_env None sample_held = Inr (rep, st') \<and> open_positions st' = []"
proof -
  have "entries sample_env (empty_report, sample_held) = Inr (empty_report, sample_held)"
    by (simp add: entries_def pending_proposals_def has_outcome_def sample_held_def)
  moreover have "phase_for (we_zone sample_env) \<lparr>dt_wall = we_now sample_env, dt_tz = TzFixed 0\<rparr>
      (watch_window (we_zone sample_env) (we_now sample_env) None) = Inr RTH"
    using sample_watch_rth by (simp add: sample_env_def)
  ultimately show ?thesis using sample_exit by (auto simp: run_desk_watch_def)
qed

theorem run_desk_watch_sound_witness:
  "\<exists>rep st'. run_desk_watch sample_env None sample_held = Inr (rep, st') \<and> book_wf st' \<and> open_positions st' = []"
  using sample_watch run_desk_watch_sound [OF _ sample_held_wf, of sample_env None] by blast

text \<open>An entry never spends into the reserve at the price actually paid: after the fill the
  book's cash, less what the other pending proposals are promised, is what it was without this
  proposal less the price paid, and still covers the reserve.\<close>

theorem fill_entry_keeps_reserve:
  assumes run: "fill_entry env p (Some qq) u r (rep, st) = Inr (rep', st')" and filled: "fills st' \<noteq> fills st"
    and p: "p \<in> set (committed_proposals st)" and wf: "book_wf st"
    and b: "paper_book st = Some (d, e)" "book_state st (Some (q_id p)) = Inr b"
    and fit: "amounts_fit j (cash st e) (map market_value (holdings b)) (entry_notional p (qt_ask qq))"
  shows "\<exists>b'. book_state st' None = Inr b' \<and> we_reserve env \<le> book_cash b' \<and>
    book_cash b' = book_cash b - entry_notional p (qt_ask qq)"
proof -
  have no: "fills st' = fills st" if "oc \<noteq> Filled" "skip env p oc (veto r) (approve r) (rep, st) = Inr (rep', st')" for oc
    using skip_effect [OF that(2,1) wf] by simp
  have "\<exists>(call :: call_row) trig lmt. recheck env st p (c_bench call) (qt_ask qq) = Inr () \<and>
    enter env p (qt_ask qq) r trig lmt (rep, st) = Inr (rep', st')"
    using fill_entry_cases [OF run]
  proof (elim disjE exE conjE)
    fix oc assume "oc \<noteq> Filled" "skip env p oc (veto r) (approve r) (rep, st) = Inr (rep', st')"
    then show ?thesis using no filled by blast
  next
    fix q :: quote and call :: call_row and trig lmt assume "Some qq = Some q" "recheck env st p (c_bench call) (qt_ask q) = Inr ()"
      "enter env p (qt_ask q) r trig lmt (rep, st) = Inr (rep', st')"
    then show ?thesis by blast
  qed
  then obtain call :: call_row and trig lmt where c: "recheck env st p (c_bench call) (qt_ask qq) = Inr ()"
    "enter env p (qt_ask qq) r trig lmt (rep, st) = Inr (rep', st')" by blast
  obtain corr where ck: "check_book b (q_underlying p) (c_bench call) (entry_notional p (qt_ask qq)) (q_instr p \<noteq> Shares) corr
      (we_rules env) (we_reserve env) = Inr ()"
    using c(1) b(2) by (auto simp: recheck_def err)
  obtain st1 where w: "record_fill st (q_id p) (we_now env) Buy (q_qty p) (qt_ask qq) ''entry'' trig lmt = Inr st1"
    "record_outcome st1 (q_id p) (we_now env) Filled (veto r) (approve r) = Inr st'"
    using c(2) by (auto simp: enter_def err)
  have wf': "book_wf st'" using enter_effect [OF c(2) p wf] by simp
  note en = entry_cash [OF w p wf]
  obtain b' where b': "book_state st' None = Inr b'"
    using book_state_total [OF wf' en(3) [unfolded b(1)]] by blast
  have "book_cash b' = book_cash b - entry_notional p (qt_ask qq)"
    using book_state_parts [OF b' en(3) [unfolded b(1)]] excluded_cash_exact(2) [OF b(2,1) fit]
    by (auto simp: Let_def en(1,2) entry_notional_def)
  moreover have "we_reserve env \<le> book_cash b - entry_notional p (qt_ask qq)"
    using check_book_cash(1) [OF ck] excluded_cash_exact(1) [OF b(2,1) fit] by simp
  ultimately show ?thesis using b' by auto
qed

definition sample_proposal :: proposal where
  "sample_proposal = \<lparr>q_id = 1, q_call = 1, q_created = 0, q_instr = Shares, q_symbol = ''MSFT'', q_underlying = ''MSFT'',
       q_qty = 30, q_max_entry = 50, q_atr = Some 4, q_posted = Some 0, q_deadline = Some 0, q_msg = None\<rparr>"

definition sample_posted :: desk where
  "sample_posted = empty_desk\<lparr>calls := [sample_call 1 None], paper_book := Some (739870, 10000), proposals := [sample_proposal]\<rparr>"

lemma sample_posted_facts:
  "book_wf sample_posted" "sample_proposal \<in> set (committed_proposals sample_posted)" "cash sample_posted 10000 = 10000"
  "book_state sample_posted (Some 1) = Inr \<lparr>equity = 10000, book_cash = 10000, holdings = []\<rparr>"
  by (simp_all add: sample_posted_def sample_proposal_def book_wf_def calls_wf_def empty_desk_def sample_call_def fills_ok_def buys_def
      filled_outcome_def sold_def committed_proposals_def has_outcome_def has_buy_def cash_def joined_fills_def
      book_state_def open_positions_def dec_eval)

lemma sample_share_stop:
  "\<exists>g. share_stop sample_env sample_proposal 50 46 = Inr g"
  by (simp add: share_stop_def sample_env_def sample_proposal_def entry_stop_def stop_geometry_example HUNDRED_def dec_eval
      cong: bind_e_weak_cong let_weak_cong)

lemma sample_recheck: "recheck sample_env sample_posted sample_proposal ''XLK'' 50 = Inr ()"
proof -
  have c: "correlated_with sample_posted rules_yml ''MSFT'' \<lparr>equity = 10000, book_cash = 10000, holdings = []\<rparr> = Inr {}"
    by (simp add: correlated_with_def)
  have "check_book \<lparr>equity = 10000, book_cash = 10000, holdings = []\<rparr> ''MSFT'' ''XLK'' 1500 False {} rules_yml 900 = Inr ()"
    by (simp add: check_book_def over_cap_def cap_dollars_def HUNDRED_def dec_eval cong: bind_e_weak_cong let_weak_cong)
  then show ?thesis
    using sample_posted_facts(4) c
    by (simp add: recheck_def sample_env_def sample_proposal_def entry_notional_def dec_eval cong: bind_e_weak_cong)
qed

theorem fill_entry_keeps_reserve_witness:
  "\<exists>rep st' b'. fill_entry sample_env sample_proposal (Some \<lparr>qt_last = 50, qt_bid = 50, qt_ask = 50, qt_time = 0\<rparr>) None
       no_reactions (empty_report, sample_posted) = Inr (rep, st') \<and>
     book_state st' None = Inr b' \<and> 900 \<le> book_cash b' \<and> book_cash b' = 10000 - 1500"
proof -
  let ?q = "\<lparr>qt_last = 50, qt_bid = 50, qt_ask = 50, qt_time = 0\<rparr>"
  have c: "current_call_id sample_posted 1 = Inr 1" "get_call sample_posted 1 = Some (sample_call 1 None)"
    "effective_invalidation sample_posted (sample_call 1 None) = 46" "c_bench (sample_call 1 None) = ''XLK''"
    by (simp_all add: sample_posted_def empty_desk_def current_call_id_def extension_of_def sample_call_def get_call_def
        effective_invalidation_def)
  have p: "q_call sample_proposal = 1" "q_instr sample_proposal = Shares" "q_max_entry sample_proposal = 50"
    "q_id sample_proposal = 1" "q_qty sample_proposal = 30" by (simp_all add: sample_proposal_def)
  have n: "entry_notional sample_proposal 50 = 1500" by (simp add: entry_notional_def p dec_eval)
  obtain rep st' where run: "fill_entry sample_env sample_proposal (Some ?q) None no_reactions (empty_report, sample_posted) = Inr (rep, st')"
    "fills st' \<noteq> fills sample_posted"
    using sample_share_stop
    by (auto simp: fill_entry_def p c sample_recheck enter_def record_fill_def record_outcome_def has_outcome_def Let_def)
      (auto simp: sample_posted_def sample_proposal_def empty_desk_def)
  have "paper_book sample_posted = Some (739870, 10000)" by (simp add: sample_posted_def)
  moreover have "amounts_fit 0 (cash sample_posted 10000) (map market_value (holdings
        \<lparr>equity = 10000, book_cash = 10000, holdings = []\<rparr>)) (entry_notional sample_proposal (qt_ask ?q))"
    by (simp add: amounts_fit_def sample_posted_facts(3) n fits_def)
  ultimately show ?thesis
    using fill_entry_keeps_reserve [OF run sample_posted_facts(2,1) _ _] sample_posted_facts(4) run(1) n
    by (fastforce simp: p sample_env_def)
qed

end
