(* ===== verification/TC_Desk.thy ===== *)
theory TC_Desk
  imports TC_Watch
begin

text \<open>
  The desk as one machine. Every operation of the previous theories that writes the desk's
  tables is a step, in any order and with any input, broker, clock and chat: the jobs and the
  tool calls of tc/main.py and tc/mcp interleave freely. The operations that loop over rows may raise
  with part of their rows written: these are steps of their own, to the state they leave. Every
  other operation that raises has written nothing: it checks first and writes last. Two rules stand
  for the writers of the tables the desk only reads: the account snapshot and the universe.
\<close>

section \<open>Steps\<close>

inductive desk_step :: "desk \<Rightarrow> desk \<Rightarrow> bool" where
  Start: "ensure_book st d e = (row, st') \<Longrightarrow> desk_step st st'"
| File: "submit_pitch z st a pin now px tradeable r td = Inr (p, st') \<Longrightarrow> desk_step st st'"
| Withdraw: "withdraw_pitch z st a k now = Inr st' \<Longrightarrow> desk_step st st'"
| Call: "submit_call ctx st cin = Inr (out, st') \<Longrightarrow> desk_step st st'"
| Extend: "extend_call ctx st k tg iv h th = Inr (out, st') \<Longrightarrow> desk_step st st'"
| Tighten: "tighten_call ctx st k level = Inr (new, st') \<Longrightarrow> desk_step st st'"
| AskExit: "request_exit_for ctx st symb why = Inr (knd, st') \<Longrightarrow> desk_step st st'"
| Expire: "expire_stale_proposals z st now = Inr (ids, st') \<Longrightarrow> desk_step st st'"
| Post: "post_proposals z pm r cfg now window st = Inr (ids, st') \<Longrightarrow> desk_step st st'"
| Watch: "run_desk_watch env window st = Inr (rep, st') \<Longrightarrow> desk_step st st'"
| Score: "score st = Inr (rep, st') \<Longrightarrow> desk_step st st'"
| Sweep: "refresh_bars db st ss cfg d = Inr (rep, st') \<Longrightarrow> desk_step st st'"
| PostRaised: "post_proposals z pm r cfg now window st = Inl e \<Longrightarrow> desk_step st (post_left z pm r cfg now window st)"
| WatchRaised: "run_desk_watch env window st = Inl e \<Longrightarrow> desk_step st (watch_left env window st)"
| ScoreRaised: "score st = Inl e \<Longrightarrow> desk_step st (score_left st)"
| SweepRaised: "refresh_bars db st ss cfg d = Inl e \<Longrightarrow> desk_step st (refresh_left db st ss cfg d)"
| Account: "desk_step st (st\<lparr>real_positions := acct\<rparr>)"
| Universe: "desk_step st (st\<lparr>qualified_symbols := u\<rparr>)"

definition desk_inv :: "desk \<Rightarrow> bool" where
  "desk_inv st \<longleftrightarrow> book_wf st \<and> ext_wf st \<and> pitches_wf st \<and> bars_wf st \<and> distinct (map res_key (resolutions st))"

text \<open>The tables that are only ever appended to.\<close>

definition grows :: "desk \<Rightarrow> desk \<Rightarrow> bool" where
  "grows st st' \<longleftrightarrow> prefix (calls st) (calls st') \<and> prefix (pitches st) (pitches st') \<and>
     prefix (withdrawals st) (withdrawals st') \<and> prefix (tightenings st) (tightenings st') \<and>
     prefix (resolutions st) (resolutions st') \<and> prefix (outcomes st) (outcomes st') \<and> prefix (fills st) (fills st')"

text \<open>Everything but the proposals, the outcomes, the fills and the exit requests is as it was.\<close>

definition frame :: "desk \<Rightarrow> desk \<Rightarrow> bool" where
  "frame st st' \<longleftrightarrow> calls st' = calls st \<and> pitches st' = pitches st \<and> withdrawals st' = withdrawals st \<and>
     tightenings st' = tightenings st \<and> resolutions st' = resolutions st \<and> bars st' = bars st"

lemma ext_wf_cong: "calls st' = calls st \<Longrightarrow> ext_wf st' = ext_wf st"
  by (simp add: ext_wf_def)

lemma pitches_wf_cong:
  "pitches st' = pitches st \<Longrightarrow> withdrawals st' = withdrawals st \<Longrightarrow> resolutions st' = resolutions st \<Longrightarrow>
   pitches_wf st' = pitches_wf st"
  by (simp add: pitches_wf_def open_pitches_def withdrawn_def pitch_resolved_def)

lemma frame_inv: "frame st st' \<Longrightarrow> book_wf st' \<Longrightarrow> desk_inv st \<Longrightarrow> desk_inv st'"
  using ext_wf_cong [of st' st] pitches_wf_cong [of st' st]
  by (simp add: desk_inv_def frame_def bars_wf_def)

lemma frame_grows:
  "frame st st' \<Longrightarrow> prefix (outcomes st) (outcomes st') \<Longrightarrow> prefix (fills st) (fills st') \<Longrightarrow> grows st st'"
  by (simp add: grows_def frame_def)

lemma frame_effective: "frame st st' \<Longrightarrow> effective_invalidation st' c = effective_invalidation st c"
  by (simp add: frame_def effective_invalidation_def)

lemma disjoint_part: "A \<subseteq> B \<Longrightarrow> B \<inter> C = {} \<Longrightarrow> C \<inter> A = {}"
  by blast

section \<open>Each operation\<close>

lemma expire_frame:
  assumes "expire_stale_proposals z st now = Inr (ids, st')" and wf: "book_wf st"
  shows "book_wf st' \<and> frame st st' \<and> prefix (outcomes st) (outcomes st') \<and> fills st' = fills st"
proof -
  let ?P = "\<lambda>(out, s). book_wf s \<and> frame st s \<and> prefix (outcomes st) (outcomes s) \<and> fills s = fills st"
  have "?P (ids, st')"
    using assms(1)[unfolded expire_stale_proposals_def]
  proof (rule fold_e_invariant [where P = ?P])
    show "?P ([], st)" using wf by (simp add: frame_def)
    fix p :: proposal and a b :: "int list \<times> desk"
    assume P: "?P a" and step: "(\<lambda>(out, s). if et_date z (q_created p) < et_date z now
         then bind_e (record_outcome s (q_id p) now Expired False False) (\<lambda>s'. Inr (out @ [q_id p], s'))
         else Inr (out, s)) a = Inr b"
    obtain out s where a: "a = (out, s)" by force
    show "?P b"
    proof (cases "et_date z (q_created p) < et_date z now")
      case True
      then obtain s' where s': "record_outcome s (q_id p) now Expired False False = Inr s'" "b = (out @ [q_id p], s')"
        using step a by (auto simp: err)
      have "book_wf s'" using record_outcome_book_wf [OF s'(1)] P a by simp
      then show ?thesis using P a s' by (auto simp: record_outcome_def frame_def split: if_splits)
    next
      case False
      then show ?thesis using P a step by auto
    qed
  qed
  then show ?thesis by simp
qed

lemma post_one_frame:
  "post_one z pm r opens end_w v now p a = Inr b \<Longrightarrow> frame st (snd a) \<Longrightarrow> frame st (snd b)"
  by (cases a) (auto simp: post_one_def Let_def err frame_def record_outcome_def mark_posted_def split: if_splits option.splits prod.splits bool.splits)

lemma post_frame:
  assumes "post_proposals z pm r cfg now window st = Inr (ids, st')" and wf: "book_wf st"
  shows "book_wf st' \<and> frame st st' \<and> prefix (outcomes st) (outcomes st') \<and> fills st' = fills st"
proof -
  obtain minutes where f: "fold_e (post_one z pm r (combine (et_date z now) (entry_window_start cfg))
      (posting_end z cfg (us_of_min minutes) (et_date z now) window) (us_of_min minutes) now) (unposted_proposals st) ([], st) = Inr (ids, st')"
    using assms(1) by (auto simp: post_proposals_def err Let_def)
  have "frame st (snd (ids, st'))"
    by (rule fold_e_invariant [OF f]) (auto simp: frame_def [of st st] intro: post_one_frame)
  then show ?thesis using post_fold_settles [OF f refl wf] by (simp add: settles_def)
qed

lemma post_one_keeps:
  assumes "post_one z pm r opens end_w v now p (posted, st) = Inr (posted', st')" and wf: "book_wf st"
  shows "book_wf st' \<and> prefix (outcomes st) (outcomes st') \<and> fills st' = fills st"
proof -
  consider "record_outcome st (q_id p) now Expired False False = Inr st'" | dl mid where "st' = snd (mark_posted st (q_id p) now dl (Some mid))"
    using assms(1) unfolding post_one_def by (auto simp: Let_def err case_prod_beta split: if_splits option.splits bool.splits)
  then show ?thesis
  proof cases
    case 1
    have "book_wf st'" by (rule record_outcome_book_wf [OF 1 _ wf]) simp
    then show ?thesis using 1 by (auto simp: record_outcome_def split: if_splits)
  next
    case 2
    then show ?thesis using mark_posted_book_wf [OF wf] by (simp add: mark_posted_def)
  qed
qed

lemma post_left_frame:
  assumes "post_proposals z pm r cfg now window st = Inl e" and wf: "book_wf st"
  shows "book_wf (post_left z pm r cfg now window st) \<and> frame st (post_left z pm r cfg now window st) \<and>
    prefix (outcomes st) (outcomes (post_left z pm r cfg now window st)) \<and> fills (post_left z pm r cfg now window st) = fills st"
proof (cases "rules_int r ''strategy'' ''veto_window_minutes''")
  case (Inl x)
  then show ?thesis using wf by (simp add: post_left_def frame_def)
next
  case (Inr minutes)
  let ?one = "post_one z pm r (combine (et_date z now) (entry_window_start cfg))
      (posting_end z cfg (us_of_min minutes) (et_date z now) window) (us_of_min minutes) now"
  have "fold_e ?one (unposted_proposals st) ([], st) = Inl e"
    using assms(1) Inr by (simp add: post_proposals_def Let_def)
  then obtain ys x zs t where s: "fold_e ?one ys ([], st) = Inr t" "fold_kept ?one (\<lambda>_ s. s) (unposted_proposals st) ([], st) = t"
    by (rule fold_kept_split [where k = "\<lambda>_ s. s"])
  let ?P = "\<lambda>s. book_wf (snd s) \<and> frame st (snd s) \<and> prefix (outcomes st) (outcomes (snd s)) \<and> fills (snd s) = fills st"
  have "?P t" using s(1)
  proof (rule fold_e_invariant [where P = ?P])
    show "?P ([], st)" using wf by (simp add: frame_def)
    fix p a b
    assume P: "?P a" and one: "?one p a = Inr b"
    obtain i u where a: "a = (i, u)" by force
    obtain j w where b: "b = (j, w)" by force
    have "book_wf w \<and> prefix (outcomes u) (outcomes w) \<and> fills w = fills u"
      using post_one_keeps [of z pm r "combine (et_date z now) (entry_window_start cfg)"
        "posting_end z cfg (us_of_min minutes) (et_date z now) window" "us_of_min minutes" now p i u j w] one P a b by simp
    moreover have "frame st w" using post_one_frame [OF one] P b by simp
    ultimately show "?P b" using P a b prefix_order.trans by auto
  qed
  then show ?thesis using s(2) Inr by (simp add: post_left_def Let_def)
qed

lemma request_exit_frame:
  assumes "request_exit_for ctx st symb why = Inr (knd, st')"
  shows "\<exists>xs. st' = st\<lparr>exit_requests := xs\<rparr>"
proof -
  let ?P = "\<lambda>s. \<exists>xs. s = st\<lparr>exit_requests := xs\<rparr>"
  have one: "?P s'" if "?P s" "request_exit s y k why t = Inr (n, s')" for s s' y k t n
    using that by (auto simp: request_exit_def Let_def split: if_splits)
  let ?held = "filter (\<lambda>p. pp_underlying p = upper (strip symb)) (open_positions st)"
  obtain st1 where f: "fold_e (\<lambda>p s. bind_e (request_exit s (upper (strip symb)) (Some (pp_pid p)) why (px_now ctx))
      (\<lambda>(_, s'). Inr s')) ?held st = Inr st1"
    and r: "(if ?held \<noteq> [] then Inr (PaperExit, st1)
      else (case real_positions st1 of
              Some ps \<Rightarrow> if upper (strip symb) \<in> fst ` set ps
                        then bind_e (request_exit st1 (upper (strip symb)) None why (px_now ctx)) (\<lambda>(_, st2). Inr (LegacyExit, st2))
                        else Inl (CallRefused NothingHeld)
            | None \<Rightarrow> Inl (CallRefused NothingHeld))) = Inr (knd, st')"
    using assms unfolding request_exit_for_def Let_def bind_e_eq_Inr by blast
  have last: "st' = st1 \<or> (\<exists>n. request_exit st1 (upper (strip symb)) None why (px_now ctx) = Inr (n, st'))"
    using r by (auto simp: err split: if_splits option.splits)
  have "?P st" by (rule exI [of _ "exit_requests st"]) simp
  with f have "?P st1" by (rule fold_e_invariant) (auto simp: err intro: one)
  then show ?thesis using last one by blast
qed

lemma resolved_inv:
  assumes inv: "desk_inv st" and its: "prefix its (load_open_items st)"
    and st': "st' = st\<lparr>resolutions := resolutions st @ new_resolutions st its\<rparr>"
  shows "desk_inv st'"
proof -
  have wf: "pitches_wf st" "calls_wf st" using inv book_wfD(1) by (auto simp: desk_inv_def)
  let ?R = "new_resolutions st its"
  have open_its: "set its \<subseteq> set (load_open_items st)" using its by (rule set_mono_prefix)
  have all: "distinct (map item_key (load_open_items st))" "item_key ` set (load_open_items st) \<inter> res_key ` set (resolutions st) = {}"
    using load_open_items_keys [OF wf] by auto
  have keys: "distinct (map item_key its)" using all(1) its by (auto simp: prefix_def)
  have from_item: "\<exists>it \<in> set its. res_key x = item_key it" if "x \<in> set ?R" for x
    using that by (auto simp: new_resolutions_in resolve_stored_def dest: resolve_key)
  have "distinct (map res_key (resolutions st'))"
  proof -
    have "res_key x \<in> item_key ` set (load_open_items st)" if "x \<in> set ?R" for x using from_item [OF that] open_its by auto
    then have "res_key ` set ?R \<subseteq> item_key ` set (load_open_items st)" by (rule image_subsetI)
    then have "res_key ` set (resolutions st) \<inter> res_key ` set ?R = {}" by (rule disjoint_part [OF _ all(2)])
    then show ?thesis using inv new_resolutions_distinct [OF keys, of st] by (simp add: desk_inv_def st')
  qed
  moreover have "pitches_wf st'"
  proof -
    have "r_item x \<in> p_id ` set (pitches st)" if x: "x \<in> set ?R" "r_kind x = KPitch" for x
    proof -
      obtain it where "it \<in> set (load_open_items st)" "res_key x = item_key it" using from_item [OF x(1)] open_its by blast
      then show ?thesis using x(2)
        by (auto simp: load_open_items_def res_key_def item_key_def pitch_item_def call_item_def open_pitches_def)
    qed
    moreover have "distinct (map pitch_key (open_pitches st'))"
      using wf(1) unfolding st' open_pitches_resolutions pitches_wf_def by (intro distinct_map_filter) simp
    ultimately show ?thesis using wf(1) by (auto simp: pitches_wf_def st')
  qed
  moreover have "book_wf st'" using inv book_wf_cong [of st' st] by (simp add: st' desk_inv_def)
  ultimately show ?thesis using inv ext_wf_cong [of st' st] st' by (auto simp: desk_inv_def bars_wf_def)
qed

lemma score_inv:
  assumes "score st = Inr (rep, st')" and inv: "desk_inv st"
  shows "desk_inv st' \<and> (\<exists>R. st' = st\<lparr>resolutions := resolutions st @ R\<rparr>)"
proof -
  have wf: "pitches_wf st" "calls_wf st" using inv book_wfD(1) by (auto simp: desk_inv_def)
  have st': "st' = st\<lparr>resolutions := resolutions st @ new_resolutions st (load_open_items st)\<rparr>"
    using score_eq [OF assms(1) wf] by simp
  from resolved_inv [OF inv prefix_order.refl this] st' show ?thesis by blast
qed

lemma score_left_inv:
  assumes "score st = Inl e" and inv: "desk_inv st"
  shows "desk_inv (score_left st) \<and> (\<exists>R. score_left st = st\<lparr>resolutions := resolutions st @ R\<rparr>)"
proof -
  have wf: "pitches_wf st" "calls_wf st" using inv book_wfD(1) by (auto simp: desk_inv_def)
  obtain its where "prefix its (load_open_items st)" "score_left st = st\<lparr>resolutions := resolutions st @ new_resolutions st its\<rparr>"
    using score_left_eq [OF assms(1) wf] by blast
  then show ?thesis using resolved_inv [OF inv] by blast
qed

lemma refresh_left_frame:
  assumes "desk_inv st"
  shows "\<exists>b. refresh_left db st ss cfg d = st\<lparr>bars := b\<rparr> \<and> bars_wf (st\<lparr>bars := b\<rparr>)"
proof -
  have "bars_wf st" using assms by (simp add: desk_inv_def)
  from refresh_kept_bars [OF this, of db st cfg d ss] show ?thesis
    by (intro exI [of _ "bars (refresh_kept db st cfg d ss st)"]) (simp add: refresh_left_def)
qed

section \<open>Every step keeps the invariant and the history\<close>

lemma submit_call_effect:
  assumes "submit_call ctx st cin = Inr (out, st')" and "ext_wf st"
  shows "ext_wf st' \<and> (\<exists>c ps. st' = st\<lparr>calls := calls st @ [c], proposals := ps\<rparr>)"
proof -
  obtain c c' st1 where ins: "insert_call st c = Inr (c', st1)" "c_extends c = None"
    and rest: "st' = st1 \<or> (\<exists>k t i s u n m a p. create_proposal st1 k t i s u n m a = Inr (p, st'))"
    using submit_call_shape [OF assms(1)] by blast
  have "st' = st1\<lparr>proposals := proposals st1\<rparr> \<or> (\<exists>ps. st' = st1\<lparr>proposals := ps\<rparr>)"
    using rest by (auto simp: create_proposal_def Let_def split: if_splits)
  then obtain ps where "st' = st1\<lparr>proposals := ps\<rparr>" by blast
  moreover have "ext_wf st1" by (rule ext_wf_insert_plain [OF ins assms(2)])
  ultimately show ?thesis using insert_call_facts(2) [OF ins(1)] ext_wf_cong [of st' st1] by auto
qed

lemma desk_step_keeps:
  assumes "desk_step st st'" and inv: "desk_inv st"
  shows "desk_inv st' \<and> grows st st'"
  using assms(1)
proof cases
  case (Start d e row)
  then have "frame st st'" "book_wf st'" "outcomes st' = outcomes st" "fills st' = fills st"
    using inv book_wf_cong [of st' st] by (auto simp: ensure_book_def frame_def desk_inv_def split: option.splits)
  then show ?thesis using frame_inv [OF _ _ inv] frame_grows by simp
next
  case (File z a pin now px tradeable r td p)
  note f = submit_pitch_facts(1) [OF File]
  have "book_wf st'" using inv book_wf_cong [of st' st] by (simp add: f desk_inv_def)
  then show ?thesis using inv submit_pitch_wf [OF File] ext_wf_cong [of st' st]
    by (simp add: desk_inv_def grows_def f bars_wf_def)
next
  case (Withdraw z a k now)
  obtain k' where f: "st' = st\<lparr>withdrawals := withdrawals st @ [k']\<rparr>" using withdraw_pitch_facts [OF Withdraw] by blast
  have "book_wf st'" using inv book_wf_cong [of st' st] by (simp add: f desk_inv_def)
  then show ?thesis using inv withdraw_pitch_wf [OF Withdraw] ext_wf_cong [of st' st]
    by (simp add: desk_inv_def grows_def f bars_wf_def)
next
  case (Call ctx cin out)
  have "ext_wf st" "book_wf st" using inv by (auto simp: desk_inv_def)
  then obtain c ps where "ext_wf st'" "book_wf st'" and f: "st' = st\<lparr>calls := calls st @ [c], proposals := ps\<rparr>"
    using submit_call_effect [OF Call] submit_call_book_wf [OF Call] by blast
  then show ?thesis using inv pitches_wf_cong [of st' st] by (simp add: desk_inv_def grows_def bars_wf_def)
next
  case (Extend ctx k tg iv h th out)
  obtain c c' where ins: "insert_call st c = Inr (c', st')" using extend_call_facts [OF Extend] by blast
  note f = insert_call_facts(2) [OF this]
  have "book_wf st" "calls_wf st" "ext_wf st" using inv book_wfD(1) by (auto simp: desk_inv_def)
  then have "book_wf st'" "ext_wf st'" using insert_call_book_wf [OF ins] extend_call_ext_wf [OF Extend] by auto
  then show ?thesis using inv pitches_wf_cong [of st' st] by (simp add: desk_inv_def grows_def bars_wf_def f)
next
  case (Tighten ctx k level new)
  then obtain x where f: "st' = st\<lparr>tightenings := tightenings st @ [x]\<rparr>"
    using tighten_call_facts [OF Tighten] by (auto simp: tighten_def split: if_splits)
  then show ?thesis using inv book_wf_cong [of st' st] ext_wf_cong [of st' st] pitches_wf_cong [of st' st]
    by (simp add: desk_inv_def grows_def bars_wf_def)
next
  case (AskExit ctx symb why knd)
  then obtain xs where "st' = st\<lparr>exit_requests := xs\<rparr>" using request_exit_frame by blast
  then show ?thesis using inv book_wf_cong [of st' st] ext_wf_cong [of st' st] pitches_wf_cong [of st' st]
    by (simp add: desk_inv_def grows_def bars_wf_def)
next
  case (Expire z now ids)
  have "book_wf st" using inv by (simp add: desk_inv_def)
  from expire_frame [OF Expire this] show ?thesis using frame_inv [OF _ _ inv] frame_grows by simp
next
  case (Post z pm r cfg now window ids)
  have "book_wf st" using inv by (simp add: desk_inv_def)
  from post_frame [OF Post this] show ?thesis using frame_inv [OF _ _ inv] frame_grows by simp
next
  case (Watch env window rep)
  have "book_wf st" using inv by (simp add: desk_inv_def)
  note w = run_desk_watch_effect [OF Watch this]
  have "frame st st'" using w by (simp add: same_besides_book_def frame_def)
  then show ?thesis using w frame_inv frame_grows inv by blast
next
  case (Score rep)
  then show ?thesis using score_inv [OF Score inv] by (auto simp: grows_def)
next
  case (Sweep db ss cfg d rep)
  have "bars_wf st" using inv by (simp add: desk_inv_def)
  then have "bars_wf st'" "st' = st\<lparr>bars := bars st'\<rparr>"
    using refresh_loop_swept [OF Sweep [unfolded refresh_bars_def]] by (auto simp: swept_def)
  then obtain bs where "st' = st\<lparr>bars := bs\<rparr>" "bars_wf st'" by blast
  then show ?thesis using inv book_wf_cong [of st' st] ext_wf_cong [of st' st] pitches_wf_cong [of st' st]
    by (simp add: desk_inv_def grows_def)
next
  case (PostRaised z pm r cfg now window e)
  have "book_wf st" using inv by (simp add: desk_inv_def)
  from post_left_frame [OF PostRaised(2) this] show ?thesis using frame_inv [OF _ _ inv] frame_grows PostRaised(1) by simp
next
  case (WatchRaised env window e)
  have "book_wf st" using inv by (simp add: desk_inv_def)
  note w = watch_left_effect [OF WatchRaised(2) this]
  have "frame st st'" using w WatchRaised(1) by (simp add: same_besides_book_def frame_def)
  then show ?thesis using w frame_inv frame_grows inv WatchRaised(1) by blast
next
  case (ScoreRaised e)
  then show ?thesis using score_left_inv [OF ScoreRaised(2) inv] by (auto simp: grows_def)
next
  case (SweepRaised db ss cfg d e)
  then obtain bs where "st' = st\<lparr>bars := bs\<rparr>" "bars_wf st'" using refresh_left_frame [OF inv] by metis
  then show ?thesis using inv book_wf_cong [of st' st] ext_wf_cong [of st' st] pitches_wf_cong [of st' st]
    by (simp add: desk_inv_def grows_def)
next
  case (Account acct)
  then show ?thesis using inv book_wf_cong [of st' st] ext_wf_cong [of st' st] pitches_wf_cong [of st' st]
    by (simp add: desk_inv_def grows_def bars_wf_def)
next
  case (Universe u)
  then show ?thesis using inv book_wf_cong [of st' st] ext_wf_cong [of st' st] pitches_wf_cong [of st' st]
    by (simp add: desk_inv_def grows_def bars_wf_def)
qed

lemma desk_inv_empty: "desk_inv empty_desk"
  using book_wf_empty pitches_wf_empty by (simp add: desk_inv_def ext_wf_def bars_wf_def) (simp add: empty_desk_def)

interpretation fill_log: append_only "\<lambda>s. s = empty_desk" desk_step desk_inv fills
  using desk_step_keeps desk_inv_empty by unfold_locales (auto simp: grows_def)

interpretation resolution_log: append_only "\<lambda>s. s = empty_desk" desk_step desk_inv resolutions
  using desk_step_keeps by unfold_locales (auto simp: grows_def)

interpretation outcome_log: append_only "\<lambda>s. s = empty_desk" desk_step desk_inv outcomes
  using desk_step_keeps by unfold_locales (auto simp: grows_def)

interpretation call_log: append_only "\<lambda>s. s = empty_desk" desk_step desk_inv calls
  using desk_step_keeps by unfold_locales (auto simp: grows_def)

section \<open>What holds of every run\<close>

text \<open>C1: whatever sequence of jobs and tool calls the desk goes through from an empty store, passes
  that raise halfway included, its tables stay consistent: ids grow and references resolve; a proposal has at most one outcome,
  is bought at most once, for exactly the quantity proposed, only with the outcome \<open>filled\<close>,
  and never sold beyond it; an analyst has at most one open pitch per symbol and direction; a
  call is extended at most once; an item is resolved at most once.\<close>

theorem desk_reachable_inv: "reachable (\<lambda>s. s = empty_desk) desk_step st \<Longrightarrow> desk_inv st"
  by (rule fill_log.reachable_inv)

text \<open>C38: the record is append-only. Over any run no fill, resolution, outcome or call is changed,
  moved or lost: what was at a position of a table stays there.\<close>

theorem desk_history_kept:
  assumes "rtranclp desk_step s t" and "desk_inv s"
  shows "prefix (fills s) (fills t) \<and> prefix (resolutions s) (resolutions t) \<and> prefix (outcomes s) (outcomes t) \<and>
    prefix (calls s) (calls t)"
  using fill_log.steps_grow [OF assms] resolution_log.steps_grow [OF assms] outcome_log.steps_grow [OF assms]
    call_log.steps_grow [OF assms] by simp

lemma tightenings_kept:
  assumes "desk_step st st'" and inv: "desk_inv st"
  shows "tightenings st' = tightenings st \<or> (\<exists>ctx k level new. tighten_call ctx st k level = Inr (new, st'))"
  using assms(1)
proof cases
  case (Call ctx cin out)
  then show ?thesis using submit_call_effect [OF Call] inv by (auto simp: desk_inv_def)
next
  case (Extend ctx k tg iv h th out)
  then show ?thesis using extend_call_facts [OF Extend] insert_call_facts(2) by fastforce
next
  case (Expire z now ids)
  then show ?thesis using expire_frame [OF Expire] inv by (auto simp: desk_inv_def frame_def)
next
  case (Post z pm r cfg now window ids)
  then show ?thesis using post_frame [OF Post] inv by (auto simp: desk_inv_def frame_def)
next
  case (Watch env window rep)
  then show ?thesis using run_desk_watch_effect [OF Watch] inv by (auto simp: desk_inv_def same_besides_book_def)
next
  case (Score rep)
  then show ?thesis using score_inv [OF Score inv] by auto
next
  case (Sweep db ss cfg d rep)
  have "st' = st\<lparr>bars := bars st'\<rparr>"
    using inv refresh_loop_swept [OF Sweep [unfolded refresh_bars_def]] by (simp add: swept_def desk_inv_def)
  then have "tightenings st' = tightenings (st\<lparr>bars := bars st'\<rparr>)" by (rule arg_cong)
  then show ?thesis by simp
next
  case (PostRaised z pm r cfg now window e)
  then show ?thesis using post_left_frame [OF PostRaised(2)] inv by (auto simp: desk_inv_def frame_def)
next
  case (WatchRaised env window e)
  then show ?thesis using watch_left_effect [OF WatchRaised(2)] inv by (auto simp: desk_inv_def same_besides_book_def)
next
  case (ScoreRaised e)
  then show ?thesis using score_left_inv [OF ScoreRaised(2) inv] by auto
next
  case (SweepRaised db ss cfg d e)
  obtain b where "refresh_left db st ss cfg d = st\<lparr>bars := b\<rparr>" using refresh_left_frame [OF inv] by blast
  then show ?thesis using SweepRaised(1) by simp
next
  case (AskExit ctx symb why knd)
  then show ?thesis using request_exit_frame [OF AskExit] by auto
next
  case (File z a pin now px tradeable r td p)
  then show ?thesis using submit_pitch_facts(1) [OF File] by simp
next
  case (Withdraw z a k now)
  then show ?thesis using withdraw_pitch_facts [OF Withdraw] by auto
qed (auto simp: ensure_book_def split: option.splits)

text \<open>The level moved towards the price, or not at all.\<close>

definition not_looser :: "call_row \<Rightarrow> dec \<Rightarrow> dec \<Rightarrow> bool" where
  "not_looser c old new \<longleftrightarrow> (if c_direction c = Up then old \<le> new else new \<le> old)"

lemma step_not_looser:
  assumes "desk_step st st'" and inv: "desk_inv st" and c: "c \<in> set (calls st)"
  shows "not_looser c (effective_invalidation st c) (effective_invalidation st' c)"
  using tightenings_kept [OF assms(1,2)]
proof (elim disjE exE)
  assume "tightenings st' = tightenings st"
  then show ?thesis by (simp add: effective_invalidation_def not_looser_def)
next
  fix ctx k level new assume "tighten_call ctx st k level = Inr (new, st')"
  then obtain c' and q :: quote where c': "get_call st k = Some c'"
    "tightens (c_direction c') (effective_invalidation st c') new (qt_last q)"
    "tighten st k new (px_now ctx) = Inr st'" using tighten_call_facts by blast
  show ?thesis
  proof (cases "c_id c = k")
    case True
    have "get_call st (c_id c) = Some c"
      by (rule get_call_unique [OF _ c]) (use inv book_wfD(1) in \<open>simp add: desk_inv_def\<close>)
    then have "c' = c" using c'(1) True by simp
    then show ?thesis using c'(2) effective_after_tighten [OF c'(3)] True
      by (auto simp: not_looser_def tightens_def split: if_splits)
  next
    case False
    then show ?thesis using effective_after_tighten [OF c'(3)] by (simp add: not_looser_def)
  qed
qed

text \<open>C9: the level that invalidates a call never loosens. Over any run of the desk the effective
  invalidation of an up call only rises, that of a down call only falls, so the stop behind a
  position is never moved away from the price.\<close>

theorem levels_never_loosen:
  assumes "rtranclp desk_step s t" and "desk_inv s" and "c \<in> set (calls s)"
  shows "c \<in> set (calls t) \<and> not_looser c (effective_invalidation s c) (effective_invalidation t c)"
  using assms
proof (induction rule: rtranclp_induct)
  case base
  then show ?case by (simp add: not_looser_def)
next
  case (step t u)
  have "desk_inv t" by (rule fill_log.steps_inv [OF step.hyps(1) step.prems(1)])
  moreover from this have "set (calls t) \<subseteq> set (calls u)"
    using desk_step_keeps [OF step.hyps(2)] by (auto simp: grows_def dest: set_mono_prefix)
  ultimately show ?case
    using step.IH [OF step.prems] step_not_looser [OF step.hyps(2)] by (fastforce simp: not_looser_def split: if_splits)
qed

section \<open>Examples\<close>

theorem desk_reachable_inv_witness:
  "\<exists>p st. submit_pitch edt empty_desk Technical sample_pitch_in (combine 739870 (hm 12 0)) 50 {''MSFT''} rules_yml
       (\<lambda>d. weekday d < 5) = Inr (p, st) \<and> pitches st = [p] \<and> desk_inv st"
proof -
  obtain p st where s: "submit_pitch edt empty_desk Technical sample_pitch_in (combine 739870 (hm 12 0)) 50 {''MSFT''} rules_yml
       (\<lambda>d. weekday d < 5) = Inr (p, st)"
    using sample_submit by blast
  then have "reachable (\<lambda>s. s = empty_desk) desk_step st" unfolding reachable_def by (blast intro: File)
  from desk_reachable_inv [OF this] s submit_pitch_facts(1) [OF s] show ?thesis by (auto simp: empty_desk_def)
qed

lemma sample_held_inv: "desk_inv sample_held"
  using sample_held_wf
  by (simp add: desk_inv_def ext_wf_def pitches_wf_def bars_wf_def open_pitches_def)
    (simp add: sample_held_def empty_desk_def sample_call_def)

lemma sample_tighten: "\<exists>st'. tighten_call sample_ctx sample_held 1 ''48'' = Inr (48, st') \<and>
    effective_invalidation st' (sample_call 1 None) = 48"
proof -
  have e: "effective_invalidation sample_held (sample_call 1 None) = 46"
    by (simp add: effective_invalidation_def sample_held_def empty_desk_def sample_call_def)
  obtain st' where st': "tighten sample_held 1 48 (px_now sample_ctx) = Inr st'"
    by (simp add: tighten_def sample_held_def sample_call_def)
  have "tighten_call sample_ctx sample_held 1 ''48'' = Inr (48, st')"
    using st' e
    by (simp add: tighten_call_def sample_get_call sample_held_by sample_text resolution_for_def tightens_def)
      (simp add: sample_held_def empty_desk_def sample_call_def sample_fresh quote_of_def sample_quotes_def)
  then show ?thesis using effective_after_tighten [OF st'] by (simp add: sample_call_def)
qed

theorem levels_never_loosen_witness:
  "\<exists>st'. desk_step sample_held st' \<and> sample_call 1 None \<in> set (calls st') \<and>
     effective_invalidation sample_held (sample_call 1 None) = 46 \<and> effective_invalidation st' (sample_call 1 None) = 48 \<and>
     not_looser (sample_call 1 None) 46 48"
proof -
  obtain st' where t: "tighten_call sample_ctx sample_held 1 ''48'' = Inr (48, st')" "effective_invalidation st' (sample_call 1 None) = 48"
    using sample_tighten by blast
  have "desk_step sample_held st'" by (rule Tighten [OF t(1)])
  moreover have "effective_invalidation sample_held (sample_call 1 None) = 46" "sample_call 1 None \<in> set (calls sample_held)"
    by (simp_all add: effective_invalidation_def sample_held_def empty_desk_def sample_call_def)
  ultimately show ?thesis using levels_never_loosen [OF r_into_rtranclp sample_held_inv] t(2) by metis
qed

theorem desk_history_kept_witness:
  "\<exists>rep st'. run_desk_watch sample_env None sample_held = Inr (rep, st') \<and> open_positions st' = [] \<and>
     prefix (fills sample_held) (fills st') \<and> length (fills sample_held) = 1"
proof -
  obtain rep st' where w: "run_desk_watch sample_env None sample_held = Inr (rep, st')" "open_positions st' = []"
    using sample_watch by blast
  have "rtranclp desk_step sample_held st'" using Watch [OF w(1)] by blast
  from desk_history_kept [OF this sample_held_inv] w show ?thesis by (auto simp: sample_held_def)
qed

end
