(* ===== verification/TC_Book.thy ===== *)
theory TC_Book
  imports TC_Paper
begin

text \<open>
  What the paper book promises: it is an account with money and, per proposal, a quantity held.
  The tables of tc/desk/paper.py keep neither; both are recomputed from the fills on every read.
  The refinement below says that recording an entry or a sale in the tables is the account
  operation one would expect.
\<close>

section \<open>The abstract account\<close>

record account =
  money :: dec
  held :: "int \<rightharpoonup> int"

definition buy :: "int \<Rightarrow> int \<Rightarrow> dec \<Rightarrow> account \<Rightarrow> account" where
  "buy k n x a = a\<lparr>money := dadd (money a) (- x), held := (held a)(k \<mapsto> n)\<rparr>"

definition sell :: "int \<Rightarrow> int \<Rightarrow> dec \<Rightarrow> account \<Rightarrow> account" where
  "sell k n x a = a\<lparr>money := dadd (money a) x,
     held := (held a)(k := (case held a k of None \<Rightarrow> None | Some q \<Rightarrow> if n < q then Some (q - n) else None))\<rparr>"

definition abs_book :: "desk \<Rightarrow> dec \<Rightarrow> account" where
  "abs_book st e = \<lparr>money = cash st e, held = (\<lambda>k. map_option pp_qty (find (\<lambda>pos. pp_pid pos = k) (open_positions st)))\<rparr>"

section \<open>Refinement\<close>

lemma held_none: "book_wf st \<Longrightarrow> k \<notin> q_id ` set (proposals st) \<Longrightarrow> held (abs_book st e) k = None"
  by (auto simp: abs_book_def find_None open_position_facts position_of_def)

lemma held_some:
  assumes wf: "book_wf st" and p: "p \<in> set (proposals st)"
  shows "held (abs_book st e) (q_id p) =
    (if buys st (q_id p) \<noteq> [] \<and> sold st (q_id p) < q_qty p then Some (q_qty p - sold st (q_id p)) else None)"
proof (cases "find (\<lambda>pos. pp_pid pos = q_id p) (open_positions st)")
  case None
  have "\<not> (buys st (q_id p) \<noteq> [] \<and> sold st (q_id p) < q_qty p)"
  proof
    assume a: "buys st (q_id p) \<noteq> [] \<and> sold st (q_id p) < q_qty p"
    then obtain b where b: "buys st (q_id p) = [b]" "f_qty b = q_qty p"
      using book_wfD(3) [OF wf p] by (auto simp: fills_ok_def split: list.splits)
    have "position_of st p b \<in> set (open_positions st)" using a b p open_position_facts [OF wf] by blast
    then show False using None by (auto simp: find_None position_of_def)
  qed
  then show ?thesis using None by (simp add: abs_book_def)
next
  case (Some pos)
  then have "pos \<in> set (open_positions st)" "pp_pid pos = q_id p" by (auto dest: find_Some_in)
  then obtain y b where y: "y \<in> set (proposals st)" "buys st (q_id y) = [b]" "pos = position_of st y b"
    "sold st (q_id y) < q_qty y" "f_qty b = q_qty y" "q_id y = q_id p"
    by (auto simp: open_position_facts [OF wf] position_of_def)
  then have "y = p" using sorted_ids_inj [of q_id "proposals st" y p] p book_wfD(2) [OF wf] by simp
  then show ?thesis using Some y by (simp add: abs_book_def position_of_def)
qed

text \<open>The two descriptions of a book agree when they agree on every proposal and on the money.\<close>

lemma abs_book_eqI:
  assumes "book_wf st" and "cash st e = money a" and "\<And>k. k \<notin> q_id ` set (proposals st) \<Longrightarrow> held a k = None"
    and "\<And>p. p \<in> set (proposals st) \<Longrightarrow> held (abs_book st e) (q_id p) = held a (q_id p)"
  shows "abs_book st e = (a :: account)"
proof -
  have "held (abs_book st e) k = held a k" for k
  proof (cases "k \<in> q_id ` set (proposals st)")
    case True
    then show ?thesis using assms(4) by auto
  next
    case False
    then show ?thesis using assms(3) held_none [OF assms(1)] by simp
  qed
  then have "held (abs_book st e) = held a" by blast
  moreover have "money (abs_book st e) = money a" using assms(2) by (simp add: abs_book_def)
  ultimately show ?thesis by simp
qed

lemma entry_refines:
  assumes fill: "record_fill st (q_id p) t Buy (q_qty p) price why tr lm = Inr st1"
    and out: "record_outcome st1 (q_id p) t' Filled v a = Inr st2"
    and p: "p \<in> set (committed_proposals st)" and wf: "book_wf st"
  shows "abs_book st2 e = buy (q_id p) (q_qty p) (dmul (dmul price (of_int (q_qty p))) (of_int (MULT (q_instr p)))) (abs_book st e)"
proof (rule abs_book_eqI)
  have pp: "p \<in> set (proposals st)" "buys st (q_id p) = []" using p by (auto simp: committed_facts)
  obtain f where st1: "st1 = st\<lparr>fills := fills st @ [f]\<rparr>" and f: "f_pid f = q_id p" "f_side f = Buy"
    using fill by (auto simp: record_fill_def split: if_splits)
  obtain x where st2: "st2 = st1\<lparr>outcomes := outcomes st1 @ [x]\<rparr>"
    using out by (auto simp: record_outcome_def split: if_splits)
  show wf2: "book_wf st2" by (rule entry_book_wf [OF fill out p wf])
  have "cash st2 e = cash st1 e" by (simp add: cash_def joined_fills_def st2)
  then show "cash st2 e = money (buy (q_id p) (q_qty p) (dmul (dmul price (of_int (q_qty p))) (of_int (MULT (q_instr p)))) (abs_book st e))"
    using record_fill_cash [OF fill pp(1) wf, of e] by (simp add: buy_def abs_book_def)
  have ps: "proposals st2 = proposals st" by (simp add: st2 st1)
  show "held (buy (q_id p) (q_qty p) (dmul (dmul price (of_int (q_qty p))) (of_int (MULT (q_instr p)))) (abs_book st e)) k = None"
    if "k \<notin> q_id ` set (proposals st2)" for k
    using that held_none [OF wf] pp(1) unfolding ps by (auto simp: buy_def)
  fix y assume y: "y \<in> set (proposals st2)"
  have "\<forall>g \<in> set (fills st). f_pid g \<noteq> q_id p"
    using book_wfD(3) [OF wf pp(1)] pp(2) by (simp add: fills_ok_def)
  then have "sold st (q_id p) = 0" by (simp add: sold_def filter_False)
  moreover have "0 < q_qty p" using book_wfD(3) [OF wf pp(1)] by simp
  moreover have "q_id y = q_id p \<Longrightarrow> y = p"
    using sorted_ids_inj [of q_id "proposals st" y p] y ps pp(1) book_wfD(2) [OF wf] by simp
  moreover have "buys st2 j = (if j = q_id p then buys st j @ [f] else buys st j)" "sold st2 j = sold st j" for j
    using f by (simp_all add: buys_def sold_def st2 st1)
  ultimately show "held (abs_book st2 e) (q_id y) =
      held (buy (q_id p) (q_qty p) (dmul (dmul price (of_int (q_qty p))) (of_int (MULT (q_instr p)))) (abs_book st e)) (q_id y)"
    using held_some [OF wf2 y, of e] held_some [OF wf, of y e] y ps by (cases "q_id y = q_id p") (simp_all add: buy_def)
qed

lemma sale_refines:
  assumes fill: "record_fill st (q_id p) t Sell n price why tr lm = Inr st'"
    and p: "p \<in> set (proposals st)" and h: "held (abs_book st e) (q_id p) = Some q" "n \<le> q" and wf: "book_wf st"
  shows "abs_book st' e = sell (q_id p) n (dmul (dmul price (of_int n)) (of_int (MULT (q_instr p)))) (abs_book st e)"
proof (rule abs_book_eqI)
  have q: "buys st (q_id p) \<noteq> []" "sold st (q_id p) < q_qty p" "q = q_qty p - sold st (q_id p)"
    using h(1) by (auto simp: held_some [OF wf p] split: if_splits)
  obtain f where st': "st' = st\<lparr>fills := fills st @ [f]\<rparr>" and f: "f_pid f = q_id p" "f_side f = Sell" "f_qty f = n"
    using fill by (auto simp: record_fill_def split: if_splits)
  show wf': "book_wf st'" by (rule sell_book_wf [OF fill p refl q(1) _ wf]) (use h(2) q(3) in simp)
  show "cash st' e = money (sell (q_id p) n (dmul (dmul price (of_int n)) (of_int (MULT (q_instr p)))) (abs_book st e))"
    using record_fill_cash [OF fill p wf, of e] by (simp add: sell_def abs_book_def)
  have ps: "proposals st' = proposals st" by (simp add: st')
  show "held (sell (q_id p) n (dmul (dmul price (of_int n)) (of_int (MULT (q_instr p)))) (abs_book st e)) k = None"
    if "k \<notin> q_id ` set (proposals st')" for k
    using that held_none [OF wf] p unfolding ps by (auto simp: sell_def)
  fix y assume y: "y \<in> set (proposals st')"
  have "q_id y = q_id p \<Longrightarrow> y = p"
    using sorted_ids_inj [of q_id "proposals st" y p] y ps p book_wfD(2) [OF wf] by simp
  moreover have "buys st' j = buys st j" "sold st' j = (if j = q_id p then sold st j + n else sold st j)" for j
    using f by (simp_all add: buys_def sold_def st')
  ultimately show "held (abs_book st' e) (q_id y) =
      held (sell (q_id p) n (dmul (dmul price (of_int n)) (of_int (MULT (q_instr p)))) (abs_book st e)) (q_id y)"
    using held_some [OF wf' y, of e] held_some [OF wf, of y e] y ps h q
    by (cases "q_id y = q_id p") (auto simp: sell_def)
qed

text \<open>C10: the tables of the paper book refine an account. Seen through what they are read as (the cash of all fills,
  the open positions), recording the entry of a committed proposal is buying its quantity, and
  recording a sale of at most what is held is selling it: the money moves by the fill's value,
  that position changes by the quantity, and no other position changes.\<close>

theorem paper_book_refines:
  assumes "book_wf st" and "p \<in> set (proposals st)"
  shows "(p \<in> set (committed_proposals st) \<and> record_fill st (q_id p) t Buy (q_qty p) price why tr lm = Inr st1 \<and>
      record_outcome st1 (q_id p) t' Filled v a = Inr st2 \<longrightarrow>
      abs_book st2 e = buy (q_id p) (q_qty p) (dmul (dmul price (of_int (q_qty p))) (of_int (MULT (q_instr p)))) (abs_book st e)) \<and>
    (held (abs_book st e) (q_id p) = Some q \<and> n \<le> q \<and> record_fill st (q_id p) t Sell n price why tr lm = Inr st' \<longrightarrow>
      abs_book st' e = sell (q_id p) n (dmul (dmul price (of_int n)) (of_int (MULT (q_instr p)))) (abs_book st e))"
proof (intro conjI impI; elim conjE)
qed (rule entry_refines sale_refines; (assumption | rule assms))+

text \<open>Ten shares bought at 50 with 10000 in the account.\<close>

theorem paper_book_refines_witness:
  "\<exists>p st st1 st2. create_proposal sample_desk 1 0 Shares ''MSFT'' ''MSFT'' 10 51 (Some 2) = Inr (p, st) \<and>
     record_fill st (q_id p) 0 Buy (q_qty p) 50 [] None None = Inr st1 \<and> record_outcome st1 (q_id p) 0 Filled False True = Inr st2 \<and>
     money (abs_book st2 10000) = 9500 \<and> held (abs_book st2 10000) (q_id p) = Some 10"
proof -
  obtain p st where new: "create_proposal sample_desk 1 0 Shares ''MSFT'' ''MSFT'' 10 51 (Some 2) = Inr (p, st)"
    and p: "q_qty p = 10" "q_instr p = Shares" "st = sample_desk\<lparr>proposals := [p]\<rparr>"
    by (auto simp: create_proposal_def sample_desk_def sample_call_def empty_desk_def Let_def)
  have wf: "book_wf st" using create_proposal_book_wf [OF new sample_desk_wf] .
  have in_p: "p \<in> set (proposals st)" "p \<in> set (committed_proposals st)"
    by (simp_all add: p(3) committed_proposals_def pending_proposals_def has_outcome_def has_buy_def sample_desk_def empty_desk_def)
  obtain st1 where f: "record_fill st (q_id p) 0 Buy (q_qty p) 50 [] None None = Inr st1" "outcomes st1 = []" "proposals st1 = [p]"
    by (auto simp: record_fill_def p sample_desk_def empty_desk_def)
  obtain st2 where x: "record_outcome st1 (q_id p) 0 Filled False True = Inr st2"
    using f by (auto simp: record_outcome_def has_outcome_def)
  have "cash st 10000 = 10000" by (simp add: cash_def joined_fills_def p sample_desk_def empty_desk_def)
  with conjunct1 [OF paper_book_refines [OF wf in_p(1), of 0 50 "[]" None None st1 0 False True st2 10000]] in_p f x
  have "abs_book st2 10000 = buy (q_id p) 10 500 (abs_book st 10000)" "money (abs_book st 10000) = 10000"
    by (simp_all add: p dec_eval abs_book_def)
  then have "money (abs_book st2 10000) = 9500" "held (abs_book st2 10000) (q_id p) = Some 10"
    by (simp_all add: buy_def dec_eval)
  with new f(1) x show ?thesis by blast
qed

end
