(* ===== verification/TC_Ledger.thy ===== *)
theory TC_Ledger
  imports TC_Clock TC_Rules "HOL-Library.AList"
begin

text \<open>
  The engine's own tables (tc/store/db.py, tc/store/schema.sql): account and order snapshots,
  the tick ledger, the session status with the high-water mark, job runs, token events, alerts
  and the expectations log; and the rows of the broker (tc/broker/models.py) they hold.

  As for the desk, a table is the list of its rows in insertion order, the id of a row of an
  append-only table is its place in the list counted from one, and money, dates and times are
  values. The Eastern minute a tick is stamped with is the local time floored to the minute.
  What a snapshot and its positions show together is one row: \<open>record_account\<close> writes them in
  one transaction. Messages and details kept as text in the source are values of small
  datatypes. The wall clock (\<open>_now\<close>) is an argument.
\<close>

section \<open>Broker rows\<close>

record position =
  po_symbol :: string
  po_asset :: string
  po_qty :: int
  po_avg :: "dec option"
  po_value :: dec
  po_day_pl :: dec
  po_settled :: int

definition position_lifetime_pl :: "position \<Rightarrow> (exn + dec) option" where
  "position_lifetime_pl p =
     (case po_avg p of None \<Rightarrow> None
      | Some a \<Rightarrow> Some (cents (dsub (po_value p) (dmul a (of_int \<bar>po_qty p\<bar>)))))"

record account_snapshot =
  ac_hash :: string
  ac_read_at :: instant
  ac_value :: dec \<comment> \<open>\<open>liquidation_value\<close>\<close>
  ac_available :: dec
  ac_unsettled :: dec
  ac_cash :: dec
  ac_cash_call :: dec
  ac_restricted :: bool
  ac_positions :: "position list"

definition ac_reserve_cash :: "account_snapshot \<Rightarrow> dec" where
  "ac_reserve_cash a = min (ac_cash a) (dadd (ac_available a) (ac_unsettled a))"

record order_leg =
  lg_instruction :: string
  lg_qty :: int
  lg_symbol :: string
  lg_asset :: string

record order_row =
  or_id :: int
  or_status :: string
  or_type :: string
  or_duration :: string
  or_entered :: instant
  or_qty :: int
  or_filled :: int
  or_price :: "dec option"
  or_stop :: "dec option"
  or_legs :: "order_leg list"

definition RESTING :: "string set" where
  "RESTING = {''WORKING'', ''QUEUED'', ''ACCEPTED'', ''PENDING_ACTIVATION'', ''AWAITING_STOP_CONDITION''}"

definition STOP_TYPES :: "string set" where
  "STOP_TYPES = {''STOP'', ''STOP_LIMIT''}"

definition or_symbol :: "order_row \<Rightarrow> string" where
  "or_symbol od = (case or_legs od of [] \<Rightarrow> [] | l # _ \<Rightarrow> lg_symbol l)"

definition is_resting_stop :: "order_row \<Rightarrow> bool" where
  "is_resting_stop od \<longleftrightarrow> or_status od \<in> RESTING \<and> or_type od \<in> STOP_TYPES"

section \<open>Ledger rows\<close>

datatype level = LevelOk | LevelHalt
datatype tick_state = TsRTH | TsPRE | TsPOST | TsSTALE | TsBLIND
datatype tick_note = NoteBlind | NoteStale | NoteNotTradingDay | NoteUnseeded
datatype verdict = VDone | VNoop | VContentFailed | VFailed | VTimeout | VMissed

record session_status_row =
  ss_date :: date
  ss_close :: dec
  ss_hwm :: dec
  ss_halt :: dec
  ss_drawdown :: dec
  ss_level :: level
  ss_prior :: dec
  ss_ratcheted :: bool
  ss_high :: "dec option"

record tick_row =
  tk_at :: wall
  tk_state :: tick_state
  tk_value :: dec
  tk_comp :: dec
  tk_hwm :: dec
  tk_drawdown :: dec
  tk_level :: level
  tk_positions :: int
  tk_stops :: int
  tk_orders :: int
  tk_settled :: dec
  tk_unsettled :: dec
  tk_reserve :: dec
  tk_flags :: string
  tk_note :: "tick_note list"

record job_run =
  jr_job :: string
  jr_started :: datetime
  jr_ended :: datetime
  jr_verdict :: verdict

record alert_row =
  al_id :: int
  al_opened :: instant
  al_kind :: string
  al_message :: string
  al_acked :: "instant option"

record ledger =
  account_snapshots :: "account_snapshot list"
  order_snapshots :: "(string \<times> instant \<times> order_row) list"
  ticks :: "tick_row list"
  session_status :: "session_status_row list"
  job_runs :: "job_run list"
  token_events :: "(string \<times> date \<times> string) list" \<comment> \<open>kind; the ET date and the rest of the detail\<close>
  alerts :: "alert_row list"
  expectations_log :: "(string \<times> bool) list"

definition empty_ledger :: ledger where
  "empty_ledger = \<lparr>account_snapshots = [], order_snapshots = [], ticks = [], session_status = [], job_runs = [],
     token_events = [], alerts = [], expectations_log = []\<rparr>"

section \<open>Operations (tc/store/db.py)\<close>

definition record_account :: "ledger \<Rightarrow> account_snapshot \<Rightarrow> int \<times> ledger" where
  "record_account L s =
     (int (length (account_snapshots L)) + 1, L\<lparr>account_snapshots := account_snapshots L @ [s]\<rparr>)"

definition record_orders :: "ledger \<Rightarrow> string \<Rightarrow> order_row list \<Rightarrow> instant \<Rightarrow> ledger" where
  "record_orders L h rows read_at =
     L\<lparr>order_snapshots := order_snapshots L @ map (\<lambda>od. (h, read_at, od)) rows\<rparr>"

definition append_tick :: "ledger \<Rightarrow> tick_row \<Rightarrow> ledger" where
  "append_tick L t = L\<lparr>ticks := ticks L @ [t]\<rparr>"

text \<open>\<open>INSERT OR REPLACE\<close> on the primary key \<open>date\<close>.\<close>

definition write_session_status :: "ledger \<Rightarrow> session_status_row \<Rightarrow> ledger" where
  "write_session_status L r =
     L\<lparr>session_status := filter (\<lambda>x. ss_date x \<noteq> ss_date r) (session_status L) @ [r]\<rparr>"

definition latest_session_status :: "ledger \<Rightarrow> session_status_row option" where
  "latest_session_status L =
     (case rev (sort_key ss_date (session_status L)) of [] \<Rightarrow> None | r # _ \<Rightarrow> Some r)"

definition session_status_for :: "ledger \<Rightarrow> date \<Rightarrow> session_status_row option" where
  "session_status_for L d = find (\<lambda>r. ss_date r = d) (session_status L)"

definition ticks_for :: "ledger \<Rightarrow> date \<Rightarrow> tick_row list" where
  "ticks_for L d = filter (\<lambda>t. date_of (tk_at t) = d) (ticks L)"

definition latest_account :: "ledger \<Rightarrow> account_snapshot option" where
  "latest_account L = (case rev (account_snapshots L) of [] \<Rightarrow> None | a # _ \<Rightarrow> Some a)"

text \<open>A dict built from rows, as an association list: the last row of a symbol wins.\<close>

definition latest_positions :: "ledger \<Rightarrow> (string \<times> int) list" where
  "latest_positions L =
     (case latest_account L of None \<Rightarrow> []
      | Some a \<Rightarrow> foldl (\<lambda>m p. AList.update (po_symbol p) (po_qty p) m) [] (ac_positions a))"

definition latest_tick :: "ledger \<Rightarrow> tick_row option" where
  "latest_tick L = (case rev (ticks L) of [] \<Rightarrow> None | t # _ \<Rightarrow> Some t)"

definition first_seen :: "ledger \<Rightarrow> string \<Rightarrow> instant option" where
  "first_seen L s = map_option ac_read_at (find (\<lambda>a. s \<in> po_symbol ` set (ac_positions a)) (account_snapshots L))"

text \<open>The resting stops of the newest order read of a (UTC) day: symbol to stop and limit price.\<close>

definition resting_stops_on :: "ledger \<Rightarrow> date \<Rightarrow> string \<rightharpoonup> dec \<times> dec" where
  "resting_stops_on L d =
     (let on_d = filter (\<lambda>(_, t, _). date_of t = d) (order_snapshots L) in
      if on_d = [] then Map.empty
      else let newest = Max (set (map (\<lambda>(_, t, _). t) on_d));
               rows = filter (\<lambda>(_, t, _). t = newest) (order_snapshots L) in
           foldl (\<lambda>m (_, _, od). if or_type od \<in> STOP_TYPES \<and> or_status od \<in> RESTING
                    then (case (or_stop od, or_price od) of (Some s, Some p) \<Rightarrow> m(or_symbol od \<mapsto> (s, p)) | _ \<Rightarrow> m)
                    else m) Map.empty rows)"

definition record_job_run :: "ledger \<Rightarrow> string \<Rightarrow> datetime \<Rightarrow> datetime \<Rightarrow> verdict \<Rightarrow> ledger" where
  "record_job_run L job started ended v =
     L\<lparr>job_runs := job_runs L @ [\<lparr>jr_job = job, jr_started = started, jr_ended = ended, jr_verdict = v\<rparr>]\<rparr>"

definition job_run_exists :: "ledger \<Rightarrow> string \<Rightarrow> datetime \<Rightarrow> bool" where
  "job_run_exists L job started \<longleftrightarrow> list_ex (\<lambda>r. jr_job r = job \<and> jr_started r = started) (job_runs L)"

definition record_token_event :: "ledger \<Rightarrow> string \<Rightarrow> date \<Rightarrow> string \<Rightarrow> ledger" where
  "record_token_event L kind d detail = L\<lparr>token_events := token_events L @ [(kind, d, detail)]\<rparr>"

definition open_alert :: "ledger \<Rightarrow> instant \<Rightarrow> string \<Rightarrow> string \<Rightarrow> int \<times> ledger" where
  "open_alert L now kind message =
     (let k = int (length (alerts L)) + 1 in
      (k, L\<lparr>alerts := alerts L @ [\<lparr>al_id = k, al_opened = now, al_kind = kind, al_message = message, al_acked = None\<rparr>]\<rparr>))"

definition ack_alert :: "ledger \<Rightarrow> instant \<Rightarrow> int \<Rightarrow> ledger" where
  "ack_alert L now k =
     L\<lparr>alerts := map (\<lambda>a. if al_id a = k \<and> al_acked a = None then a\<lparr>al_acked := Some now\<rparr> else a) (alerts L)\<rparr>"

definition ack_alerts_of_kind :: "ledger \<Rightarrow> instant \<Rightarrow> string \<Rightarrow> int \<times> ledger" where
  "ack_alerts_of_kind L now kind =
     (int (length (filter (\<lambda>a. al_kind a = kind \<and> al_acked a = None) (alerts L))),
      L\<lparr>alerts := map (\<lambda>a. if al_kind a = kind \<and> al_acked a = None then a\<lparr>al_acked := Some now\<rparr> else a) (alerts L)\<rparr>)"

definition open_alerts :: "ledger \<Rightarrow> alert_row list" where
  "open_alerts L = filter (\<lambda>a. al_acked a = None) (alerts L)"

definition record_expectation :: "ledger \<Rightarrow> string \<Rightarrow> bool \<Rightarrow> ledger" where
  "record_expectation L nm ok = L\<lparr>expectations_log := expectations_log L @ [(nm, ok)]\<rparr>"

section \<open>The high-water mark (tc/loops/session.py)\<close>

definition seed_hwm :: "ledger \<Rightarrow> dec \<Rightarrow> date \<Rightarrow> dec \<Rightarrow> exn + session_status_row \<times> ledger" where
  "seed_hwm L recorded recorded_on reserve =
     bind_e (raise_if (latest_session_status L \<noteq> None) ValueError) (\<lambda>_.
     let hwm = legacy_hwm_to_account_basis recorded recorded_on reserve;
         row = \<lparr>ss_date = recorded_on, ss_close = hwm, ss_hwm = hwm, ss_halt = 0, ss_drawdown = 0, ss_level = LevelOk,
                ss_prior = hwm, ss_ratcheted = False, ss_high = None\<rparr> in
     Inr (row, write_session_status L row))"

definition close_session :: "ledger \<Rightarrow> rules \<Rightarrow> date \<Rightarrow> dec \<Rightarrow> exn + session_status_row \<times> ledger" where
  "close_session L r d close_value =
     bind_e (the_or ValueError (latest_session_status L)) (\<lambda>prior.
     let hwm = ratchet_hwm (ss_hwm prior) close_value;
         highs = map tk_value (filter (\<lambda>t. tk_state t = TsRTH) (ticks_for L d));
         intraday = (if highs \<noteq> [] \<and> Max (set highs) > hwm then Some (Max (set highs)) else None) in
     bind_e (halt_threshold hwm r) (\<lambda>halt.
     bind_e (drawdown_pct close_value hwm) (\<lambda>dd.
     bind_e (is_halted close_value hwm r) (\<lambda>halted.
     let row = \<lparr>ss_date = d, ss_close = close_value, ss_hwm = hwm, ss_halt = halt, ss_drawdown = dd,
                ss_level = (if halted then LevelHalt else LevelOk), ss_prior = ss_hwm prior,
                ss_ratcheted = (hwm > ss_hwm prior), ss_high = intraday\<rparr> in
     Inr (row, write_session_status L row)))))"

text \<open>The mark in force.\<close>

definition mark_of :: "ledger \<Rightarrow> dec option" where
  "mark_of L = map_option ss_hwm (latest_session_status L)"

definition session_wf :: "ledger \<Rightarrow> bool" where
  "session_wf L \<longleftrightarrow> distinct (map ss_date (session_status L))"

lemma latest_session_facts:
  assumes "latest_session_status L = Some r"
  shows "r \<in> set (session_status L)" "\<forall>x \<in> set (session_status L). ss_date x \<le> ss_date r"
proof -
  let ?xs = "sort_key ss_date (session_status L)"
  obtain ys where "rev ?xs = r # ys" using assms by (auto simp: latest_session_status_def split: list.splits)
  then have xs: "?xs = rev ys @ [r]" by (metis rev.simps(2) rev_rev_ident)
  then have "r \<in> set ?xs" by simp
  then show "r \<in> set (session_status L)" by simp
  have "sorted (map ss_date (rev ys @ [r]))" using xs sorted_sort_key [of ss_date "session_status L"] by simp
  then have "\<forall>x \<in> set (rev ys @ [r]). ss_date x \<le> ss_date r" by (auto simp: sorted_append)
  then show "\<forall>x \<in> set (session_status L). ss_date x \<le> ss_date r" using xs set_sort [of ss_date "session_status L"] by metis
qed

lemma latest_session_None: "latest_session_status L = None \<longleftrightarrow> session_status L = []"
proof -
  have "rev (sort_key ss_date (session_status L)) = [] \<longleftrightarrow> session_status L = []"
    by (metis length_0_conv length_rev length_sort)
  then show ?thesis by (auto simp: latest_session_status_def split: list.splits)
qed

lemma latest_sessionI:
  assumes "session_wf L" "r \<in> set (session_status L)" "\<forall>x \<in> set (session_status L). ss_date x \<le> ss_date r"
  shows "latest_session_status L = Some r"
proof -
  obtain r' where r': "latest_session_status L = Some r'"
    using assms(2) latest_session_None [of L] by (cases "latest_session_status L") auto
  note f = latest_session_facts [OF r']
  have "ss_date r' = ss_date r" using f assms(2,3) by (metis order_antisym)
  then have "r' = r" using assms(1,2) f(1) by (metis session_wf_def distinct_map inj_onD)
  then show ?thesis using r' by simp
qed

lemma write_session_wf: "session_wf L \<Longrightarrow> session_wf (write_session_status L r)"
  by (auto simp: session_wf_def write_session_status_def distinct_map_filter)

text \<open>Writing a row makes it the latest, unless a later one is on record.\<close>

lemma latest_after_write:
  assumes wf: "session_wf L" and p: "latest_session_status L = Some p"
  shows "latest_session_status (write_session_status L r) = (if ss_date p \<le> ss_date r then Some r else Some p)"
proof -
  note f = latest_session_facts [OF p]
  note wf' = write_session_wf [OF wf, of r]
  have tbl: "set (session_status (write_session_status L r)) = {x \<in> set (session_status L). ss_date x \<noteq> ss_date r} \<union> {r}"
    by (auto simp: write_session_status_def)
  show ?thesis
  proof (cases "ss_date p \<le> ss_date r")
    case True
    have "latest_session_status (write_session_status L r) = Some r"
      by (rule latest_sessionI [OF wf']) (use f(2) True in \<open>auto simp: tbl\<close>)
    then show ?thesis using True by simp
  next
    case False
    have "latest_session_status (write_session_status L r) = Some p"
      by (rule latest_sessionI [OF wf']) (use f False in \<open>auto simp: tbl\<close>)
    then show ?thesis using False by simp
  qed
qed

text \<open>
  The two operations that write the mark, in any order and for any day: a close may be repeated
  or come late. The other tables may change in between.
\<close>

inductive mark_step :: "ledger \<Rightarrow> ledger \<Rightarrow> bool" where
  Seed: "seed_hwm L recorded d reserve = Inr (row, L') \<Longrightarrow> mark_step L L'"
| Close: "close_session L r d v = Inr (row, L') \<Longrightarrow> mark_step L L'"
| Other: "session_status L' = session_status L \<Longrightarrow> mark_step L L'"

lemma close_session_row:
  assumes "close_session L r d v = Inr (row, L')"
  shows "\<exists>prior. latest_session_status L = Some prior \<and> L' = write_session_status L row \<and> ss_date row = d \<and>
    ss_hwm row = max (ss_hwm prior) v \<and> ss_prior row = ss_hwm prior \<and> ss_close row = v \<and>
    is_halted v (ss_hwm row) r = Inr (ss_level row = LevelHalt) \<and>
    (\<forall>x. ss_high row = Some x \<longrightarrow> ss_hwm row < x)"
  using assms by (auto simp: close_session_def err Let_def ratchet_hwm_def split: if_splits)

definition marked :: "ledger \<Rightarrow> dec \<Rightarrow> bool" where
  "marked L m \<longleftrightarrow> session_wf L \<and> (\<exists>p. latest_session_status L = Some p \<and> m \<le> ss_hwm p)"

lemma mark_step_keeps: "marked L m \<Longrightarrow> mark_step L L' \<Longrightarrow> marked L' m"
proof (erule mark_step.cases)
  fix K recorded d reserve row K'
  assume "marked L m" "L = K" "L' = K'" "seed_hwm K recorded d reserve = Inr (row, K')"
  then show ?thesis by (auto simp: marked_def seed_hwm_def err Let_def)
next
  fix K r d v row K'
  assume m: "marked L m" and e: "L = K" "L' = K'" and c: "close_session K r d v = Inr (row, K')"
  obtain prior where p: "latest_session_status K = Some prior" "K' = write_session_status K row"
    "ss_hwm row = max (ss_hwm prior) v" using close_session_row [OF c] by blast
  then show ?thesis using m e latest_after_write [of K prior row] write_session_wf [of K row]
    by (auto simp: marked_def)
next
  fix K' K assume "marked L m" "L = K" "L' = K'" "session_status K' = session_status K"
  then show ?thesis by (simp add: marked_def session_wf_def latest_session_status_def)
qed

interpretation high_water: invariant "\<lambda>L. marked L m" mark_step "\<lambda>L. marked L m" for m
  by unfold_locales (auto intro: mark_step_keeps)

text \<open>C13: the high-water mark never falls. From a ledger with a mark, through any run of closes (also
  repeated, late or of a losing day), re-seeding attempts and other writes, the mark in force is
  at least what it was, and there still is one.\<close>

theorem hwm_never_falls:
  assumes "rtranclp mark_step L L'" and "session_wf L" and "mark_of L = Some m"
  shows "\<exists>m'. mark_of L' = Some m' \<and> m \<le> m'"
proof -
  have "marked L m" using assms(2,3) by (auto simp: marked_def mark_of_def)
  from high_water.steps_inv [OF assms(1) this] show ?thesis by (auto simp: marked_def mark_of_def)
qed

text \<open>What a close records. It needs a mark; the new mark is the larger of the old one and the
  closing value, so an intraday high is noted but never adopted; the level is HALT exactly when
  the close is at or below the halt threshold of the new mark; and on the latest day the row
  becomes the mark in force.\<close>

theorem close_session_spec:
  assumes "session_wf L" and "close_session L r d v = Inr (row, L')"
  shows "\<exists>prior. latest_session_status L = Some prior \<and> ss_hwm row = max (ss_hwm prior) v \<and>
    is_halted v (ss_hwm row) r = Inr (ss_level row = LevelHalt) \<and> (\<forall>x. ss_high row = Some x \<longrightarrow> ss_hwm row < x) \<and>
    (ss_date prior \<le> d \<longrightarrow> latest_session_status L' = Some row) \<and>
    (d < ss_date prior \<longrightarrow> latest_session_status L' = Some prior)"
  using close_session_row [OF assms(2)] latest_after_write [OF assms(1)] by fastforce

definition sample_ledger :: ledger where
  "sample_ledger = empty_ledger\<lparr>session_status := [\<lparr>ss_date = 739869, ss_close = 3800, ss_hwm = 3800, ss_halt = 0, ss_drawdown = 0,
     ss_level = LevelOk, ss_prior = 3800, ss_ratcheted = False, ss_high = None\<rparr>]\<rparr>"

lemma sample_close: "\<exists>row L'. close_session sample_ledger rules_yml 739870 3900 = Inr (row, L')"
  by (simp add: close_session_def latest_session_status_def sample_ledger_def halt_threshold_def drawdown_pct_def is_halted_def
      ratchet_hwm_def HUNDRED_def dec_eval ticks_for_def empty_ledger_def cong: bind_e_weak_cong let_weak_cong)

theorem hwm_never_falls_witness:
  "\<exists>row L' m'. close_session sample_ledger rules_yml 739870 3900 = Inr (row, L') \<and> mark_of sample_ledger = Some 3800 \<and>
     mark_of L' = Some m' \<and> 3800 \<le> m'"
proof -
  obtain row L' where c: "close_session sample_ledger rules_yml 739870 3900 = Inr (row, L')" using sample_close by blast
  have m: "session_wf sample_ledger" "mark_of sample_ledger = Some 3800"
    by (simp_all add: session_wf_def mark_of_def latest_session_status_def sample_ledger_def)
  from hwm_never_falls [OF r_into_rtranclp [of mark_step, OF Close [OF c]] m] c m(2) show ?thesis by blast
qed

theorem close_session_spec_witness:
  "\<exists>row L'. close_session sample_ledger rules_yml 739870 3900 = Inr (row, L') \<and> ss_hwm row = 3900 \<and>
     latest_session_status L' = Some row"
proof -
  obtain row L' where c: "close_session sample_ledger rules_yml 739870 3900 = Inr (row, L')" using sample_close by blast
  have "session_wf sample_ledger" by (simp add: session_wf_def sample_ledger_def)
  from close_session_spec [OF this c] c show ?thesis by (auto simp: latest_session_status_def sample_ledger_def)
qed

end
