(* ===== verification/TC_Monitor.thy ===== *)
theory TC_Monitor
  imports TC_Ledger TC_Text "HOL-Library.AList" "HOL-Library.Product_Lexorder" "HOL-Library.List_Lexorder" "HOL-Library.Char_ord"
begin

text \<open>
  The position clocks (tc/loops/clocks.py) and the reconciled view of the account
  (tc/loops/reconcile.py). A Python dict is an association list with its insertion order;
  \<open>AList.update\<close> is item assignment. The text of an alert is the number it reports.
\<close>

section \<open>Option symbols\<close>

definition OPTION_WARN_DAYS_BEFORE_CLOSE :: int where "OPTION_WARN_DAYS_BEFORE_CLOSE = 2"
definition LEVERAGED_WARN_SESSIONS_BEFORE_CLOSE :: int where "LEVERAGED_WARN_SESSIONS_BEFORE_CLOSE = 2"

record option_ref =
  rf_underlying :: string
  rf_expiry :: date
  rf_kind :: char
  rf_strike :: dec

definition is_root :: "char \<Rightarrow> bool" where
  "is_root c \<longleftrightarrow> (65 \<le> code c \<and> code c \<le> 90) \<or> c = CHR ''.''"

text \<open>
  The groups of \<open>_OSI_RE\<close>: root, two-digit year, month, day, kind, strike. No character of the
  root is a space or a digit, so the match is unique.
\<close>

definition osi_groups :: "string \<Rightarrow> (string \<times> (int \<times> int \<times> int) \<times> char \<times> string) option" where
  "osi_groups s =
     (let rt = takeWhile is_root s; rest = dropWhile is_space (dropWhile is_root s) in
      if rt \<noteq> [] \<and> length rt \<le> 6 \<and> length rest = 15 \<and> list_all is_digit (take 6 rest) \<and>
         (rest ! 6 = CHR ''C'' \<or> rest ! 6 = CHR ''P'') \<and> list_all is_digit (drop 7 rest)
      then Some (rt, (digits_val (take 2 rest), digits_val (take 2 (drop 2 rest)), digits_val (take 2 (drop 4 rest))),
                 rest ! 6, drop 7 rest)
      else None)"

definition parse_osi :: "string \<Rightarrow> exn + option_ref option" where
  "parse_osi symbol =
     (case osi_groups (strip symbol) of
        None \<Rightarrow> Inr None
      | Some (rt, (yy, mm, dd), kind, strike) \<Rightarrow>
          (case mk_date (2000 + yy) mm dd of
             Inl _ \<Rightarrow> Inr None
           | Inr expiry \<Rightarrow>
               bind_e (quantize half_even 3 (ddiv_nz (of_int (digits_val strike)) 1000)) (\<lambda>k.
               Inr (Some \<lparr>rf_underlying = rt, rf_expiry = expiry, rf_kind = kind, rf_strike = k\<rparr>))))"

definition dte :: "date \<Rightarrow> date \<Rightarrow> int" where "dte expiry today = expiry - today"

section \<open>The clocks\<close>

datatype alert_kind = OptionClose | OptionWarn | LeveragedClose | LeveragedWarn

definition ALERT_PRECEDENCE :: "alert_kind \<Rightarrow> int" where
  "ALERT_PRECEDENCE k = (case k of OptionClose \<Rightarrow> 0 | LeveragedClose \<Rightarrow> 1 | OptionWarn \<Rightarrow> 2 | LeveragedWarn \<Rightarrow> 3)"

record clock_alert =
  ca_symbol :: string
  ca_kind :: alert_kind
  ca_count :: int \<comment> \<open>days to expiration, or sessions held\<close>

text \<open>\<open>min(xs, key=f)\<close>: the first element with the least key.\<close>

fun first_min :: "('a \<Rightarrow> int) \<Rightarrow> 'a \<Rightarrow> 'a list \<Rightarrow> 'a" where
  "first_min f x [] = x"
| "first_min f x (y # ys) = first_min f (if f y < f x then y else x) ys"

definition option_alerts :: "rules \<Rightarrow> date \<Rightarrow> string \<Rightarrow> exn + clock_alert list" where
  "option_alerts r today symbol =
     bind_e (option_close_at_dte r) (\<lambda>close_dte.
     bind_e (parse_osi symbol) (\<lambda>ref.
     case ref of
       None \<Rightarrow> Inr []
     | Some rf \<Rightarrow>
         let d = dte (rf_expiry rf) today in
         if d \<le> close_dte then Inr [\<lparr>ca_symbol = symbol, ca_kind = OptionClose, ca_count = d\<rparr>]
         else if d \<le> close_dte + OPTION_WARN_DAYS_BEFORE_CLOSE
         then Inr [\<lparr>ca_symbol = symbol, ca_kind = OptionWarn, ca_count = d\<rparr>] else Inr []))"

definition hold_alerts ::
  "zone \<Rightarrow> ledger \<Rightarrow> rules \<Rightarrow> date \<Rightarrow> (date \<Rightarrow> date \<Rightarrow> int) \<Rightarrow> string set \<Rightarrow> string \<Rightarrow> exn + clock_alert list" where
  "hold_alerts z L r today tdb leveraged symbol =
     bind_e (leveraged_max_hold_sessions r) (\<lambda>max_hold.
     if symbol \<notin> leveraged then Inr []
     else
       let first_date = (case first_seen L symbol of None \<Rightarrow> today | Some t \<Rightarrow> et_date z t);
           sessions_held = tdb first_date today + 1 in
       if sessions_held \<ge> max_hold
       then Inr [\<lparr>ca_symbol = symbol, ca_kind = LeveragedClose, ca_count = sessions_held\<rparr>]
       else if sessions_held \<ge> max_hold - LEVERAGED_WARN_SESSIONS_BEFORE_CLOSE
       then Inr [\<lparr>ca_symbol = symbol, ca_kind = LeveragedWarn, ca_count = sessions_held\<rparr>] else Inr [])"

definition position_alert ::
  "zone \<Rightarrow> ledger \<Rightarrow> rules \<Rightarrow> date \<Rightarrow> (date \<Rightarrow> date \<Rightarrow> int) \<Rightarrow> string set \<Rightarrow> string \<Rightarrow> exn + clock_alert list" where
  "position_alert z L r today tdb leveraged symbol =
     bind_e (option_alerts r today symbol) (\<lambda>a.
     bind_e (hold_alerts z L r today tdb leveraged symbol) (\<lambda>b.
     Inr (case a @ b of [] \<Rightarrow> [] | x # xs \<Rightarrow> [first_min (\<lambda>y. ALERT_PRECEDENCE (ca_kind y)) x xs])))"

definition run_clocks ::
  "zone \<Rightarrow> ledger \<Rightarrow> rules \<Rightarrow> position list \<Rightarrow> date \<Rightarrow> (date \<Rightarrow> date \<Rightarrow> int) \<Rightarrow> string set \<Rightarrow> exn + clock_alert list" where
  "run_clocks z L r positions today tdb leveraged =
     bind_e (option_close_at_dte r) (\<lambda>_. bind_e (leveraged_max_hold_sessions r) (\<lambda>_.
     bind_e (map_e (\<lambda>p. position_alert z L r today tdb leveraged (po_symbol p)) positions) (\<lambda>xs. Inr (concat xs))))"

section \<open>The reconciled view\<close>

definition is_sell_stop :: "order_row \<Rightarrow> bool" where
  "is_sell_stop w \<longleftrightarrow> is_resting_stop w \<and> length (or_legs w) = 1 \<and> take 4 (lg_instruction (or_legs w ! 0)) = ''SELL''"

record book_view =
  bv_account :: account_snapshot
  bv_orders :: "order_row list"
  bv_stops :: "(string \<times> order_row) list"
  bv_duplicates :: "(string \<times> order_row list) list"
  bv_naked :: "string list"
  bv_partial :: "(string \<times> int \<times> int) list"
  bv_orphaned :: "order_row list"
  bv_entries :: "order_row list"
  bv_restricted :: bool
  bv_read_at :: instant

definition resting_stop_count :: "book_view \<Rightarrow> int" where
  "resting_stop_count v =
     int (length (bv_stops v)) + sum_list (map (\<lambda>(_, rows). int (length rows) - 1) (bv_duplicates v))"

definition held_of :: "account_snapshot \<Rightarrow> (string \<times> int) list" where
  "held_of a = foldl (\<lambda>m p. AList.update (po_symbol p) (po_qty p) m) [] (filter (\<lambda>p. po_qty p > 0) (ac_positions a))"

text \<open>\<open>setdefault(symbol, []).append(o)\<close> over the resting sell stops.\<close>

definition stops_by_symbol :: "order_row list \<Rightarrow> (string \<times> order_row list) list" where
  "stops_by_symbol orders =
     foldl (\<lambda>m w. AList.update (or_symbol w) ((case map_of m (or_symbol w) of None \<Rightarrow> [] | Some rows \<Rightarrow> rows) @ [w]) m)
       [] (filter is_sell_stop orders)"

definition sort_stops :: "order_row list \<Rightarrow> order_row list" where
  "sort_stops rows = sort_key (\<lambda>w. (or_entered w, or_id w)) rows"

definition is_open_entry :: "order_row \<Rightarrow> bool" where
  "is_open_entry w \<longleftrightarrow> or_status w \<in> RESTING \<and> or_type w = ''LIMIT'' \<and> or_legs w \<noteq> [] \<and>
     take 3 (lg_instruction (or_legs w ! 0)) = ''BUY''"

definition build_view :: "account_snapshot \<Rightarrow> order_row list \<Rightarrow> instant \<Rightarrow> book_view" where
  "build_view account orders read_at =
     (let held = held_of account;
          by_symbol = map (\<lambda>(s, rows). (s, sort_stops rows)) (stops_by_symbol orders);
          stops = map (\<lambda>(s, rows). (s, hd rows)) by_symbol in
      \<lparr>bv_account = account, bv_orders = orders, bv_stops = stops,
       bv_duplicates = filter (\<lambda>(s, rows). length rows > 1) by_symbol,
       bv_naked = sort (map fst (filter (\<lambda>(s, q). s \<notin> fst ` set stops) held)),
       bv_partial = List.map_filter (\<lambda>(s, q). case map_of stops s of None \<Rightarrow> None
                       | Some w \<Rightarrow> if or_qty w \<noteq> q then Some (s, q, or_qty w) else None) held,
       bv_orphaned = map snd (filter (\<lambda>(s, w). s \<notin> fst ` set held) stops),
       bv_entries = filter is_open_entry orders,
       bv_restricted = (ac_restricted account \<or> ac_cash_call account \<noteq> 0), bv_read_at = read_at\<rparr>)"

text \<open>\<open>reconcile\<close>: both reads happen before either write, so a failed read records nothing.\<close>

record account_broker =
  ab_hashes :: "exn + string list"
  ab_account :: "string \<Rightarrow> exn + account_snapshot"
  ab_orders :: "string \<Rightarrow> date \<Rightarrow> instant \<Rightarrow> exn + order_row list"
  ab_quotes :: "nat \<Rightarrow> string list \<Rightarrow> exn + (string \<times> instant) list" \<comment> \<open>the n-th attempt: symbols and quote times\<close>

definition reconcile :: "account_broker \<Rightarrow> ledger \<Rightarrow> string \<Rightarrow> instant \<Rightarrow> date \<Rightarrow> exn + book_view \<times> ledger" where
  "reconcile b L h now orders_from =
     bind_e (ab_account b h) (\<lambda>account.
     bind_e (ab_orders b h orders_from (now + DAY_US)) (\<lambda>orders.
     Inr (build_view account orders now, record_orders (snd (record_account L account)) h orders now)))"

section \<open>One alert per position, the most urgent\<close>

text \<open>The reference: the alert a position deserves, as a cascade.\<close>

definition deserved :: "int \<Rightarrow> int \<Rightarrow> int option \<Rightarrow> int option \<Rightarrow> string \<Rightarrow> clock_alert list" where
  "deserved close_dte max_hold dte_left held_for symbol =
     (if \<exists>d. dte_left = Some d \<and> d \<le> close_dte
      then [\<lparr>ca_symbol = symbol, ca_kind = OptionClose, ca_count = the dte_left\<rparr>]
      else if \<exists>n. held_for = Some n \<and> max_hold \<le> n
      then [\<lparr>ca_symbol = symbol, ca_kind = LeveragedClose, ca_count = the held_for\<rparr>]
      else if \<exists>d. dte_left = Some d \<and> d \<le> close_dte + 2
      then [\<lparr>ca_symbol = symbol, ca_kind = OptionWarn, ca_count = the dte_left\<rparr>]
      else if \<exists>n. held_for = Some n \<and> max_hold - 2 \<le> n
      then [\<lparr>ca_symbol = symbol, ca_kind = LeveragedWarn, ca_count = the held_for\<rparr>]
      else [])"

definition dte_left_of :: "date \<Rightarrow> string \<Rightarrow> exn + int option" where
  "dte_left_of today symbol = bind_e (parse_osi symbol) (\<lambda>ref. Inr (map_option (\<lambda>rf. rf_expiry rf - today) ref))"

definition held_for :: "zone \<Rightarrow> ledger \<Rightarrow> date \<Rightarrow> (date \<Rightarrow> date \<Rightarrow> int) \<Rightarrow> string set \<Rightarrow> string \<Rightarrow> int option" where
  "held_for z L today tdb leveraged symbol =
     (if symbol \<in> leveraged
      then Some (tdb (case first_seen L symbol of None \<Rightarrow> today | Some t \<Rightarrow> et_date z t) today + 1) else None)"

lemma position_alert_deserved:
  assumes "option_close_at_dte r = Inr cd" "leveraged_max_hold_sessions r = Inr mh" "dte_left_of today symbol = Inr dl"
  shows "position_alert z L r today tdb leveraged symbol =
    Inr (deserved cd mh dl (held_for z L today tdb leveraged symbol) symbol)"
proof -
  obtain ref where ref: "parse_osi symbol = Inr ref" "dl = map_option (\<lambda>rf. rf_expiry rf - today) ref"
    using assms(3) by (auto simp: dte_left_of_def err)
  show ?thesis
    using assms(1,2) ref
    by (cases ref) (auto simp: position_alert_def option_alerts_def hold_alerts_def deserved_def held_for_def dte_def
        OPTION_WARN_DAYS_BEFORE_CLOSE_def LEVERAGED_WARN_SESSIONS_BEFORE_CLOSE_def ALERT_PRECEDENCE_def Let_def)
qed

text \<open>The clocks report at most one alert per position, in the order of the positions, and it is the
  most urgent one that applies: the forced close of an option, then the forced close of a
  leveraged holding, then the two warnings. A forced close is therefore never hidden behind a
  warning or by the other clock.\<close>

theorem run_clocks_spec:
  assumes "option_close_at_dte r = Inr cd" "leveraged_max_hold_sessions r = Inr mh"
    and "\<forall>p \<in> set positions. dte_left_of today (po_symbol p) = Inr (dl (po_symbol p))"
  shows "run_clocks z L r positions today tdb leveraged =
    Inr (concat (map (\<lambda>p. deserved cd mh (dl (po_symbol p)) (held_for z L today tdb leveraged (po_symbol p)) (po_symbol p)) positions))"
proof -
  have "map_e (\<lambda>p. position_alert z L r today tdb leveraged (po_symbol p)) positions =
      Inr (map (\<lambda>p. deserved cd mh (dl (po_symbol p)) (held_for z L today tdb leveraged (po_symbol p)) (po_symbol p)) positions)"
    using assms(3) by (intro map_e_total) (simp add: position_alert_deserved [OF assms(1,2)])
  then show ?thesis using assms(1,2) by (simp add: run_clocks_def)
qed

text \<open>A call option five days from its expiry on a leveraged fund, beside an ordinary one.\<close>

definition sample_position :: "string \<Rightarrow> int \<Rightarrow> position" where
  "sample_position s q = \<lparr>po_symbol = s, po_asset = ''X'', po_qty = q, po_avg = None, po_value = 100, po_day_pl = 0, po_settled = q\<rparr>"

definition et_zone :: zone where
  "et_zone = \<lparr>utc_off = (\<lambda>_. - us_of_min 240), wall_off = (\<lambda>_. - us_of_min 240)\<rparr>"

theorem run_clocks_spec_witness:
  "run_clocks et_zone empty_ledger rules_yml [sample_position ''SPXL  260916C00100000'' 1, sample_position ''SPY'' 3] 739870
     (\<lambda>a b. b - a) {''SPXL  260916C00100000''} = Inr [\<lparr>ca_symbol = ''SPXL  260916C00100000'', ca_kind = OptionClose, ca_count = 5\<rparr>]"
proof -
  have r: "option_close_at_dte rules_yml = Inr 5" "leveraged_max_hold_sessions rules_yml = Inr 5" by simp_all
  have d: "dte_left_of 739870 ''SPXL  260916C00100000'' = Inr (Some 5)" "dte_left_of 739870 ''SPY'' = Inr None" by code_simp+
  show ?thesis
    using run_clocks_spec [OF r, of "[sample_position ''SPXL  260916C00100000'' 1, sample_position ''SPY'' 3]" 739870
        "\<lambda>s. if s = ''SPXL  260916C00100000'' then Some 5 else None"] d
    by (simp add: sample_position_def deserved_def held_for_def first_seen_def)
qed

section \<open>What the reconciled view says\<close>

text \<open>The references: the quantity held of a symbol, and its resting sell stops.\<close>

definition held_qty :: "account_snapshot \<Rightarrow> string \<Rightarrow> int option" where
  "held_qty a s = map_option po_qty (find (\<lambda>p. po_symbol p = s \<and> po_qty p > 0) (rev (ac_positions a)))"

definition sell_stops_on :: "order_row list \<Rightarrow> string \<Rightarrow> order_row list" where
  "sell_stops_on orders s = filter (\<lambda>w. is_sell_stop w \<and> or_symbol w = s) orders"

lemma held_of_map: "map_of (held_of a) s = held_qty a s"
proof -
  have "map_of (foldl (\<lambda>m p. AList.update (po_symbol p) (po_qty p) m) [] (filter (\<lambda>p. po_qty p > 0) ps)) s =
      map_option po_qty (find (\<lambda>p. po_symbol p = s \<and> po_qty p > 0) (rev ps))" for ps
    by (induction ps rule: rev_induct) (auto simp: update_conv')
  then show ?thesis by (simp add: held_of_def held_qty_def)
qed

lemma held_of_keys: "distinct (map fst (held_of a))"
proof -
  have "distinct (map fst (foldl (\<lambda>m p. AList.update (po_symbol p) (po_qty p) m) [] ps))" for ps
    by (induction ps rule: rev_induct) (auto intro: distinct_update)
  then show ?thesis by (simp add: held_of_def)
qed

lemma stops_by_symbol_map:
  "map_of (stops_by_symbol orders) s = (case sell_stops_on orders s of [] \<Rightarrow> None | w # ws \<Rightarrow> Some (w # ws))"
proof -
  have "map_of (foldl (\<lambda>m w. AList.update (or_symbol w) ((case map_of m (or_symbol w) of None \<Rightarrow> [] | Some rows \<Rightarrow> rows) @ [w]) m) [] ws) s =
      (case filter (\<lambda>w. or_symbol w = s) ws of [] \<Rightarrow> None | w # ws \<Rightarrow> Some (w # ws))" for ws
    by (induction ws arbitrary: s rule: rev_induct) (auto simp: update_conv' split: list.splits)
  then show ?thesis by (simp add: stops_by_symbol_def sell_stops_on_def conj_commute)
qed

lemma stops_by_symbol_keys: "distinct (map fst (stops_by_symbol orders))"
proof -
  have "distinct (map fst (foldl (\<lambda>m w. AList.update (or_symbol w) ((case map_of m (or_symbol w) of None \<Rightarrow> [] | Some rows \<Rightarrow> rows) @ [w]) m) [] ws))"
    for ws by (induction ws rule: rev_induct) (auto intro: distinct_update)
  then show ?thesis by (simp add: stops_by_symbol_def)
qed

lemma total_update:
  "sum_list (map (\<lambda>(s, rows). int (length rows)) (AList.update k v m)) =
   sum_list (map (\<lambda>(s, rows). int (length rows)) m) - (case map_of m k of None \<Rightarrow> 0 | Some rows \<Rightarrow> int (length rows)) + int (length v)"
  by (induction m) auto

lemma stops_by_symbol_total:
  "sum_list (map (\<lambda>(s, rows). int (length rows)) (stops_by_symbol orders)) = int (length (filter is_sell_stop orders))"
proof -
  have "sum_list (map (\<lambda>(s, rows). int (length rows))
      (foldl (\<lambda>m w. AList.update (or_symbol w) ((case map_of m (or_symbol w) of None \<Rightarrow> [] | Some rows \<Rightarrow> rows) @ [w]) m) [] ws)) =
      int (length ws)" for ws
    by (induction ws rule: rev_induct) (auto simp: total_update split: option.splits)
  then show ?thesis by (simp add: stops_by_symbol_def)
qed

lemma in_stops_by_symbol:
  "(s, rows) \<in> set (stops_by_symbol orders) \<longleftrightarrow> rows = sell_stops_on orders s \<and> rows \<noteq> []"
proof -
  have "(s, rows) \<in> set (stops_by_symbol orders) \<longleftrightarrow> map_of (stops_by_symbol orders) s = Some rows"
    using stops_by_symbol_keys by simp
  then show ?thesis by (auto simp: stops_by_symbol_map split: list.splits)
qed

lemma in_held_of: "(s, q) \<in> set (held_of a) \<longleftrightarrow> held_qty a s = Some q"
  using held_of_keys [of a] held_of_map [of a s] by (metis map_of_eq_Some_iff)

lemma resting_stop_count_exact: "resting_stop_count (build_view a orders t) = int (length (filter is_sell_stop orders))"
proof -
  have "int (length m) + sum_list (map (\<lambda>(s, rows). int (length rows) - 1) (filter (\<lambda>(s, rows). length rows > 1)
      (map (\<lambda>(s, rows). (s, sort_stops rows)) m))) = sum_list (map (\<lambda>(s, rows). int (length rows)) m)"
    if "\<forall>(s, rows) \<in> set m. rows \<noteq> []" for m :: "(string \<times> order_row list) list"
    using that
  proof (induction m)
    case (Cons x m)
    obtain s rows where x: "x = (s, rows)" by force
    have "length rows = 1 \<or> length rows > 1" using Cons.prems x by (cases rows) auto
    then show ?case using Cons x by (auto simp: sort_stops_def)
  qed simp
  moreover have "\<forall>(s, rows) \<in> set (stops_by_symbol orders). rows \<noteq> []" by (auto simp: in_stops_by_symbol)
  ultimately show ?thesis by (simp add: resting_stop_count_def build_view_def Let_def stops_by_symbol_total)
qed

lemma view_stops:
  "map_of (bv_stops (build_view a orders t)) s =
     (if sell_stops_on orders s = [] then None else Some (hd (sort_stops (sell_stops_on orders s))))"
proof -
  have "bv_stops (build_view a orders t) = map (\<lambda>(k, rows). (k, hd (sort_stops rows))) (stops_by_symbol orders)"
    by (simp add: build_view_def Let_def split_def)
  then show ?thesis by (simp add: map_of_map stops_by_symbol_map split: list.splits)
qed

lemma sort_Nil_iff: "sort xs = [] \<longleftrightarrow> xs = []"
  by (metis length_0_conv length_sort)

lemma map_filter_Nil_iff: "List.map_filter f xs = [] \<longleftrightarrow> (\<forall>x \<in> set xs. f x = None)"
  by (induction xs) (auto simp: map_filter_simps split: option.split)

lemma view_stop_keys: "s \<in> fst ` set (bv_stops (build_view a orders t)) \<longleftrightarrow> sell_stops_on orders s \<noteq> []"
  using view_stops [of a orders t s] by (metis map_of_eq_None_iff option.distinct(1))

lemma held_of_dom: "s \<in> fst ` set (held_of a) \<longleftrightarrow> held_qty a s \<noteq> None"
  using held_of_map [of a s] by (metis map_of_eq_None_iff)

lemma view_naked: "bv_naked (build_view a orders t) = [] \<longleftrightarrow> (\<forall>s. held_qty a s \<noteq> None \<longrightarrow> sell_stops_on orders s \<noteq> [])"
proof -
  let ?v = "build_view a orders t"
  have "bv_naked ?v = sort (map fst (filter (\<lambda>(s, q). s \<notin> fst ` set (bv_stops ?v)) (held_of a)))"
    by (simp only: build_view_def Let_def book_view.select_convs)
  then have "bv_naked ?v = [] \<longleftrightarrow> (\<forall>s \<in> fst ` set (held_of a). s \<in> fst ` set (bv_stops ?v))"
    by (simp add: sort_Nil_iff filter_empty_conv split_def)
  then show ?thesis by (simp only: view_stop_keys) (metis held_of_dom)
qed

lemma view_partial:
  "bv_partial (build_view a orders t) = [] \<longleftrightarrow>
   (\<forall>s q. held_qty a s = Some q \<and> sell_stops_on orders s \<noteq> [] \<longrightarrow> or_qty (hd (sort_stops (sell_stops_on orders s))) = q)"
proof -
  let ?v = "build_view a orders t" and ?on = "sell_stops_on orders"
  have "bv_partial ?v = List.map_filter (\<lambda>(s, q). case map_of (bv_stops ?v) s of None \<Rightarrow> None
                     | Some w \<Rightarrow> if or_qty w \<noteq> q then Some (s, q, or_qty w) else None) (held_of a)"
    by (simp only: build_view_def Let_def book_view.select_convs)
  then have "bv_partial ?v = [] \<longleftrightarrow> (\<forall>(s, q) \<in> set (held_of a). ?on s \<noteq> [] \<longrightarrow> or_qty (hd (sort_stops (?on s))) = q)"
    by (simp add: view_stops map_filter_Nil_iff split_def) blast
  also have "\<dots> \<longleftrightarrow> (\<forall>s q. (s, q) \<in> set (held_of a) \<and> ?on s \<noteq> [] \<longrightarrow> or_qty (hd (sort_stops (?on s))) = q)" by fast
  finally show ?thesis by (simp only: in_held_of)
qed

lemma view_orphaned: "bv_orphaned (build_view a orders t) = [] \<longleftrightarrow> (\<forall>s. sell_stops_on orders s \<noteq> [] \<longrightarrow> held_qty a s \<noteq> None)"
proof -
  let ?v = "build_view a orders t"
  have "bv_orphaned ?v = map snd (filter (\<lambda>(s, w). s \<notin> fst ` set (held_of a)) (bv_stops ?v))"
    by (simp only: build_view_def Let_def book_view.select_convs)
  then have "bv_orphaned ?v = [] \<longleftrightarrow> (\<forall>s \<in> fst ` set (bv_stops ?v). s \<in> fst ` set (held_of a))"
    by (simp add: filter_empty_conv split_def)
  then show ?thesis by (simp only: held_of_dom) (metis view_stop_keys)
qed

lemma view_duplicates: "bv_duplicates (build_view a orders t) = [] \<longleftrightarrow> (\<forall>s. length (sell_stops_on orders s) \<le> 1)"
proof -
  let ?v = "build_view a orders t"
  have "bv_duplicates ?v = [] \<longleftrightarrow> (\<forall>p \<in> set (stops_by_symbol orders). length (snd p) \<le> 1)"
    by (simp add: build_view_def Let_def filter_empty_conv split_def sort_stops_def not_less)
  also have "\<dots> \<longleftrightarrow> (\<forall>s rows. (s, rows) \<in> set (stops_by_symbol orders) \<longrightarrow> length rows \<le> 1)" by force
  also have "\<dots> \<longleftrightarrow> (\<forall>s. length (sell_stops_on orders s) \<le> 1)"
    by (simp only: in_stops_by_symbol) (metis le0 list.size(3))
  finally show ?thesis .
qed

text \<open>C15: the reconciled view is exact. Its stop count is the number of resting sell stops among the orders,
  duplicates included; and it reports nothing (no naked position, no quantity mismatch, no
  orphaned and no duplicate stop) exactly when every symbol held has one resting sell stop for
  the quantity held and no other symbol has any.\<close>

theorem build_view_exact:
  "resting_stop_count (build_view a orders t) = int (length (filter is_sell_stop orders)) \<and>
   (bv_naked (build_view a orders t) = [] \<and> bv_partial (build_view a orders t) = [] \<and>
    bv_orphaned (build_view a orders t) = [] \<and> bv_duplicates (build_view a orders t) = [] \<longleftrightarrow>
    (\<forall>s. map or_qty (sell_stops_on orders s) = (case held_qty a s of None \<Rightarrow> [] | Some q \<Rightarrow> [q])))"
proof -
  let ?on = "sell_stops_on orders"
  have one: "(held_qty a s \<noteq> None \<longrightarrow> ?on s \<noteq> []) \<and> (\<forall>q. held_qty a s = Some q \<and> ?on s \<noteq> [] \<longrightarrow> or_qty (hd (sort_stops (?on s))) = q) \<and>
      (?on s \<noteq> [] \<longrightarrow> held_qty a s \<noteq> None) \<and> length (?on s) \<le> 1 \<longleftrightarrow>
      map or_qty (?on s) = (case held_qty a s of None \<Rightarrow> [] | Some q \<Rightarrow> [q])" for s
    by (cases "?on s"; cases "tl (?on s)"; cases "held_qty a s") (auto simp: sort_stops_def)
  show ?thesis unfolding view_naked view_partial view_orphaned view_duplicates using resting_stop_count_exact one by blast
qed

end
