(* ===== verification/TC_Tick.thy ===== *)
theory TC_Tick
  imports TC_Monitor
begin

text \<open>
  The monitoring sweep (tc/loops/tick.py): one read of the account, the watches in priority
  order, one row of the tick ledger. The clock reading is a UTC instant, as the engine takes it.
  A trip's detail is a value holding what its text reports. \<open>run_tick\<close> returns the outcome and
  the ledger, since a raise after the reads leaves the snapshots written.
\<close>

section \<open>Trips and rows\<close>

definition STALE_QUOTE_AGE :: int where "STALE_QUOTE_AGE = us_of_min 3"

definition WATCH_FLAG :: "int \<Rightarrow> char option" where
  "WATCH_FLAG w = map_of [(1, CHR ''R''), (2, CHR ''V''), (3, CHR ''H''), (4, CHR ''N''), (5, CHR ''P''), (6, CHR ''X''), (7, CHR ''K'')] w"

definition NO_FLAGS :: string where "NO_FLAGS = ''-''"

datatype trip_detail =
    DtBlind | DtUnseeded | DtRestricted bool dec | DtReserve dec dec | DtDrawdown dec dec dec
  | DtNaked "string list" | DtPartial "(string \<times> int \<times> int) list" | DtStopFill "string list" "string list"
  | DtDuplicates "(string \<times> int list) list" | DtClock string int

record trip =
  tr_watch :: int
  tr_name :: string
  tr_detail :: trip_detail

abbreviation mk_trip :: "int \<Rightarrow> string \<Rightarrow> trip_detail \<Rightarrow> trip" where
  "mk_trip w n d \<equiv> \<lparr>tr_watch = w, tr_name = n, tr_detail = d\<rparr>"

record tick_result =
  rs_row :: tick_row
  rs_trips :: "trip list"
  rs_view :: "book_view option"

definition blind_row :: "wall \<Rightarrow> string \<Rightarrow> tick_row" where
  "blind_row at_et flags =
     \<lparr>tk_at = at_et, tk_state = TsBLIND, tk_value = 0, tk_comp = 0, tk_hwm = 0, tk_drawdown = 0, tk_level = LevelOk,
      tk_positions = 0, tk_stops = 0, tk_orders = 0, tk_settled = 0, tk_unsettled = 0, tk_reserve = 0, tk_flags = flags,
      tk_note = [NoteBlind]\<rparr>"

section \<open>Stale quotes\<close>

text \<open>One attempt: \<open>Some\<close> answer when it decides, \<open>None\<close> when the quotes are merely old.\<close>

definition quote_attempt :: "account_broker \<Rightarrow> string list \<Rightarrow> instant \<Rightarrow> nat \<Rightarrow> exn + bool option" where
  "quote_attempt b symbols now n =
     (case ab_quotes b n symbols of
        Inl e \<Rightarrow> if e = BrokerUnauthorized \<or> e = BrokerError then Inr (Some True) else Inl e
      | Inr quotes \<Rightarrow>
          if fst ` set quotes \<noteq> set symbols then Inr (Some True)
          else if now - Min (snd ` set quotes) \<le> STALE_QUOTE_AGE then Inr (Some False) else Inr None)"

definition quotes_are_stale :: "account_broker \<Rightarrow> string list \<Rightarrow> instant \<Rightarrow> exn + bool" where
  "quotes_are_stale b symbols now =
     bind_e (quote_attempt b symbols now 1) (\<lambda>first. case first of Some x \<Rightarrow> Inr x
     | None \<Rightarrow> bind_e (quote_attempt b symbols now 2) (\<lambda>second. case second of Some x \<Rightarrow> Inr x | None \<Rightarrow> Inr True))"

section \<open>The watches\<close>

definition kind_name :: "alert_kind \<Rightarrow> string" where
  "kind_name k = (case k of OptionClose \<Rightarrow> ''option_close'' | OptionWarn \<Rightarrow> ''option_warn''
     | LeveragedClose \<Rightarrow> ''leveraged_close'' | LeveragedWarn \<Rightarrow> ''leveraged_warn'')"

definition gone_since :: "(string \<times> int) list \<Rightarrow> account_snapshot \<Rightarrow> string list" where
  "gone_since prior a =
     sort (map fst (filter (\<lambda>(s, q). q \<noteq> 0 \<and> s \<notin> po_symbol ` set (filter (\<lambda>p. po_qty p \<noteq> 0) (ac_positions a))) prior))"

definition evaluate_watches ::
  "book_view \<Rightarrow> (string \<times> int) list \<Rightarrow> dec \<Rightarrow> rules \<Rightarrow> dec \<Rightarrow> clock_alert list \<Rightarrow> exn + trip list" where
  "evaluate_watches view prior_positions hwm r reserve clock_alerts =
     (let account = bv_account view;
          restriction = (if bv_restricted view
            then [mk_trip 1 ''restriction'' (DtRestricted (ac_restricted account) (ac_cash_call account))] else []);
          below = (if ac_reserve_cash account < reserve
            then [mk_trip 2 ''reserve'' (DtReserve (ac_reserve_cash account) reserve)] else []);
          val = ac_value account in
      bind_e (if hwm > 0 then is_halted val hwm r else Inr False) (\<lambda>halted.
      bind_e (if halted then bind_e (halt_threshold hwm r) (\<lambda>h. Inr [mk_trip 3 ''drawdown'' (DtDrawdown val h hwm)]) else Inr [])
        (\<lambda>drawdown.
      let naked = (if bv_naked view \<noteq> [] then [mk_trip 4 ''naked'' (DtNaked (bv_naked view))] else []);
          partial = (if bv_partial view \<noteq> [] then [mk_trip 5 ''partial'' (DtPartial (bv_partial view))] else []);
          gone = gone_since prior_positions account;
          orphans = sort (map (\<lambda>w. or_symbol w @ ''('' @ show_int (or_qty w) @ '')'') (bv_orphaned view));
          stop_fill = (if gone \<noteq> [] \<or> orphans \<noteq> [] then [mk_trip 6 ''stop_fill'' (DtStopFill gone orphans)] else []);
          duplicate = (if bv_duplicates view \<noteq> []
            then [mk_trip 6 ''duplicate_stop'' (DtDuplicates (map (\<lambda>(s, rows). (s, map or_id rows)) (sort_key fst (bv_duplicates view))))] else []);
          clocks = map (\<lambda>a. mk_trip 7 (kind_name (ca_kind a)) (DtClock (ca_symbol a) (ca_count a))) clock_alerts in
      Inr (restriction @ below @ drawdown @ naked @ partial @ stop_fill @ duplicate @ clocks))))"

definition flag_letters :: "trip list \<Rightarrow> string" where
  "flag_letters trips =
     foldl (\<lambda>letters t. case WATCH_FLAG (tr_watch t) of None \<Rightarrow> letters
        | Some f \<Rightarrow> if f \<in> set letters then letters else letters @ [f]) [] trips"

definition flag_string :: "trip list \<Rightarrow> string list \<Rightarrow> string" where
  "flag_string trips extra = (let s = flag_letters trips @ concat extra in if s = [] then NO_FLAGS else s)"

definition leveraged_effective :: "string list \<Rightarrow> string set \<Rightarrow> exn + string set" where
  "leveraged_effective symbols leveraged =
     fold_e (\<lambda>s out. bind_e (parse_osi s) (\<lambda>ref.
        case ref of None \<Rightarrow> Inr out
        | Some rf \<Rightarrow> Inr (if rf_underlying rf \<in> leveraged then insert s out else out))) symbols leveraged"

section \<open>The sweep\<close>

text \<open>The read half: the hash, the prior positions, then the reconciliation.\<close>

definition tick_read :: "account_broker \<Rightarrow> ledger \<Rightarrow> string option \<Rightarrow> instant \<Rightarrow> date \<Rightarrow> exn + ((string \<times> int) list \<times> book_view) \<times> ledger" where
  "tick_read b L account_hash now orders_from =
     bind_e (case account_hash of Some (c # cs) \<Rightarrow> Inr (c # cs)
        | _ \<Rightarrow> bind_e (ab_hashes b) (\<lambda>hs. case hs of [] \<Rightarrow> Inl IndexError | h # _ \<Rightarrow> Inr h)) (\<lambda>h.
     bind_e (reconcile b L h now orders_from) (\<lambda>(view, L'). Inr ((latest_positions L, view), L')))"

definition sweep_state :: "bool \<Rightarrow> phase \<Rightarrow> tick_state \<times> tick_note list" where
  "sweep_state stale ph =
     (if stale then (TsSTALE, [NoteStale]) else case ph of CLOSED \<Rightarrow> (TsPOST, [NoteNotTradingDay])
      | PRE \<Rightarrow> (TsPRE, []) | RTH \<Rightarrow> (TsRTH, []) | POST \<Rightarrow> (TsPOST, []))"

text \<open>The mark, the drawdown and the level; the notes and trips of an unseeded ledger.\<close>

definition tick_mark :: "ledger \<Rightarrow> rules \<Rightarrow> dec \<Rightarrow> exn + dec \<times> dec \<times> level \<times> tick_note list \<times> trip list" where
  "tick_mark L r account_value =
     (case latest_session_status L of
        None \<Rightarrow> Inr (0, 0, LevelOk, [NoteUnseeded], [mk_trip 0 ''unseeded'' DtUnseeded])
      | Some status \<Rightarrow>
          bind_e (drawdown_pct account_value (ss_hwm status)) (\<lambda>dd.
          bind_e (is_halted account_value (ss_hwm status) r) (\<lambda>halted.
          Inr (ss_hwm status, dd, if halted then LevelHalt else LevelOk, [], []))))"

definition extra_flags :: "bool \<Rightarrow> bool \<Rightarrow> date \<Rightarrow> string list" where
  "extra_flags stale fallback d =
     (if stale then [''S''] else []) @ (if fallback then [''F''] else []) @ (if weekday d = 0 then [''C''] else [])"

text \<open>The computed half: from what was read to the row, its trips and nothing else.\<close>

definition tick_compute ::
  "zone \<Rightarrow> account_broker \<Rightarrow> ledger \<Rightarrow> rules \<Rightarrow> dec \<Rightarrow> instant \<Rightarrow> market_window option \<Rightarrow> string set \<Rightarrow>
   (date \<Rightarrow> date \<Rightarrow> int) \<Rightarrow> (string \<times> int) list \<Rightarrow> book_view \<Rightarrow> exn + tick_result" where
  "tick_compute z b L r reserve now window leveraged tdb prior view =
     (let now_et = et_wall z now;
          win = (case window of None \<Rightarrow> fallback_window (date_of now_et) | Some w \<Rightarrow> w) in
      bind_e (phase_for z \<lparr>dt_wall = now, dt_tz = TzFixed 0\<rparr> win) (\<lambda>ph.
      let account = bv_account view; positions = filter (\<lambda>p. po_qty p \<noteq> 0) (ac_positions account);
          symbols = map po_symbol positions in
      bind_e (if ph = RTH \<and> positions \<noteq> [] then quotes_are_stale b symbols now else Inr False) (\<lambda>stale.
      let (state, notes) = sweep_state stale ph; account_value = ac_value account in
      bind_e (tick_mark L r account_value) (\<lambda>(hwm, drawdown, level, mark_notes, unseeded).
      bind_e (leveraged_effective symbols leveraged) (\<lambda>lev.
      bind_e (run_clocks z L r positions (date_of now_et) tdb lev) (\<lambda>alerts.
      bind_e (evaluate_watches view prior hwm r reserve alerts) (\<lambda>watches.
      let trips = unseeded @ watches;
          extra = extra_flags stale (window = None) (date_of now_et);
          row = \<lparr>tk_at = now_et - now_et mod us_of_min 1, tk_state = state, tk_value = account_value,
                 tk_comp = dsub account_value reserve, tk_hwm = hwm, tk_drawdown = drawdown, tk_level = level,
                 tk_positions = int (length positions), tk_stops = resting_stop_count view,
                 tk_orders = int (length (bv_entries view)), tk_settled = ac_available account,
                 tk_unsettled = ac_unsettled account, tk_reserve = ac_reserve_cash account,
                 tk_flags = flag_string trips extra, tk_note = notes @ mark_notes\<rparr> in
      Inr \<lparr>rs_row = row, rs_trips = trips, rs_view = Some view\<rparr>)))))))"

definition run_tick ::
  "zone \<Rightarrow> account_broker \<Rightarrow> ledger \<Rightarrow> rules \<Rightarrow> dec \<Rightarrow> string option \<Rightarrow> instant \<Rightarrow> market_window option \<Rightarrow> date \<Rightarrow> string set \<Rightarrow>
   (date \<Rightarrow> date \<Rightarrow> int) \<Rightarrow> (exn + tick_result) \<times> ledger" where
  "run_tick z b L r reserve account_hash now window orders_from leveraged tdb =
     (case tick_read b L account_hash now orders_from of
        Inl BrokerUnauthorized \<Rightarrow>
          let now_et = et_wall z now;
              row = blind_row (now_et - now_et mod us_of_min 1) ((if window = None then ''F'' else []) @ ''B'') in
          (Inr \<lparr>rs_row = row, rs_trips = [mk_trip 0 ''blind'' DtBlind], rs_view = None\<rparr>, append_tick L row)
      | Inl e \<Rightarrow> (Inl e, L)
      | Inr ((prior, view), L1) \<Rightarrow>
          (case tick_compute z b L1 r reserve now window leveraged tdb prior view of
             Inl e \<Rightarrow> (Inl e, L1)
           | Inr res \<Rightarrow> (Inr res, append_tick L1 (rs_row res))))"

section \<open>Every returning sweep leaves one row\<close>

text \<open>The ledger gets exactly one row on every path that returns, blind and tripped ones included, and
  it is the row returned; a path that raises leaves none. The sweep changes no other table but
  the account and order snapshots, in particular not the high-water mark.\<close>

theorem run_tick_one_row:
  "ticks (snd (run_tick z b L r reserve h now window d lev tdb)) =
     ticks L @ (case fst (run_tick z b L r reserve h now window d lev tdb) of Inl e \<Rightarrow> [] | Inr res \<Rightarrow> [rs_row res]) \<and>
   session_status (snd (run_tick z b L r reserve h now window d lev tdb)) = session_status L \<and>
   job_runs (snd (run_tick z b L r reserve h now window d lev tdb)) = job_runs L \<and>
   token_events (snd (run_tick z b L r reserve h now window d lev tdb)) = token_events L \<and>
   alerts (snd (run_tick z b L r reserve h now window d lev tdb)) = alerts L"
proof (cases "tick_read b L h now d")
  case (Inl e)
  then show ?thesis by (cases e) (simp_all add: run_tick_def append_tick_def Let_def)
next
  case (Inr x)
  obtain prior view L1 where x: "x = ((prior, view), L1)" by (metis surj_pair)
  have "ticks L1 = ticks L" "session_status L1 = session_status L" "job_runs L1 = job_runs L"
    "token_events L1 = token_events L" "alerts L1 = alerts L"
    using Inr x by (auto simp: tick_read_def reconcile_def err record_account_def record_orders_def)
  then show ?thesis using Inr x
    by (cases "tick_compute z b L1 r reserve now window lev tdb prior view") (simp_all add: run_tick_def append_tick_def)
qed

section \<open>The watches\<close>

lemma watch_list:
  assumes "evaluate_watches v prior hwm r reserve clks = Inr trips"
  shows "map tr_watch trips = (if bv_restricted v then [1] else []) @ (if ac_reserve_cash (bv_account v) < reserve then [2] else []) @
    (if hwm > 0 \<and> is_halted (ac_value (bv_account v)) hwm r = Inr True then [3] else []) @
    (if bv_naked v \<noteq> [] then [4] else []) @ (if bv_partial v \<noteq> [] then [5] else []) @
    (if gone_since prior (bv_account v) \<noteq> [] \<or> bv_orphaned v \<noteq> [] then [6] else []) @
    (if bv_duplicates v \<noteq> [] then [6] else []) @ replicate (length clks) 7"
proof -
  have k: "map tr_watch (map (\<lambda>a. mk_trip 7 (f a) (g a)) xs) = replicate (length xs) 7" for f g and xs :: "clock_alert list"
    by (induction xs) auto
  have m: "map tr_watch (if c then xs else []) = (if c then map tr_watch xs else [])" for c xs by simp
  obtain halted where h: "(if hwm > 0 then is_halted (ac_value (bv_account v)) hwm r else Inr False) = Inr halted"
    using assms by (auto simp only: evaluate_watches_def Let_def bind_e_eq_Inr)
  then have hh: "hwm > 0 \<and> is_halted (ac_value (bv_account v)) hwm r = Inr True \<longleftrightarrow> halted" by (auto split: if_splits)
  obtain dd where dd: "(if halted then bind_e (halt_threshold hwm r) (\<lambda>h. Inr [mk_trip 3 ''drawdown'' (DtDrawdown (ac_value (bv_account v)) h hwm)]) else Inr []) = Inr dd"
    using assms unfolding evaluate_watches_def Let_def h by (auto simp only: bind_e_eq_Inr bind_e_Inr)
  then have "map tr_watch dd = (if halted then [3] else [])" by (auto simp: err split: if_splits)
  with assms show ?thesis unfolding hh evaluate_watches_def Let_def h bind_e_Inr dd
    by (auto simp only: map_append m k sort_Nil_iff map_is_Nil_conv sum.inject list.map trip.select_convs)
qed

lemma watch_sorted:
  assumes "evaluate_watches v prior hwm r reserve clks = Inr ws" and "set (map tr_watch un) \<subseteq> {0}"
  shows "sorted (map tr_watch (un @ ws))"
proof -
  have sevens: "sorted (replicate n (7 :: int))" for n by (induction n) auto
  have "sorted (map tr_watch ws) \<and> (\<forall>w \<in> set (map tr_watch ws). 1 \<le> w)"
    unfolding watch_list [OF assms(1)] by (auto simp: sorted_append sevens)
  moreover have "sorted (map tr_watch un)" using assms(2) by (induction un) auto
  ultimately show ?thesis using assms(2) by (fastforce simp: sorted_append)
qed

lemma flag_letters_set: "f \<in> set (flag_letters trips) \<longleftrightarrow> (\<exists>w \<in> set (map tr_watch trips). WATCH_FLAG w = Some f)"
proof (induction trips rule: rev_induct)
  case (snoc t ts)
  then show ?case by (cases "WATCH_FLAG (tr_watch t)") (auto simp: flag_letters_def)
qed (simp add: flag_letters_def)

lemma WATCH_FLAG_inv: "WATCH_FLAG w = Some CHR ''R'' \<longleftrightarrow> w = 1" "WATCH_FLAG w = Some CHR ''V'' \<longleftrightarrow> w = 2"
  "WATCH_FLAG w = Some CHR ''H'' \<longleftrightarrow> w = 3" "WATCH_FLAG w = Some CHR ''N'' \<longleftrightarrow> w = 4"
  by (auto simp: WATCH_FLAG_def)

lemma flag_string_letter:
  assumes "f \<notin> set (concat extra)" and "f \<noteq> CHR ''-''"
  shows "f \<in> set (flag_string trips extra) \<longleftrightarrow> (\<exists>w \<in> set (map tr_watch trips). WATCH_FLAG w = Some f)"
proof -
  have "f \<in> set (flag_string trips extra) \<longleftrightarrow> f \<in> set (flag_letters trips)"
    using assms by (auto simp: flag_string_def Let_def NO_FLAGS_def)
  then show ?thesis by (simp only: flag_letters_set)
qed

lemma tick_mark_facts:
  assumes "tick_mark L r v = Inr (hwm, dd, lvl, notes, un)"
  shows "set (map tr_watch un) \<subseteq> {0}"
    and "case latest_session_status L of None \<Rightarrow> hwm = 0 \<and> lvl = LevelOk
     | Some s \<Rightarrow> hwm = ss_hwm s \<and> 0 < hwm \<and> is_halted v hwm r = Inr (lvl = LevelHalt)"
  using assms by (auto simp: tick_mark_def err drawdown_pct_def split: option.splits)

lemma extra_flags_letters: "set (concat (extra_flags stale fallback d)) \<subseteq> set ''SFC''"
  by (simp add: extra_flags_def)

text \<open>What a computed sweep rests on.\<close>

lemma tick_compute_facts:
  assumes "tick_compute z b L r reserve now window leveraged tdb prior view = Inr res"
  obtains hwm dd ns un clks ws stale where
    "tick_mark L r (ac_value (bv_account view)) = Inr (hwm, dd, tk_level (rs_row res), ns, un)"
    "evaluate_watches view prior hwm r reserve clks = Inr ws" "rs_trips res = un @ ws"
    "tk_flags (rs_row res) = flag_string (un @ ws) (extra_flags stale (window = None) (et_date z now))"
    "rs_view res = Some view" "tk_value (rs_row res) = ac_value (bv_account view)" "tk_stops (rs_row res) = resting_stop_count view"
    "tk_state (rs_row res) \<noteq> TsBLIND"
proof -
  have nb: "fst (sweep_state st ph) \<noteq> TsBLIND" for st ph by (auto simp: sweep_state_def split: phase.split)
  show thesis using assms that nb unfolding tick_compute_def Let_def bind_e_eq_Inr split_def et_date_def by fastforce
qed

text \<open>
  The reads of a sweep, in their order: the account's key (the one given, or the first the broker
  names), the account, the orders. This is when one of them is refused for want of a token.
\<close>

definition account_key :: "account_broker \<Rightarrow> string option \<Rightarrow> string option" where
  "account_key b h = (if h = None \<or> h = Some [] then case ab_hashes b of Inr (k # _) \<Rightarrow> Some k | _ \<Rightarrow> None else h)"

definition read_refused :: "account_broker \<Rightarrow> string option \<Rightarrow> instant \<Rightarrow> date \<Rightarrow> bool" where
  "read_refused b h now d \<longleftrightarrow>
     ((h = None \<or> h = Some []) \<and> ab_hashes b = Inl BrokerUnauthorized) \<or>
     (\<exists>k. account_key b h = Some k \<and>
        (ab_account b k = Inl BrokerUnauthorized \<or>
         (\<exists>a. ab_account b k = Inr a \<and> ab_orders b k d (now + DAY_US) = Inl BrokerUnauthorized)))"

lemma tick_read_refused: "tick_read b L h now d = Inl BrokerUnauthorized \<longleftrightarrow> read_refused b h now d"
proof -
  have key: "tick_read b L h now d =
      (case account_key b h of
         Some k \<Rightarrow> bind_e (reconcile b L k now d) (\<lambda>(view, L'). Inr ((latest_positions L, view), L'))
       | None \<Rightarrow> (case ab_hashes b of Inl e \<Rightarrow> Inl e | _ \<Rightarrow> Inl IndexError))"
    by (auto simp: tick_read_def account_key_def split: option.split list.split sum.split)
  have "account_key b h = None \<longleftrightarrow> (h = None \<or> h = Some []) \<and> (isl (ab_hashes b) \<or> ab_hashes b = Inr [])"
    by (auto simp: account_key_def split: sum.split list.split)
  then show ?thesis unfolding key read_refused_def
    by (cases "account_key b h"; cases "ab_hashes b") (auto simp: reconcile_def bind_e_eq_Inl account_key_def split: list.splits if_splits)
qed

text \<open>C17: a dead token is a state, not a crash. When the broker refuses authorization on any of the reads, the
  sweep returns; the ledger it leaves is the one it found with one BLIND row more, which has the
  minute, every figure zero and the B flag, after an F where the hours are the fallback ones; the
  one trip is the blind one and there is no view. And it is the only state called BLIND: a sweep that
  returns a row of that state had a read refused.\<close>

theorem run_tick_blind:
  shows "(read_refused b h now d \<longrightarrow>
    (\<exists>res. run_tick z b L r reserve h now window d lev tdb = (Inr res, L\<lparr>ticks := ticks L @ [rs_row res]\<rparr>) \<and>
       tk_state (rs_row res) = TsBLIND \<and> tk_at (rs_row res) = et_wall z now - et_wall z now mod us_of_min 1 \<and>
       list_all (\<lambda>f. f (rs_row res) = 0) [tk_value, tk_comp, tk_hwm, tk_drawdown, tk_settled, tk_unsettled, tk_reserve] \<and>
       list_all (\<lambda>f. f (rs_row res) = 0) [tk_positions, tk_stops, tk_orders] \<and> tk_level (rs_row res) = LevelOk \<and>
       tk_flags (rs_row res) = (if window = None then ''FB'' else ''B'') \<and> tk_note (rs_row res) = [NoteBlind] \<and>
       rs_trips res = [\<lparr>tr_watch = 0, tr_name = ''blind'', tr_detail = DtBlind\<rparr>] \<and> rs_view res = None)) \<and>
    (\<forall>res L'. run_tick z b L r reserve h now window d lev tdb = (Inr res, L') \<and> tk_state (rs_row res) = TsBLIND \<longrightarrow>
       read_refused b h now d)"
proof (rule conjI)
  show "read_refused b h now d \<longrightarrow>
    (\<exists>res. run_tick z b L r reserve h now window d lev tdb = (Inr res, L\<lparr>ticks := ticks L @ [rs_row res]\<rparr>) \<and>
       tk_state (rs_row res) = TsBLIND \<and> tk_at (rs_row res) = et_wall z now - et_wall z now mod us_of_min 1 \<and>
       list_all (\<lambda>f. f (rs_row res) = 0) [tk_value, tk_comp, tk_hwm, tk_drawdown, tk_settled, tk_unsettled, tk_reserve] \<and>
       list_all (\<lambda>f. f (rs_row res) = 0) [tk_positions, tk_stops, tk_orders] \<and> tk_level (rs_row res) = LevelOk \<and>
       tk_flags (rs_row res) = (if window = None then ''FB'' else ''B'') \<and> tk_note (rs_row res) = [NoteBlind] \<and>
       rs_trips res = [\<lparr>tr_watch = 0, tr_name = ''blind'', tr_detail = DtBlind\<rparr>] \<and> rs_view res = None)"
    unfolding tick_read_refused [of b L h now d, symmetric] by (auto simp: run_tick_def Let_def blind_row_def append_tick_def)
  show "\<forall>res L'. run_tick z b L r reserve h now window d lev tdb = (Inr res, L') \<and> tk_state (rs_row res) = TsBLIND \<longrightarrow>
       read_refused b h now d"
  proof (intro allI impI)
    fix res L'
    assume a: "run_tick z b L r reserve h now window d lev tdb = (Inr res, L') \<and> tk_state (rs_row res) = TsBLIND"
    show "read_refused b h now d"
    proof (cases "tick_read b L h now d")
      case (Inl e)
      then have "e = BrokerUnauthorized" using a by (cases e) (simp_all add: run_tick_def)
      then show ?thesis using Inl tick_read_refused [of b L h now d] by simp
    next
      case (Inr x)
      obtain prior view L1 where x: "x = ((prior, view), L1)" by (metis surj_pair)
      have "tick_compute z b L1 r reserve now window lev tdb prior view = Inr res"
        using a Inr x by (auto simp: run_tick_def split: sum.splits)
      then have "tk_state (rs_row res) \<noteq> TsBLIND" by (rule tick_compute_facts)
      then show ?thesis using a by simp
    qed
  qed
qed

text \<open>C7: what a completed sweep reports, from the account and the orders the broker gave. The trips come in
  priority order; N is flagged exactly when some held symbol has no resting sell stop, V exactly
  when the cash is below the reserve, R exactly when the account is restricted or under a cash
  call, H exactly when there is a mark and the account value (never the value less the reserve)
  is at or below its halt threshold, which is also when the row's level is HALT; and the row's
  stop count is the number of resting sell stops.\<close>

theorem run_tick_watches:
  assumes "run_tick z b L r reserve (Some (c # k)) now window d lev tdb = (Inr res, L')"
    and "ab_account b (c # k) = Inr a" and "ab_orders b (c # k) d (now + DAY_US) = Inr orders"
  shows "sorted (map tr_watch (rs_trips res)) \<and>
    (CHR ''N'' \<in> set (tk_flags (rs_row res)) \<longleftrightarrow> (\<exists>s. held_qty a s \<noteq> None \<and> sell_stops_on orders s = [])) \<and>
    (CHR ''V'' \<in> set (tk_flags (rs_row res)) \<longleftrightarrow> ac_reserve_cash a < reserve) \<and>
    (CHR ''R'' \<in> set (tk_flags (rs_row res)) \<longleftrightarrow> ac_restricted a \<or> ac_cash_call a \<noteq> 0) \<and>
    (CHR ''H'' \<in> set (tk_flags (rs_row res)) \<longleftrightarrow> tk_level (rs_row res) = LevelHalt) \<and>
    (tk_level (rs_row res) = LevelHalt \<longleftrightarrow> (\<exists>m. mark_of L = Some m \<and> 0 < m \<and> is_halted (ac_value a) m r = Inr True)) \<and>
    tk_stops (rs_row res) = int (length (filter is_sell_stop orders)) \<and> tk_state (rs_row res) \<noteq> TsBLIND"
proof -
  let ?v = "build_view a orders now" and ?L1 = "record_orders (snd (record_account L a)) (c # k) orders now"
  have rd: "tick_read b L (Some (c # k)) now d = Inr ((latest_positions L, ?v), ?L1)"
    using assms(2,3) by (simp add: tick_read_def reconcile_def)
  have tc: "tick_compute z b ?L1 r reserve now window lev tdb (latest_positions L) ?v = Inr res"
    using assms(1) rd by (auto simp: run_tick_def split: sum.splits)
  have v: "bv_account ?v = a" "bv_restricted ?v \<longleftrightarrow> ac_restricted a \<or> ac_cash_call a \<noteq> 0"
    by (simp_all add: build_view_def Let_def)
  have ls: "latest_session_status ?L1 = latest_session_status L"
    by (simp add: latest_session_status_def record_orders_def record_account_def)
  from tc show ?thesis
  proof (rule tick_compute_facts)
    fix hwm dd ns un clks ws stale
    assume m: "tick_mark ?L1 r (ac_value (bv_account ?v)) = Inr (hwm, dd, tk_level (rs_row res), ns, un)"
      and ev: "evaluate_watches ?v (latest_positions L) hwm r reserve clks = Inr ws"
      and tr: "rs_trips res = un @ ws"
      and fl: "tk_flags (rs_row res) = flag_string (un @ ws) (extra_flags stale (window = None) (et_date z now))"
      and st: "tk_stops (rs_row res) = resting_stop_count ?v" and nb: "tk_state (rs_row res) \<noteq> TsBLIND"
    note wl = watch_list [OF ev, unfolded v]
    note mf = tick_mark_facts [OF m, unfolded v ls]
    have letter: "f \<in> set (tk_flags (rs_row res)) \<longleftrightarrow> w \<in> set (map tr_watch ws)"
      if "f \<notin> set ''SFC-''" "\<And>x. WATCH_FLAG x = Some f \<longleftrightarrow> x = w" "w \<noteq> 0" for f w
    proof -
      have "f \<in> set (tk_flags (rs_row res)) \<longleftrightarrow> (\<exists>x \<in> set (map tr_watch (un @ ws)). WATCH_FLAG x = Some f)"
        unfolding fl using that(1) extra_flags_letters by (intro flag_string_letter) fastforce+
      then show ?thesis using that(2,3) mf(1) by auto
    qed
    have R: "CHR ''R'' \<in> set (tk_flags (rs_row res)) \<longleftrightarrow> 1 \<in> set (map tr_watch ws)"
      and V: "CHR ''V'' \<in> set (tk_flags (rs_row res)) \<longleftrightarrow> 2 \<in> set (map tr_watch ws)"
      and H: "CHR ''H'' \<in> set (tk_flags (rs_row res)) \<longleftrightarrow> 3 \<in> set (map tr_watch ws)"
      and N: "CHR ''N'' \<in> set (tk_flags (rs_row res)) \<longleftrightarrow> 4 \<in> set (map tr_watch ws)"
      by (intro letter; simp add: WATCH_FLAG_inv)+
    have lvl: "tk_level (rs_row res) = LevelHalt \<longleftrightarrow> hwm > 0 \<and> is_halted (ac_value a) hwm r = Inr True"
      and mk: "tk_level (rs_row res) = LevelHalt \<longleftrightarrow> (\<exists>m. mark_of L = Some m \<and> 0 < m \<and> is_halted (ac_value a) m r = Inr True)"
      using mf(2) by (auto simp: mark_of_def split: option.splits)
    have so: "sorted (map tr_watch (un @ ws))" using watch_sorted [OF ev mf(1)] .
    show ?thesis unfolding tr R V H N wl v(2) lvl using so view_naked [of a orders now] mk lvl nb st resting_stop_count_exact by auto
  qed
qed

section \<open>Witnesses\<close>

text \<open>Five shares without a stop in an account worth 3040 under a mark of 3800, exactly the halt threshold, on a Friday morning.\<close>

definition sample_account :: account_snapshot where
  "sample_account = \<lparr>ac_hash = ''h'', ac_read_at = combine 739870 (hm 15 0), ac_value = 3040, ac_available = 1000, ac_unsettled = 0,
     ac_cash = 1000, ac_cash_call = 0, ac_restricted = False, ac_positions = [sample_position ''SPY'' 5]\<rparr>"

definition sample_account_broker :: account_broker where
  "sample_account_broker = \<lparr>ab_hashes = Inr [''h''], ab_account = (\<lambda>_. Inr sample_account), ab_orders = (\<lambda>_ _ _. Inr []),
     ab_quotes = (\<lambda>_ _. Inr [(''SPY'', combine 739870 (hm 15 0))])\<rparr>"

definition sample_sweep :: "(exn + tick_result) \<times> ledger" where
  "sample_sweep = run_tick et_zone sample_account_broker sample_ledger rules_yml 900 (Some ''h'') (combine 739870 (hm 15 1)) None
     739800 {} trading_days_between"

lemma sample_clocks:
  "run_clocks et_zone L rules_yml [sample_position ''SPY'' 5] 739870 trading_days_between {} = Inr []"
proof -
  have "parse_osi ''SPY'' = Inr None" by code_simp
  then show ?thesis by (simp add: run_clocks_def position_alert_def option_alerts_def hold_alerts_def sample_position_def)
qed

lemma sample_sweep_returns: "\<exists>res L'. sample_sweep = (Inr res, L')"
proof -
  let ?v = "build_view sample_account [] (combine 739870 (hm 15 1))"
  let ?L1 = "record_orders (snd (record_account sample_ledger sample_account)) ''h'' [] (combine 739870 (hm 15 1))"
  have rd: "tick_read sample_account_broker sample_ledger (Some ''h'') (combine 739870 (hm 15 1)) 739800 = Inr ((latest_positions sample_ledger, ?v), ?L1)"
    by (simp add: tick_read_def reconcile_def sample_account_broker_def)
  have v: "bv_account ?v = sample_account" by (simp add: build_view_def Let_def)
  have d: "date_of (et_wall et_zone (combine 739870 (hm 15 1))) = 739870" by code_simp
  have ph: "phase_for et_zone \<lparr>dt_wall = combine 739870 (hm 15 1), dt_tz = TzFixed 0\<rparr> (fallback_window 739870) = Inr RTH" by code_simp
  have pos: "filter (\<lambda>p. po_qty p \<noteq> 0) (ac_positions sample_account) = [sample_position ''SPY'' 5]"
    by (simp add: sample_account_def sample_position_def)
  have st: "quotes_are_stale sample_account_broker [''SPY''] (combine 739870 (hm 15 1)) = Inr False"
    by (simp add: quotes_are_stale_def quote_attempt_def sample_account_broker_def combine_def us_defs STALE_QUOTE_AGE_def)
  have dd: "\<exists>x. drawdown_pct 3040 3800 = Inr x" by (simp add: drawdown_pct_def HUNDRED_def dec_eval cong: bind_e_weak_cong)
  have hl: "is_halted 3040 3800 rules_yml = Inr True" by (simp add: is_halted_def halt_threshold_def dec_eval cong: bind_e_weak_cong)
  have th: "halt_threshold 3800 rules_yml = Inr 3040" by (simp add: halt_threshold_def dec_eval cong: bind_e_weak_cong)
  have mk: "\<exists>dd lvl. tick_mark ?L1 rules_yml 3040 = Inr (3800, dd, lvl, [], [])"
  proof -
    have "latest_session_status ?L1 = latest_session_status sample_ledger"
      by (simp add: latest_session_status_def record_orders_def record_account_def)
    moreover have "\<exists>s. latest_session_status sample_ledger = Some s \<and> ss_hwm s = 3800"
      by (simp add: latest_session_status_def sample_ledger_def)
    ultimately show ?thesis using dd hl by (auto simp: tick_mark_def)
  qed
  have lev: "leveraged_effective [''SPY''] {} = Inr {}"
  proof -
    have "parse_osi ''SPY'' = Inr None" by code_simp
    then show ?thesis by (simp add: leveraged_effective_def)
  qed
  have ev: "\<exists>ws. evaluate_watches ?v p 3800 rules_yml 900 [] = Inr ws" for p
  proof -
    have "ac_value (bv_account ?v) = 3040" unfolding v by (simp add: sample_account_def)
    then show ?thesis unfolding evaluate_watches_def Let_def by (simp add: hl th)
  qed
  have "ac_value sample_account = 3040" "po_symbol (sample_position ''SPY'' 5) = ''SPY''" by (simp_all add: sample_account_def sample_position_def)
  moreover obtain ws where "evaluate_watches ?v (latest_positions sample_ledger) 3800 rules_yml 900 [] = Inr ws" using ev by blast
  ultimately show ?thesis using mk
    by (auto simp: sample_sweep_def run_tick_def rd tick_compute_def v d ph pos st lev sample_clocks Let_def split_def)
qed

theorem run_tick_watches_witness:
  "\<exists>res L'. sample_sweep = (Inr res, L') \<and> CHR ''N'' \<in> set (tk_flags (rs_row res)) \<and> CHR ''V'' \<notin> set (tk_flags (rs_row res)) \<and>
     tk_stops (rs_row res) = 0"
proof -
  obtain res L' where s: "sample_sweep = (Inr res, L')" using sample_sweep_returns by blast
  have "ab_account sample_account_broker ''h'' = Inr sample_account"
    "ab_orders sample_account_broker ''h'' 739800 (combine 739870 (hm 15 1) + DAY_US) = Inr []"
    by (simp_all add: sample_account_broker_def)
  note w = run_tick_watches [OF s [unfolded sample_sweep_def] this]
  have "held_qty sample_account ''SPY'' \<noteq> None" "\<not> ac_reserve_cash sample_account < 900"
    by (simp_all add: held_qty_def sample_account_def sample_position_def ac_reserve_cash_def dec_eval)
  then show ?thesis using w s by (auto simp: sell_stops_on_def)
qed

text \<open>The broker names the account and answers for it, and the orders are refused.\<close>

theorem run_tick_blind_witness:
  "\<exists>res. run_tick et_zone (sample_account_broker\<lparr>ab_orders := (\<lambda>_ _ _. Inl BrokerUnauthorized)\<rparr>) sample_ledger rules_yml 900 None
      (combine 739870 (hm 15 1)) None 739800 {} trading_days_between = (Inr res, sample_ledger\<lparr>ticks := ticks sample_ledger @ [rs_row res]\<rparr>) \<and>
      tk_flags (rs_row res) = ''FB''"
proof -
  let ?b = "sample_account_broker\<lparr>ab_orders := (\<lambda>_ _ _. Inl BrokerUnauthorized)\<rparr>"
  have "read_refused ?b None (combine 739870 (hm 15 1)) 739800"
    by (simp add: read_refused_def account_key_def sample_account_broker_def)
  with run_tick_blind [of ?b None "combine 739870 (hm 15 1)" 739800 et_zone sample_ledger rules_yml 900 None "{}" trading_days_between]
  show ?thesis by auto
qed

end
