(* ===== verification/TC_Scheduler.thy ===== *)
theory TC_Scheduler
  imports TC_Clock TC_Text
begin

text \<open>
  The schedule (tc/scheduler.py). A fire is a job and the Eastern local time it names; the
  scheduler remembers the fires it has handed out and the ones it has declared missed. All
  its comparisons are between datetimes of the one zone, hence of local times; \<open>now\<close> is the
  local time of the clock. The per-job locks are left out: asyncio's lock is not a value.
\<close>

section \<open>Schedule lines\<close>

datatype days = Weekdays | Daily | Sat | Sun

record schedule_spec =
  sc_days :: days
  sc_start :: time
  sc_last :: time \<comment> \<open>\<open>end\<close>\<close>
  sc_every :: int

definition days_word :: "days \<Rightarrow> string" where
  "days_word d = (case d of Weekdays \<Rightarrow> ''weekdays'' | Daily \<Rightarrow> ''daily'' | Sat \<Rightarrow> ''sat'' | Sun \<Rightarrow> ''sun'')"

definition parse_days :: "string \<Rightarrow> days option" where
  "parse_days s =
     (if s = ''weekdays'' then Some Weekdays else if s = ''daily'' then Some Daily
      else if s = ''sat'' then Some Sat else if s = ''sun'' then Some Sun else None)"

text \<open>A literal prefix of the pattern.\<close>

definition eat :: "string \<Rightarrow> string \<Rightarrow> string option" where
  "eat p s = (if take (length p) s = p then Some (drop (length p) s) else None)"

text \<open>\<open>\d\d:\d\d\<close>: the two numbers and the rest.\<close>

definition match_hhmm :: "string \<Rightarrow> ((int \<times> int) \<times> string) option" where
  "match_hhmm s =
     (case s of
        a # b # c # d # e # rest \<Rightarrow>
          if is_digit a \<and> is_digit b \<and> c = CHR '':'' \<and> is_digit d \<and> is_digit e
          then Some ((digits_val [a, b], digits_val [d, e]), rest) else None
      | _ \<Rightarrow> None)"

text \<open>\<open>time.fromisoformat\<close> on a matched text.\<close>

definition iso_time :: "int \<times> int \<Rightarrow> exn + time" where
  "iso_time hhmm = (if fst hhmm < 24 \<and> snd hhmm < 60 then Inr (hm (fst hhmm) (snd hhmm)) else Inl ValueError)"

text \<open>The groups of the two patterns.\<close>

definition match_every :: "string \<Rightarrow> (int \<times> (int \<times> int) \<times> (int \<times> int) \<times> days) option" where
  "match_every t =
     Option.bind (eat ''every '' t) (\<lambda>r0.
     let ds = takeWhile is_digit r0 in
     if ds = [] then None else
     Option.bind (eat ''m '' (dropWhile is_digit r0)) (\<lambda>r1.
     Option.bind (match_hhmm r1) (\<lambda>(s, r2).
     Option.bind (eat ''-'' r2) (\<lambda>r3.
     Option.bind (match_hhmm r3) (\<lambda>(e, r4).
     Option.bind (eat '' '' r4) (\<lambda>r5.
     map_option (\<lambda>d. (digits_val ds, s, e, d)) (parse_days r5)))))))"

definition match_once :: "string \<Rightarrow> ((int \<times> int) \<times> days) option" where
  "match_once t =
     Option.bind (eat ''at '' t) (\<lambda>r0.
     Option.bind (match_hhmm r0) (\<lambda>(s, r1).
     Option.bind (eat '' '' r1) (\<lambda>r2.
     map_option (\<lambda>d. (s, d)) (parse_days r2))))"

definition parse_schedule :: "string \<Rightarrow> exn + schedule_spec" where
  "parse_schedule text =
     (let t = strip text in
      case match_every t of
        Some (n, s, e, d) \<Rightarrow>
          bind_e (iso_time s) (\<lambda>start. bind_e (iso_time e) (\<lambda>last_at.
          bind_e (raise_if (n \<le> 0 \<or> last_at < start) ValueError) (\<lambda>_.
          Inr \<lparr>sc_days = d, sc_start = start, sc_last = last_at, sc_every = n\<rparr>)))
      | None \<Rightarrow>
          (case match_once t of
             Some (s, d) \<Rightarrow> bind_e (iso_time s) (\<lambda>a. Inr \<lparr>sc_days = d, sc_start = a, sc_last = a, sc_every = 0\<rparr>)
           | None \<Rightarrow> Inl ValueError))"

section \<open>Fires\<close>

definition day_matches :: "schedule_spec \<Rightarrow> date \<Rightarrow> (date \<Rightarrow> bool) \<Rightarrow> bool" where
  "day_matches sp d trading_day =
     (case sc_days sp of Daily \<Rightarrow> True | Sat \<Rightarrow> weekday d = 5 | Sun \<Rightarrow> weekday d = 6
      | Weekdays \<Rightarrow> weekday d < 5 \<and> trading_day d)"

text \<open>The loop \<open>while t <= last: ...; t += every\<close>. A spec that \<open>parse\<close> made has a positive step.\<close>

function fires_loop :: "int \<Rightarrow> wall \<Rightarrow> wall \<Rightarrow> wall list" where
  "fires_loop step last_at t = (if t \<le> last_at \<and> 0 < step then t # fires_loop step last_at (t + step) else [])"
  by pat_completeness auto
termination by (relation "measure (\<lambda>(step, last_at, t). nat (last_at + 1 - t))") auto

declare fires_loop.simps [simp del]

definition fires_on :: "schedule_spec \<Rightarrow> date \<Rightarrow> (date \<Rightarrow> bool) \<Rightarrow> wall list" where
  "fires_on sp d trading_day =
     (if \<not> day_matches sp d trading_day then []
      else if sc_every sp = 0 then [combine d (sc_start sp)]
      else fires_loop (us_of_min (sc_every sp)) (combine d (sc_last sp)) (combine d (sc_start sp)))"

definition GRACE :: int where "GRACE = us_of_s 59"

record fire =
  fi_job :: string
  fi_at :: wall

record scheduler =
  sd_specs :: "(string \<times> schedule_spec) list"
  sd_fired :: "fire set"
  sd_missed :: "fire set"

definition fires_of :: "(date \<Rightarrow> bool) \<Rightarrow> scheduler \<Rightarrow> date \<Rightarrow> fire list" where
  "fires_of trading_day s d =
     concat (map (\<lambda>(j, sp). map (\<lambda>t. \<lparr>fi_job = j, fi_at = t\<rparr>) (fires_on sp d trading_day)) (sd_specs s))"

definition due :: "(date \<Rightarrow> bool) \<Rightarrow> wall \<Rightarrow> scheduler \<Rightarrow> fire list \<times> scheduler" where
  "due trading_day now s =
     fold (\<lambda>f (out, s). if fi_at f \<le> now \<and> now \<le> fi_at f + GRACE \<and> f \<notin> sd_fired s \<and> f \<notin> sd_missed s
                         then (out @ [f], s\<lparr>sd_fired := insert f (sd_fired s)\<rparr>) else (out, s))
       (fires_of trading_day s (date_of now)) ([], s)"

definition mark_missed :: "(date \<Rightarrow> bool) \<Rightarrow> wall \<Rightarrow> scheduler \<Rightarrow> fire list \<times> scheduler" where
  "mark_missed trading_day now s =
     fold (\<lambda>f (out, s). if fi_at f + GRACE < now \<and> f \<notin> sd_fired s \<and> f \<notin> sd_missed s
                         then (out @ [f], s\<lparr>sd_missed := insert f (sd_missed s)\<rparr>) else (out, s))
       (fires_of trading_day s (date_of now)) ([], s)"

definition prune :: "date \<Rightarrow> scheduler \<Rightarrow> int \<times> scheduler" where
  "prune before s =
     (let n = int (card (sd_fired s) + card (sd_missed s));
          s' = s\<lparr>sd_fired := {f \<in> sd_fired s. date_of (fi_at f) \<ge> before},
                 sd_missed := {f \<in> sd_missed s. date_of (fi_at f) \<ge> before}\<rparr> in
      (n - int (card (sd_fired s')) - int (card (sd_missed s')), s'))"

section \<open>Which fires a day has\<close>

definition spec_ok :: "schedule_spec \<Rightarrow> bool" where
  "spec_ok sp \<longleftrightarrow> 0 \<le> sc_every sp \<and> 0 \<le> sc_start sp \<and> sc_start sp \<le> sc_last sp \<and> sc_last sp < DAY_US"

lemma digits_val2: "is_digit a \<Longrightarrow> is_digit b \<Longrightarrow> 0 \<le> digits_val [a, b]"
  by (simp add: digits_val_def digit_val_def is_digit_def)

lemma match_hhmm_nonneg: "match_hhmm s = Some ((h, m), r) \<Longrightarrow> 0 \<le> h \<and> 0 \<le> m"
  by (auto simp: match_hhmm_def digits_val2 split: list.splits if_splits)

lemma iso_time_bounds: "iso_time (h, m) = Inr t \<Longrightarrow> 0 \<le> h \<Longrightarrow> 0 \<le> m \<Longrightarrow> 0 \<le> t \<and> t < DAY_US"
  by (auto simp: iso_time_def us_defs split: if_splits)

lemma parse_schedule_ok: "parse_schedule text = Inr sp \<Longrightarrow> spec_ok sp"
proof -
  assume p: "parse_schedule text = Inr sp"
  show ?thesis
  proof (cases "match_every (strip text)")
    case (Some g)
    obtain n s e d where g: "g = (n, s, e, d)" by (cases g) auto
    have nn: "0 \<le> fst s \<and> 0 \<le> snd s" "0 \<le> fst e \<and> 0 \<le> snd e"
      using Some g by (auto simp: match_every_def Let_def bind_eq_Some_conv dest!: match_hhmm_nonneg split: if_splits)
    obtain a b where "iso_time s = Inr a" "iso_time e = Inr b" "0 < n" "a \<le> b" "sc_start sp = a" "sc_last sp = b" "sc_every sp = n"
      using p Some g by (auto simp: parse_schedule_def Let_def err not_le not_less)
    then show ?thesis using nn iso_time_bounds [of "fst s" "snd s" a] iso_time_bounds [of "fst e" "snd e" b]
      by (simp add: spec_ok_def)
  next
    case None
    then obtain s d where m: "match_once (strip text) = Some (s, d)"
      using p by (auto simp: parse_schedule_def Let_def split: option.splits)
    have nn: "0 \<le> fst s \<and> 0 \<le> snd s"
      using m by (auto simp: match_once_def bind_eq_Some_conv dest!: match_hhmm_nonneg)
    obtain a where "iso_time s = Inr a" "sc_start sp = a" "sc_last sp = a" "sc_every sp = 0"
      using p None m by (auto simp: parse_schedule_def Let_def err)
    then show ?thesis using nn iso_time_bounds [of "fst s" "snd s" a] by (simp add: spec_ok_def)
  qed
qed

lemma multiples_from:
  fixes t step :: int
  assumes "0 < step" and "t \<le> hi"
  shows "{t + int k * step |k. t + int k * step \<le> hi} = insert t {t + step + int k * step |k. t + step + int k * step \<le> hi}"
proof (intro set_eqI iffI)
  fix x assume "x \<in> {t + int k * step |k. t + int k * step \<le> hi}"
  then obtain k where k: "x = t + int k * step" "x \<le> hi" by blast
  then show "x \<in> insert t {t + step + int k * step |k. t + step + int k * step \<le> hi}"
    by (cases k) (auto simp: algebra_simps intro!: exI [of _ "k - 1"])
next
  fix x assume "x \<in> insert t {t + step + int k * step |k. t + step + int k * step \<le> hi}"
  then consider "x = t" | k where "x = t + step + int k * step" "x \<le> hi" by blast
  then show "x \<in> {t + int k * step |k. t + int k * step \<le> hi}"
  proof cases
    case 1 then show ?thesis using assms(2) by (intro CollectI exI [of _ 0]) simp
  next
    case 2 then show ?thesis by (intro CollectI exI [of _ "Suc k"]) (simp add: algebra_simps)
  qed
qed

lemma fires_loop_props:
  "0 < step \<Longrightarrow> set (fires_loop step last_at t) = {t + int k * step |k. t + int k * step \<le> last_at} \<and>
    sorted_wrt (<) (fires_loop step last_at t) \<and> (\<forall>u \<in> set (fires_loop step last_at t). t \<le> u)"
proof (induction step last_at t rule: fires_loop.induct)
  case (1 step last_at t)
  show ?case
  proof (cases "t \<le> last_at")
    case True
    have e: "fires_loop step last_at t = t # fires_loop step last_at (t + step)"
      using True 1(2) by (subst fires_loop.simps) simp
    from 1(1) True 1(2) have IH: "set (fires_loop step last_at (t + step)) =
        {t + step + int k * step |k. t + step + int k * step \<le> last_at}"
      "sorted_wrt (<) (fires_loop step last_at (t + step))" "\<forall>u \<in> set (fires_loop step last_at (t + step)). t + step \<le> u"
      by auto
    have "\<forall>u \<in> set (fires_loop step last_at (t + step)). t < u" using IH(3) 1(2) by fastforce
    then show ?thesis using IH(2) multiples_from [OF 1(2) True] unfolding e by (simp add: IH(1)) (simp add: less_imp_le)
  next
    case False
    have "\<not> t + int k * step \<le> last_at" for k
    proof -
      have "0 \<le> int k * step" using 1(2) by simp
      then show ?thesis using False by linarith
    qed
    then show ?thesis using False by (simp add: fires_loop.simps [of step last_at t])
  qed
qed

lemma fires_on_bounds:
  assumes "spec_ok sp" and "t \<in> set (fires_on sp d td)"
  shows "combine d (sc_start sp) \<le> t \<and> t \<le> combine d (sc_last sp)"
  using assms fires_loop_props [of "us_of_min (sc_every sp)" "combine d (sc_last sp)" "combine d (sc_start sp)"]
  by (auto simp: fires_on_def spec_ok_def combine_def us_defs split: if_splits)

lemma fires_on_date: "spec_ok sp \<Longrightarrow> t \<in> set (fires_on sp d td) \<Longrightarrow> date_of t = d"
proof -
  assume ok: "spec_ok sp" and t: "t \<in> set (fires_on sp d td)"
  from fires_on_bounds [OF this] ok have "combine d 0 \<le> t" "t < combine d 0 + DAY_US"
    by (auto simp: combine_def spec_ok_def)
  then show "date_of t = d" by (auto simp: date_of_def combine_def DAY_US_def)
qed

text \<open>C36: the fires of a schedule on a day it matches are exactly the start and every following
  multiple of the step up to and including the end, in increasing order, all on that day; on
  any other day there are none.\<close>

theorem fires_on_spec:
  assumes "spec_ok sp"
  shows "sorted_wrt (<) (fires_on sp d td) \<and> (\<forall>t \<in> set (fires_on sp d td). date_of t = d) \<and>
    set (fires_on sp d td) = (if day_matches sp d td
      then {combine d (sc_start sp) + int k * us_of_min (sc_every sp) |k.
              combine d (sc_start sp) + int k * us_of_min (sc_every sp) \<le> combine d (sc_last sp) \<and> (sc_every sp = 0 \<longrightarrow> k = 0)}
      else {})"
proof -
  have "combine d (sc_start sp) \<le> combine d (sc_last sp)" using assms by (simp add: spec_ok_def combine_def)
  then show ?thesis
    using assms fires_loop_props [of "us_of_min (sc_every sp)" "combine d (sc_last sp)" "combine d (sc_start sp)"] fires_on_date [OF assms]
    by (auto simp: fires_on_def spec_ok_def us_defs)
qed

section \<open>Each fire once\<close>

text \<open>
  Both operations walk the day's fires and claim those that pass a test and are not claimed
  yet, recording each claim in the state. The interface: what is claimed, how a claim is
  recorded.
\<close>

locale claiming =
  fixes claimed :: "'s \<Rightarrow> 'f set" and claim :: "'f \<Rightarrow> 's \<Rightarrow> 's"
  assumes claimed_claim: "claimed (claim f s) = insert f (claimed s)"
begin

lemma claim_fold:
  assumes "fold (\<lambda>f (out, s). if P f \<and> f \<notin> claimed s then (out @ [f], claim f s) else (out, s)) fs (out, s) = (out', s')"
  shows "\<exists>new. out' = out @ new \<and> distinct new \<and> s' = fold claim new s \<and> set new = {f \<in> set fs. P f \<and> f \<notin> claimed s}"
  using assms
proof (induction fs arbitrary: out s)
  case (Cons f fs)
  show ?case
  proof (cases "P f \<and> f \<notin> claimed s")
    case True
    with Cons.prems Cons.IH [of "out @ [f]" "claim f s"]
    obtain new where new: "out' = (out @ [f]) @ new" "distinct new" "s' = fold claim new (claim f s)"
      "set new = {g \<in> set fs. P g \<and> g \<notin> claimed (claim f s)}" by auto
    have "f \<notin> set new" "set (f # new) = {g \<in> set (f # fs). P g \<and> g \<notin> claimed s}"
      using True new(4) by (auto simp: claimed_claim)
    then show ?thesis using new(1-3) by (intro exI [of _ "f # new"]) simp
  next
    case False
    with Cons.prems Cons.IH [of out s]
    obtain new where "out' = out @ new" "distinct new" "s' = fold claim new s" "set new = {g \<in> set fs. P g \<and> g \<notin> claimed s}"
      by auto
    then show ?thesis using False by (intro exI [of _ new]) auto
  qed
qed simp

end

definition settled :: "scheduler \<Rightarrow> fire set" where
  "settled s = sd_fired s \<union> sd_missed s"

definition set_fired :: "fire \<Rightarrow> scheduler \<Rightarrow> scheduler" where
  "set_fired f s = s\<lparr>sd_fired := insert f (sd_fired s)\<rparr>"

definition set_missed :: "fire \<Rightarrow> scheduler \<Rightarrow> scheduler" where
  "set_missed f s = s\<lparr>sd_missed := insert f (sd_missed s)\<rparr>"

interpretation firing: claiming settled set_fired
  by unfold_locales (simp add: settled_def set_fired_def)

interpretation missing: claiming settled set_missed
  by unfold_locales (simp add: settled_def set_missed_def)

lemma fold_set_fired: "fold set_fired new s = s\<lparr>sd_fired := sd_fired s \<union> set new\<rparr>"
  by (induction new arbitrary: s) (simp_all add: set_fired_def)

lemma fold_set_missed: "fold set_missed new s = s\<lparr>sd_missed := sd_missed s \<union> set new\<rparr>"
  by (induction new arbitrary: s) (simp_all add: set_missed_def)

lemma due_facts:
  assumes "due td now s = (fs, s')"
  shows "distinct fs" "s' = s\<lparr>sd_fired := sd_fired s \<union> set fs\<rparr>"
    "set fs = {f \<in> set (fires_of td s (date_of now)). (fi_at f \<le> now \<and> now \<le> fi_at f + GRACE) \<and> f \<notin> settled s}"
  using firing.claim_fold [of "\<lambda>f. fi_at f \<le> now \<and> now \<le> fi_at f + GRACE" "fires_of td s (date_of now)" "[]" s fs s'] assms
  unfolding due_def settled_def set_fired_def [symmetric] Un_iff de_Morgan_disj conj_assoc fold_set_fired by auto

lemma mark_missed_facts:
  assumes "mark_missed td now s = (fs, s')"
  shows "distinct fs" "s' = s\<lparr>sd_missed := sd_missed s \<union> set fs\<rparr>"
    "set fs = {f \<in> set (fires_of td s (date_of now)). fi_at f + GRACE < now \<and> f \<notin> settled s}"
  using missing.claim_fold [of "\<lambda>f. fi_at f + GRACE < now" "fires_of td s (date_of now)" "[]" s fs s'] assms
  unfolding mark_missed_def settled_def set_missed_def [symmetric] Un_iff de_Morgan_disj conj_assoc fold_set_missed by auto

text \<open>
  The scheduler at work. A state is the day up to which old marks may have been dropped, the
  scheduler, and the fires handed out and declared missed so far. The clock may be read at any
  moment of any day not yet dropped; the trading-day test may answer differently every time.
\<close>

inductive sched_step :: "date \<times> scheduler \<times> fire list \<times> fire list \<Rightarrow> date \<times> scheduler \<times> fire list \<times> fire list \<Rightarrow> bool" where
  DueStep: "due td now s = (fs, s') \<Longrightarrow> lo \<le> date_of now \<Longrightarrow> sched_step (lo, s, given, mis) (lo, s', given @ fs, mis)"
| MissedStep: "mark_missed td now s = (fs, s') \<Longrightarrow> lo \<le> date_of now \<Longrightarrow> sched_step (lo, s, given, mis) (lo, s', given, mis @ fs)"
| PruneStep: "prune d s = (n, s') \<Longrightarrow> sched_step (lo, s, given, mis) (max lo d, s', given, mis)"

fun sched_init :: "date \<times> scheduler \<times> fire list \<times> fire list \<Rightarrow> bool" where
  "sched_init (lo, s, given, mis) \<longleftrightarrow> sd_fired s = {} \<and> sd_missed s = {} \<and> given = [] \<and> mis = [] \<and>
     (\<forall>(j, sp) \<in> set (sd_specs s). spec_ok sp)"

fun sched_inv :: "date \<times> scheduler \<times> fire list \<times> fire list \<Rightarrow> bool" where
  "sched_inv (lo, s, given, mis) \<longleftrightarrow> distinct (given @ mis) \<and>
     (\<forall>f \<in> set (given @ mis). date_of (fi_at f) < lo \<or> f \<in> settled s) \<and>
     (\<forall>(j, sp) \<in> set (sd_specs s). spec_ok sp)"

lemma fires_of_date:
  "(\<forall>(j, sp) \<in> set (sd_specs s). spec_ok sp) \<Longrightarrow> f \<in> set (fires_of td s d) \<Longrightarrow> date_of (fi_at f) = d"
  by (auto simp: fires_of_def intro: fires_on_date)

lemma fresh_claims:
  assumes inv: "sched_inv (lo, s, given, mis)" and lo: "lo \<le> d"
    and new: "\<And>f. f \<in> set fs \<Longrightarrow> f \<in> set (fires_of td s d) \<and> f \<notin> settled s"
  shows "set fs \<inter> set (given @ mis) = {}"
proof (rule Int_emptyI)
  fix f assume f: "f \<in> set fs" "f \<in> set (given @ mis)"
  have "date_of (fi_at f) = d" by (rule fires_of_date [of s]) (use inv new [OF f(1)] in auto)
  moreover have "date_of (fi_at f) < lo \<or> f \<in> settled s" using inv f(2) by simp
  ultimately show False using lo new [OF f(1)] by simp
qed

lemma sched_step_inv: "sched_inv a \<Longrightarrow> sched_step a b \<Longrightarrow> sched_inv b"
proof (erule sched_step.cases)
  fix td now s fs s' lo given mis
  assume inv: "sched_inv a" and ab: "a = (lo, s, given, mis)" "b = (lo, s', given @ fs, mis)"
    and due: "due td now s = (fs, s')" and lo: "lo \<le> date_of now"
  note d = due_facts [OF due]
  have "set fs \<inter> set (given @ mis) = {}" by (rule fresh_claims [OF inv [unfolded ab] lo, of _ td]) (simp add: d(3))
  then show "sched_inv b" using inv d(1) by (auto simp: ab d(2) settled_def)
next
  fix td now s fs s' lo given mis
  assume inv: "sched_inv a" and ab: "a = (lo, s, given, mis)" "b = (lo, s', given, mis @ fs)"
    and due: "mark_missed td now s = (fs, s')" and lo: "lo \<le> date_of now"
  note d = mark_missed_facts [OF due]
  have "set fs \<inter> set (given @ mis) = {}" by (rule fresh_claims [OF inv [unfolded ab] lo, of _ td]) (simp add: d(3))
  then show "sched_inv b" using inv d(1) by (auto simp: ab d(2) settled_def)
next
  fix d s n s' lo given mis
  assume inv: "sched_inv a" and ab: "a = (lo, s, given, mis)" "b = (max lo d, s', given, mis)" and p: "prune d s = (n, s')"
  have sp: "sd_specs s' = sd_specs s" using p by (auto simp: prune_def Let_def)
  have "f \<in> settled s'" if "f \<in> settled s" "d \<le> date_of (fi_at f)" for f
    using that p by (auto simp: prune_def Let_def settled_def)
  then have "date_of (fi_at f) < max lo d \<or> f \<in> settled s'" if "date_of (fi_at f) < lo \<or> f \<in> settled s" for f
    using that by (cases "d \<le> date_of (fi_at f)") auto
  then show "sched_inv b" using inv unfolding ab sched_inv.simps sp by blast
qed

interpretation scheduling: invariant sched_init sched_step sched_inv
  by unfold_locales (auto simp: intro: sched_step_inv)

text \<open>C14: over the whole life of a scheduler no fire is handed out twice, none is declared missed
  twice, and none is both run and missed, although the memory of past days is dropped.\<close>

theorem each_fire_once:
  "reachable sched_init sched_step (lo, s, given, mis) \<Longrightarrow> distinct given \<and> distinct mis \<and> set given \<inter> set mis = {}"
  using scheduling.reachable_inv [of "(lo, s, given, mis)"] by simp

text \<open>No fire is lost. When the clock is read, a fire of the day whose minute is running is handed
  out or already settled, one whose minute has passed is declared missed or already settled,
  and nothing is handed out outside its own minute.\<close>

theorem pass_settles:
  assumes "mark_missed td now s = (ms, s1)" and "due td now s1 = (fs, s2)"
    and "f \<in> set (fires_of td s (date_of now))"
  shows "(fi_at f \<le> now \<longrightarrow> f \<in> settled s2) \<and> (f \<in> set fs \<longrightarrow> fi_at f \<le> now \<and> now \<le> fi_at f + GRACE) \<and>
    (f \<in> set ms \<longrightarrow> fi_at f + GRACE < now)"
proof -
  have "fires_of td s1 d = fires_of td s d" for d using mark_missed_facts(2) [OF assms(1)] by (simp add: fires_of_def)
  then show ?thesis
    using mark_missed_facts [OF assms(1)] due_facts [OF assms(2)] assms(3) by (auto simp: settled_def)
qed

section \<open>Reading a schedule line\<close>

definition two_digits :: "int \<Rightarrow> string" where
  "two_digits n = [char_of (48 + nat n div 10), char_of (48 + nat n mod 10)]"

definition show_hhmm :: "int \<times> int \<Rightarrow> string" where
  "show_hhmm p = two_digits (fst p) @ '':'' @ two_digits (snd p)"

lemma two_digits_val:
  assumes "0 \<le> n" "n < 100"
  shows "is_digit (two_digits n ! 0)" "is_digit (two_digits n ! 1)" "digits_val [two_digits n ! 0, two_digits n ! 1] = n"
proof -
  have a: "nat n div 10 < 10" "nat n mod 10 < 10" using assms by auto
  then show "is_digit (two_digits n ! 0)" "is_digit (two_digits n ! 1)" using digit_char by (auto simp: two_digits_def)
  show "digits_val [two_digits n ! 0, two_digits n ! 1] = n"
    using digit_char [OF a(1)] digit_char [OF a(2)] assms by (simp add: two_digits_def digits_val_def of_nat_div of_nat_mod)
qed

lemma match_show_hhmm:
  assumes "0 \<le> h" "h < 24" "0 \<le> m" "m < 60"
  shows "match_hhmm (show_hhmm (h, m) @ r) = Some ((h, m), r)"
  using two_digits_val [of h] two_digits_val [of m] assms
  by (simp add: show_hhmm_def match_hhmm_def two_digits_def)

lemma parse_days_word: "parse_days (days_word d) = Some d"
  by (cases d) (simp_all add: days_word_def parse_days_def)

lemma eat_append [simp]: "eat p (p @ r) = Some r"
  by (simp add: eat_def)

lemma strip_unspaced:
  assumes "s \<noteq> []" "\<not> is_space (hd s)" "\<not> is_space (last s)"
  shows "strip s = s"
proof -
  have "dropWhile is_space s = s" using assms(1,2) by (cases s) auto
  moreover have "dropWhile is_space (rev s) = rev s" using assms(1,3) by (cases s rule: rev_cases) auto
  ultimately show ?thesis by (simp add: strip_def)
qed

lemma days_word_last: "days_word d \<noteq> [] \<and> \<not> is_space (last (days_word d))"
  by (cases d) (simp_all add: days_word_def is_space_def code_def)

definition line_every :: "nat \<Rightarrow> int \<times> int \<Rightarrow> int \<times> int \<Rightarrow> days \<Rightarrow> string" where
  "line_every n s e d = ''every '' @ show_nat n @ ''m '' @ show_hhmm s @ ''-'' @ show_hhmm e @ '' '' @ days_word d"

definition line_once :: "int \<times> int \<Rightarrow> days \<Rightarrow> string" where
  "line_once s d = ''at '' @ show_hhmm s @ '' '' @ days_word d"

lemma show_nat_span:
  "takeWhile is_digit (show_nat n @ ''m '' @ r) = show_nat n" "dropWhile is_digit (show_nat n @ ''m '' @ r) = ''m '' @ r"
  "show_nat n \<noteq> []"
proof -
  have d: "\<forall>c \<in> set (show_nat n). is_digit c" using show_nat_digits by (simp add: list_all_iff)
  have "\<not> is_digit (CHR ''m'')" by (simp add: is_digit_def code_def)
  with d show "takeWhile is_digit (show_nat n @ ''m '' @ r) = show_nat n" "dropWhile is_digit (show_nat n @ ''m '' @ r) = ''m '' @ r"
    by (simp_all add: takeWhile_append dropWhile_append)
  show "show_nat n \<noteq> []" by (subst show_nat.simps) simp
qed

lemma match_every_line:
  assumes "0 \<le> h \<and> h < 24 \<and> 0 \<le> m \<and> m < 60" and "0 \<le> h' \<and> h' < 24 \<and> 0 \<le> m' \<and> m' < 60"
  shows "match_every (line_every n (h, m) (h', m') d) = Some (int n, (h, m), (h', m'), d)"
proof -
  have "match_hhmm (show_hhmm (h, m) @ ''-'' @ show_hhmm (h', m') @ '' '' @ days_word d) =
      Some ((h, m), ''-'' @ show_hhmm (h', m') @ '' '' @ days_word d)"
    "match_hhmm (show_hhmm (h', m') @ '' '' @ days_word d) = Some ((h', m'), '' '' @ days_word d)"
    using assms by (intro match_show_hhmm; simp)+
  then show ?thesis
    unfolding line_every_def match_every_def eat_append Option.bind.simps Let_def show_nat_span
    by (simp only: eat_append Option.bind.simps split_conv parse_days_word option.map digits_val_show_nat
        show_nat_span(3) if_False simp_thms)
qed

lemma match_once_line:
  assumes "0 \<le> h \<and> h < 24 \<and> 0 \<le> m \<and> m < 60"
  shows "match_once (line_once (h, m) d) = Some ((h, m), d)" "match_every (line_once (h, m) d) = None"
proof -
  have "match_hhmm (show_hhmm (h, m) @ '' '' @ days_word d) = Some ((h, m), '' '' @ days_word d)"
    using assms by (intro match_show_hhmm; simp)
  then show "match_once (line_once (h, m) d) = Some ((h, m), d)"
    unfolding line_once_def match_once_def eat_append Option.bind.simps
    by (simp only: eat_append Option.bind.simps split_conv parse_days_word option.map)
  show "match_every (line_once (h, m) d) = None"
    by (simp add: match_every_def line_once_def eat_def)
qed

lemma line_strip: "strip (line_every n s e d) = line_every n s e d" "strip (line_once s d) = line_once s d"
  using days_word_last [of d]
  by (intro strip_unspaced; simp add: line_every_def line_once_def is_space_def code_def)+

text \<open>A schedule line reads back to what it was written from, for every step, every pair of times of
  day and every day word; an interval that ends before it starts is refused.\<close>

theorem schedule_roundtrip:
  assumes "0 < n" and "0 \<le> h \<and> h < 24 \<and> 0 \<le> m \<and> m < 60" and "0 \<le> h' \<and> h' < 24 \<and> 0 \<le> m' \<and> m' < 60"
  shows "parse_schedule (line_once (h, m) d) = Inr \<lparr>sc_days = d, sc_start = hm h m, sc_last = hm h m, sc_every = 0\<rparr> \<and>
    parse_schedule (line_every n (h, m) (h', m') d) =
      (if hm h' m' < hm h m then Inl ValueError
       else Inr \<lparr>sc_days = d, sc_start = hm h m, sc_last = hm h' m', sc_every = int n\<rparr>)"
  using assms by (simp add: parse_schedule_def line_strip match_once_line match_every_line iso_time_def raise_if_def)

section \<open>Examples\<close>

theorem schedule_roundtrip_witness:
  "line_every 5 (9, 32) (15, 57) Weekdays = ''every 5m 09:32-15:57 weekdays'' \<and>
   parse_schedule ''every 5m 09:32-15:57 weekdays'' =
     Inr \<lparr>sc_days = Weekdays, sc_start = hm 9 32, sc_last = hm 15 57, sc_every = 5\<rparr>"
proof -
  have l: "line_every 5 (9, 32) (15, 57) Weekdays = ''every 5m 09:32-15:57 weekdays''" by code_simp
  have "\<not> hm 15 57 < hm 9 32" by (simp add: us_defs)
  then show ?thesis using schedule_roundtrip [of 5 9 32 15 57 Weekdays] l by simp
qed

definition sample_spec :: schedule_spec where
  "sample_spec = \<lparr>sc_days = Weekdays, sc_start = hm 9 32, sc_last = hm 15 57, sc_every = 5\<rparr>"

definition sample_scheduler :: scheduler where
  "sample_scheduler = \<lparr>sd_specs = [(''tick'', sample_spec)], sd_fired = {}, sd_missed = {}\<rparr>"

theorem fires_on_spec_witness:
  "spec_ok sample_spec \<and> combine 739870 (hm 9 37) \<in> set (fires_on sample_spec 739870 (\<lambda>_. True)) \<and>
   fires_on sample_spec 739871 (\<lambda>_. True) = []"
proof -
  have ok: "spec_ok sample_spec" by (simp add: spec_ok_def sample_spec_def us_defs)
  have m: "day_matches sample_spec 739870 (\<lambda>_. True)" "\<not> day_matches sample_spec 739871 (\<lambda>_. True)" by code_simp+
  have "combine 739870 (hm 9 37) = combine 739870 (sc_start sample_spec) + int 1 * us_of_min (sc_every sample_spec)"
    "combine 739870 (sc_start sample_spec) + int 1 * us_of_min (sc_every sample_spec) \<le> combine 739870 (sc_last sample_spec)"
    by (simp_all add: sample_spec_def combine_def us_defs)
  moreover have "sc_every sample_spec \<noteq> 0" by (simp add: sample_spec_def)
  ultimately show ?thesis
    using ok m fires_on_spec [OF ok, of 739870 "\<lambda>_. True"] fires_on_spec [OF ok, of 739871 "\<lambda>_. True"]
    by (auto simp del: of_nat_1)
qed

theorem each_fire_once_witness:
  "\<exists>fs s. due (\<lambda>_. True) (combine 739870 (hm 9 37)) sample_scheduler = (fs, s) \<and> distinct fs"
proof -
  obtain fs s where d: "due (\<lambda>_. True) (combine 739870 (hm 9 37)) sample_scheduler = (fs, s)" by force
  have "sched_step (0, sample_scheduler, [], []) (0, s, [] @ fs, [])"
    by (rule DueStep [OF d]) (simp add: date_of_def combine_def us_defs)
  moreover have "sched_init (0, sample_scheduler, [], [])"
    by (simp add: sample_scheduler_def spec_ok_def sample_spec_def us_defs)
  ultimately have "reachable sched_init sched_step (0, s, fs, [])" unfolding reachable_def by fastforce
  from each_fire_once [OF this] d show ?thesis by blast
qed

theorem pass_settles_witness:
  "\<exists>ms s1 fs s2. mark_missed (\<lambda>_. True) (combine 739870 (hm 9 37)) sample_scheduler = (ms, s1) \<and>
     due (\<lambda>_. True) (combine 739870 (hm 9 37)) s1 = (fs, s2) \<and> \<lparr>fi_job = ''tick'', fi_at = combine 739870 (hm 9 32)\<rparr> \<in> settled s2"
proof -
  obtain ms s1 fs s2 where p: "mark_missed (\<lambda>_. True) (combine 739870 (hm 9 37)) sample_scheduler = (ms, s1)"
    "due (\<lambda>_. True) (combine 739870 (hm 9 37)) s1 = (fs, s2)" by (metis surj_pair)
  have "combine 739870 (hm 9 32) \<in> set (fires_on sample_spec 739870 (\<lambda>_. True))" by code_simp
  then have "\<lparr>fi_job = ''tick'', fi_at = combine 739870 (hm 9 32)\<rparr> \<in>
      set (fires_of (\<lambda>_. True) sample_scheduler (date_of (combine 739870 (hm 9 37))))"
    by (auto simp: fires_of_def sample_scheduler_def us_defs)
  from pass_settles [OF p this] p show ?thesis by (auto simp: combine_def us_defs)
qed

end
