(* ===== verification/TC_Json.thy ===== *)
theory TC_Json
  imports TC_Text "HOL-Library.AList"
begin

text \<open>
  JSON values as \<open>json.loads\<close> makes them, and the validation of such a value against a pydantic
  model. An object is an association list in the order of its text; numbers are exact. The
  coercions pydantic makes of a single field (a number in a string, an integral float) are
  documented but not in the repository: where a model has an integer, a float or a boolean field,
  the coercion is a parameter. What is written out here is the shape: required fields, defaults,
  forbidden extras, lists, and the errors of all fields gathered with their locations.
\<close>

section \<open>Values\<close>

datatype json = JNull | JBool bool | JNum rat | JStr string | JArr "json list" | JObj "(string \<times> json) list"

type_synonym dict = "(string \<times> json) list"

text \<open>\<open>d.get(k)\<close> and \<open>d[k]\<close> of a value that may not be an object.\<close>

fun jget :: "json \<Rightarrow> string \<Rightarrow> json option" where
  "jget (JObj kvs) k = map_of kvs k"
| "jget _ k = None"

fun jitem :: "json \<Rightarrow> string \<Rightarrow> exn + json" where
  "jitem (JObj kvs) k = the_or (KeyError k) (map_of kvs k)"
| "jitem _ k = Inl TypeError"

definition is_obj :: "json \<Rightarrow> bool" where "is_obj j = (case j of JObj _ \<Rightarrow> True | _ \<Rightarrow> False)"

text \<open>\<open>bool(value)\<close>.\<close>

fun truthy :: "json \<Rightarrow> bool" where
  "truthy JNull = False"
| "truthy (JBool b) = b"
| "truthy (JNum x) = (x \<noteq> 0)"
| "truthy (JStr s) = (s \<noteq> [])"
| "truthy (JArr xs) = (xs \<noteq> [])"
| "truthy (JObj kvs) = (kvs \<noteq> [])"

text \<open>\<open>{**a, **b}\<close>: a key of \<open>a\<close> keeps its place and takes the value of \<open>b\<close>.\<close>

definition dict_merge :: "('k \<times> 'v) list \<Rightarrow> ('k \<times> 'v) list \<Rightarrow> ('k \<times> 'v) list" where
  "dict_merge a b = fold (\<lambda>(k, v) d. AList.update k v d) b a"

lemma map_of_update [simp]: "map_of (AList.update k v d) = (map_of d)(k \<mapsto> v)"
  by (rule update_conv')

text \<open>Of the entries with one key the last counts.\<close>

lemma map_of_dict_merge: "map_of (dict_merge a b) = map_of a ++ map_of (rev b)"
proof (induction b arbitrary: a)
  case (Cons p b)
  obtain k v where p: "p = (k, v)" by force
  have "dict_merge a (p # b) = dict_merge (AList.update k v a) b" by (simp add: dict_merge_def p)
  moreover have "(map_of a)(k \<mapsto> v) ++ map_of (rev b) = map_of a ++ map_of (rev (p # b))"
    by (auto simp: p map_add_def fun_eq_iff split: option.splits)
  ultimately show ?case by (simp only: Cons.IH map_of_update)
qed (simp add: dict_merge_def)

lemma dict_merge_values: "p \<in> set (dict_merge a b) \<Longrightarrow> p \<in> set a \<or> p \<in> set b"
proof (induction b arbitrary: a)
  case (Cons q b)
  have "p \<in> set (AList.update k v a) \<Longrightarrow> p \<in> set a \<or> p = (k, v)" for k v
    by (induction a) (auto split: if_splits)
  then show ?case using Cons by (force simp: dict_merge_def split: prod.splits)
qed (simp add: dict_merge_def)

lemma size_value: "(k, v) \<in> set kvs \<Longrightarrow> size v < Suc (size_list (size_prod size size) kvs)"
  by (induction kvs) auto

section \<open>Validation\<close>

text \<open>The errors: where, and of which type.\<close>

type_synonym verr = "(string list \<times> string) list"

definition v_ap :: "verr + ('a \<Rightarrow> 'b) \<Rightarrow> verr + 'a \<Rightarrow> verr + 'b" where
  "v_ap f x = (case f of Inl e \<Rightarrow> (case x of Inl e' \<Rightarrow> Inl (e @ e') | Inr _ \<Rightarrow> Inl e)
                       | Inr g \<Rightarrow> (case x of Inl e' \<Rightarrow> Inl e' | Inr a \<Rightarrow> Inr (g a)))"

definition v_at :: "string \<Rightarrow> verr + 'a \<Rightarrow> verr + 'a" where
  "v_at l x = (case x of Inl e \<Rightarrow> Inl (map (\<lambda>(loc, ty). (l # loc, ty)) e) | Inr a \<Rightarrow> Inr a)"

fun v_items :: "(json \<Rightarrow> verr + 'a) \<Rightarrow> nat \<Rightarrow> json list \<Rightarrow> verr + 'a list" where
  "v_items f i [] = Inr []"
| "v_items f i (x # xs) = v_ap (v_ap (Inr Cons) (v_at (show_nat i) (f x))) (v_items f (i + 1) xs)"

definition v_list :: "(json \<Rightarrow> verr + 'a) \<Rightarrow> json \<Rightarrow> verr + 'a list" where
  "v_list f j = (case j of JArr xs \<Rightarrow> v_items f 0 xs | _ \<Rightarrow> Inl [([], ''list_type'')])"

definition v_str :: "json \<Rightarrow> verr + string" where
  "v_str j = (case j of JStr s \<Rightarrow> Inr s | _ \<Rightarrow> Inl [([], ''string_type'')])"

text \<open>A field of type \<open>T | None\<close>.\<close>

definition v_opt :: "(json \<Rightarrow> verr + 'a) \<Rightarrow> json \<Rightarrow> verr + 'a option" where
  "v_opt f j = (case j of JNull \<Rightarrow> Inr None | _ \<Rightarrow> v_ap (Inr Some) (f j))"

definition v_dict :: "json \<Rightarrow> verr + dict" where
  "v_dict j = (case j of JObj kvs \<Rightarrow> Inr kvs | _ \<Rightarrow> Inl [([], ''dict_type'')])"

text \<open>A scalar field, by pydantic's coercion: the type of the error, or the value.\<close>

definition v_scalar :: "(json \<Rightarrow> string + 'a) \<Rightarrow> json \<Rightarrow> verr + 'a" where
  "v_scalar co j = (case co j of Inl ty \<Rightarrow> Inl [([], ty)] | Inr x \<Rightarrow> Inr x)"

definition v_field :: "string \<Rightarrow> (json \<Rightarrow> verr + 'a) \<Rightarrow> dict \<Rightarrow> verr + 'a" where
  "v_field k f d = (case map_of d k of None \<Rightarrow> Inl [([k], ''missing'')] | Some x \<Rightarrow> v_at k (f x))"

definition v_default :: "string \<Rightarrow> (json \<Rightarrow> verr + 'a) \<Rightarrow> 'a \<Rightarrow> dict \<Rightarrow> verr + 'a" where
  "v_default k f x0 d = (case map_of d k of None \<Rightarrow> Inr x0 | Some x \<Rightarrow> v_at k (f x))"

text \<open>\<open>extra="forbid"\<close>, checked after the fields.\<close>

definition v_forbid :: "string list \<Rightarrow> dict \<Rightarrow> verr + 'a \<Rightarrow> verr + 'a" where
  "v_forbid fields d x =
     (let es = map (\<lambda>(k, _). ([k], ''extra_forbidden'')) (filter (\<lambda>(k, _). k \<notin> set fields) d) in
      if es = [] then x else v_ap (v_ap (Inr (\<lambda>a _. a)) x) (Inl es :: verr + unit))"

definition v_model :: "(dict \<Rightarrow> verr + 'a) \<Rightarrow> json \<Rightarrow> verr + 'a" where
  "v_model f j = (case j of JObj d \<Rightarrow> f d | _ \<Rightarrow> Inl [([], ''model_type'')])"

named_theorems vd \<open>rewriting of the validation combinators on values that validate\<close>

lemma v_ap_Inr [vd]: "v_ap f x = Inr b \<longleftrightarrow> (\<exists>g a. f = Inr g \<and> x = Inr a \<and> b = g a)"
  by (auto simp: v_ap_def split: sum.splits)

lemma v_ap_ok [simp]: "v_ap (Inr g) (Inr a) = Inr (g a)"
  by (simp add: v_ap_def)

lemma v_at_ok [simp]: "v_at l (Inr a) = Inr a"
  by (simp add: v_at_def)

lemma v_at_Inr [vd]: "v_at l x = Inr a \<longleftrightarrow> x = Inr a"
  by (cases x) (auto simp: v_at_def)

lemma v_field_Inr [vd]: "v_field k f d = Inr a \<longleftrightarrow> (\<exists>x. map_of d k = Some x \<and> f x = Inr a)"
  by (auto simp: v_field_def vd split: option.splits)

lemma v_forbid_Inr [vd]: "v_forbid fs d x = Inr a \<longleftrightarrow> fst ` set d \<subseteq> set fs \<and> x = Inr a"
  by (auto simp: v_forbid_def Let_def vd filter_empty_conv)

lemma v_str_Inr [vd]: "v_str j = Inr s \<longleftrightarrow> j = JStr s"
  by (auto simp: v_str_def split: json.splits)

lemma v_model_Inr [vd]: "v_model f j = Inr a \<longleftrightarrow> (\<exists>d. j = JObj d \<and> f d = Inr a)"
  by (auto simp: v_model_def split: json.splits)

lemma v_scalar_Inr [vd]: "v_scalar co j = Inr x \<longleftrightarrow> co j = Inr x"
  by (auto simp: v_scalar_def split: sum.splits)

lemma v_items_Inr: "v_items f i xs = Inr ys \<longleftrightarrow> list_all2 (\<lambda>x y. f x = Inr y) xs ys"
  by (induction xs arbitrary: i ys) (auto simp: vd list_all2_Cons1)

lemma v_list_Inr [vd]: "v_list f j = Inr ys \<longleftrightarrow> (\<exists>xs. j = JArr xs \<and> list_all2 (\<lambda>x y. f x = Inr y) xs ys)"
  by (auto simp: v_list_def v_items_Inr split: json.splits)

text \<open>The same, for computing forward.\<close>

lemma v_forward:
  "v_model f (JObj d) = f d" "v_str (JStr s) = Inr s"
  "map_of d k = Some x \<Longrightarrow> v_field k g d = v_at k (g x)"
  "fst ` set d \<subseteq> set fs \<Longrightarrow> v_forbid fs d y = y"
  by (auto simp: v_model_def v_str_def v_field_def v_forbid_def filter_empty_conv)

end
