(* ===== verification/TC_Token.thy ===== *)
theory TC_Token
  imports TC_Ledger TC_Json
begin

text \<open>
  The broker token: its file (tc/broker/token.py), the loop that watches its age
  (tc/loops/token.py), and the daily expectations over the ledger (tc/loops/expectations.py).

  The directory of the token file is an association list from names to files. A file's text is
  kept as what \<open>json.loads\<close> makes of it: \<open>JsonText\<close> a value, \<open>OtherText\<close> a text it refuses.
  Ages are exact numbers of days; the rounding of Python's floats is not modelled. The OAuth
  library is a parameter: it gives an authorization context, and exchanges a received URL for
  a token.
\<close>

section \<open>Files\<close>

datatype text_of = JsonText json | OtherText string

record tfile =
  tf_text :: text_of
  tf_mode :: int
  tf_readable :: bool

type_synonym tdir = "(string \<times> tfile) list"

record token_env =
  te_name :: string \<comment> \<open>the token file's name\<close>
  te_reauth :: int
  te_hard :: int
  te_callback :: string
  te_context :: "string \<Rightarrow> exn + string \<times> string \<times> string" \<comment> \<open>callback, state, authorization URL\<close>
  te_exchange :: "json \<Rightarrow> json \<Rightarrow> string \<Rightarrow> exn + json" \<comment> \<open>callback, state, received URL; the wrapped token\<close>

definition DAY :: rat where "DAY = 86400"

definition CTX :: string where "CTX = ''auth-context.json''"

datatype token_state = TokAbsent | TokFresh | TokReauthDue | TokDead

text \<open>The dashes of the action strings are ASCII here.\<close>

definition action_for :: "token_state \<Rightarrow> string" where
  "action_for s = (case s of TokFresh \<Rightarrow> ''none'' | TokReauthDue \<Rightarrow> ''REAUTH NOW: tc auth-url, open on phone''
     | TokDead \<Rightarrow> ''DEAD - account is blind until re-auth'' | TokAbsent \<Rightarrow> ''no token - run tc auth-url'')"

definition state_for_age :: "rat option \<Rightarrow> token_env \<Rightarrow> token_state" where
  "state_for_age age env =
     (case age of None \<Rightarrow> TokAbsent
      | Some a \<Rightarrow> if a \<ge> of_int (te_hard env) then TokDead else if a \<ge> of_int (te_reauth env) then TokReauthDue else TokFresh)"

section \<open>Reading, with quarantine\<close>

text \<open>The names tried for a quarantined file.\<close>

definition candidate :: "string \<Rightarrow> nat \<Rightarrow> string" where
  "candidate base n = (if n = 0 then base else base @ ''-'' @ show_nat n)"

lemma candidate_inj: "candidate base m = candidate base n \<Longrightarrow> m = n"
  by (auto simp: candidate_def split: if_splits dest: show_nat_inj)

lemma candidates_finite: "finite {m. n \<le> m \<and> candidate base m \<in> set names}"
proof -
  have "candidate base ` {m. n \<le> m \<and> candidate base m \<in> set names} \<subseteq> set names" by auto
  then show ?thesis by (rule inj_on_finite [rotated]) (auto intro: inj_onI dest: candidate_inj)
qed

function free_candidate :: "string list \<Rightarrow> string \<Rightarrow> nat \<Rightarrow> nat" where
  "free_candidate names base n = (if candidate base n \<in> set names then free_candidate names base (n + 1) else n)"
  by pat_completeness auto
termination
proof (relation "measure (\<lambda>(names, base, n). card {m. n \<le> m \<and> candidate base m \<in> set names})")
  fix names base and n :: nat
  assume "candidate base n \<in> set names"
  then have "n \<in> {m. n \<le> m \<and> candidate base m \<in> set names} - {m. n + 1 \<le> m \<and> candidate base m \<in> set names}" by simp
  then have "{m. n + 1 \<le> m \<and> candidate base m \<in> set names} \<subset> {m. n \<le> m \<and> candidate base m \<in> set names}" by fastforce
  then show "((names, base, n + 1), names, base, n) \<in> measure (\<lambda>(names, base, n). card {m. n \<le> m \<and> candidate base m \<in> set names})"
    by (simp add: psubset_card_mono [OF candidates_finite])
qed simp

declare free_candidate.simps [simp del]

definition trunc :: "rat \<Rightarrow> int" where "trunc x = (if x < 0 then \<lceil>x\<rceil> else \<lfloor>x\<rfloor>)"

definition quarantine_name :: "token_env \<Rightarrow> rat \<Rightarrow> tdir \<Rightarrow> string" where
  "quarantine_name env now d =
     (let base = te_name env @ ''.corrupt-'' @ show_int (trunc now) in candidate base (free_candidate (map fst d) base 0))"

definition quarantine :: "token_env \<Rightarrow> rat \<Rightarrow> tdir \<Rightarrow> tdir" where
  "quarantine env now d =
     (case map_of d (te_name env) of None \<Rightarrow> d
      | Some f \<Rightarrow> AList.update (quarantine_name env now d) f (AList.delete (te_name env) d))"

definition token_meta :: "json \<Rightarrow> bool" where
  "token_meta j \<longleftrightarrow> jget j ''token'' \<noteq> None \<and> (\<exists>x. jget j ''creation_timestamp'' = Some (JNum x))"

definition read_token :: "token_env \<Rightarrow> rat \<Rightarrow> tdir \<Rightarrow> json option \<times> tdir" where
  "read_token env now d =
     (case map_of d (te_name env) of
        None \<Rightarrow> (None, d)
      | Some f \<Rightarrow>
          if \<not> tf_readable f then (None, d)
          else (case tf_text f of
                  OtherText _ \<Rightarrow> (None, quarantine env now d)
                | JsonText j \<Rightarrow> if token_meta j then (Some j, d) else (None, quarantine env now d)))"

definition age_days :: "token_env \<Rightarrow> rat \<Rightarrow> tdir \<Rightarrow> rat option \<times> tdir" where
  "age_days env now d =
     (case read_token env now d of
        (None, d') \<Rightarrow> (None, d')
      | (Some j, d') \<Rightarrow> (case jget j ''creation_timestamp'' of Some (JNum ts) \<Rightarrow> (Some ((now - ts) / DAY), d') | _ \<Rightarrow> (None, d')))"

definition days_until_dead :: "token_env \<Rightarrow> rat \<Rightarrow> tdir \<Rightarrow> rat option \<times> tdir" where
  "days_until_dead env now d = (case age_days env now d of (age, d') \<Rightarrow> (map_option (\<lambda>a. of_int (te_hard env) - a) age, d'))"

definition token_state_of :: "token_env \<Rightarrow> rat \<Rightarrow> tdir \<Rightarrow> token_state \<times> tdir" where
  "token_state_of env now d = (case age_days env now d of (age, d') \<Rightarrow> (state_for_age age env, d'))"

definition token_status :: "token_env \<Rightarrow> rat \<Rightarrow> tdir \<Rightarrow> (token_state \<times> rat option \<times> rat option) \<times> tdir" where
  "token_status env now d =
     (case age_days env now d of (age, d') \<Rightarrow>
        ((state_for_age age env, age, map_option (\<lambda>a. of_int (te_hard env) - a) age), d'))"

section \<open>Writing, atomically\<close>

text \<open>The system calls of \<open>_write_private\<close> that change the directory, in order.\<close>

datatype fs_call = OpenTmp | FchmodTmp | WriteTmp text_of | ReplaceByTmp

definition tmp_of :: "string \<Rightarrow> string" where "tmp_of nm = nm @ ''.tmp''"

fun fs_step :: "string \<Rightarrow> fs_call \<Rightarrow> tdir \<Rightarrow> tdir" where
  "fs_step nm OpenTmp d =
     (case map_of d (tmp_of nm) of
        None \<Rightarrow> AList.update (tmp_of nm) \<lparr>tf_text = OtherText [], tf_mode = 384, tf_readable = True\<rparr> d
      | Some f \<Rightarrow> AList.update (tmp_of nm) (f\<lparr>tf_text := OtherText []\<rparr>) d)"
| "fs_step nm FchmodTmp d =
     (case map_of d (tmp_of nm) of None \<Rightarrow> d | Some f \<Rightarrow> AList.update (tmp_of nm) (f\<lparr>tf_mode := 384, tf_readable := True\<rparr>) d)"
| "fs_step nm (WriteTmp t) d =
     (case map_of d (tmp_of nm) of None \<Rightarrow> d | Some f \<Rightarrow> AList.update (tmp_of nm) (f\<lparr>tf_text := t\<rparr>) d)"
| "fs_step nm ReplaceByTmp d =
     (case map_of d (tmp_of nm) of None \<Rightarrow> d | Some f \<Rightarrow> AList.update nm f (AList.delete (tmp_of nm) d))"

definition write_calls :: "text_of \<Rightarrow> fs_call list" where
  "write_calls t = [OpenTmp, FchmodTmp, WriteTmp t, ReplaceByTmp]"

definition write_private :: "string \<Rightarrow> text_of \<Rightarrow> tdir \<Rightarrow> tdir" where
  "write_private nm t d = fold (fs_step nm) (write_calls t) d"

definition write_token :: "token_env \<Rightarrow> json \<Rightarrow> tdir \<Rightarrow> tdir" where
  "write_token env wrapped d = write_private (te_name env) (JsonText wrapped) d"

section \<open>Re-authorization\<close>

definition begin_auth :: "token_env \<Rightarrow> tdir \<Rightarrow> exn + string \<times> tdir" where
  "begin_auth env d =
     bind_e (te_context env (te_callback env)) (\<lambda>(callback, st, url).
     Inr (url, write_private CTX (JsonText (JObj [(''callback_url'', JStr callback), (''state'', JStr st)])) d))"

text \<open>\<open>saved[k]\<close>: a value that is no object cannot be indexed by a name.\<close>

definition complete_auth :: "token_env \<Rightarrow> string \<Rightarrow> tdir \<Rightarrow> exn + tdir" where
  "complete_auth env received_url d =
     bind_e (the_or NoAuthInProgress (map_of d CTX)) (\<lambda>f.
     bind_e (raise_if (\<not> tf_readable f) OSError) (\<lambda>_.
     bind_e (case tf_text f of OtherText _ \<Rightarrow> Inl ValueError | JsonText j \<Rightarrow> Inr j) (\<lambda>saved.
     bind_e (jitem saved ''callback_url'') (\<lambda>callback.
     bind_e (jitem saved ''state'') (\<lambda>nonce.
     bind_e (te_exchange env callback nonce received_url) (\<lambda>wrapped.
     Inr (AList.delete CTX (write_token env wrapped d))))))))"

section \<open>Evidence and atomicity\<close>

lemma free_candidate_free: "candidate base (free_candidate names base n) \<notin> set names"
  by (induction names base n rule: free_candidate.induct) (subst free_candidate.simps, simp)

lemma quarantine_name_fresh: "quarantine_name env now d \<notin> fst ` set d"
  using free_candidate_free [of _ "map fst d" 0] by (simp add: quarantine_name_def Let_def)

lemma quarantine_map:
  assumes "map_of d (te_name env) = Some f"
  shows "map_of (quarantine env now d) = (map_of d)(te_name env := None, quarantine_name env now d \<mapsto> f)"
  using assms by (simp add: quarantine_def update_conv' delete_conv')

text \<open>Reading the token never destroys evidence. Every other file keeps its name and content; a readable token
  file that is not a valid token is moved, whole, to a name no file had; a valid or an
  unreadable one stays where it is; and a token is only ever reported if the file held it.\<close>

theorem read_token_keeps_evidence:
  "(\<forall>n f. map_of d n = Some f \<and> n \<noteq> te_name env \<longrightarrow> map_of (snd (read_token env now d)) n = Some f) \<and>
   (\<forall>f. map_of d (te_name env) = Some f \<longrightarrow>
      (if tf_readable f \<and> (\<nexists>j. tf_text f = JsonText j \<and> token_meta j)
       then fst (read_token env now d) = None \<and> map_of (snd (read_token env now d)) (te_name env) = None \<and>
            (\<exists>n. n \<notin> fst ` set d \<and> map_of (snd (read_token env now d)) n = Some f)
       else snd (read_token env now d) = d \<and>
            (\<forall>j. fst (read_token env now d) = Some j \<longleftrightarrow> tf_readable f \<and> tf_text f = JsonText j)))"
proof -
  let ?q = "quarantine_name env now d"
  have q: "map_of d ?q = None" using quarantine_name_fresh by (metis map_of_eq_None_iff)
  show ?thesis
  proof (cases "map_of d (te_name env)")
    case None
    then show ?thesis by (simp add: read_token_def)
  next
    case (Some f)
    have fresh: "?q \<noteq> te_name env" using q Some by auto
    show ?thesis
    proof (cases "tf_readable f \<and> (\<nexists>j. tf_text f = JsonText j \<and> token_meta j)")
      case True
      then have r: "read_token env now d = (None, quarantine env now d)"
        using Some by (auto simp: read_token_def split: text_of.split)
      have "\<exists>n. n \<notin> fst ` set d \<and> map_of (quarantine env now d) n = Some f"
        using quarantine_name_fresh [of env now d] quarantine_map [OF Some] by (metis fun_upd_same)
      then show ?thesis using True Some q fresh unfolding r by (auto simp: quarantine_map [OF Some])
    next
      case False
      then show ?thesis using Some by (auto simp: read_token_def split: text_of.split)
    qed
  qed
qed

lemma tmp_of_neq [simp]: "tmp_of nm \<noteq> nm" "nm \<noteq> tmp_of nm"
  by (simp_all add: tmp_of_def)

lemma write_private_map:
  "map_of (write_private nm t d) = (map_of d)(tmp_of nm := None, nm \<mapsto> \<lparr>tf_text = t, tf_mode = 384, tf_readable = True\<rparr>)"
proof -
  have "map_of (write_private nm t d) n = ((map_of d)(tmp_of nm := None, nm \<mapsto> \<lparr>tf_text = t, tf_mode = 384, tf_readable = True\<rparr>)) n" for n
    by (cases "map_of d (tmp_of nm)") (auto simp: write_private_def write_calls_def update_conv' delete_conv')
  then show ?thesis by blast
qed

text \<open>The token write is atomic. Stopped after any number of its system calls, the file under the token's name
  is either the old one or the new one, whole and private to its owner, whatever a left-over
  temporary file held or allowed; when all calls have run it is the new one, the temporary file
  is gone and no other file has changed.\<close>

theorem write_private_atomic:
  "map_of (fold (fs_step nm) (take k (write_calls t)) d) nm \<in>
     {map_of d nm, Some \<lparr>tf_text = t, tf_mode = 384, tf_readable = True\<rparr>} \<and>
   map_of (write_private nm t d) = (map_of d)(tmp_of nm := None, nm \<mapsto> \<lparr>tf_text = t, tf_mode = 384, tf_readable = True\<rparr>)"
proof -
  have "map_of (fold (fs_step nm) (take k (write_calls t)) d) nm = map_of d nm" if "k < 4"
  proof -
    have "k = 0 \<or> k = 1 \<or> k = 2 \<or> k = 3" using that by arith
    then show ?thesis by (elim disjE; cases "map_of d (tmp_of nm)") (simp_all add: write_calls_def update_conv' numeral_eq_Suc)
  qed
  moreover have "take k (write_calls t) = write_calls t" if "\<not> k < 4" using that by (simp add: write_calls_def)
  ultimately show ?thesis using write_private_map [of nm t d] by (cases "k < 4") (simp_all add: write_private_def)
qed

text \<open>A re-authorization that the broker grants makes the token readable: beginning it, then completing it
  with the URL received, leaves the exchanged token as what a read returns, and no
  authorization in progress.\<close>

theorem reauth_roundtrip:
  assumes "begin_auth env d = Inr (url, d1)" and "te_context env (te_callback env) = Inr (cb, nonce, url)"
    and "te_exchange env (JStr cb) (JStr nonce) received = Inr w" and "token_meta w"
    and "te_name env \<noteq> CTX"
  shows "\<exists>d2. complete_auth env received d1 = Inr d2 \<and> read_token env now d2 = (Some w, d2) \<and> map_of d2 CTX = None"
proof -
  have d1: "d1 = write_private CTX (JsonText (JObj [(''callback_url'', JStr cb), (''state'', JStr nonce)])) d"
    using assms(1,2) by (simp add: begin_auth_def)
  let ?d2 = "AList.delete CTX (write_token env w d1)"
  have "complete_auth env received d1 = Inr ?d2"
    using assms(3) by (simp add: complete_auth_def d1 write_private_map)
  moreover have "map_of ?d2 (te_name env) = Some \<lparr>tf_text = JsonText w, tf_mode = 384, tf_readable = True\<rparr>"
    using assms(5) by (simp add: delete_conv' write_token_def write_private_map)
  moreover have "map_of ?d2 CTX = None" by (simp add: delete_conv')
  ultimately show ?thesis using assms(4) by (simp add: read_token_def)
qed

section \<open>The token loop\<close>

datatype post_text = PostReauthDue "rat option" "string option" | PostBlind token_state "rat option" "string option"

record token_report =
  rp_state :: token_state
  rp_age :: "rat option"
  rp_left :: "rat option"
  rp_action :: string
  rp_url :: "string option"

definition try_begin_auth :: "token_env \<Rightarrow> rat \<Rightarrow> tdir \<Rightarrow> string option \<times> tdir" where
  "try_begin_auth env now d =
     (case begin_auth env d of Inr (url, d') \<Rightarrow> (Some url, d')
      | Inl _ \<Rightarrow> (None, snd (token_state_of env now d)))"

definition already_posted_today :: "ledger \<Rightarrow> string \<Rightarrow> date \<Rightarrow> bool" where
  "already_posted_today L kind d \<longleftrightarrow> list_ex (\<lambda>(k, d', _). k = kind \<and> d' = d) (token_events L)"

definition state_name :: "token_state \<Rightarrow> string" where
  "state_name s = (case s of TokAbsent \<Rightarrow> ''absent'' | TokFresh \<Rightarrow> ''fresh'' | TokReauthDue \<Rightarrow> ''reauth_due'' | TokDead \<Rightarrow> ''dead'')"

text \<open>\<open>f"{x:.1f}"\<close> of an exact value.\<close>

definition show_1f :: "rat \<Rightarrow> string" where
  "show_1f x = (let n = half_even (\<bar>x\<bar> * 10) in (if x < 0 then ''-'' else []) @ show_int (n div 10) @ ''.'' @ show_int (n mod 10))"

definition dud_clause :: "rat option \<Rightarrow> string \<Rightarrow> string" where
  "dud_clause left fallback = (case left of Some x \<Rightarrow> show_1f x @ '' days until dead'' | None \<Rightarrow> fallback)"

definition dedupe_kind :: "token_state \<Rightarrow> string" where
  "dedupe_kind s = (if s = TokReauthDue then ''auth_url_posted'' else ''blind_posted'')"

definition stand_alert :: "token_state \<Rightarrow> rat option \<Rightarrow> instant \<Rightarrow> ledger \<Rightarrow> ledger" where
  "stand_alert state left at_utc L =
     (if state \<in> {TokDead, TokAbsent} \<and> \<not> list_ex (\<lambda>a. al_kind a = ''token_dead'') (open_alerts L)
      then snd (open_alert L at_utc ''token_dead'' (''Schwab token '' @ state_name state @ '': the engine is BLIND. '' @
             dud_clause left ''token absent'' @ ''. Run `tc auth-url`.''))
      else L)"

text \<open>The report, what was posted, the ledger and the token directory. It returns on every path.\<close>

definition token_check ::
  "zone \<Rightarrow> token_env \<Rightarrow> rat \<Rightarrow> instant \<Rightarrow> ledger \<Rightarrow> tdir \<Rightarrow> token_report \<times> post_text option \<times> ledger \<times> tdir" where
  "token_check z env clock now L d =
     (let ((state, age, left), d1) = token_status env clock d; et_d = et_date z now;
          report = (\<lambda>url. \<lparr>rp_state = state, rp_age = age, rp_left = left, rp_action = action_for state, rp_url = url\<rparr>) in
      if state = TokFresh
      then (report None, None, snd (ack_alerts_of_kind (record_token_event L ''checked'' et_d []) now ''token_dead''), d1)
      else
        let L1 = stand_alert state left now L in
        if already_posted_today L1 (dedupe_kind state) et_d then (report None, None, L1, d1)
        else
          let (url, d2) = try_begin_auth env clock d1;
              L2 = (if url = None then record_token_event L1 ''auth_url_failed'' et_d [] else L1);
              body = (if state = TokReauthDue then PostReauthDue left url else PostBlind state left url);
              L3 = (if url \<noteq> None then record_token_event L2 (dedupe_kind state) et_d (state_name state) else L2) in
          (report url, Some body, L3, d2))"

section \<open>The standing alert and the daily post\<close>

lemma ack_open: "open_alerts (snd (ack_alerts_of_kind L t k)) = filter (\<lambda>a. al_kind a \<noteq> k) (open_alerts L)"
proof -
  have "filter (\<lambda>a. al_acked a = None) (map (\<lambda>a. if al_kind a = k \<and> al_acked a = None then a\<lparr>al_acked := Some t\<rparr> else a) as) =
      filter (\<lambda>a. al_kind a \<noteq> k) (filter (\<lambda>a. al_acked a = None) as)" for as
    by (induction as) auto
  then show ?thesis by (simp add: open_alerts_def ack_alerts_of_kind_def)
qed

lemma stand_alert_open: "state \<in> {TokDead, TokAbsent} \<Longrightarrow> \<exists>a \<in> set (open_alerts (stand_alert state left t L)). al_kind a = ''token_dead''"
  by (auto simp: stand_alert_def open_alert_def open_alerts_def Let_def list_ex_iff)

lemma stand_alert_other: "state \<notin> {TokDead, TokAbsent} \<Longrightarrow> stand_alert state left t L = L"
  by (simp add: stand_alert_def)

lemma stand_alert_events [simp]: "token_events (stand_alert state left t L) = token_events L"
  by (simp add: stand_alert_def open_alert_def Let_def)

lemma event_alerts [simp]: "alerts (record_token_event L k dt x) = alerts L" "open_alerts (record_token_event L k dt x) = open_alerts L"
  by (simp_all add: record_token_event_def open_alerts_def)

text \<open>What a check that is not fresh leaves behind.\<close>

lemma token_check_cases:
  assumes "token_check z env clock now L d = (rep, post, L', d')"
  obtains (fresh) "rp_state rep = TokFresh" "post = None" "rp_url rep = None"
      "L' = snd (ack_alerts_of_kind (record_token_event L ''checked'' (et_date z now) []) now ''token_dead'')"
  | (posted) "rp_state rep \<noteq> TokFresh" "post = None" "L' = stand_alert (rp_state rep) (rp_left rep) now L"
      "already_posted_today L (dedupe_kind (rp_state rep)) (et_date z now)"
  | (failed) "rp_state rep \<noteq> TokFresh" "post \<noteq> None" "\<not> already_posted_today L (dedupe_kind (rp_state rep)) (et_date z now)"
      "L' = record_token_event (stand_alert (rp_state rep) (rp_left rep) now L) ''auth_url_failed'' (et_date z now) []"
      "\<exists>e. te_context env (te_callback env) = Inl e"
  | (post) "rp_state rep \<noteq> TokFresh" "post \<noteq> None" "\<not> already_posted_today L (dedupe_kind (rp_state rep)) (et_date z now)"
      "L' = record_token_event (stand_alert (rp_state rep) (rp_left rep) now L) (dedupe_kind (rp_state rep)) (et_date z now) (state_name (rp_state rep))"
proof -
  obtain state age left d1 where s: "token_status env clock d = ((state, age, left), d1)" by (metis surj_pair)
  obtain url d2 where u: "try_begin_auth env clock d1 = (url, d2)" by (metis surj_pair)
  have un: "url = None \<Longrightarrow> \<exists>e. te_context env (te_callback env) = Inl e"
    using u by (auto simp: try_begin_auth_def begin_auth_def err split: sum.splits prod.splits)
  show thesis using assms un that unfolding token_check_def s u
    by (cases url) (auto simp: Let_def u already_posted_today_def split: if_splits)
qed

text \<open>The token alert is standing. After every check of a dead or absent token an unacknowledged
  \<open>token_dead\<close> alert is open, also when an earlier one was acknowledged the same day; after a check
  of a fresh token none is and nothing was posted; a token merely due for re-authorization
  changes no alert.\<close>

theorem token_alert_standing:
  assumes "token_check z env clock now L d = (rep, post, L', d')"
  shows "case rp_state rep of
      TokFresh \<Rightarrow> (\<forall>a. a \<in> set (open_alerts L') \<longrightarrow> al_kind a \<noteq> ''token_dead'') \<and> post = None
    | TokReauthDue \<Rightarrow> alerts L' = alerts L
    | _ \<Rightarrow> (\<exists>a. a \<in> set (open_alerts L') \<and> al_kind a = ''token_dead'')"
  using assms
proof (cases rule: token_check_cases)
  case fresh
  then show ?thesis by (simp add: ack_open)
qed (use stand_alert_open in \<open>force simp: stand_alert_other split: token_state.split\<close>)+

text \<open>
  The loop over its life: checks with the authorization library answering, and other writers of
  the event table in between. The third component lists what was posted: kind and Eastern date.
\<close>

inductive token_step :: "zone \<Rightarrow> ledger \<times> tdir \<times> (string \<times> date) list \<Rightarrow> ledger \<times> tdir \<times> (string \<times> date) list \<Rightarrow> bool" for z where
  Check: "te_context env (te_callback env) = Inr c \<Longrightarrow> token_check z env clock now L d = (rep, post, L', d') \<Longrightarrow>
    token_step z (L, d, ps) (L', d', ps @ (if post = None then [] else [(dedupe_kind (rp_state rep), et_date z now)]))"
| Other: "prefix (token_events L) (token_events L') \<Longrightarrow> token_step z (L, d, ps) (L', d', ps)"

fun token_inv :: "ledger \<times> tdir \<times> (string \<times> date) list \<Rightarrow> bool" where
  "token_inv (L, d, ps) \<longleftrightarrow> distinct ps \<and> (\<forall>(k, dt) \<in> set ps. already_posted_today L k dt)"

lemma posted_mono: "prefix (token_events L) (token_events L') \<Longrightarrow> already_posted_today L k dt \<Longrightarrow> already_posted_today L' k dt"
  by (auto simp: already_posted_today_def prefix_def list_ex_iff)

lemma token_step_inv: "token_inv s \<Longrightarrow> token_step z s t \<Longrightarrow> token_inv t"
proof (erule token_step.cases)
  fix env c clock now L d rep post L' d' ps
  assume inv: "token_inv s" and st: "s = (L, d, ps)"
    "t = (L', d', ps @ (if post = None then [] else [(dedupe_kind (rp_state rep), et_date z now)]))"
    and ctx: "te_context env (te_callback env) = Inr c" and chk: "token_check z env clock now L d = (rep, post, L', d')"
  have grow: "prefix (token_events L) (token_events L')"
    using chk by (cases rule: token_check_cases) (simp_all add: record_token_event_def ack_alerts_of_kind_def)
  have new: "post \<noteq> None \<Longrightarrow> \<not> already_posted_today L (dedupe_kind (rp_state rep)) (et_date z now) \<and>
      already_posted_today L' (dedupe_kind (rp_state rep)) (et_date z now)"
    using chk by (cases rule: token_check_cases) (use ctx in \<open>simp_all add: record_token_event_def already_posted_today_def\<close>)
  show "token_inv t" using inv new posted_mono [OF grow] unfolding st by auto
next
  fix L L' d ps d'
  assume "token_inv s" "s = (L, d, ps)" "t = (L', d', ps)" "prefix (token_events L) (token_events L')"
  then show "token_inv t" using posted_mono by fastforce
qed

interpretation token_loop: invariant "\<lambda>(L, d, ps). ps = []" "token_step z" token_inv for z
  by unfold_locales (auto intro: token_step_inv)

text \<open>While the authorization library answers, each kind of token post (re-authorization due, blind) goes out at
  most once per Eastern day, however often the check runs and whatever the token does in
  between.\<close>

theorem token_posts_once:
  assumes "reachable (\<lambda>(L, d, ps). ps = []) (token_step z) (L, d, ps)"
  shows "distinct ps"
  using token_loop.reachable_inv [OF assms] by simp

section \<open>Expectations (tc/loops/expectations.py)\<close>

datatype check_kind = TicksPerSessionMin | SessionStatusPresent | JobVerdictNot | TokenDaysUntilDeadMin
datatype spec_arg = ArgInt int | ArgBool bool | ArgStr string | ArgNone

record expectation =
  xp_name :: string
  xp_check :: check_kind
  xp_arg :: spec_arg
  xp_window :: int

datatype xp_detail = XNoSession date | XTicks int date int | XPresent date | XAbsent date | XJobs int string date
  | XTokenAbsent | XTokenLeft rat int

record expectation_result =
  xr_name :: string
  xr_ok :: bool
  xr_detail :: xp_detail

definition verdict_name :: "verdict \<Rightarrow> string" where
  "verdict_name v = (case v of VDone \<Rightarrow> ''done'' | VNoop \<Rightarrow> ''noop'' | VContentFailed \<Rightarrow> ''content_failed''
     | VFailed \<Rightarrow> ''failed'' | VTimeout \<Rightarrow> ''timeout'' | VMissed \<Rightarrow> ''missed'')"

definition latest_session_date :: "ledger \<Rightarrow> date \<Rightarrow> date option" where
  "latest_session_date L today =
     (case filter (\<lambda>x. x \<le> today) (map (\<lambda>t. date_of (tk_at t)) (ticks L)) of [] \<Rightarrow> None | x # xs \<Rightarrow> Some (foldl max x xs))"

definition ticks_per_session_min :: "ledger \<Rightarrow> expectation \<Rightarrow> date \<Rightarrow> exn + bool \<times> xp_detail" where
  "ticks_per_session_min L spec today =
     (case xp_arg spec of
        ArgInt n \<Rightarrow>
          (case latest_session_date L today of None \<Rightarrow> Inr (False, XNoSession today)
           | Some s \<Rightarrow> let c = int (length (filter (\<lambda>t. date_of (tk_at t) = s \<and> tk_state t = TsRTH) (ticks L))) in
                       Inr (c \<ge> n, XTicks c s n))
      | _ \<Rightarrow> Inl ValueError)"

definition session_status_present :: "ledger \<Rightarrow> date \<Rightarrow> bool \<times> xp_detail" where
  "session_status_present L today =
     (case latest_session_date L today of None \<Rightarrow> (False, XNoSession today)
      | Some s \<Rightarrow> if list_ex (\<lambda>r. ss_date r = s) (session_status L) then (True, XPresent s) else (False, XAbsent s))"

definition job_verdict_not :: "ledger \<Rightarrow> expectation \<Rightarrow> date \<Rightarrow> exn + bool \<times> xp_detail" where
  "job_verdict_not L spec today =
     (case xp_arg spec of
        ArgStr v \<Rightarrow>
          (let start = today - xp_window spec;
               c = int (length (filter (\<lambda>r. verdict_name (jr_verdict r) = v \<and> date_of (dt_wall (jr_started r)) \<ge> start) (job_runs L))) in
           Inr (c = 0, XJobs c v start))
      | _ \<Rightarrow> Inl ValueError)"

definition token_days_until_dead_min :: "rat option \<Rightarrow> expectation \<Rightarrow> exn + bool \<times> xp_detail" where
  "token_days_until_dead_min left spec =
     (case xp_arg spec of
        ArgInt n \<Rightarrow> (case left of None \<Rightarrow> Inr (False, XTokenAbsent) | Some x \<Rightarrow> Inr (x \<ge> of_int n, XTokenLeft x n))
      | _ \<Rightarrow> Inl ValueError)"

text \<open>The token is read when its check is evaluated: \<open>left\<close> is what \<open>days_until_dead\<close> gives then.\<close>

definition evaluate_expectation :: "ledger \<Rightarrow> rat option \<Rightarrow> expectation \<Rightarrow> date \<Rightarrow> exn + bool \<times> xp_detail" where
  "evaluate_expectation L left spec today =
     (case xp_check spec of
        TicksPerSessionMin \<Rightarrow> ticks_per_session_min L spec today
      | SessionStatusPresent \<Rightarrow> Inr (session_status_present L today)
      | JobVerdictNot \<Rightarrow> job_verdict_not L spec today
      | TokenDaysUntilDeadMin \<Rightarrow> token_days_until_dead_min left spec)"

text \<open>The rows recorded before a raise stay recorded.\<close>

fun run_expectations :: "ledger \<Rightarrow> rat option \<Rightarrow> expectation list \<Rightarrow> date \<Rightarrow> (exn + expectation_result list) \<times> ledger" where
  "run_expectations L left [] today = (Inr [], L)"
| "run_expectations L left (spec # specs) today =
     (case evaluate_expectation L left spec today of
        Inl e \<Rightarrow> (Inl e, L)
      | Inr (ok, detail) \<Rightarrow>
          (let (later, L') = run_expectations (record_expectation L (xp_name spec) ok) left specs today in
           (bind_e later (\<lambda>rs. Inr (\<lparr>xr_name = xp_name spec, xr_ok = ok, xr_detail = detail\<rparr> # rs)), L')))"

definition digest :: "expectation_result list \<Rightarrow> nat \<times> nat \<times> (string \<times> xp_detail) list" where
  "digest results =
     (let breaches = filter (\<lambda>r. \<not> xr_ok r) results in
      (length results, length breaches, map (\<lambda>r. (xr_name r, xr_detail r)) breaches))"

text \<open>A log row changes no check.\<close>

lemma record_expectation_frame [simp]: "ticks (record_expectation L n ok) = ticks L"
  "session_status (record_expectation L n ok) = session_status L" "job_runs (record_expectation L n ok) = job_runs L"
  by (simp_all add: record_expectation_def)

lemma evaluate_record: "evaluate_expectation (record_expectation L n ok) left spec today = evaluate_expectation L left spec today"
  unfolding evaluate_expectation_def ticks_per_session_min_def session_status_present_def job_verdict_not_def
    latest_session_date_def record_expectation_frame by (rule refl)

definition arg_fits :: "expectation \<Rightarrow> bool" where
  "arg_fits spec \<longleftrightarrow> (case xp_check spec of SessionStatusPresent \<Rightarrow> True
     | JobVerdictNot \<Rightarrow> (\<exists>v. xp_arg spec = ArgStr v) | _ \<Rightarrow> (\<exists>n. xp_arg spec = ArgInt n))"

lemma evaluate_total: "(\<exists>x. evaluate_expectation L left spec today = Inr x) \<longleftrightarrow> arg_fits spec"
  by (auto simp: evaluate_expectation_def arg_fits_def ticks_per_session_min_def job_verdict_not_def token_days_until_dead_min_def Let_def
      split: check_kind.splits spec_arg.splits option.splits)

text \<open>The expectations are evaluated all on the same ledger and independently of each other: with arguments of the
  right type the run returns, gives each configured check its own verdict in order, and appends
  exactly one log row per check and nothing else; the first ill-typed argument raises, after the
  rows of the checks before it.\<close>

theorem run_expectations_spec:
  "if list_all arg_fits specs
   then \<exists>rs L'. run_expectations L left specs today = (Inr rs, L') \<and>
     map (\<lambda>r. Inr (xr_ok r, xr_detail r)) rs = map (\<lambda>s. evaluate_expectation L left s today) specs \<and> map xr_name rs = map xp_name specs \<and>
     L' = L\<lparr>expectations_log := expectations_log L @ map (\<lambda>r. (xr_name r, xr_ok r)) rs\<rparr>
   else \<exists>e L'. run_expectations L left specs today = (Inl e, L') \<and>
     length (expectations_log L') = length (expectations_log L) + length (takeWhile arg_fits specs)"
proof (induction specs arbitrary: L)
  case (Cons s specs)
  show ?case
  proof (cases "evaluate_expectation L left s today")
    case (Inl e)
    then have "\<not> arg_fits s" using evaluate_total [of L left s today] by auto
    with Inl show ?thesis by simp
  next
    case (Inr x)
    obtain ok dt where x: "x = (ok, dt)" by force
    have "arg_fits s" using evaluate_total [of L left s today] Inr by auto
    then show ?thesis using Inr x Cons.IH [of "record_expectation L (xp_name s) ok"]
      by (auto simp: evaluate_record split: if_splits) (auto simp: record_expectation_def)
  qed
qed simp

section \<open>Witnesses\<close>

definition sample_token :: json where
  "sample_token = JObj [(''creation_timestamp'', JNum 0), (''token'', JNull)]"

definition sample_token_env :: token_env where
  "sample_token_env = \<lparr>te_name = ''token.json'', te_reauth = 5, te_hard = 7, te_callback = ''cb'',
     te_context = (\<lambda>c. Inr (c, ''nonce'', ''url'')), te_exchange = (\<lambda>_ _ _. Inr sample_token)\<rparr>"

definition sample_dir :: tdir where
  "sample_dir = [(''token.json'', \<lparr>tf_text = JsonText sample_token, tf_mode = 384, tf_readable = True\<rparr>)]"

definition corrupt_dir :: tdir where
  "corrupt_dir = [(''token.json'', \<lparr>tf_text = OtherText ''{'', tf_mode = 384, tf_readable = True\<rparr>),
     (''token.json.corrupt-9'', \<lparr>tf_text = OtherText '''', tf_mode = 384, tf_readable = True\<rparr>)]"

theorem read_token_keeps_evidence_witness:
  "map_of (snd (read_token sample_token_env 9 corrupt_dir)) ''token.json.corrupt-9'' = map_of corrupt_dir ''token.json.corrupt-9'' \<and>
   (\<exists>n. n \<notin> fst ` set corrupt_dir \<and> map_of (snd (read_token sample_token_env 9 corrupt_dir)) n = map_of corrupt_dir ''token.json'')"
proof -
  have t: "te_name sample_token_env = ''token.json''" by (simp add: sample_token_env_def)
  have a: "map_of corrupt_dir ''token.json.corrupt-9'' = Some \<lparr>tf_text = OtherText '''', tf_mode = 384, tf_readable = True\<rparr>"
    "map_of corrupt_dir ''token.json'' = Some \<lparr>tf_text = OtherText ''{'', tf_mode = 384, tf_readable = True\<rparr>"
    by (simp_all add: corrupt_dir_def)
  note k = read_token_keeps_evidence [of corrupt_dir sample_token_env 9, unfolded t]
  from k a(1) have "map_of (snd (read_token sample_token_env 9 corrupt_dir)) ''token.json.corrupt-9'' = map_of corrupt_dir ''token.json.corrupt-9''"
    by simp
  moreover from conjunct2 [OF k] a(2)
  have "\<exists>n. n \<notin> fst ` set corrupt_dir \<and> map_of (snd (read_token sample_token_env 9 corrupt_dir)) n = map_of corrupt_dir ''token.json''" by auto
  ultimately show ?thesis by simp
qed

theorem reauth_roundtrip_witness:
  "\<exists>d1 d2. begin_auth sample_token_env [] = Inr (''url'', d1) \<and> complete_auth sample_token_env ''r'' d1 = Inr d2 \<and>
     read_token sample_token_env 9 d2 = (Some sample_token, d2)"
proof -
  obtain d1 where b: "begin_auth sample_token_env [] = Inr (''url'', d1)" by (simp add: begin_auth_def sample_token_env_def)
  have h: "te_context sample_token_env (te_callback sample_token_env) = Inr (''cb'', ''nonce'', ''url'')"
    "te_exchange sample_token_env (JStr ''cb'') (JStr ''nonce'') ''r'' = Inr sample_token" "token_meta sample_token"
    "te_name sample_token_env \<noteq> CTX"
    by (simp_all add: sample_token_env_def sample_token_def token_meta_def CTX_def)
  from reauth_roundtrip [OF b h, of 9] b show ?thesis by blast
qed

text \<open>Ten days after the login the token is dead.\<close>

lemma sample_status: "token_status sample_token_env 864000 sample_dir = ((TokDead, Some 10, Some (- 3)), sample_dir)"
  by (simp add: token_status_def age_days_def read_token_def sample_dir_def sample_token_env_def sample_token_def token_meta_def
      state_for_age_def DAY_def)

definition sample_check :: "token_report \<times> post_text option \<times> ledger \<times> tdir" where
  "sample_check = token_check \<lparr>utc_off = (\<lambda>_. 0), wall_off = (\<lambda>_. 0)\<rparr> sample_token_env 864000 (combine 739870 0) empty_ledger sample_dir"

lemma sample_check_posts: "rp_state (fst sample_check) = TokDead" "fst (snd sample_check) \<noteq> None"
  by (auto simp: sample_check_def token_check_def sample_status Let_def already_posted_today_def stand_alert_def open_alerts_def
      open_alert_def empty_ledger_def split: prod.split)

theorem token_alert_standing_witness:
  "\<exists>rep post L' d'. sample_check = (rep, post, L', d') \<and> rp_state rep = TokDead \<and> (\<exists>a. a \<in> set (open_alerts L') \<and> al_kind a = ''token_dead'')"
proof -
  obtain rep post L' d' where c: "sample_check = (rep, post, L', d')" by (metis surj_pair)
  have "rp_state rep = TokDead" using sample_check_posts(1) unfolding c by simp
  with token_alert_standing [OF c [unfolded sample_check_def]] c show ?thesis by auto
qed

theorem token_posts_once_witness:
  "\<exists>rep post L' d'. sample_check = (rep, Some post, L', d') \<and> distinct [(dedupe_kind (rp_state rep), 739870 :: int)]"
proof -
  let ?z = "\<lparr>utc_off = (\<lambda>_. 0), wall_off = (\<lambda>_. 0)\<rparr> :: zone"
  obtain rep post L' d' where c: "sample_check = (rep, Some post, L', d')"
    using sample_check_posts(2) by (metis option.exhaust prod.exhaust_sel)
  have e: "et_date ?z (combine 739870 0) = 739870" by code_simp
  have "token_step ?z (empty_ledger, sample_dir, []) (L', d', [] @ (if Some post = None then [] else [(dedupe_kind (rp_state rep), et_date ?z (combine 739870 0))]))"
    by (rule Check [OF _ c [unfolded sample_check_def], of "(''cb'', ''nonce'', ''url'')"]) (simp add: sample_token_env_def)
  then have "reachable (\<lambda>(L, d, ps). ps = []) (token_step ?z) (L', d', [(dedupe_kind (rp_state rep), 739870)])"
    unfolding reachable_def e by (intro exI [of _ "(empty_ledger, sample_dir, [])"]) (auto intro: r_into_rtranclp)
  from token_posts_once [OF this] c show ?thesis by blast
qed

text \<open>
  When the library fails, nothing marks the day as posted: the post is repeated by every check,
  although the module says that the daily post is deduplicated.
\<close>

definition failing_env :: token_env where
  "failing_env = sample_token_env\<lparr>te_context := (\<lambda>_. Inl AuthFailed)\<rparr>"

lemma token_post_repeats:
  "\<exists>rep post L1 d1 rep' post' L2 d2.
     token_check z failing_env 864000 now empty_ledger sample_dir = (rep, Some post, L1, d1) \<and>
     token_check z failing_env 864000 now L1 d1 = (rep', Some post', L2, d2)"
proof -
  have st: "token_status failing_env 864000 sample_dir = ((TokDead, Some 10, Some (- 3)), sample_dir)"
    by (simp add: failing_env_def token_status_def age_days_def read_token_def sample_dir_def sample_token_env_def sample_token_def
        token_meta_def state_for_age_def DAY_def)
  have ba: "try_begin_auth failing_env 864000 sample_dir = (None, sample_dir)"
    using st by (simp add: try_begin_auth_def begin_auth_def failing_env_def token_state_of_def token_status_def split: prod.splits)
  have np: "\<not> already_posted_today L ''blind_posted'' dt" if "token_events L = [] \<or> token_events L = [(''auth_url_failed'', dt, [])]" for L dt
    using that by (auto simp: already_posted_today_def)
  show ?thesis
    by (simp add: token_check_def st ba Let_def np dedupe_kind_def record_token_event_def empty_ledger_def)
qed

end
