(* ===== verification/TC_Render.thy ===== *)
theory TC_Render
  imports TC_Text TC_Clock
begin

text \<open>
  The text operations of the documents and messages: substrings, splitting into words and lines,
  joining, and the ISO forms of dates and times.
\<close>

section \<open>Words and lines\<close>

text \<open>\<open>w in s\<close>.\<close>

fun occurs :: "string \<Rightarrow> string \<Rightarrow> bool" where
  "occurs w [] = (w = [])"
| "occurs w (c # s) = (take (length w) (c # s) = w \<or> occurs w s)"

lemma occurs_append: "occurs w s \<Longrightarrow> occurs w (s @ t)"
proof (induction s)
  case Nil
  then show ?case by (cases t) auto
next
  case (Cons c s)
  show ?case
  proof (cases "take (length w) (c # s) = w")
    case True
    then have "length w \<le> length (c # s)" by (metis length_take min.cobounded2 min_def nat_le_linear)
    then have "take (length w) (c # s @ t) = take (length w) (c # s)" using take_append [of "length w" "c # s" t] by simp
    then show ?thesis using True by simp
  next
    case False
    then show ?thesis using Cons by simp
  qed
qed

lemma occurs_right: "occurs w t \<Longrightarrow> occurs w (s @ t)"
  by (induction s) simp_all

text \<open>\<open>text.split()\<close> and \<open>sep.join(parts)\<close>.\<close>

function split_ws :: "string \<Rightarrow> string list" where
  "split_ws s =
     (let r = dropWhile is_space s in
      if r = [] then [] else takeWhile (\<lambda>c. \<not> is_space c) r # split_ws (dropWhile (\<lambda>c. \<not> is_space c) r))"
  by pat_completeness auto
termination
proof (relation "measure length")
  fix s r :: string
  assume r: "r = dropWhile is_space s" "r \<noteq> []"
  then have "\<not> is_space (hd r)" by (metis hd_dropWhile)
  then have "dropWhile (\<lambda>c. \<not> is_space c) r = dropWhile (\<lambda>c. \<not> is_space c) (tl r)" using r(2) by (cases r) auto
  then have "length (dropWhile (\<lambda>c. \<not> is_space c) r) < length r"
    using r(2) length_dropWhile_le [of "\<lambda>c. \<not> is_space c" "tl r"] by (cases r) auto
  moreover have "length r \<le> length s" using r(1) by (simp add: length_dropWhile_le)
  ultimately show "(dropWhile (\<lambda>c. \<not> is_space c) r, s) \<in> measure length" by simp
qed simp

declare split_ws.simps [simp del]

fun join :: "string \<Rightarrow> string list \<Rightarrow> string" where
  "join sep [] = []"
| "join sep [x] = x"
| "join sep (x # xs) = x @ sep @ join sep xs"

text \<open>\<open>text.replace(w, "")\<close>: the occurrences from the left that do not overlap.\<close>

function remove_all :: "string \<Rightarrow> string \<Rightarrow> string" where
  "remove_all w [] = []"
| "remove_all w (c # s) =
     (if w \<noteq> [] \<and> take (length w) (c # s) = w then remove_all w (drop (length w) (c # s)) else c # remove_all w s)"
  by pat_completeness auto
termination
  by (relation "measure (length \<circ> snd)") (auto simp: neq_Nil_conv)

definition down_char :: "char \<Rightarrow> char" where
  "down_char c = (if 65 \<le> code c \<and> code c \<le> 90 then char_of (code c + 32) else c)"

definition lower :: "string \<Rightarrow> string" where "lower s = map down_char s"

text \<open>\<open>s.split("\\n")\<close>, and \<open>s.splitlines()\<close>, which knows more ends of a line and has no last empty line.\<close>

definition NL :: char where "NL = CHR 0x0A"

fun split_on :: "char \<Rightarrow> string \<Rightarrow> string list" where
  "split_on x [] = [[]]"
| "split_on x (c # s) =
     (if c = x then [] # split_on x s
      else (case split_on x s of [] \<Rightarrow> [[c]] | l # ls \<Rightarrow> (c # l) # ls))"

definition line_end :: "char \<Rightarrow> bool" where
  "line_end c \<longleftrightarrow> code c \<in> {10, 11, 12, 13, 28, 29, 30}"

fun splitlines :: "string \<Rightarrow> string list" where
  "splitlines [] = []"
| "splitlines (c # s) =
     (if c = CHR 0x0D \<and> s \<noteq> [] \<and> hd s = NL then [] # splitlines (tl s)
      else if line_end c then [] # splitlines s
      else (case splitlines s of [] \<Rightarrow> [[c]] | l # ls \<Rightarrow> (c # l) # ls))"

lemma split_on_Nil [simp]: "split_on x s \<noteq> []"
  by (induction x s rule: split_on.induct) (auto split: list.splits)

lemma join_Cons: "join sep (x # xs) = (if xs = [] then x else x @ sep @ join sep xs)"
  by (cases xs) simp_all

lemma join_split: "join [x] (split_on x s) = s"
proof (induction x s rule: split_on.induct)
  case (2 x c s)
  obtain l ls where l: "split_on x s = l # ls" by (cases "split_on x s") auto
  show ?case using 2 l by (auto simp: join_Cons)
qed simp

lemma split_on_free: "x \<notin> set s \<Longrightarrow> split_on x s = [s]"
  by (induction x s rule: split_on.induct) auto

lemma split_on_append: "x \<notin> set b \<Longrightarrow> split_on x (a @ [x] @ b) = split_on x a @ [b]"
proof (induction x a rule: split_on.induct)
  case (1 x)
  then show ?case by (simp add: split_on_free)
next
  case (2 x c s)
  obtain l ls where l: "split_on x s = l # ls" by (cases "split_on x s") auto
  show ?case using 2 l by (cases "c = x") auto
qed

definition hex_digit :: "nat \<Rightarrow> char" where "hex_digit n = (if n < 10 then char_of (48 + n) else char_of (87 + n))"

section \<open>Dates and times\<close>

text \<open>\<open>date.fromordinal\<close>, then \<open>isoformat\<close>; \<open>strftime("%H:%M")\<close>.\<close>

definition year_of :: "date \<Rightarrow> int" where
  "year_of d =
     (let n = d - 1; n400 = n div 146097; r = n mod 146097;
          n100 = min 3 (r div 36524); r1 = r - n100 * 36524;
          n4 = r1 div 1461; r2 = r1 mod 1461; n1 = min 3 (r2 div 365) in
      400 * n400 + 100 * n100 + 4 * n4 + n1 + 1)"

fun month_day :: "int list \<Rightarrow> int \<Rightarrow> int \<Rightarrow> int \<times> int" where
  "month_day [] m d = (m, d)"
| "month_day (l # ls) m d = (if d \<le> l then (m, d) else month_day ls (m + 1) (d - l))"

definition pad :: "nat \<Rightarrow> int \<Rightarrow> string" where
  "pad k n = (let s = show_int n in replicate (k - length s) CHR ''0'' @ s)"

definition isoformat :: "date \<Rightarrow> string" where
  "isoformat d =
     (let y = year_of d; (m, dd) = month_day (month_lengths y) 1 (d - days_before_year y) in
      pad 4 y @ ''-'' @ pad 2 m @ ''-'' @ pad 2 dd)"

definition strftime_hm :: "time \<Rightarrow> string" where
  "strftime_hm t = pad 2 (t div us_of_min 60) @ '':'' @ pad 2 (t div us_of_min 1 mod 60)"

lemma rendering_examples:
  "isoformat 739870 = ''2026-09-11''" "isoformat 736389 = ''2017-03-01''" "isoformat 730179 = ''2000-02-29''" "strftime_hm (hm 9 5) = ''09:05''"
  by code_simp+

end
