(* ===== verification/TC_Spec.thy ===== *)
theory TC_Spec
  imports TC_Json TC_Render
begin

text \<open>
  The Claude jobs as data (tc/jobs/spec.py) and the tools each role may call
  (tc/mcp/registry.py): the verdict models with their validation, the flattening of their
  JSON schemas, the allowlists and the job table. The schemas themselves are pydantic's and are
  an argument of \<open>output_schema\<close>.
\<close>

section \<open>Roles and tools\<close>

datatype role = Research | Decide

definition ROLES :: "role list" where "ROLES = [Research, Decide]"

definition COMMON_TOOLS :: "string list" where "COMMON_TOOLS = [''ping'']"

definition READ_TOOLS :: "string list" where
  "READ_TOOLS =
     [''get_datetime'', ''market_hours'', ''quotes'', ''price_history'', ''option_chain'',
      ''expiration_chain'', ''instruments'', ''movers'', ''status_latest'', ''rules'']"

definition DECIDE_ONLY_READ_TOOLS :: "string list" where "DECIDE_ONLY_READ_TOOLS = [''book'']"

definition ANALYST_TOOLS :: "string list" where
  "ANALYST_TOOLS = [''briefing'', ''pitch_submit'', ''pitch_withdraw'', ''my_record'']"

definition PM_TOOLS :: "string list" where
  "PM_TOOLS =
     [''paper_book'', ''pitches_read'', ''scorecard'', ''option_candidates'', ''call_submit'',
      ''call_extend'', ''call_tighten'', ''exit_request'']"

definition DECIDE_TOOLS :: "string list" where "DECIDE_TOOLS = []"

definition ROLE_TOOLS :: "role \<Rightarrow> string list" where
  "ROLE_TOOLS r =
     (case r of Research \<Rightarrow> COMMON_TOOLS @ READ_TOOLS @ ANALYST_TOOLS
      | Decide \<Rightarrow> COMMON_TOOLS @ READ_TOOLS @ DECIDE_ONLY_READ_TOOLS @ PM_TOOLS @ DECIDE_TOOLS)"

text \<open>The pattern \<open>place|cancel|replace|order\<close>, searched anywhere in a name.\<close>

definition FORBIDDEN :: "string list" where "FORBIDDEN = [''place'', ''cancel'', ''replace'', ''order'']"

definition forbidden_search :: "string \<Rightarrow> bool" where
  "forbidden_search nm = list_ex (\<lambda>w. occurs w nm) FORBIDDEN"

definition forbidden_tools :: "(role \<times> string) list" where
  "forbidden_tools = [(r, nm). r \<leftarrow> ROLES, nm \<leftarrow> ROLE_TOOLS r, forbidden_search nm]"

definition tool_prefix :: string where "tool_prefix = ''mcp__engine__''"

definition tools_for_role :: "role \<Rightarrow> string list \<Rightarrow> exn + string list" where
  "tools_for_role r names =
     bind_e (fold_e (\<lambda>nm u. raise_if (nm \<notin> set (ROLE_TOOLS r)) (KeyError nm)) names ()) (\<lambda>_.
     Inr (map (\<lambda>nm. tool_prefix @ nm) names))"

section \<open>Verdict models\<close>

datatype held_action = Hold | ExitHeld | Tighten

record held_decision =
  hd_symbol :: string
  hd_action :: held_action
  hd_reason :: string

datatype verdict_model = AnalystModel | PmModel | MiddayModel

datatype verdict_value =
    AnalystVerdict "int list" "int list" string \<comment> \<open>pitched, withdrawn, summary\<close>
  | PmVerdict "held_decision list" "int list" string
  | MiddayVerdict "held_decision list" string

fun model_of :: "verdict_value \<Rightarrow> verdict_model" where
  "model_of (AnalystVerdict _ _ _) = AnalystModel"
| "model_of (PmVerdict _ _ _) = PmModel"
| "model_of (MiddayVerdict _ _) = MiddayModel"

text \<open>\<open>_ids\<close>: an object that carries an id stands for the id.\<close>

definition id_of :: "json \<Rightarrow> json" where
  "id_of x = (case jget x ''id'' of Some y \<Rightarrow> y | None \<Rightarrow> x)"

definition ids_before :: "json \<Rightarrow> json" where
  "ids_before v = (case v of JArr xs \<Rightarrow> JArr (map id_of xs) | _ \<Rightarrow> v)"

definition v_action :: "json \<Rightarrow> verr + held_action" where
  "v_action j =
     (if j = JStr ''hold'' then Inr Hold else if j = JStr ''exit'' then Inr ExitHeld
      else if j = JStr ''tighten'' then Inr Tighten else Inl [([], ''literal_error'')])"

definition v_held :: "json \<Rightarrow> verr + held_decision" where
  "v_held = v_model (\<lambda>d. v_forbid [''symbol'', ''action'', ''reason''] d
     (v_ap (v_ap (v_ap (Inr (\<lambda>s a r. \<lparr>hd_symbol = s, hd_action = a, hd_reason = r\<rparr>))
        (v_field ''symbol'' v_str d)) (v_field ''action'' v_action d)) (v_field ''reason'' v_str d)))"

type_synonym int_coercion = "json \<Rightarrow> string + int"

abbreviation v_ints :: "int_coercion \<Rightarrow> json \<Rightarrow> verr + int list" where
  "v_ints co \<equiv> v_list (v_scalar co)"

definition model_validate :: "int_coercion \<Rightarrow> verdict_model \<Rightarrow> json \<Rightarrow> verr + verdict_value" where
  "model_validate co m =
     (case m of
        AnalystModel \<Rightarrow> v_model (\<lambda>d. v_forbid [''pitched'', ''withdrawn'', ''summary''] d
          (v_ap (v_ap (v_ap (Inr AnalystVerdict)
             (v_field ''pitched'' (\<lambda>j. v_ints co (ids_before j)) d))
             (v_field ''withdrawn'' (\<lambda>j. v_ints co (ids_before j)) d)) (v_field ''summary'' v_str d)))
      | PmModel \<Rightarrow> v_model (\<lambda>d. v_forbid [''held'', ''calls'', ''summary''] d
          (v_ap (v_ap (v_ap (Inr PmVerdict) (v_field ''held'' (v_list v_held) d))
             (v_field ''calls'' (v_ints co) d)) (v_field ''summary'' v_str d)))
      | MiddayModel \<Rightarrow> v_model (\<lambda>d. v_forbid [''held'', ''summary''] d
          (v_ap (v_ap (Inr MiddayVerdict) (v_field ''held'' (v_list v_held) d)) (v_field ''summary'' v_str d))))"

text \<open>\<open>model_dump(mode="json")\<close>.\<close>

definition action_text :: "held_action \<Rightarrow> string" where
  "action_text a = (case a of Hold \<Rightarrow> ''hold'' | ExitHeld \<Rightarrow> ''exit'' | Tighten \<Rightarrow> ''tighten'')"

definition dump_held :: "held_decision \<Rightarrow> json" where
  "dump_held h = JObj [(''symbol'', JStr (hd_symbol h)), (''action'', JStr (action_text (hd_action h))), (''reason'', JStr (hd_reason h))]"

definition dump_ints :: "int list \<Rightarrow> json" where "dump_ints ns = JArr (map (\<lambda>n. JNum (of_int n)) ns)"

fun model_dump :: "verdict_value \<Rightarrow> dict" where
  "model_dump (AnalystVerdict p w s) = [(''pitched'', dump_ints p), (''withdrawn'', dump_ints w), (''summary'', JStr s)]"
| "model_dump (PmVerdict h c s) = [(''held'', JArr (map dump_held h)), (''calls'', dump_ints c), (''summary'', JStr s)]"
| "model_dump (MiddayVerdict h s) = [(''held'', JArr (map dump_held h)), (''summary'', JStr s)]"

section \<open>Schemas without references\<close>

definition MAX_REF_DEPTH :: nat where "MAX_REF_DEPTH = 8"

definition removeprefix :: "string \<Rightarrow> string \<Rightarrow> string" where
  "removeprefix p s = (if take (length p) s = p then drop (length p) s else s)"

definition ref_name :: "string \<Rightarrow> string" where "ref_name r = removeprefix ''#/$defs/'' r"

definition ref_of :: "dict \<Rightarrow> string option" where
  "ref_of node = (case map_of node ''$ref'' of Some (JStr r) \<Rightarrow> Some r | _ \<Rightarrow> None)"

text \<open>\<open>{**target, **siblings}\<close>.\<close>

definition spread :: "json \<Rightarrow> dict \<Rightarrow> exn + json" where
  "spread target siblings = (case target of JObj t \<Rightarrow> Inr (JObj (dict_merge t siblings)) | _ \<Rightarrow> Inl TypeError)"

declare map_e_cong [fundef_cong]

function (sequential) inline_ref :: "dict \<Rightarrow> string list \<Rightarrow> json \<Rightarrow> exn + json" where
  "inline_ref defs seen (JObj node) =
     (case ref_of node of
        None \<Rightarrow> bind_e (map_e (\<lambda>kv. bind_e (inline_ref defs seen (snd kv)) (\<lambda>v. Inr (fst kv, v))) node) (\<lambda>kvs. Inr (JObj kvs))
      | Some r \<Rightarrow>
          (let nm = ref_name r in
           case map_of defs nm of
             None \<Rightarrow> Inl ValueError
           | Some body \<Rightarrow>
               if nm = r then Inl ValueError
               else if nm \<in> set seen \<or> length seen \<ge> MAX_REF_DEPTH then Inl ValueError
               else
                 bind_e (inline_ref defs (seen @ [nm]) body) (\<lambda>target.
                 bind_e (map_e (\<lambda>kv. bind_e (inline_ref defs seen (snd kv)) (\<lambda>v. Inr (fst kv, v)))
                           (filter (\<lambda>kv. fst kv \<noteq> ''$ref'') node)) (\<lambda>siblings.
                 spread target siblings))))"
| "inline_ref defs seen (JArr xs) = bind_e (map_e (inline_ref defs seen) xs) (\<lambda>ys. Inr (JArr ys))"
| "inline_ref defs seen j = Inr j"
  by pat_completeness auto
termination
  by (relation "measures [\<lambda>(defs, seen, j). MAX_REF_DEPTH - length seen, \<lambda>(defs, seen, j). size j]")
    (auto dest: size_value simp: less_Suc_eq_le size_list_estimation')

definition output_schema :: "dict \<Rightarrow> exn + json" where
  "output_schema schema =
     (let defs = (case map_of schema ''$defs'' of Some (JObj d) \<Rightarrow> d | _ \<Rightarrow> []) in
      bind_e (inline_ref defs [] (JObj (AList.delete ''$defs'' schema))) (\<lambda>flat.
      bind_e (raise_if (\<not> is_obj flat) AssertionError) (\<lambda>_. Inr flat)))"

section \<open>The job table\<close>

record job_spec =
  js_name :: string
  js_agent :: string
  js_command :: string
  js_prompt :: string
  js_allowed :: "string list"
  js_verdict :: verdict_model
  js_max_turns :: int
  js_timeout_s :: rat
  js_window :: "time \<times> time"
  js_role :: role
  js_noop_when :: "(verdict_value \<Rightarrow> bool) option"
  js_retry_failed_after_s :: "int option"

definition WEB :: "string list" where "WEB = [''WebSearch'', ''WebFetch'']"

definition ANALYST_ALLOW :: "exn + string list" where
  "ANALYST_ALLOW =
     bind_e (tools_for_role Research
       [''get_datetime'', ''market_hours'', ''quotes'', ''price_history'', ''instruments'',
        ''briefing'', ''pitch_submit'', ''pitch_withdraw'', ''my_record'']) (\<lambda>ts. Inr (ts @ WEB))"

definition PM_ALLOW :: "exn + string list" where
  "PM_ALLOW =
     bind_e (tools_for_role Decide
       [''get_datetime'', ''market_hours'', ''quotes'', ''price_history'', ''option_chain'', ''book'',
        ''paper_book'', ''pitches_read'', ''scorecard'', ''option_candidates'', ''call_submit'', ''call_extend'',
        ''call_tighten'', ''exit_request'']) (\<lambda>ts. Inr (ts @ WEB))"

definition EVENING_PROMPT :: string where
  "EVENING_PROMPT =
     ''EVENING PASS. Follow your agent instructions for one evening pass: read '' @
     ''mcp__engine__briefing, file at most five pitches with mcp__engine__pitch_submit, and '' @
     ''never size, fund or trade. Return a single JSON object matching the AnalystVerdict '' @
     ''schema and nothing else.''"

definition PREOPEN_PROMPT :: string where
  "PREOPEN_PROMPT =
     ''PRE-OPEN MODE. It is before the 09:30 open. Read overnight news and pre-market reports '' @
     ''against your open pitches and your briefing. File at most two NEW pitches, and withdraw '' @
     ''any of your own open pitches whose premise broke overnight with '' @
     ''mcp__engine__pitch_withdraw. Return a single JSON object matching the AnalystVerdict '' @
     ''schema and nothing else.''"

definition evening :: "string list \<Rightarrow> string \<Rightarrow> string \<Rightarrow> job_spec" where
  "evening allow name agent =
     \<lparr>js_name = name, js_agent = agent, js_command = ''/desk '' @ name, js_prompt = EVENING_PROMPT,
      js_allowed = allow, js_verdict = AnalystModel, js_max_turns = 40, js_timeout_s = 1500,
      js_window = (hm 16 25, hm 20 0), js_role = Research, js_noop_when = None, js_retry_failed_after_s = None\<rparr>"

definition preopen :: "string list \<Rightarrow> string \<Rightarrow> string \<Rightarrow> job_spec" where
  "preopen allow name agent =
     \<lparr>js_name = name, js_agent = agent, js_command = ''/desk '' @ name, js_prompt = PREOPEN_PROMPT,
      js_allowed = allow, js_verdict = AnalystModel, js_max_turns = 20, js_timeout_s = 600,
      js_window = (hm 7 55, hm 9 0), js_role = Research, js_noop_when = None, js_retry_failed_after_s = None\<rparr>"

definition pm_spec :: "string list \<Rightarrow> job_spec" where
  "pm_spec allow =
     \<lparr>js_name = ''pm'', js_agent = ''pm'', js_command = ''/desk pm'',
      js_prompt =
        ''Follow your agent instructions for the 09:50 run: the book first, then up to '' @
        ''five calls, then funding. Return a single JSON object matching the PmVerdict '' @
        ''schema and nothing else.'',
      js_allowed = allow, js_verdict = PmModel, js_max_turns = 40, js_timeout_s = 900,
      js_window = (hm 9 45, hm 10 30), js_role = Decide, js_noop_when = None, js_retry_failed_after_s = Some 900\<rparr>"

definition midday_spec :: "string list \<Rightarrow> job_spec" where
  "midday_spec allow =
     \<lparr>js_name = ''pm_midday'', js_agent = ''pm'', js_command = ''/desk pm_midday'',
      js_prompt =
        ''MIDDAY MODE. Held positions and today's news only: hold, mcp__engine__exit_request '' @
        ''or mcp__engine__call_tighten. No new calls. Return a single JSON object matching '' @
        ''the MiddayVerdict schema and nothing else.'',
      js_allowed = allow, js_verdict = MiddayModel, js_max_turns = 15, js_timeout_s = 300,
      js_window = (hm 12 25, hm 13 30), js_role = Decide, js_noop_when = None, js_retry_failed_after_s = None\<rparr>"

text \<open>Building the table may raise, at import, where an allowlist names no tool of its role.\<close>

definition JOB_SPECS :: "exn + (string \<times> job_spec) list" where
  "JOB_SPECS =
     bind_e ANALYST_ALLOW (\<lambda>aa. bind_e PM_ALLOW (\<lambda>pa. Inr
      [(''analyst_technical'', evening aa ''analyst_technical'' ''analyst-technical''),
       (''analyst_earnings'', evening aa ''analyst_earnings'' ''analyst-earnings''),
       (''analyst_news'', evening aa ''analyst_news'' ''analyst-news''),
       (''analyst_macro'', evening aa ''analyst_macro'' ''analyst-macro''),
       (''preopen_news'', preopen aa ''preopen_news'' ''analyst-news''),
       (''preopen_earnings'', preopen aa ''preopen_earnings'' ''analyst-earnings''),
       (''pm'', pm_spec pa),
       (''pm_midday'', midday_spec pa)]))"

definition DESK_CHAINS :: "(string \<times> string list) list" where
  "DESK_CHAINS =
     [(''desk_evening'', [''analyst_technical'', ''analyst_earnings'', ''analyst_news'', ''analyst_macro'']),
      (''desk_preopen'', [''preopen_news'', ''preopen_earnings''])]"

definition CHAINED_JOBS :: "string set" where "CHAINED_JOBS = \<Union> (set ` set (map snd DESK_CHAINS))"

section \<open>Flat schemas\<close>

text \<open>No object of the value, at any depth, refers to another.\<close>

fun no_ref :: "json \<Rightarrow> bool" where
  "no_ref (JObj node) = (ref_of node = None \<and> list_all (\<lambda>kv. no_ref (snd kv)) node)"
| "no_ref (JArr xs) = list_all no_ref xs"
| "no_ref j = True"

lemma map_e_Inr: "map_e f xs = Inr ys \<longleftrightarrow> list_all2 (\<lambda>x y. f x = Inr y) xs ys"
  by (induction xs arbitrary: ys) (auto simp: err list_all2_Cons1)

lemma spread_Inr [err]: "spread target siblings = Inr j \<longleftrightarrow> (\<exists>t. target = JObj t \<and> j = JObj (dict_merge t siblings))"
  by (auto simp: spread_def split: json.splits)

lemma inline_str: "inline_ref defs seen j = Inr (JStr s) \<longleftrightarrow> j = JStr s"
  by (cases j) (auto simp: err Let_def split: option.splits if_splits json.splits)

abbreviation inlined :: "dict \<Rightarrow> string list \<Rightarrow> dict \<Rightarrow> dict \<Rightarrow> bool" where
  "inlined defs seen \<equiv> list_all2 (\<lambda>kv kv'. bind_e (inline_ref defs seen (snd kv)) (\<lambda>v. Inr (fst kv, v)) = Inr kv')"

lemma inlined_map_of:
  "inlined defs seen node kvs \<Longrightarrow>
     (case map_of node k of None \<Rightarrow> map_of kvs k = None
      | Some v \<Rightarrow> \<exists>v'. map_of kvs k = Some v' \<and> inline_ref defs seen v = Inr v')"
  by (induction rule: list_all2_induct) (auto simp: err split: option.splits)

lemma inlined_values:
  "inlined defs seen node kvs \<Longrightarrow> (k, v') \<in> set kvs \<Longrightarrow> \<exists>v. (k, v) \<in> set node \<and> inline_ref defs seen v = Inr v'"
  by (induction rule: list_all2_induct) (auto simp: err)

lemma ref_of_None: "ref_of d = None \<longleftrightarrow> (\<forall>r. map_of d ''$ref'' \<noteq> Some (JStr r))"
  by (auto simp: ref_of_def split: option.splits json.splits)

lemma map_of_dict_merge_other: "k \<notin> fst ` set b \<Longrightarrow> map_of (dict_merge a b) k = map_of a k"
  by (induction b arbitrary: a) (auto simp: dict_merge_def)

lemma inline_no_ref: "inline_ref defs seen j = Inr flat \<Longrightarrow> no_ref flat"
proof (induction defs seen j arbitrary: flat rule: inline_ref.induct)
  case (1 defs seen node)
  show ?case
  proof (cases "ref_of node")
    case None
    then obtain kvs where flat: "flat = JObj kvs" and kvs: "inlined defs seen node kvs"
      using "1.prems" by (auto simp: err map_e_Inr)
    have "ref_of kvs = None"
      using inlined_map_of [OF kvs, of "''$ref''"] None by (auto simp: ref_of_None inline_str split: option.splits)
    moreover have "no_ref (snd kv')" if "kv' \<in> set kvs" for kv'
      using inlined_values [OF kvs, of "fst kv'" "snd kv'"] that "1.IH"(1) [OF None] by fastforce
    ultimately show ?thesis by (auto simp: flat list_all_iff)
  next
    case (Some r)
    obtain body t sibs where b: "map_of defs (ref_name r) = Some body" "ref_name r \<noteq> r"
        "\<not> (ref_name r \<in> set seen \<or> length seen \<ge> MAX_REF_DEPTH)"
      and t: "inline_ref defs (seen @ [ref_name r]) body = Inr (JObj t)"
      and sibs: "inlined defs seen (filter (\<lambda>kv. fst kv \<noteq> ''$ref'') node) sibs"
      and flat: "flat = JObj (dict_merge t sibs)"
      using "1.prems" Some
      by (auto simp: err map_e_Inr Let_def split: option.splits if_splits json.splits)
    have nt: "no_ref (JObj t)" using "1.IH"(2) [OF Some refl b(1,2,3) t] .
    have "''$ref'' \<notin> fst ` set sibs" using inlined_values [OF sibs] by fastforce
    then have "ref_of (dict_merge t sibs) = None" using nt by (simp add: ref_of_def map_of_dict_merge_other)
    moreover have "no_ref (snd kv)" if kv: "kv \<in> set (dict_merge t sibs)" for kv
    proof (cases "kv \<in> set t")
      case True
      then show ?thesis using nt by (auto simp: list_all_iff)
    next
      case False
      then have "(fst kv, snd kv) \<in> set sibs" using dict_merge_values [OF kv] by simp
      from inlined_values [OF sibs this] obtain v where
        "(fst kv, v) \<in> set (filter (\<lambda>kv. fst kv \<noteq> ''$ref'') node)" "inline_ref defs seen v = Inr (snd kv)" by auto
      then show ?thesis using "1.IH"(3) [OF Some refl b(1,2,3)] by fastforce
    qed
    ultimately show ?thesis by (auto simp: flat list_all_iff)
  qed
next
  case (2 defs seen xs)
  then obtain ys where "flat = JArr ys" "list_all2 (\<lambda>x y. inline_ref defs seen x = Inr y) xs ys" by (auto simp: err map_e_Inr)
  then show ?case using "2.IH" by (auto simp: list_all_iff list_all2_conv_all_nth in_set_conv_nth) metis
qed simp_all

lemma map_e_id: "(\<And>x. x \<in> set xs \<Longrightarrow> f x = Inr x) \<Longrightarrow> map_e f xs = Inr xs"
  by (induction xs) auto

lemma inline_fixed: "no_ref j \<Longrightarrow> inline_ref defs seen j = Inr j"
proof (induction j rule: no_ref.induct)
  case (1 node)
  then show ?case by (simp add: map_e_id list_all_iff)
next
  case (2 xs)
  then show ?case by (simp add: map_e_id list_all_iff)
qed simp_all

lemma inline_obj: "inline_ref defs seen (JObj node) = Inr j \<Longrightarrow> is_obj j"
  by (auto simp: err is_obj_def Let_def split: option.splits if_splits)

abbreviation ref_to :: "string \<Rightarrow> json" where
  "ref_to nm \<equiv> JObj [(''$ref'', JStr (''#/$defs/'' @ nm))]"

text \<open>A definition that refers to itself, from any of its keys, raises.\<close>

lemma map_e_raises: "x \<in> set xs \<Longrightarrow> f x = Inl e \<Longrightarrow> \<exists>e'. map_e f xs = Inl e'"
proof (induction xs)
  case (Cons y ys)
  then show ?case by (cases "f y") auto
qed simp

lemma inline_raises_value:
  "ref_of node = None \<Longrightarrow> (k, v) \<in> set node \<Longrightarrow> inline_ref defs seen v = Inl e \<Longrightarrow> \<exists>e'. inline_ref defs seen (JObj node) = Inl e'"
  using map_e_raises [of "(k, v)" node "\<lambda>kv. bind_e (inline_ref defs seen (snd kv)) (\<lambda>v. Inr (fst kv, v))" e] by auto

lemma self_reference_raises:
  assumes "map_of defs nm = Some (JObj node)" and "ref_of node = None" and "(k, ref_to nm) \<in> set node"
  shows "\<exists>e. inline_ref defs seen (ref_to nm) = Inl e"
proof -
  let ?r = "''#/$defs/'' @ nm"
  have r: "ref_of [(''$ref'', JStr ?r)] = Some ?r" "ref_name ?r = nm" by (simp_all add: ref_of_def ref_name_def removeprefix_def)
  have again: "\<exists>e. inline_ref defs (seen @ [nm]) (JObj [(''$ref'', JStr ?r)]) = Inl e"
    using assms(1) r by auto
  then have "\<exists>e. inline_ref defs (seen @ [nm]) (JObj node) = Inl e"
    using inline_raises_value [OF assms(2,3)] by blast
  then show ?thesis using assms(1) r by auto
qed

lemma inline_root_keys:
  assumes "ref_of node = None" and "inline_ref defs seen (JObj node) = Inr flat"
  shows "\<exists>kvs. flat = JObj kvs \<and> map fst kvs = map fst node"
proof -
  obtain kvs where kvs: "flat = JObj kvs" "inlined defs seen node kvs" using assms by (auto simp: err map_e_Inr)
  have "map fst kvs = map fst node" using kvs(2) by (induction rule: list_all2_induct) (auto simp: err)
  then show ?thesis using kvs(1) by blast
qed

text \<open>What \<open>output_schema\<close> hands to the runner. Whatever schema pydantic generates, a result is
  an object without a reference at any depth, which a second inlining leaves as it is; keys that
  are no references stay in place at the root, each with its inlined value. When a definition
  refers to itself the build of the schema raises: it neither loops nor leaves a dangling
  reference behind.\<close>

theorem output_schema_flat:
  assumes "output_schema schema = Inr flat"
  shows "no_ref flat \<and> is_obj flat \<and> inline_ref defs seen flat = Inr flat \<and>
    (ref_of (AList.delete ''$defs'' schema) = None \<longrightarrow>
       (\<exists>kvs. flat = JObj kvs \<and> map fst kvs = removeAll ''$defs'' (map fst schema))) \<and>
    (\<forall>defs nm node k. map_of schema ''$defs'' = Some (JObj defs) \<and> ref_of (AList.delete ''$defs'' schema) = None \<and>
       map_of defs nm = Some (JObj node) \<and> ref_of node = None \<and> (k, ref_to nm) \<in> set node \<longrightarrow>
       (\<forall>k'. (k', ref_to nm) \<notin> set (AList.delete ''$defs'' schema)))"
proof -
  define D where "D = (case map_of schema ''$defs'' of Some (JObj d) \<Rightarrow> d | _ \<Rightarrow> [])"
  let ?root = "AList.delete ''$defs'' schema"
  have flat: "inline_ref D [] (JObj ?root) = Inr flat" and obj: "is_obj flat"
    using assms unfolding output_schema_def Let_def D_def [symmetric] by (auto simp: err)
  note nr = inline_no_ref [OF flat]
  have keys: "\<exists>kvs. flat = JObj kvs \<and> map fst kvs = removeAll ''$defs'' (map fst schema)" if "ref_of ?root = None"
    using inline_root_keys [OF that flat] by (simp add: AList.delete_keys)
  have "False" if "map_of schema ''$defs'' = Some (JObj defs)" "ref_of ?root = None" "map_of defs nm = Some (JObj node)" "ref_of node = None"
      "(k, ref_to nm) \<in> set node" "(k', ref_to nm) \<in> set ?root"
    for defs nm node k k'
  proof -
    have "D = defs" using that(1) by (simp add: D_def)
    with self_reference_raises [OF that(3,4,5)] inline_raises_value [OF that(2,6)] flat show False by (metis Inl_Inr_False)
  qed
  then show ?thesis using nr obj inline_fixed [OF nr] keys by blast
qed

definition demo_schema :: dict where
  "demo_schema =
     [(''$defs'', JObj [(''HeldDecision'', JObj [(''type'', JStr ''object''), (''note'', JArr [JNum 1])])]),
      (''items'', JArr [ref_to ''HeldDecision'', JNull]), (''type'', JStr ''object'')]"

definition demo_flat :: json where
  "demo_flat = JObj [(''items'', JArr [JObj [(''type'', JStr ''object''), (''note'', JArr [JNum 1])], JNull]), (''type'', JStr ''object'')]"

theorem output_schema_flat_witness:
  "output_schema demo_schema = Inr demo_flat \<and> no_ref demo_flat \<and> inline_ref [] [] demo_flat = Inr demo_flat"
proof -
  have "output_schema demo_schema = Inr demo_flat" by code_simp
  then show ?thesis using output_schema_flat [of demo_schema demo_flat] inline_fixed by blast
qed

section \<open>Verdicts survive their rendering\<close>

lemma action_text_back: "v_action (JStr (action_text a)) = Inr a"
  by (cases a) (simp_all add: v_action_def action_text_def)

lemma held_back: "v_held (dump_held h) = Inr h"
  by (simp add: v_held_def dump_held_def vd action_text_back)

lemma held_list_back: "v_list v_held (JArr (map dump_held hs)) = Inr hs"
  by (simp add: vd list_all2_map1 held_back list_all2_same)

lemma ids_back:
  assumes "\<forall>n. co (JNum (of_int n)) = Inr n"
  shows "v_ints co (dump_ints ns) = Inr ns" "ids_before (dump_ints ns) = dump_ints ns"
  using assms by (simp_all add: vd dump_ints_def list_all2_map1 list_all2_same ids_before_def id_of_def)

lemma model_of_validated: "model_validate co m j = Inr v \<Longrightarrow> model_of v = m"
  by (cases m) (auto simp: model_validate_def vd)

lemma dump_back:
  assumes "\<forall>n. co (JNum (of_int n)) = Inr n"
  shows "model_validate co (model_of v) (JObj (model_dump v)) = Inr v"
  by (cases v) (simp_all add: model_validate_def v_forward ids_back [OF assms] held_list_back)

text \<open>C37: verdicts survive their rendering. With a coercion that takes an integral number for itself, a
  validated answer has the class it was validated against, and its \<open>model_dump\<close> (the detail of
  the job's row) validates again to the same verdict; an analyst's answer that echoes each pitch
  as an object with its id validates to the same verdict as the plain ids.\<close>

theorem verdict_roundtrip:
  assumes "\<forall>n. co (JNum (of_int n)) = Inr n" and "model_validate co m j = Inr v"
  shows "model_of v = m \<and> model_validate co m (JObj (model_dump v)) = Inr v \<and>
    (\<forall>p w s extra. model_validate co AnalystModel (JObj [(''pitched'', JArr (map (\<lambda>n. JObj [(''id'', JNum (of_int n)), (''symbol'', JStr (extra n))]) p)),
       (''withdrawn'', dump_ints w), (''summary'', JStr s)]) = Inr (AnalystVerdict p w s))"
proof -
  have echo: "ids_before (JArr (map (\<lambda>n. JObj [(''id'', JNum (of_int n)), (''symbol'', JStr (extra n))]) p)) = dump_ints p" for p extra
    by (simp add: ids_before_def id_of_def dump_ints_def)
  have "model_validate co AnalystModel (JObj [(''pitched'', JArr (map (\<lambda>n. JObj [(''id'', JNum (of_int n)), (''symbol'', JStr (extra n))]) p)),
       (''withdrawn'', dump_ints w), (''summary'', JStr s)]) = Inr (AnalystVerdict p w s)" for p w s extra
    by (simp add: model_validate_def v_forward echo ids_back [OF assms(1)])
  then show ?thesis using dump_back [OF assms(1), of v] model_of_validated [OF assms(2)] by simp
qed

text \<open>A coercion that takes integral numbers only.\<close>

definition int_only :: int_coercion where
  "int_only j = (case j of JNum x \<Rightarrow> if of_int \<lfloor>x\<rfloor> = x then Inr \<lfloor>x\<rfloor> else Inl ''int_from_float'' | _ \<Rightarrow> Inl ''int_type'')"

lemma int_only_of_int: "\<forall>n. int_only (JNum (of_int n)) = Inr n"
  by (simp add: int_only_def)

definition demo_analyst :: json where
  "demo_analyst = JObj [(''pitched'', JArr [JNum 41, JObj [(''id'', JNum 42), (''symbol'', JStr ''AMD'')]]), (''withdrawn'', JArr []),
     (''summary'', JStr ''two pitches'')]"

theorem verdict_roundtrip_witness:
  "model_validate int_only AnalystModel (JObj (model_dump (AnalystVerdict [41, 42] [] ''two pitches''))) = Inr (AnalystVerdict [41, 42] [] ''two pitches'')"
proof -
  have "model_validate int_only AnalystModel demo_analyst = Inr (AnalystVerdict [41, 42] [] ''two pitches'')" by code_simp
  from verdict_roundtrip [OF int_only_of_int this] show ?thesis by blast
qed

section \<open>What a job may call\<close>

lemma tools_for_role_Inr:
  "tools_for_role r names = Inr ts \<longleftrightarrow> set names \<subseteq> set (ROLE_TOOLS r) \<and> ts = map (\<lambda>nm. tool_prefix @ nm) names"
proof -
  have "fold_e (\<lambda>nm u. raise_if (nm \<notin> set (ROLE_TOOLS r)) (KeyError nm)) names () = Inr u \<longleftrightarrow> set names \<subseteq> set (ROLE_TOOLS r)" for u
    by (induction names) (auto simp: err)
  then show ?thesis by (auto simp: tools_for_role_def err)
qed

text \<open>\<open>JOB_SPECS[job]\<close>.\<close>

definition job_spec_of :: "string \<Rightarrow> exn + job_spec" where
  "job_spec_of job = bind_e JOB_SPECS (\<lambda>specs. the_or (KeyError job) (map_of specs job))"

text \<open>Read off the table: name by name.\<close>

definition spec_sound :: "job_spec \<Rightarrow> bool" where
  "spec_sound s \<longleftrightarrow>
     list_all (\<lambda>t. t \<in> set WEB \<or> t \<in> (\<lambda>nm. tool_prefix @ nm) ` set (ROLE_TOOLS (js_role s)) \<and> \<not> forbidden_search t) (js_allowed s) \<and>
     (js_verdict s = AnalystModel \<longleftrightarrow> js_role s = Research) \<and>
     0 \<le> fst (js_window s) \<and> fst (js_window s) < snd (js_window s) \<and> snd (js_window s) < DAY_US \<and>
     js_noop_when s = None \<and>
     (\<forall>w. js_retry_failed_after_s s = Some w \<longrightarrow> js_name s = ''pm'' \<and> 0 < w \<and> us_of_s w \<le> snd (js_window s) - fst (js_window s))"

lemma ALLOWS:
  "ANALYST_ALLOW = Inr (map (\<lambda>nm. tool_prefix @ nm)
       [''get_datetime'', ''market_hours'', ''quotes'', ''price_history'', ''instruments'',
        ''briefing'', ''pitch_submit'', ''pitch_withdraw'', ''my_record''] @ WEB)"
  "PM_ALLOW = Inr (map (\<lambda>nm. tool_prefix @ nm)
       [''get_datetime'', ''market_hours'', ''quotes'', ''price_history'', ''option_chain'', ''book'',
        ''paper_book'', ''pitches_read'', ''scorecard'', ''option_candidates'', ''call_submit'', ''call_extend'',
        ''call_tighten'', ''exit_request''] @ WEB)"
  by code_simp+

lemma analyst_allow_sound:
  "ANALYST_ALLOW = Inr aa \<Longrightarrow> list_all (\<lambda>t. t \<in> set WEB \<or> t \<in> (\<lambda>nm. tool_prefix @ nm) ` set (ROLE_TOOLS Research) \<and> \<not> forbidden_search t) aa"
  unfolding ALLOWS by (auto simp only: sum.inject) code_simp

lemma pm_allow_sound:
  "PM_ALLOW = Inr aa \<Longrightarrow> list_all (\<lambda>t. t \<in> set WEB \<or> t \<in> (\<lambda>nm. tool_prefix @ nm) ` set (ROLE_TOOLS Decide) \<and> \<not> forbidden_search t) aa"
  unfolding ALLOWS by (auto simp only: sum.inject) code_simp

lemma no_forbidden_tools: "forbidden_tools = []"
  by code_simp

lemma job_specs_sound:
  obtains specs where "JOB_SPECS = Inr specs" and "list_all (\<lambda>(nm, s). js_name s = nm \<and> spec_sound s) specs"
    and "map fst specs = concat (map snd DESK_CHAINS) @ [''pm'', ''pm_midday'']"
proof -
  obtain aa pa where aa: "ANALYST_ALLOW = Inr aa" and pa: "PM_ALLOW = Inr pa" using ALLOWS by blast
  have e: "spec_sound (evening aa nm ag)" "spec_sound (preopen aa nm ag)" for nm ag
    using analyst_allow_sound [OF aa] by (simp_all add: spec_sound_def evening_def preopen_def us_defs)
  have p: "spec_sound (pm_spec pa)" "spec_sound (midday_spec pa)"
    using pm_allow_sound [OF pa] by (simp_all add: spec_sound_def pm_spec_def midday_spec_def us_defs)
  have n: "js_name (evening aa nm ag) = nm" "js_name (preopen aa nm ag) = nm" "js_name (pm_spec pa) = ''pm''"
    "js_name (midday_spec pa) = ''pm_midday''" for nm ag
    by (simp_all add: evening_def preopen_def pm_spec_def midday_spec_def)
  have "JOB_SPECS = Inr
      [(''analyst_technical'', evening aa ''analyst_technical'' ''analyst-technical''), (''analyst_earnings'', evening aa ''analyst_earnings'' ''analyst-earnings''),
       (''analyst_news'', evening aa ''analyst_news'' ''analyst-news''), (''analyst_macro'', evening aa ''analyst_macro'' ''analyst-macro''),
       (''preopen_news'', preopen aa ''preopen_news'' ''analyst-news''), (''preopen_earnings'', preopen aa ''preopen_earnings'' ''analyst-earnings''),
       (''pm'', pm_spec pa), (''pm_midday'', midday_spec pa)]"
    by (simp add: JOB_SPECS_def aa pa)
  then show thesis by (rule that) (simp_all add: e p n DESK_CHAINS_def)
qed

lemma spec_of_job:
  assumes "job_spec_of job = Inr spec"
  shows "js_name spec = job \<and> spec_sound spec"
proof (rule job_specs_sound)
  fix sp
  assume sp: "JOB_SPECS = Inr sp" "list_all (\<lambda>(nm, s). js_name s = nm \<and> spec_sound s) sp"
  have "map_of sp job = Some spec" using assms unfolding job_spec_of_def sp(1) by (simp add: err)
  then show ?thesis using sp(2) by (auto simp: list_all_iff dest!: map_of_SomeD)
qed

lemma chained_name: "(c, jobs) \<in> set DESK_CHAINS \<Longrightarrow> j \<in> set jobs \<Longrightarrow> j \<in> set (concat (map snd DESK_CHAINS))"
  by force

text \<open>The job table. It builds; every job's allowlist holds only web tools and tools of its own
  role, none of them order-shaped (nor is any tool of any role); analysts and only analysts have
  the research role; every window lies within one day, only the PM is retried, and its wait fits
  its window; every chained job has a specification, no job is chained twice, and the PM's runs
  are not chained.\<close>

theorem job_table_sound:
  "forbidden_tools = [] \<and>
   (\<exists>specs. JOB_SPECS = Inr specs \<and> list_all (\<lambda>(nm, s). js_name s = nm \<and> spec_sound s) specs \<and> distinct (map fst specs) \<and>
      list_all (\<lambda>(c, jobs). list_all (\<lambda>j. map_of specs j \<noteq> None) jobs) DESK_CHAINS) \<and>
   distinct (concat (map snd DESK_CHAINS)) \<and> ''pm'' \<notin> CHAINED_JOBS \<and> ''pm_midday'' \<notin> CHAINED_JOBS"
proof -
  obtain specs where s: "JOB_SPECS = Inr specs" "list_all (\<lambda>(nm, s). js_name s = nm \<and> spec_sound s) specs"
      "map fst specs = concat (map snd DESK_CHAINS) @ [''pm'', ''pm_midday'']"
    by (rule job_specs_sound)
  have d: "distinct (map fst specs)" unfolding s(3) by (simp add: DESK_CHAINS_def)
  have "map_of specs j \<noteq> None" if "(c, jobs) \<in> set DESK_CHAINS" "j \<in> set jobs" for c jobs j
  proof -
    have "j \<in> set (map fst specs)" unfolding s(3) using chained_name [OF that] by (simp only: set_append Un_iff simp_thms)
    then show ?thesis by (simp add: map_of_eq_None_iff)
  qed
  then have "list_all (\<lambda>(c, jobs). list_all (\<lambda>j. map_of specs j \<noteq> None) jobs) DESK_CHAINS"
    unfolding list_all_iff by blast
  moreover have "distinct (concat (map snd DESK_CHAINS)) \<and> ''pm'' \<notin> CHAINED_JOBS \<and> ''pm_midday'' \<notin> CHAINED_JOBS"
    by (simp add: DESK_CHAINS_def CHAINED_JOBS_def)
  ultimately show ?thesis using no_forbidden_tools s(1,2) d by blast
qed

end
