(* ===== verification/TC_Dispatch.thy ===== *)
theory TC_Dispatch
  imports TC_Spec TC_Ledger
begin

text \<open>
  Dispatching a Claude job (tc/jobs/dispatch.py): the request to the runner, the reading of its
  reply, the classification of a run, and the execution of a job with its window, its wait for a
  busy runner, the one retry of a failed PM run and the message relayed.

  The world outside is a parameter: an operation takes and returns a world of any type \<open>'w\<close>, on
  which the runner's HTTP surface, the clock, the sleep and the channel act. A run of the runner may
  thus change anything (the MCP tools it calls back into). Pydantic's scalar coercions and schemas,
  and the position-wise JSON decoder, are parameters too. Messages are ASCII: the em dash between
  the clauses of a reason is a hyphen.
\<close>

section \<open>Operations on a world that may raise\<close>

type_synonym ('w, 'a) act = "'w \<Rightarrow> (exn + 'a) \<times> 'w"

definition ret_w :: "'a \<Rightarrow> ('w, 'a) act" where "ret_w x w = (Inr x, w)"

definition bind_w :: "('w, 'a) act \<Rightarrow> ('a \<Rightarrow> ('w, 'b) act) \<Rightarrow> ('w, 'b) act" where
  "bind_w m f w = (case m w of (Inl e, w1) \<Rightarrow> (Inl e, w1) | (Inr x, w1) \<Rightarrow> f x w1)"

definition pure_w :: "exn + 'a \<Rightarrow> ('w, 'a) act" where "pure_w x w = (x, w)"

text \<open>An effect that does not raise, with and without a result.\<close>

definition read_w :: "('w \<Rightarrow> 'a \<times> 'w) \<Rightarrow> ('w, 'a) act" where "read_w f w = (case f w of (x, w1) \<Rightarrow> (Inr x, w1))"
definition do_w :: "('w \<Rightarrow> 'w) \<Rightarrow> ('w, unit) act" where "do_w f w = (Inr (), f w)"

section \<open>What the runner answers\<close>

record run_result =
  rr_verdict_raw :: "dict option"
  rr_text :: "string option"
  rr_is_error :: bool
  rr_subtype :: "string option"
  rr_num_turns :: int
  rr_denials :: "dict list"
  rr_usage :: dict
  rr_duration_s :: rat
  rr_timed_out :: bool

record runner_reply =
  rp_result :: "run_result option"
  rp_error :: "string option"
  rp_busy :: bool

record coercions =
  co_int :: "json \<Rightarrow> string + int"
  co_float :: "json \<Rightarrow> string + rat"
  co_bool :: "json \<Rightarrow> string + bool"

text \<open>\<open>RunResultView.model_validate\<close>: every field has a default and extra keys are ignored.\<close>

definition run_result_view :: "coercions \<Rightarrow> json \<Rightarrow> verr + run_result" where
  "run_result_view co = v_model (\<lambda>d.
     v_ap (v_ap (v_ap (v_ap (v_ap (v_ap (v_ap (v_ap (v_ap (Inr run_result.make)
       (v_default ''verdict_raw'' (v_opt v_dict) None d))
       (v_default ''result_text'' (v_opt v_str) None d))
       (v_default ''is_error'' (v_scalar (co_bool co)) True d))
       (v_default ''subtype'' (v_opt v_str) None d))
       (v_default ''num_turns'' (v_scalar (co_int co)) 0 d))
       (v_default ''permission_denials'' (v_list v_dict) [] d))
       (v_default ''usage'' v_dict [] d))
       (v_default ''duration_s'' (v_scalar (co_float co)) 0 d))
       (v_default ''timed_out'' (v_scalar (co_bool co)) False d))"

definition reply_busy :: runner_reply where "reply_busy = \<lparr>rp_result = None, rp_error = None, rp_busy = True\<rparr>"
definition reply_error :: "string \<Rightarrow> runner_reply" where "reply_error c = \<lparr>rp_result = None, rp_error = Some c, rp_busy = False\<rparr>"
definition reply_result :: "run_result \<Rightarrow> runner_reply" where "reply_result r = \<lparr>rp_result = Some r, rp_error = None, rp_busy = False\<rparr>"

section \<open>The client of the runner\<close>

record runner_client =
  rc_base :: "string option"
  rc_token :: "string option"
  rc_slack_s :: rat
  rc_connect_timeout_s :: rat
  rc_role_tokens :: "(role \<times> string) list"

definition rstrip_slash :: "string \<Rightarrow> string" where
  "rstrip_slash s = rev (dropWhile (\<lambda>c. c = CHR ''/'') (rev s))"

definition nonempty :: "'a list option \<Rightarrow> bool" where
  "nonempty x = (case x of None \<Rightarrow> False | Some s \<Rightarrow> s \<noteq> [])"

definition make_client :: "string option \<Rightarrow> string option \<Rightarrow> rat \<Rightarrow> rat \<Rightarrow> string option \<Rightarrow> (role \<times> string) list \<Rightarrow> runner_client" where
  "make_client base tok slack connect role_token role_tokens =
     (let given = filter (\<lambda>(_, v). v \<noteq> []) role_tokens in
      \<lparr>rc_base = (if nonempty base then Some (rstrip_slash (the base)) else None), rc_token = tok, rc_slack_s = slack,
       rc_connect_timeout_s = connect,
       rc_role_tokens = (if nonempty role_token \<and> map_of given Research = None then given @ [(Research, the role_token)] else given)\<rparr>)"

definition configured :: "runner_client \<Rightarrow> bool" where
  "configured rc \<longleftrightarrow> nonempty (rc_base rc) \<and> nonempty (rc_token rc)"

definition token_for :: "runner_client \<Rightarrow> role \<Rightarrow> string option" where
  "token_for rc r = map_of (rc_role_tokens rc) r"

record run_request =
  rq_url :: string
  rq_bearer :: string
  rq_read_timeout :: rat
  rq_connect_timeout :: rat
  rq_job :: string
  rq_prompt :: string
  rq_allowed :: "string list"
  rq_role :: role
  rq_role_token :: string
  rq_schema :: json
  rq_max_turns :: int
  rq_timeout_s :: rat
  rq_agent :: string

text \<open>An exception of the HTTP library by its class, or a status and what \<open>r.json()\<close> makes of the body.\<close>

datatype http_reply = HttpFail string | HttpReply int "string + json"

datatype run_notice = RunMissedBusy string | RunFailed string verdict string | RunSummary string string

record 'w run_world =
  rw_post_run :: "run_request \<Rightarrow> 'w \<Rightarrow> http_reply \<times> 'w"
  rw_get_health :: "string \<Rightarrow> 'w \<Rightarrow> http_reply \<times> 'w"
  rw_clock :: "'w \<Rightarrow> instant \<times> 'w"
  rw_sleep :: "rat \<Rightarrow> 'w \<Rightarrow> 'w"
  rw_post :: "run_notice \<Rightarrow> 'w \<Rightarrow> 'w"

record run_env =
  re_client :: runner_client
  re_zone :: zone
  re_busy_retry_s :: rat
  re_co :: coercions
  re_schema :: "verdict_model \<Rightarrow> dict" \<comment> \<open>\<open>model_json_schema()\<close>\<close>
  re_decode :: "string \<Rightarrow> nat \<Rightarrow> json option" \<comment> \<open>\<open>JSONDecoder().raw_decode(text, index)\<close>\<close>
  re_str :: "json \<Rightarrow> string" \<comment> \<open>\<open>str\<close> of a number or an object\<close>

definition health :: "run_env \<Rightarrow> 'w run_world \<Rightarrow> 'w \<Rightarrow> bool \<times> 'w" where
  "health env rw w =
     (case rc_base (re_client env) of None \<Rightarrow> (False, w)
      | Some base \<Rightarrow>
          (case rw_get_health rw (base @ ''/health'') w of
             (HttpFail _, w1) \<Rightarrow> (False, w1)
           | (HttpReply status body, w1) \<Rightarrow>
               (status = 200 \<and> (case body of Inl _ \<Rightarrow> False | Inr j \<Rightarrow> (case jget j ''ok'' of None \<Rightarrow> False | Some v \<Rightarrow> truthy v)), w1)))"

definition run_payload :: "run_env \<Rightarrow> job_spec \<Rightarrow> string \<Rightarrow> string \<Rightarrow> string \<Rightarrow> exn + run_request" where
  "run_payload env spec extra base tok =
     bind_e (output_schema (re_schema env (js_verdict spec))) (\<lambda>schema.
     Inr \<lparr>rq_url = base @ ''/run'', rq_bearer = tok,
          rq_read_timeout = js_timeout_s spec + rc_slack_s (re_client env), rq_connect_timeout = rc_connect_timeout_s (re_client env),
          rq_job = js_name spec,
          rq_prompt = (if extra = [] then js_prompt spec else js_prompt spec @ [CHR 0x0A, CHR 0x0A] @ extra),
          rq_allowed = js_allowed spec, rq_role = js_role spec,
          rq_role_token = (case token_for (re_client env) (js_role spec) of None \<Rightarrow> [] | Some t \<Rightarrow> t),
          rq_schema = schema, rq_max_turns = js_max_turns spec, rq_timeout_s = js_timeout_s spec, rq_agent = js_agent spec\<rparr>)"

definition read_reply :: "coercions \<Rightarrow> http_reply \<Rightarrow> runner_reply" where
  "read_reply co r =
     (case r of HttpFail c \<Rightarrow> reply_error c
      | HttpReply status body \<Rightarrow>
          if status = 409 then reply_busy
          else if \<not> (200 \<le> status \<and> status < 300) then reply_error (''HTTP '' @ show_int status)
          else (case body of Inl c \<Rightarrow> reply_error c
                | Inr j \<Rightarrow> (case run_result_view co j of Inl _ \<Rightarrow> reply_error ''ValidationError'' | Inr res \<Rightarrow> reply_result res)))"

definition runner_run :: "run_env \<Rightarrow> 'w run_world \<Rightarrow> job_spec \<Rightarrow> string \<Rightarrow> ('w, runner_reply) act" where
  "runner_run env rw spec extra =
     (case (rc_base (re_client env), rc_token (re_client env)) of
        (Some base, Some tok) \<Rightarrow>
          bind_w (pure_w (run_payload env spec extra base tok)) (\<lambda>q.
          bind_w (read_w (rw_post_run rw q)) (\<lambda>r. ret_w (read_reply (re_co env) r)))
      | _ \<Rightarrow> ret_w (reply_error ''no runner configured''))"

section \<open>Reading a run\<close>

definition MAX_TEXT :: nat where "MAX_TEXT = 200"
definition MAX_ERRORS :: nat where "MAX_ERRORS = 5"
definition SUMMARY_JOBS :: "string set" where "SUMMARY_JOBS = {''pm'', ''pm_midday''}"
definition FAILED_VERDICTS :: "verdict set" where "FAILED_VERDICTS = {VContentFailed, VFailed, VTimeout}"

definition one_line :: "string option \<Rightarrow> string" where
  "one_line t = take MAX_TEXT (join '' '' (split_ws (case t of None \<Rightarrow> [] | Some s \<Rightarrow> s)))"

fun first_some :: "('a \<Rightarrow> 'b option) \<Rightarrow> 'a list \<Rightarrow> 'b option" where
  "first_some f [] = None"
| "first_some f (x # xs) = (case f x of None \<Rightarrow> first_some f xs | Some y \<Rightarrow> Some y)"

definition fence :: string where "fence = replicate 3 (CHR 0x60)"

definition validates_at :: "run_env \<Rightarrow> verdict_model \<Rightarrow> string \<Rightarrow> nat \<Rightarrow> verdict_value option" where
  "validates_at env m text i =
     (case re_decode env text i of
        Some (JObj d) \<Rightarrow> (case model_validate (co_int (re_co env)) m (JObj d) of Inl _ \<Rightarrow> None | Inr v \<Rightarrow> Some v)
      | _ \<Rightarrow> None)"

definition recover_verdict_from_text :: "run_env \<Rightarrow> string \<Rightarrow> verdict_model \<Rightarrow> verdict_value option" where
  "recover_verdict_from_text env text m =
     (let cleaned = remove_all fence (remove_all (fence @ ''json'') text);
          positions = filter (\<lambda>i. cleaned ! i = CHR 0x7B) [0..<length cleaned] in
      first_some (validates_at env m cleaned) (rev positions))"

definition validation_errors :: "verr \<Rightarrow> string list" where
  "validation_errors es =
     map (\<lambda>(loc, ty). (let l = join ''.'' loc in if l = [] then ''<root>'' else l) @ '': '' @ ty) (take MAX_ERRORS es)"

definition opt_json :: "string option \<Rightarrow> json" where
  "opt_json x = (case x of None \<Rightarrow> JNull | Some s \<Rightarrow> JStr s)"

definition answered :: "job_spec \<Rightarrow> verdict_value \<Rightarrow> dict \<Rightarrow> verdict \<times> verdict_value option \<times> dict" where
  "answered spec v detail =
     (case js_noop_when spec of None \<Rightarrow> (VDone, Some v, detail)
      | Some p \<Rightarrow> if p v then (VNoop, Some v, detail) else (VDone, Some v, detail))"

definition classify :: "run_env \<Rightarrow> job_spec \<Rightarrow> runner_reply \<Rightarrow> verdict \<times> verdict_value option \<times> dict" where
  "classify env spec reply =
     (if rp_busy reply then (VNoop, None, [(''skipped'', JStr ''runner busy'')])
      else
        (case rp_error reply of
           Some c \<Rightarrow> (VFailed, None, [(''error'', JStr c)])
         | None \<Rightarrow>
             (case rp_result reply of
                None \<Rightarrow> (VFailed, None, [(''error'', JStr ''no result'')])
              | Some res \<Rightarrow>
                  if rr_timed_out res
                  then (VTimeout, None, [(''duration_s'', JNum (rr_duration_s res)), (''budget_s'', JNum (js_timeout_s spec))])
                  else if rr_is_error res
                  then (VFailed, None, [(''subtype'', opt_json (rr_subtype res)), (''denials'', JNum (of_nat (length (rr_denials res)))),
                                        (''text'', JStr (one_line (rr_text res)))])
                  else
                    (case rr_verdict_raw res of
                       None \<Rightarrow>
                         (case (if nonempty (rr_text res) then recover_verdict_from_text env (the (rr_text res)) (js_verdict spec) else None) of
                            Some v \<Rightarrow> answered spec v (dict_merge (model_dump v) [(''verdict_source'', JStr ''text'')])
                          | None \<Rightarrow> (VContentFailed, None, [(''reason'', JStr ''no structured output''), (''text'', JStr (one_line (rr_text res)))]))
                     | Some raw \<Rightarrow>
                         (case model_validate (co_int (re_co env)) (js_verdict spec) (JObj raw) of
                            Inl es \<Rightarrow> (VContentFailed, None, [(''reason'', JStr ''verdict did not validate''),
                                                              (''errors'', JArr (map JStr (validation_errors es)))])
                          | Inr v \<Rightarrow> answered spec v (model_dump v))))))"

section \<open>Rendering\<close>

text \<open>\<open>repr\<close> of an ASCII string, and \<open>str\<close> of the values a detail holds.\<close>

definition repr_char :: "char \<Rightarrow> char \<Rightarrow> string" where
  "repr_char q c =
     (if c = q \<or> c = CHR 0x5C then [CHR 0x5C, c]
      else if c = CHR 0x0A then [CHR 0x5C, CHR ''n''] else if c = CHR 0x0D then [CHR 0x5C, CHR ''r'']
      else if c = CHR 0x09 then [CHR 0x5C, CHR ''t'']
      else if code c < 32 \<or> code c = 127 then [CHR 0x5C, CHR ''x'', hex_digit (code c div 16), hex_digit (code c mod 16)]
      else [c])"

definition py_repr :: "string \<Rightarrow> string" where
  "py_repr s =
     (let q = (if CHR 0x27 \<in> set s \<and> CHR 0x22 \<notin> set s then CHR 0x22 else CHR 0x27) in
      [q] @ concat (map (repr_char q) s) @ [q])"

definition py_str :: "run_env \<Rightarrow> json \<Rightarrow> string" where
  "py_str env j =
     (case j of JStr s \<Rightarrow> s
      | JArr xs \<Rightarrow> ''['' @ join '', '' (map (\<lambda>x. case x of JStr s \<Rightarrow> py_repr s | _ \<Rightarrow> re_str env x) xs) @ '']''
      | JNull \<Rightarrow> ''None'' | JBool b \<Rightarrow> (if b then ''True'' else ''False'') | _ \<Rightarrow> re_str env j)"

definition num_of :: "json option \<Rightarrow> rat" where
  "num_of x = (case x of Some (JNum r) \<Rightarrow> r | _ \<Rightarrow> 0)"

definition reason :: "run_env \<Rightarrow> dict \<Rightarrow> string" where
  "reason env detail =
     (let parts = [py_str env v. k \<leftarrow> [''error'', ''reason'', ''subtype'', ''errors'', ''text''], v \<leftarrow> (case map_of detail k of None \<Rightarrow> [] | Some v \<Rightarrow> [v]), truthy v];
          parts2 = (if parts = [] \<and> map_of detail ''duration_s'' \<noteq> None
                    then [show_int (half_even (num_of (map_of detail ''duration_s''))) @ ''s of '' @
                          show_int (half_even (num_of (map_of detail ''budget_s''))) @ ''s'']
                    else parts);
          r = take MAX_TEXT (join '' - '' parts2) in
      if r = [] then ''no detail'' else r)"

definition prompt_extra :: "date \<Rightarrow> string" where
  "prompt_extra day = ''Today''  @ [CHR 0x27] @ ''s date is '' @ isoformat day @ '' (Eastern).''"

section \<open>Executing a job\<close>

text \<open>Seconds of a local-time difference.\<close>

definition seconds :: "int \<Rightarrow> rat" where "seconds us = of_int us / 1000000"

definition busy_tries :: "run_env \<Rightarrow> job_spec \<Rightarrow> wall \<Rightarrow> nat" where
  "busy_tries env spec et =
     nat (max 0 \<lfloor>seconds (combine (date_of et) (snd (js_window spec)) - et) / re_busy_retry_s env\<rfloor>)"

fun wait_loop :: "run_env \<Rightarrow> 'w run_world \<Rightarrow> job_spec \<Rightarrow> string \<Rightarrow> nat \<Rightarrow> runner_reply \<Rightarrow> ('w, runner_reply) act" where
  "wait_loop env rw spec extra 0 reply = ret_w reply"
| "wait_loop env rw spec extra (Suc n) reply =
     bind_w (do_w (rw_sleep rw (re_busy_retry_s env))) (\<lambda>_.
     bind_w (runner_run env rw spec extra) (\<lambda>r.
     if \<not> rp_busy r then ret_w r else wait_loop env rw spec extra n r))"

definition wait_out_busy :: "run_env \<Rightarrow> 'w run_world \<Rightarrow> job_spec \<Rightarrow> wall \<Rightarrow> string \<Rightarrow> ('w, runner_reply) act" where
  "wait_out_busy env rw spec et extra = wait_loop env rw spec extra (busy_tries env spec et) reply_busy"

definition run_with_busy_wait :: "run_env \<Rightarrow> 'w run_world \<Rightarrow> job_spec \<Rightarrow> wall \<Rightarrow> string \<Rightarrow> ('w, runner_reply) act" where
  "run_with_busy_wait env rw spec et extra =
     bind_w (runner_run env rw spec extra) (\<lambda>r.
     if rp_busy r then wait_out_busy env rw spec et extra else ret_w r)"

definition relay :: "run_env \<Rightarrow> 'w run_world \<Rightarrow> job_spec \<Rightarrow> verdict \<Rightarrow> verdict_value option \<Rightarrow> dict \<Rightarrow> date \<Rightarrow> 'w \<Rightarrow> 'w" where
  "relay env rw spec v m detail day w =
     (if v \<in> FAILED_VERDICTS then rw_post rw (RunFailed (js_name spec) v (reason env detail)) w
      else if m = None then w
      else if v = VDone \<and> js_name spec \<in> SUMMARY_JOBS then
        (let summary = strip (case map_of detail ''summary'' of None \<Rightarrow> [] | Some x \<Rightarrow> py_str env x) in
         if summary \<noteq> [] then rw_post rw (RunSummary summary (isoformat day)) w else w)
      else w)"

text \<open>What a retry's reply makes of the first run's outcome.\<close>

type_synonym run_outcome = "verdict \<times> verdict_value option \<times> dict"

definition after_retry :: "run_env \<Rightarrow> job_spec \<Rightarrow> run_outcome \<Rightarrow> runner_reply \<Rightarrow> run_outcome" where
  "after_retry env spec first reply =
     (let (v, m, d) = first in
      if rp_busy reply
      then (v, m, dict_merge d [(''retried'', JBool True), (''retry_skipped'', JStr ''runner busy past its window'')])
      else (let (v', m', d') = classify env spec reply in (v', m', dict_merge d' [(''retried'', JBool True), (''first'', JObj d)])))"

text \<open>The one retry of a failed run: its own wait for a busy runner, or the first run's verdict.\<close>

definition retry_failed :: "run_env \<Rightarrow> 'w run_world \<Rightarrow> job_spec \<Rightarrow> bool \<Rightarrow> string \<Rightarrow> run_outcome \<Rightarrow> ('w, run_outcome) act" where
  "retry_failed env rw spec ignore_window extra first =
     (case (fst first, js_retry_failed_after_s spec) of
        (VFailed, Some wait) \<Rightarrow>
          bind_w (read_w (rw_clock rw)) (\<lambda>failed_at.
          if ignore_window \<or> time_of (et_wall (re_zone env) failed_at + us_of_s wait) \<le> snd (js_window spec) then
            bind_w (do_w (rw_sleep rw (of_int wait))) (\<lambda>_.
            bind_w (read_w (rw_clock rw)) (\<lambda>again_at.
            bind_w (run_with_busy_wait env rw spec (et_wall (re_zone env) again_at) extra) (\<lambda>reply.
            ret_w (after_retry env spec first reply))))
          else ret_w first)
      | _ \<Rightarrow> ret_w first)"

definition run_spec :: "run_env \<Rightarrow> 'w run_world \<Rightarrow> job_spec \<Rightarrow> instant \<Rightarrow> bool \<Rightarrow> ('w, unit) act \<Rightarrow> ('w, verdict \<times> dict) act" where
  "run_spec env rw spec at_now ignore_window on_dispatch =
     (let et = et_wall (re_zone env) at_now; (start, fin) = js_window spec in
      if \<not> ignore_window \<and> \<not> (start \<le> time_of et \<and> time_of et \<le> fin)
      then ret_w (VNoop, [(''skipped'', JStr ''outside window''),
                          (''window'', JStr (strftime_hm start @ ''-'' @ strftime_hm fin @ '' ET'')), (''at_et'', JStr (strftime_hm (time_of et)))])
      else
        (let extra = prompt_extra (date_of et) in
         bind_w on_dispatch (\<lambda>_.
         bind_w (run_with_busy_wait env rw spec et extra) (\<lambda>reply.
         if rp_busy reply then
           bind_w (do_w (if js_name spec \<in> SUMMARY_JOBS then rw_post rw (RunMissedBusy (js_name spec)) else id)) (\<lambda>_.
           ret_w (VMissed, [(''skipped'', JStr ''runner busy past its window'')]))
         else
           bind_w (retry_failed env rw spec ignore_window extra (classify env spec reply)) (\<lambda>(v, m, d).
           bind_w (do_w (relay env rw spec v m d (date_of et))) (\<lambda>_. ret_w (v, d)))))))"

definition job_execute :: "run_env \<Rightarrow> 'w run_world \<Rightarrow> string \<Rightarrow> instant option \<Rightarrow> bool \<Rightarrow> ('w, unit) act option \<Rightarrow> ('w, verdict \<times> dict) act" where
  "job_execute env rw job now ignore_window on_dispatch =
     bind_w (pure_w (job_spec_of job)) (\<lambda>spec.
     if \<not> configured (re_client env) then ret_w (VNoop, [(''skipped'', JStr ''no runner configured'')])
     else if token_for (re_client env) (js_role spec) = None
     then ret_w (VNoop, [(''skipped'', JStr (''no mcp '' @ (case js_role spec of Research \<Rightarrow> ''research'' | Decide \<Rightarrow> ''decide'') @ '' token''))])
     else
       bind_w (case now of Some i \<Rightarrow> ret_w i | None \<Rightarrow> read_w (rw_clock rw)) (\<lambda>at_now.
       run_spec env rw spec at_now ignore_window (case on_dispatch of None \<Rightarrow> ret_w () | Some a \<Rightarrow> a)))"

section \<open>The truth table of a reply\<close>

named_theorems act \<open>unfolding of the operations on a world\<close>

lemmas [act] = ret_w_def bind_w_def pure_w_def read_w_def do_w_def

lemma bind_w_Inr: "bind_w m f w = (Inr y, w2) \<longleftrightarrow> (\<exists>x w1. m w = (Inr x, w1) \<and> f x w1 = (Inr y, w2))"
  by (auto simp: bind_w_def split: prod.splits sum.splits)

lemma ret_w_Inr: "ret_w x w = (Inr y, w2) \<longleftrightarrow> y = x \<and> w2 = w"
  by (auto simp: ret_w_def)

lemma do_w_Inr: "do_w f w = (Inr y, w2) \<longleftrightarrow> w2 = f w"
  by (auto simp: do_w_def)

lemma read_w_Inr: "read_w f w = (Inr y, w2) \<longleftrightarrow> f w = (y, w2)"
  by (auto simp: read_w_def split: prod.splits)

lemma pure_w_Inr: "pure_w x w = (Inr y, w2) \<longleftrightarrow> x = Inr y \<and> w2 = w"
  by (auto simp: pure_w_def)

lemmas act_Inr = bind_w_Inr ret_w_Inr do_w_Inr read_w_Inr pure_w_Inr

lemma first_some_Some: "first_some f xs = Some y \<Longrightarrow> \<exists>x \<in> set xs. f x = Some y"
  by (induction xs) (auto split: option.splits)

lemma first_some_None: "first_some f xs = None \<longleftrightarrow> (\<forall>x \<in> set xs. f x = None)"
  by (induction xs) (auto split: option.splits)

lemma validates_at_Some:
  "validates_at env m text i = Some v \<longleftrightarrow>
     (\<exists>d. re_decode env text i = Some (JObj d) \<and> model_validate (co_int (re_co env)) m (JObj d) = Inr v)"
  by (auto simp: validates_at_def split: option.splits json.splits sum.splits)

definition cleaned :: "string \<Rightarrow> string" where "cleaned text = remove_all fence (remove_all (fence @ ''json'') text)"

lemma recover_Some:
  assumes "recover_verdict_from_text env text m = Some v"
  shows "\<exists>i d. i < length (cleaned text) \<and> cleaned text ! i = CHR 0x7B \<and> re_decode env (cleaned text) i = Some (JObj d) \<and>
    model_validate (co_int (re_co env)) m (JObj d) = Inr v"
  using assms first_some_Some [of _ _ v] unfolding recover_verdict_from_text_def Let_def cleaned_def [symmetric]
  by (fastforce simp: validates_at_Some)

text \<open>The verdict a run carries: the structured one, or the one its text ends in.\<close>

definition run_verdict :: "run_env \<Rightarrow> verdict_model \<Rightarrow> run_result \<Rightarrow> verdict_value option" where
  "run_verdict env m res =
     (case rr_verdict_raw res of
        Some raw \<Rightarrow> (case model_validate (co_int (re_co env)) m (JObj raw) of Inl _ \<Rightarrow> None | Inr v \<Rightarrow> Some v)
      | None \<Rightarrow> (case rr_text res of None \<Rightarrow> None | Some t \<Rightarrow> recover_verdict_from_text env t m))"

lemma recover_empty: "recover_verdict_from_text env [] m = None"
  by (simp add: recover_verdict_from_text_def Let_def)

lemma run_verdict_model: "run_verdict env m res = Some v \<Longrightarrow> model_of v = m"
  by (auto simp: run_verdict_def dest!: recover_Some model_of_validated split: option.splits sum.splits)

lemma classify_timeout: "rr_timed_out res \<Longrightarrow> \<exists>d. classify env spec (reply_result res) = (VTimeout, None, d)"
  by (simp add: classify_def reply_result_def)

lemma classify_failed: "\<not> rr_timed_out res \<Longrightarrow> rr_is_error res \<Longrightarrow> \<exists>d. classify env spec (reply_result res) = (VFailed, None, d)"
  by (simp add: classify_def reply_result_def)

lemma classify_no_verdict:
  assumes "\<not> rr_timed_out res" and "\<not> rr_is_error res" and "run_verdict env (js_verdict spec) res = None"
  shows "\<exists>d. classify env spec (reply_result res) = (VContentFailed, None, d)"
proof (cases "rr_verdict_raw res")
  case None
  then show ?thesis using assms by (cases "rr_text res") (auto simp: classify_def reply_result_def run_verdict_def nonempty_def)
next
  case (Some raw)
  then show ?thesis using assms by (auto simp: classify_def reply_result_def run_verdict_def split: sum.splits)
qed

lemma dump_keys: "map_of (model_dump vv) k = Some x \<Longrightarrow> k \<in> {''pitched'', ''withdrawn'', ''summary'', ''held'', ''calls''}"
  by (cases vv) (auto split: if_splits)

lemma map_of_dict_merge_single: "map_of (dict_merge a [(k, x)]) = (map_of a)(k \<mapsto> x)"
  by (simp add: dict_merge_def)

lemma classify_verdict:
  assumes "\<not> rr_timed_out res" and "\<not> rr_is_error res" and "run_verdict env (js_verdict spec) res = Some vv" and "js_noop_when spec = None"
  shows "\<exists>d. classify env spec (reply_result res) = (VDone, Some vv, d) \<and> (\<forall>k x. map_of (model_dump vv) k = Some x \<longrightarrow> map_of d k = Some x)"
proof (cases "rr_verdict_raw res")
  case None
  then obtain t where t: "rr_text res = Some t" "recover_verdict_from_text env t (js_verdict spec) = Some vv"
    using assms(3) by (auto simp: run_verdict_def split: option.splits)
  then have "t \<noteq> []" by (auto simp: recover_empty)
  then have "classify env spec (reply_result res) = (VDone, Some vv, dict_merge (model_dump vv) [(''verdict_source'', JStr ''text'')])"
    using None t assms(1,2,4) by (simp add: classify_def reply_result_def nonempty_def answered_def)
  then show ?thesis by (auto simp: map_of_dict_merge_single dest: dump_keys)
next
  case (Some raw)
  then show ?thesis using assms by (auto simp: classify_def reply_result_def run_verdict_def answered_def split: sum.splits)
qed

text \<open>C32: what a reply of the runner means. A reply read from HTTP is one of three: busy, an error
  with its class, or a result. A run is \<open>done\<close> (or \<open>noop\<close>, where the job has a test for that) exactly when it neither
  timed out nor failed and carries a verdict that validates against the job's model; it is
  \<open>content_failed\<close> exactly when it answered without one; a run that timed out is a \<open>timeout\<close>
  although it is also an error. A verdict model is handed on exactly with \<open>done\<close> and \<open>noop\<close>, and
  its fields are in the detail.\<close>

theorem classify_exact:
  assumes "read_reply (re_co env) r = reply" and "classify env spec reply = (v, m, d)" and "js_noop_when spec = None"
  shows "v \<noteq> VMissed \<and> (v = VNoop \<longleftrightarrow> (\<exists>body. r = HttpReply 409 body)) \<and>
    (v = VDone \<longleftrightarrow> (\<exists>res vv. reply = reply_result res \<and> \<not> rr_timed_out res \<and> \<not> rr_is_error res \<and>
        run_verdict env (js_verdict spec) res = Some vv \<and> m = Some vv \<and> model_of vv = js_verdict spec \<and>
        (\<forall>k x. map_of (model_dump vv) k = Some x \<longrightarrow> map_of d k = Some x))) \<and>
    (v = VTimeout \<longleftrightarrow> (\<exists>res. reply = reply_result res \<and> rr_timed_out res)) \<and>
    (v = VContentFailed \<longleftrightarrow> (\<exists>res. reply = reply_result res \<and> \<not> rr_timed_out res \<and> \<not> rr_is_error res \<and>
        run_verdict env (js_verdict spec) res = None)) \<and>
    (m \<noteq> None \<longleftrightarrow> v = VDone)"
proof -
  have inj: "reply_result a = reply_result b \<longleftrightarrow> a = b" "reply_busy \<noteq> reply_result a" "reply_error c \<noteq> reply_result a" for a b c
    by (simp_all add: reply_result_def reply_busy_def reply_error_def)
  consider (busy) body where "r = HttpReply 409 body" "reply = reply_busy"
    | (error) c where "reply = reply_error c" "\<forall>body. r \<noteq> HttpReply 409 body"
    | (result) res where "reply = reply_result res" "\<forall>body. r \<noteq> HttpReply 409 body"
    using assms(1) by (auto simp: read_reply_def split: http_reply.splits if_splits sum.splits)
  then show ?thesis
  proof cases
    case busy
    then have "classify env spec reply = (VNoop, None, [(''skipped'', JStr ''runner busy'')])" by (simp add: classify_def reply_busy_def)
    then show ?thesis using assms(2) busy by (auto simp: inj)
  next
    case error
    then have "classify env spec reply = (VFailed, None, [(''error'', JStr c)])" by (simp add: classify_def reply_error_def)
    then show ?thesis using assms(2) error by (auto simp: inj)
  next
    case result
    then have c: "classify env spec (reply_result res) = (v, m, d)" using assms(2) by simp
    consider "rr_timed_out res" | "\<not> rr_timed_out res" "rr_is_error res"
      | "\<not> rr_timed_out res" "\<not> rr_is_error res" "run_verdict env (js_verdict spec) res = None"
      | vv where "\<not> rr_timed_out res" "\<not> rr_is_error res" "run_verdict env (js_verdict spec) res = Some vv" by fastforce
    then show ?thesis
    proof cases
      case 1
      then show ?thesis using classify_timeout [OF 1, of env spec] c result by (auto simp: inj)
    next
      case 2
      then show ?thesis using classify_failed [OF 2, of env spec] c result by (auto simp: inj)
    next
      case 3
      then show ?thesis using classify_no_verdict [OF 3] c result by (auto simp: inj)
    next
      case 4
      then show ?thesis using classify_verdict [OF 4 assms(3)] run_verdict_model [OF 4(3)] c result by (auto simp: inj)
    qed
  qed
qed
definition demo_co :: coercions where
  "demo_co = \<lparr>co_int = int_only, co_float = (\<lambda>j. case j of JNum x \<Rightarrow> Inr x | _ \<Rightarrow> Inl ''float_type''),
     co_bool = (\<lambda>j. case j of JBool b \<Rightarrow> Inr b | _ \<Rightarrow> Inl ''bool_type'')\<rparr>"

definition demo_env :: run_env where
  "demo_env = \<lparr>re_client = make_client (Some ''http://runner:8000/'') (Some ''t'') 120 10 (Some ''research-token'') [(Decide, ''decide-token'')],
     re_zone = \<lparr>utc_off = (\<lambda>_. - 14400000000), wall_off = (\<lambda>_. - 14400000000)\<rparr>, re_busy_retry_s = 60, re_co = demo_co,
     re_schema = (\<lambda>_. demo_schema), re_decode = (\<lambda>_ _. None), re_str = (\<lambda>_. [])\<rparr>"

definition demo_reply :: http_reply where
  "demo_reply = HttpReply 200 (Inr (JObj [(''is_error'', JBool False), (''verdict_raw'', demo_analyst), (''teardown_s'', JNum 1)]))"

theorem classify_exact_witness:
  "classify demo_env (evening [] ''analyst_news'' ''analyst-news'') (read_reply (re_co demo_env) demo_reply) =
     (VDone, Some (AnalystVerdict [41, 42] [] ''two pitches''), model_dump (AnalystVerdict [41, 42] [] ''two pitches'')) \<and>
   (\<exists>res vv. read_reply (re_co demo_env) demo_reply = reply_result res \<and> \<not> rr_timed_out res \<and> \<not> rr_is_error res \<and>
        run_verdict demo_env AnalystModel res = Some vv)"
proof -
  let ?s = "evening [] ''analyst_news'' ''analyst-news''"
  have c: "classify demo_env ?s (read_reply (re_co demo_env) demo_reply) =
     (VDone, Some (AnalystVerdict [41, 42] [] ''two pitches''), model_dump (AnalystVerdict [41, 42] [] ''two pitches''))"
    by code_simp
  have "js_noop_when ?s = None" "js_verdict ?s = AnalystModel" by (simp_all add: evening_def)
  then show ?thesis using classify_exact [OF refl c] c by metis
qed

text \<open>
  A schema that cannot be flattened is found only here, at the dispatch, where it raises out of the
  client (which answers every other failure with a reply): nothing builds a schema at import.
\<close>

lemma schema_raises_at_dispatch:
  assumes "rc_base (re_client env) = Some base" and "rc_token (re_client env) = Some tok"
  shows "fst (runner_run env rw spec extra w) = Inl x \<longleftrightarrow> output_schema (re_schema env (js_verdict spec)) = Inl x"
  using assms by (cases "output_schema (re_schema env (js_verdict spec))")
    (auto simp: runner_run_def run_payload_def act split: prod.splits)

section \<open>How often the runner is called\<close>

text \<open>A count on worlds that only a request to the runner moves, by at most one.\<close>

definition counts_runs :: "('w \<Rightarrow> nat) \<Rightarrow> 'w run_world \<Rightarrow> bool" where
  "counts_runs n rw \<longleftrightarrow>
     (\<forall>q w. n (snd (rw_post_run rw q w)) \<le> n w + 1) \<and> (\<forall>w. n (snd (rw_clock rw w)) = n w) \<and>
     (\<forall>s w. n (rw_sleep rw s w) = n w) \<and> (\<forall>m w. n (rw_post rw m w) = n w)"

definition spends :: "('w \<Rightarrow> nat) \<Rightarrow> nat \<Rightarrow> ('w, 'a) act \<Rightarrow> bool" where
  "spends n k f \<longleftrightarrow> (\<forall>w. n (snd (f w)) \<le> n w + k)"

lemma spends_mono: "spends n k f \<Longrightarrow> k \<le> l \<Longrightarrow> spends n l f"
  unfolding spends_def by (meson add_left_mono le_trans)

lemma spends_ret [intro]: "spends n k (ret_w x)"
  by (simp add: spends_def ret_w_def)

lemma spends_pure [intro]: "spends n k (pure_w x)"
  by (simp add: spends_def pure_w_def)

lemma spends_do: "(\<And>w. n (f w) = n w) \<Longrightarrow> spends n k (do_w f)"
  by (simp add: spends_def do_w_def)

lemma spends_read: "(\<And>w. n (snd (f w)) \<le> n w + k) \<Longrightarrow> spends n k (read_w f)"
  unfolding spends_def read_w_def by (metis (mono_tags, lifting) case_prod_beta snd_conv)

lemma spends_bind: "spends n k f \<Longrightarrow> (\<And>x. spends n l (g x)) \<Longrightarrow> spends n (k + l) (bind_w f g)"
  unfolding spends_def bind_w_def
  by (auto split: prod.splits sum.splits) (metis add.assoc add_le_cancel_right le_trans snd_conv trans_le_add1)+

lemma spends_if: "spends n k f \<Longrightarrow> spends n k g \<Longrightarrow> spends n k (if b then f else g)"
  by simp

lemma spends_bind2: "spends n k f \<Longrightarrow> (\<And>x. spends n l (g x)) \<Longrightarrow> k + l \<le> j \<Longrightarrow> spends n j (bind_w f g)"
  by (rule spends_mono [OF spends_bind])

lemma spends_bind_free: "spends n 0 f \<Longrightarrow> (\<And>x. spends n k (g x)) \<Longrightarrow> spends n k (bind_w f g)"
  by (rule spends_bind2) auto

lemma spends_free_after: "spends n k f \<Longrightarrow> (\<And>x. spends n 0 (g x)) \<Longrightarrow> spends n k (bind_w f g)"
  by (rule spends_bind2) auto

lemma spends_clock: "counts_runs n rw \<Longrightarrow> spends n 0 (read_w (rw_clock rw))"
  by (rule spends_read) (simp add: counts_runs_def)

lemma spends_sleep: "counts_runs n rw \<Longrightarrow> spends n 0 (do_w (rw_sleep rw s))"
  by (rule spends_do) (simp add: counts_runs_def)

lemma spends_run:
  assumes "counts_runs n rw"
  shows "spends n 1 (runner_run env rw spec extra)"
proof -
  have "spends n 1 (read_w (rw_post_run rw q))" for q using assms by (intro spends_read) (simp add: counts_runs_def)
  then have "spends n 1 (bind_w (pure_w p) (\<lambda>q. bind_w (read_w (rw_post_run rw q)) (\<lambda>r. ret_w (read_reply (re_co env) r))))" for p
    by (intro spends_bind_free [OF spends_pure] spends_free_after) (auto simp: spends_ret)
  then show ?thesis by (auto simp: runner_run_def spends_ret split: option.splits)
qed

lemma spends_wait: "counts_runs n rw \<Longrightarrow> spends n k (wait_loop env rw spec extra k reply)"
proof (induction k arbitrary: reply)
  case 0
  show ?case by (simp add: spends_ret)
next
  case (Suc k)
  have "spends n k (if \<not> rp_busy r then ret_w r else wait_loop env rw spec extra k r)" for r
    using Suc by (simp add: spends_ret)
  from spends_bind2 [OF spends_run [OF Suc.prems] this] have "spends n (Suc k) (bind_w (runner_run env rw spec extra) (\<lambda>r. if \<not> rp_busy r then ret_w r else wait_loop env rw spec extra k r))"
    by simp
  then show ?case by (simp add: spends_bind_free [OF spends_sleep [OF Suc.prems]])
qed

text \<open>The retry intervals that end by the window's end on the day of an Eastern time.\<close>

definition intervals_left :: "run_env \<Rightarrow> job_spec \<Rightarrow> wall \<Rightarrow> nat" where
  "intervals_left env spec et =
     card {k. 0 < k \<and> of_nat k * re_busy_retry_s env \<le> seconds (combine (date_of et) (snd (js_window spec)) - et)}"

lemma intervals_card:
  fixes r x :: rat
  assumes "0 < r"
  shows "card {k. 0 < k \<and> of_nat k * r \<le> x} = nat (max 0 \<lfloor>x / r\<rfloor>)"
proof -
  have "of_nat k * r \<le> x \<longleftrightarrow> int k \<le> \<lfloor>x / r\<rfloor>" for k
    using pos_le_divide_eq [OF assms, of "of_nat k" x] by (simp add: le_floor_iff)
  then have "{k. 0 < k \<and> of_nat k * r \<le> x} = {1..nat \<lfloor>x / r\<rfloor>}" by (simp add: set_eq_iff) linarith
  then show ?thesis by simp
qed

lemma busy_tries_left: "0 < re_busy_retry_s env \<Longrightarrow> busy_tries env spec et = intervals_left env spec et"
  unfolding intervals_left_def busy_tries_def by (rule intervals_card [symmetric])

lemma busy_tries_later:
  assumes "0 < re_busy_retry_s env" and "date_of t = date_of et" and "et \<le> t"
  shows "busy_tries env spec t \<le> busy_tries env spec et"
proof -
  have "seconds (combine (date_of t) (snd (js_window spec)) - t) / re_busy_retry_s env \<le>
      seconds (combine (date_of et) (snd (js_window spec)) - et) / re_busy_retry_s env"
    using assms by (simp add: seconds_def divide_right_mono)
  from floor_mono [OF this] show ?thesis unfolding busy_tries_def by linarith
qed

text \<open>A clock that reads later the same Eastern day.\<close>

definition clock_after :: "run_env \<Rightarrow> 'w run_world \<Rightarrow> instant \<Rightarrow> bool" where
  "clock_after env rw now \<longleftrightarrow>
     (\<forall>w. let t = et_wall (re_zone env) (fst (rw_clock rw w)); et = et_wall (re_zone env) now in date_of t = date_of et \<and> et \<le> t)"

lemma spends_bind_clock:
  assumes "counts_runs n rw" and "\<And>w. spends n k (g (fst (rw_clock rw w)))"
  shows "spends n k (bind_w (read_w (rw_clock rw)) g)"
  unfolding spends_def
proof
  fix w
  obtain x w1 where c: "rw_clock rw w = (x, w1)" by fastforce
  have "n w1 = n w" using assms(1) c unfolding counts_runs_def by (metis snd_conv)
  moreover have "spends n k (g x)" using assms(2) [of w] by (simp add: c)
  ultimately show "n (snd (bind_w (read_w (rw_clock rw)) g w)) \<le> n w + k"
    by (simp add: bind_w_def read_w_def c spends_def) metis
qed

lemma spends_attempt:
  assumes "counts_runs n rw"
  shows "spends n (1 + busy_tries env spec et) (run_with_busy_wait env rw spec et extra)"
  unfolding run_with_busy_wait_def wait_out_busy_def
  by (rule spends_bind [OF spends_run [OF assms]]) (auto intro: spends_wait [OF assms])

lemma spends_retry:
  assumes "counts_runs n rw" and "0 < re_busy_retry_s env" and "js_retry_failed_after_s spec \<noteq> None \<Longrightarrow> clock_after env rw now"
  shows "spends n (if js_retry_failed_after_s spec = None then 0 else 1 + busy_tries env spec (et_wall (re_zone env) now))
    (retry_failed env rw spec ign extra first)"
proof (cases "js_retry_failed_after_s spec")
  case None
  then show ?thesis unfolding retry_failed_def by (auto simp: spends_ret split: verdict.splits)
next
  case (Some wait)
  let ?k = "1 + busy_tries env spec (et_wall (re_zone env) now)"
  let ?again = "\<lambda>again_at. bind_w (run_with_busy_wait env rw spec (et_wall (re_zone env) again_at) extra) (\<lambda>reply. ret_w (after_retry env spec first reply))"
  have "spends n ?k (?again (fst (rw_clock rw w)))" for w
  proof (rule spends_mono)
    show "spends n (1 + busy_tries env spec (et_wall (re_zone env) (fst (rw_clock rw w)))) (?again (fst (rw_clock rw w)))"
      by (rule spends_free_after [OF spends_attempt [OF assms(1)]]) (simp add: spends_ret)
    show "1 + busy_tries env spec (et_wall (re_zone env) (fst (rw_clock rw w))) \<le> ?k"
      using assms(3) busy_tries_later [OF assms(2)] by (simp add: Some clock_after_def Let_def)
  qed
  then have "spends n ?k (bind_w (read_w (rw_clock rw)) ?again)" by (rule spends_bind_clock [OF assms(1)])
  then show ?thesis unfolding retry_failed_def
    by (auto simp: spends_ret Some split: verdict.splits
        intro!: spends_bind_free [OF spends_clock [OF assms(1)]] spends_bind_free [OF spends_sleep [OF assms(1)]])
qed
section \<open>What an execution returns\<close>

lemma classify_answered:
  assumes "classify env spec reply = (v, m, d)" and "\<not> rp_busy reply" and "js_noop_when spec = None"
  shows "v \<noteq> VNoop \<and> v \<noteq> VMissed \<and>
    (v = VDone \<longrightarrow> (\<exists>vv. model_of vv = js_verdict spec \<and> (\<forall>k x. map_of (model_dump vv) k = Some x \<longrightarrow> map_of d k = Some x)))"
proof (cases "rp_error reply = None \<and> rp_result reply \<noteq> None")
  case False
  then show ?thesis using assms by (auto simp: classify_def split: option.splits)
next
  case True
  then obtain res where "reply = reply_result res" using assms(2) by (cases reply) (auto simp: reply_result_def)
  then have c: "classify env spec (reply_result res) = (v, m, d)" using assms(1) by simp
  consider "rr_timed_out res" | "\<not> rr_timed_out res" "rr_is_error res"
    | "\<not> rr_timed_out res" "\<not> rr_is_error res" "run_verdict env (js_verdict spec) res = None"
    | vv where "\<not> rr_timed_out res" "\<not> rr_is_error res" "run_verdict env (js_verdict spec) res = Some vv" by fastforce
  then show ?thesis
  proof cases
    case 1
    then show ?thesis using classify_timeout [OF 1, of env spec] c by auto
  next
    case 2
    then show ?thesis using classify_failed [OF 2, of env spec] c by auto
  next
    case 3
    then show ?thesis using classify_no_verdict [OF 3] c by auto
  next
    case 4
    then show ?thesis using classify_verdict [OF 4 assms(3)] run_verdict_model [OF 4(3)] c by auto
  qed
qed

lemma retry_answered:
  assumes "retry_failed env rw spec ign extra (v0, m0, d0) w = (Inr (v, m, d), w')" and "js_noop_when spec = None"
    and "v0 \<noteq> VNoop \<and> v0 \<noteq> VMissed \<and>
      (v0 = VDone \<longrightarrow> (\<exists>vv. model_of vv = js_verdict spec \<and> (\<forall>k x. map_of (model_dump vv) k = Some x \<longrightarrow> map_of d0 k = Some x)))"
  shows "v \<noteq> VNoop \<and> v \<noteq> VMissed \<and>
    (v = VDone \<longrightarrow> (\<exists>vv. model_of vv = js_verdict spec \<and> (\<forall>k x. map_of (model_dump vv) k = Some x \<longrightarrow> map_of d k = Some x)))"
proof (cases "(v, m, d) = (v0, m0, d0)")
  case False
  then obtain reply where f: "v0 = VFailed" and r: "after_retry env spec (v0, m0, d0) reply = (v, m, d)"
    using assms(1) by (auto simp: retry_failed_def act_Inr split: verdict.splits option.splits if_splits)
  show ?thesis
  proof (cases "rp_busy reply")
    case True
    then show ?thesis using r f by (simp add: after_retry_def)
  next
    case no: False
    obtain v' m' d' where c: "classify env spec reply = (v', m', d')" by (cases "classify env spec reply")
    then have v: "v = v'" and d: "d = dict_merge d' [(''retried'', JBool True), (''first'', JObj d0)]"
      using r no by (auto simp: after_retry_def)
    have "map_of d k = Some x" if "map_of (model_dump vv) k = Some x" "map_of d' k = Some x" for vv k x
      using that dump_keys [OF that(1)] by (subst d) (auto simp: map_of_dict_merge_other)
    then show ?thesis using classify_answered [OF c no assms(2)] v by blast
  qed
qed (use assms(3) in simp)

definition gates :: "run_env \<Rightarrow> job_spec \<Rightarrow> instant \<Rightarrow> bool \<Rightarrow> bool" where
  "gates env spec now ignore_window \<longleftrightarrow>
     configured (re_client env) \<and> token_for (re_client env) (js_role spec) \<noteq> None \<and>
     (ignore_window \<or> fst (js_window spec) \<le> et_time (re_zone env) now \<and> et_time (re_zone env) now \<le> snd (js_window spec))"

lemma run_spec_shut:
  assumes "\<not> ign" and "\<not> (fst (js_window spec) \<le> et_time (re_zone env) now \<and> et_time (re_zone env) now \<le> snd (js_window spec))"
  shows "\<exists>d. run_spec env rw spec now ign od w = (Inr (VNoop, d), w)"
  using assms by (auto simp: run_spec_def Let_def et_time_def ret_w_def split: prod.splits)

lemma execute_unfold:
  assumes "job_spec_of job = Inr spec"
  shows "job_execute env rw job (Some now) ign od w =
    (if configured (re_client env) \<and> token_for (re_client env) (js_role spec) \<noteq> None
     then run_spec env rw spec now ign (case od of None \<Rightarrow> ret_w () | Some a \<Rightarrow> a) w
     else (Inr (VNoop, [(''skipped'', JStr (if configured (re_client env)
        then ''no mcp '' @ (case js_role spec of Research \<Rightarrow> ''research'' | Decide \<Rightarrow> ''decide'') @ '' token'' else ''no runner configured''))]), w))"
  using assms by (simp add: job_execute_def bind_w_def pure_w_def ret_w_def)

lemma execute_shut:
  assumes "job_spec_of job = Inr spec" and "\<not> gates env spec now ign"
  shows "\<exists>d. job_execute env rw job (Some now) ign od w = (Inr (VNoop, d), w)"
  using assms(2) run_spec_shut [of ign spec env now rw _ w] unfolding execute_unfold [OF assms(1)] gates_def by auto

lemma execute_open:
  assumes "job_spec_of job = Inr spec" and "gates env spec now ign"
    and "job_execute env rw job (Some now) ign od w = (Inr (v, d), w')"
  shows "v \<noteq> VNoop \<and> (v = VDone \<longrightarrow>
    (\<exists>vv. model_of vv = js_verdict spec \<and> (\<forall>k x. map_of (model_dump vv) k = Some x \<longrightarrow> map_of d k = Some x)))"
proof -
  have nn: "js_noop_when spec = None" using spec_of_job [OF assms(1)] by (simp add: spec_sound_def)
  let ?od = "case od of None \<Rightarrow> ret_w () | Some a \<Rightarrow> a"
  have run: "run_spec env rw spec now ign ?od w = (Inr (v, d), w')"
    using assms(2,3) unfolding execute_unfold [OF assms(1)] gates_def by (simp split: if_splits)
  obtain reply where "rp_busy reply \<and> v = VMissed \<or>
      (\<exists>m w1 w2. \<not> rp_busy reply \<and> retry_failed env rw spec ign (prompt_extra (date_of (et_wall (re_zone env) now))) (classify env spec reply) w1 = (Inr (v, m, d), w2))"
    using run assms(2) by (auto simp: run_spec_def Let_def act_Inr gates_def et_time_def ret_w_def split: prod.splits if_splits)
  then show ?thesis
  proof (elim disjE exE conjE)
    fix m w1 w2
    assume nb: "\<not> rp_busy reply"
      and r: "retry_failed env rw spec ign (prompt_extra (date_of (et_wall (re_zone env) now))) (classify env spec reply) w1 = (Inr (v, m, d), w2)"
    obtain v0 m0 d0 where c: "classify env spec reply = (v0, m0, d0)" by (cases "classify env spec reply")
    show ?thesis using retry_answered [OF r [unfolded c] nn classify_answered [OF c nb nn]] by blast
  qed simp
qed
text \<open>C6: what comes back from executing a job. It is \<open>noop\<close> exactly when a gate was shut: no runner, no
  bearer for the job's role, or a fire outside the job's window that nobody asked to ignore; then
  nothing at all happened. Once the runner has been called the job is never a \<open>noop\<close>, also when the
  retry of a failed run found the runner busy; and a job that is \<open>done\<close> was answered by a verdict of
  its own model, whose fields are in the detail.\<close>

theorem job_execute_outcome:
  assumes "job_spec_of job = Inr spec" and "job_execute env rw job (Some now) ign od w = (Inr (v, d), w')"
  shows "(v = VNoop \<longleftrightarrow> \<not> gates env spec now ign) \<and> (\<not> gates env spec now ign \<longrightarrow> w' = w) \<and>
    (v = VDone \<longrightarrow> (\<exists>vv. model_of vv = js_verdict spec \<and> (\<forall>k x. map_of (model_dump vv) k = Some x \<longrightarrow> map_of d k = Some x)))"
proof (cases "gates env spec now ign")
  case True
  then show ?thesis using execute_open [OF assms(1) True assms(2)] by blast
next
  case False
  then show ?thesis using execute_shut [OF assms(1) False, of rw od w] assms(2) by auto
qed

text \<open>A world that counts the requests: the first is refused, the others are answered.\<close>

definition demo_pm :: json where
  "demo_pm = JObj [(''held'', JArr [JObj [(''symbol'', JStr ''AMD''), (''action'', JStr ''hold''), (''reason'', JStr ''thesis intact'')]]),
     (''calls'', JArr [JNum 7]), (''summary'', JStr ''one call'')]"

definition demo_world :: "nat run_world" where
  "demo_world = \<lparr>rw_post_run = (\<lambda>q w. (if w = 0 then HttpFail ''ConnectError'' else HttpReply 200 (Inr (JObj [(''is_error'', JBool False), (''verdict_raw'', demo_pm)])), w + 1)),
     rw_get_health = (\<lambda>_ w. (HttpFail ''ConnectError'', w)), rw_clock = (\<lambda>w. (combine 739870 (hm 13 51), w)),
     rw_sleep = (\<lambda>_ w. w), rw_post = (\<lambda>_ w. w)\<rparr>"

abbreviation at_0950 :: instant where "at_0950 \<equiv> combine 739870 (hm 13 50)"

lemma demo_spec: "\<exists>spec. job_spec_of ''pm'' = Inr spec \<and> js_retry_failed_after_s spec = Some 900 \<and> js_window spec = (hm 9 45, hm 10 30)"
proof -
  obtain aa pa where aa: "ANALYST_ALLOW = Inr aa" and pa: "PM_ALLOW = Inr pa" using ALLOWS by blast
  have "job_spec_of ''pm'' = Inr (pm_spec pa)" unfolding job_spec_of_def JOB_SPECS_def aa pa by simp
  then show ?thesis by (simp add: pm_spec_def)
qed

theorem job_execute_outcome_witness:
  "\<exists>spec d w'. job_spec_of ''pm'' = Inr spec \<and> job_execute demo_env demo_world ''pm'' (Some at_0950) False None 0 = (Inr (VDone, d), w') \<and> w' = 2 \<and>
     gates demo_env spec at_0950 False \<and> map_of d ''retried'' = Some (JBool True)"
proof -
  have "case job_execute demo_env demo_world ''pm'' (Some at_0950) False None 0 of
      (Inl _, _) \<Rightarrow> False | (Inr (v, d), w') \<Rightarrow> v = VDone \<and> w' = 2 \<and> map_of d ''retried'' = Some (JBool True)"
    by code_simp
  then obtain d where r: "job_execute demo_env demo_world ''pm'' (Some at_0950) False None 0 = (Inr (VDone, d), 2)" "map_of d ''retried'' = Some (JBool True)"
    by (auto split: prod.splits sum.splits)
  obtain spec where s: "job_spec_of ''pm'' = Inr spec" using demo_spec by blast
  from job_execute_outcome [OF s r(1)] s r show ?thesis by auto
qed

text \<open>C35: executing a job calls the runner at most once, and then once for each retry interval left until the end
  of its window that day; for the PM, whose failed run is retried once, at most twice as often, when
  the clock does not go back or past midnight. A job whose gates are shut does not call it. The
  runner may answer anything.\<close>

theorem job_execute_calls:
  assumes "job_spec_of job = Inr spec" and "counts_runs n rw" and "0 < re_busy_retry_s env"
    and "job = ''pm'' \<Longrightarrow> clock_after env rw now" and "case od of None \<Rightarrow> True | Some a \<Rightarrow> spends n 0 a"
  shows "n (snd (job_execute env rw job (Some now) ign od w)) \<le>
    n w + (if gates env spec now ign then (if job = ''pm'' then 2 else 1) * (1 + intervals_left env spec (et_wall (re_zone env) now)) else 0)"
proof (cases "gates env spec now ign")
  case False
  then show ?thesis using execute_shut [OF assms(1) False, of rw od w] by auto
next
  case True
  let ?od = "case od of None \<Rightarrow> ret_w () | Some a \<Rightarrow> a" and ?et = "et_wall (re_zone env) now"
  let ?k = "1 + busy_tries env spec ?et" and ?r = "if js_retry_failed_after_s spec = None then 0 else 1 + busy_tries env spec ?et"
  have nm: "js_retry_failed_after_s spec \<noteq> None \<Longrightarrow> job = ''pm''" using spec_of_job [OF assms(1)] by (auto simp: spec_sound_def)
  have od: "spends n 0 ?od" using assms(5) by (auto simp: spends_ret split: option.splits)
  have post: "n (relay env rw spec v m d day w) = n w" "n (rw_post rw x w) = n w" for v m d day w x
    using assms(2) by (auto simp: relay_def Let_def counts_runs_def)
  have retry: "spends n ?r (retry_failed env rw spec ign extra first)" for extra first
    using nm assms(4) by (intro spends_retry [OF assms(2,3)]) auto
  have tail: "spends n ?r (bind_w (retry_failed env rw spec ign extra (classify env spec reply))
      (\<lambda>(v, m, d). bind_w (do_w (relay env rw spec v m d day)) (\<lambda>_. ret_w (v, d))))" for extra reply day
    by (rule spends_free_after [OF retry])
      (auto intro!: spends_bind_free [OF spends_do] simp: post spends_ret split: prod.splits)
  have rest: "spends n ?r (if rp_busy reply then
           bind_w (do_w (if js_name spec \<in> SUMMARY_JOBS then rw_post rw (RunMissedBusy (js_name spec)) else id)) (\<lambda>_.
           ret_w (VMissed, [(''skipped'', JStr ''runner busy past its window'')]))
         else bind_w (retry_failed env rw spec ign extra (classify env spec reply)) (\<lambda>(v, m, d).
           bind_w (do_w (relay env rw spec v m d day)) (\<lambda>_. ret_w (v, d))))" for extra reply day
    by (intro spends_if tail spends_bind_free [OF spends_do] spends_ret) (simp add: post)
  have "spends n (?k + ?r) (run_spec env rw spec now ign ?od)"
  proof (cases "js_window spec")
    case w: (Pair start fin)
    show ?thesis unfolding run_spec_def Let_def w prod.case
      by (intro spends_if spends_ret spends_bind_free [OF od] spends_bind [OF spends_attempt [OF assms(2)] rest])
  qed
  then have "n (snd (run_spec env rw spec now ign ?od w)) \<le> n w + (?k + ?r)" by (simp add: spends_def)
  moreover have "?k + ?r \<le> (if job = ''pm'' then 2 else 1) * ?k" using nm by auto
  ultimately show ?thesis using True unfolding execute_unfold [OF assms(1)] gates_def busy_tries_left [OF assms(3), symmetric] by simp
qed

text \<open>The PM at 9:50, forty minutes before the end of its window, with a retry a minute.\<close>

theorem job_execute_calls_witness:
  "snd (job_execute demo_env demo_world ''pm'' (Some at_0950) False None 0) \<le> 82"
proof -
  obtain spec where s: "job_spec_of ''pm'' = Inr spec" using demo_spec by blast
  have "case job_spec_of ''pm'' of Inl _ \<Rightarrow> False | Inr spec \<Rightarrow> busy_tries demo_env spec (et_wall (re_zone demo_env) at_0950) = 40"
    by code_simp
  then have left: "intervals_left demo_env spec (et_wall (re_zone demo_env) at_0950) = 40"
    using busy_tries_left [of demo_env spec] by (simp add: s demo_env_def)
  have "counts_runs (\<lambda>w. w) demo_world" by (simp add: counts_runs_def demo_world_def)
  moreover have "0 < re_busy_retry_s demo_env" by (simp add: demo_env_def)
  moreover have "clock_after demo_env demo_world at_0950"
    unfolding clock_after_def demo_world_def by simp code_simp
  ultimately show ?thesis using job_execute_calls [OF s, of "\<lambda>w. w" demo_world demo_env at_0950 None False 0] left
    by (simp split: if_splits)
qed

section \<open>What every execution keeps\<close>

text \<open>
  A relation between worlds that the runner, the clock, the sleep and the channel respect is
  respected by an execution as a whole, whatever its outcome, raises included.
\<close>

locale world_relation =
  fixes R :: "'w \<Rightarrow> 'w \<Rightarrow> bool" and rw :: "'w run_world"
  assumes refl: "R w w"
    and trans: "R a b \<Longrightarrow> R b c \<Longrightarrow> R a c"
    and run: "R w (snd (rw_post_run rw q w))"
    and clock: "R w (snd (rw_clock rw w))"
    and sleep: "R w (rw_sleep rw s w)"
    and say: "R w (rw_post rw n w)"
begin

definition kept :: "('w, 'a) act \<Rightarrow> bool" where "kept f \<longleftrightarrow> (\<forall>w. R w (snd (f w)))"

lemma kept_ret [intro!]: "kept (ret_w x)" "kept (pure_w y)"
  by (simp_all add: kept_def ret_w_def pure_w_def refl)

lemma kept_do: "(\<And>w. R w (f w)) \<Longrightarrow> kept (do_w f)"
  by (simp add: kept_def do_w_def)

lemma kept_read: "(\<And>w. R w (snd (f w))) \<Longrightarrow> kept (read_w f)"
  unfolding kept_def read_w_def by (metis (mono_tags, lifting) case_prod_beta snd_conv)

lemma kept_bind: "kept f \<Longrightarrow> (\<And>x. kept (g x)) \<Longrightarrow> kept (bind_w f g)"
  unfolding kept_def bind_w_def
  by (auto split: prod.splits sum.splits) (metis trans snd_conv)+

lemma kept_if: "kept f \<Longrightarrow> kept g \<Longrightarrow> kept (if b then f else g)"
  by simp

lemma kept_run: "kept (runner_run env rw spec extra)"
  unfolding runner_run_def by (auto split: option.splits intro!: kept_bind kept_read run)

lemma kept_wait: "kept (wait_loop env rw spec extra n reply)"
  by (induction n arbitrary: reply) (auto intro!: kept_bind kept_do kept_run sleep)

lemma kept_attempt: "kept (run_with_busy_wait env rw spec et extra)"
  unfolding run_with_busy_wait_def wait_out_busy_def by (intro kept_bind kept_if kept_run kept_wait kept_ret)

lemma kept_retry: "kept (retry_failed env rw spec ign extra first)"
  unfolding retry_failed_def
  by (auto split: verdict.splits option.splits intro!: kept_bind kept_do kept_read kept_attempt clock sleep)

lemma relay_kept: "R w (relay env rw spec v m d day w)"
  by (simp add: relay_def Let_def say refl)

lemma kept_spec: "kept od \<Longrightarrow> kept (run_spec env rw spec now ign od)"
proof (cases "js_window spec")
  case w: (Pair start fin)
  assume od: "kept od"
  have missed: "kept (do_w (if js_name spec \<in> SUMMARY_JOBS then rw_post rw (RunMissedBusy (js_name spec)) else id))"
    by (rule kept_do) (simp add: say refl)
  have tail: "kept ((\<lambda>(v, m, d). bind_w (do_w (relay env rw spec v m d day)) (\<lambda>_. ret_w (v, d))) x)" for x day
    by (cases x) (auto intro!: kept_bind kept_do relay_kept)
  show ?thesis unfolding run_spec_def Let_def w prod.case
    by (intro kept_if kept_bind kept_ret od kept_attempt kept_retry missed tail)
qed

lemma execute_kept:
  assumes "case od of None \<Rightarrow> True | Some a \<Rightarrow> kept a"
  shows "R w (snd (job_execute env rw job now ign od w))"
proof -
  have od: "kept (case od of None \<Rightarrow> ret_w () | Some a \<Rightarrow> a)" using assms by (auto split: option.splits)
  have now: "kept (case now of Some i \<Rightarrow> ret_w i | None \<Rightarrow> read_w (rw_clock rw))"
    by (auto split: option.splits intro!: kept_read clock)
  have "kept (job_execute env rw job now ign od)"
    unfolding job_execute_def by (intro kept_bind kept_if kept_ret now kept_spec od)
  then show ?thesis by (simp add: kept_def)
qed

lemma health_kept: "(\<And>url w. R w (snd (rw_get_health rw url w))) \<Longrightarrow> R w (snd (health env rw w))"
  unfolding health_def by (auto simp: refl split: option.splits prod.splits http_reply.splits) (metis snd_conv)+

end

text \<open>
  Two worlds that act alike wherever a condition holds, a condition that their actions keep, give
  the same execution there.
\<close>

locale same_worlds =
  fixes I :: "'w \<Rightarrow> bool" and rw rw' :: "'w run_world"
  assumes run: "I w \<Longrightarrow> rw_post_run rw' q w = rw_post_run rw q w \<and> I (snd (rw_post_run rw q w))"
    and clock: "I w \<Longrightarrow> rw_clock rw' w = rw_clock rw w \<and> I (snd (rw_clock rw w))"
    and sleep: "I w \<Longrightarrow> rw_sleep rw' s w = rw_sleep rw s w \<and> I (rw_sleep rw s w)"
    and say: "I w \<Longrightarrow> rw_post rw' n w = rw_post rw n w \<and> I (rw_post rw n w)"
begin

definition agree :: "('w, 'a) act \<Rightarrow> ('w, 'a) act \<Rightarrow> bool" where
  "agree f g \<longleftrightarrow> (\<forall>w. I w \<longrightarrow> g w = f w \<and> I (snd (f w)))"

lemma agree_ret: "agree (ret_w x) (ret_w x)" "agree (pure_w y) (pure_w y)"
  by (simp_all add: agree_def ret_w_def pure_w_def)

lemma agree_do: "(\<And>w. I w \<Longrightarrow> g w = f w \<and> I (f w)) \<Longrightarrow> agree (do_w f) (do_w g)"
  by (simp add: agree_def do_w_def)

lemma agree_read: "(\<And>w. I w \<Longrightarrow> g w = f w \<and> I (snd (f w))) \<Longrightarrow> agree (read_w f) (read_w g)"
  by (simp add: agree_def read_w_def case_prod_beta)

lemma agree_bind: "agree f f' \<Longrightarrow> (\<And>x. agree (g x) (g' x)) \<Longrightarrow> agree (bind_w f g) (bind_w f' g')"
  unfolding agree_def bind_w_def by (auto split: prod.splits sum.splits)

lemma agree_if: "agree f f' \<Longrightarrow> agree g g' \<Longrightarrow> agree (if b then f else g) (if b then f' else g')"
  by simp

lemma agree_run: "agree (runner_run env rw spec extra) (runner_run env rw' spec extra)"
  unfolding runner_run_def by (auto split: option.splits intro!: agree_bind agree_read run agree_ret)

lemma agree_wait: "agree (wait_loop env rw spec extra n reply) (wait_loop env rw' spec extra n reply)"
  by (induction n arbitrary: reply) (auto intro!: agree_bind agree_do agree_run agree_if agree_ret sleep)

lemma agree_attempt: "agree (run_with_busy_wait env rw spec et extra) (run_with_busy_wait env rw' spec et extra)"
  unfolding run_with_busy_wait_def wait_out_busy_def by (intro agree_bind agree_if agree_run agree_wait agree_ret)

lemma agree_retry: "agree (retry_failed env rw spec ign extra first) (retry_failed env rw' spec ign extra first)"
  unfolding retry_failed_def
  by (auto split: verdict.splits option.splits intro!: agree_bind agree_do agree_read agree_attempt agree_ret clock sleep)

lemma agree_relay: "I w \<Longrightarrow> relay env rw' spec v m d day w = relay env rw spec v m d day w \<and> I (relay env rw spec v m d day w)"
  by (simp add: relay_def Let_def say)

lemma agree_spec: "agree od od' \<Longrightarrow> agree (run_spec env rw spec now ign od) (run_spec env rw' spec now ign od')"
proof (cases "js_window spec")
  case w: (Pair start fin)
  assume od: "agree od od'"
  have missed: "agree (do_w (if js_name spec \<in> SUMMARY_JOBS then rw_post rw (RunMissedBusy (js_name spec)) else id))
      (do_w (if js_name spec \<in> SUMMARY_JOBS then rw_post rw' (RunMissedBusy (js_name spec)) else id))"
    by (rule agree_do) (simp add: say)
  have tail: "agree ((\<lambda>(v, m, d). bind_w (do_w (relay env rw spec v m d day)) (\<lambda>_. ret_w (v, d))) x)
      ((\<lambda>(v, m, d). bind_w (do_w (relay env rw' spec v m d day)) (\<lambda>_. ret_w (v, d))) x)" for x day
    by (cases x) (auto intro!: agree_bind agree_do agree_relay agree_ret)
  show ?thesis unfolding run_spec_def Let_def w prod.case
    by (intro agree_if agree_bind agree_ret od agree_attempt agree_retry missed tail)
qed

lemma execute_agree:
  assumes "case od of None \<Rightarrow> True | Some a \<Rightarrow> agree a a" and "I w"
  shows "job_execute env rw' job now ign od w = job_execute env rw job now ign od w \<and> I (snd (job_execute env rw job now ign od w))"
proof -
  have od: "agree (case od of None \<Rightarrow> ret_w () | Some a \<Rightarrow> a) (case od of None \<Rightarrow> ret_w () | Some a \<Rightarrow> a)"
    using assms(1) by (auto split: option.splits intro: agree_ret)
  have now: "agree (case now of Some i \<Rightarrow> ret_w i | None \<Rightarrow> read_w (rw_clock rw)) (case now of Some i \<Rightarrow> ret_w i | None \<Rightarrow> read_w (rw_clock rw'))"
    by (auto split: option.splits intro!: agree_read agree_ret clock)
  have "agree (job_execute env rw job now ign od) (job_execute env rw' job now ign od)"
    unfolding job_execute_def by (intro agree_bind agree_if agree_ret now agree_spec od)
  then show ?thesis using assms(2) by (simp add: agree_def)
qed

end

end
