(* ===== verification/TC_Scorecard.thy ===== *)
theory TC_Scorecard
  imports TC_Scoring TC_Indicators TC_Paper TC_Ledger
begin

text \<open>
  The scorecard and the pre-registered checkpoint (tc/desk/scorecard.py). A field the source keeps
  as the text of an amount is the amount, in cents. Python's generator is seeded anew by each
  \<open>bootstrap_ci\<close>, so its draws are a function \<open>draw\<close>: \<open>draw n k\<close> is the \<open>k\<close>-th \<open>randrange(n)\<close>, which
  is documented to be below \<open>n\<close> (\<open>draws_ok\<close>). The rendered card is the list of its lines.
\<close>

section \<open>Groups\<close>

record group_stats_t =
  gs_name :: string
  gs_n :: nat
  gs_hit :: "dec option"
  gs_ret :: "dec option"
  gs_spy :: "dec option"
  gs_bench :: "dec option"
  gs_ci :: "(dec \<times> dec) option"

fun analyst_text :: "analyst \<Rightarrow> string" where
  "analyst_text Technical = ''technical''"
| "analyst_text Earnings = ''earnings''"
| "analyst_text News = ''news''"
| "analyst_text Macro = ''macro''"

definition q_cents :: "dec option \<Rightarrow> exn + dec option" where
  "q_cents d = (case d of None \<Rightarrow> Inr None | Some x \<Rightarrow> bind_e (cents x) (\<lambda>c. Inr (Some c)))"

definition mean :: "dec list \<Rightarrow> dec option" where
  "mean xs = (if xs = [] then None else Some (ddiv_nz (dsum xs) (of_nat (length xs))))"

definition RESAMPLES :: nat where "RESAMPLES = 2000"

text \<open>One resample draws as many items as there are; the division of an empty one raises.\<close>

definition resample_mean :: "(nat \<Rightarrow> nat \<Rightarrow> nat) \<Rightarrow> dec list \<Rightarrow> nat \<Rightarrow> dec" where
  "resample_mean draw xs i =
     (let n = length xs in ddiv_nz (dsum (map (\<lambda>j. xs ! draw n (i * n + j)) [0..<n])) (of_nat n))"

definition bootstrap_ci :: "(nat \<Rightarrow> nat \<Rightarrow> nat) \<Rightarrow> dec list \<Rightarrow> exn + dec \<times> dec" where
  "bootstrap_ci draw xs =
     (if xs = [] then Inl InvalidOperation
      else let means = sort (map (resample_mean draw xs) [0..<RESAMPLES]) in Inr (means ! 50, means ! (1950 - 1)))"

definition group_stats :: "(nat \<Rightarrow> nat \<Rightarrow> nat) \<Rightarrow> string \<Rightarrow> resolution list \<Rightarrow> int \<Rightarrow> exn + group_stats_t" where
  "group_stats draw nm rs ci_min =
     (if rs = []
      then Inr \<lparr>gs_name = nm, gs_n = 0, gs_hit = None, gs_ret = None, gs_spy = None, gs_bench = None, gs_ci = None\<rparr>
      else
        let ex = map excess_spy rs; n = length rs in
        bind_e (if ci_min \<le> int n
                then bind_e (bootstrap_ci draw ex) (\<lambda>(lo, hi). bind_e (cents lo) (\<lambda>lo. bind_e (cents hi) (\<lambda>hi. Inr (Some (lo, hi)))))
                else Inr None) (\<lambda>ci.
        bind_e (q_cents (Some (dmul (ddiv_nz (of_nat (length (filter hit rs))) (of_nat n)) 100))) (\<lambda>h.
        bind_e (q_cents (mean (map r_ret rs))) (\<lambda>ret.
        bind_e (q_cents (mean ex)) (\<lambda>spy.
        bind_e (q_cents (mean (map excess_bench rs))) (\<lambda>bench.
        Inr \<lparr>gs_name = nm, gs_n = n, gs_hit = h, gs_ret = ret, gs_spy = spy, gs_bench = bench, gs_ci = ci\<rparr>))))))"

section \<open>The checkpoint\<close>

datatype cp_verdict = NotYet | Keep | Stop | Rework
datatype cp_reason = FewCalls | NoExcess | BeatsBoth | TrailsBoth | Mixed

record checkpoint =
  cp_date :: date
  cp_min_calls :: int
  cp_resolved :: nat
  cp_verdict :: cp_verdict
  cp_reason :: cp_reason

definition checkpoint_verdict ::
  "date \<Rightarrow> date \<Rightarrow> int \<Rightarrow> nat \<Rightarrow> dec option \<Rightarrow> dec option \<Rightarrow> dec option \<Rightarrow> dec option \<Rightarrow> checkpoint" where
  "checkpoint_verdict day cp_day min_calls resolved pm_mean all_mean book_ret spy_ret =
     (let cp = (\<lambda>v why. \<lparr>cp_date = cp_day, cp_min_calls = min_calls, cp_resolved = resolved, cp_verdict = v, cp_reason = why\<rparr>) in
      if day < cp_day \<or> int resolved < min_calls then cp NotYet FewCalls
      else
        (case pm_mean of
           None \<Rightarrow> cp Rework NoExcess
         | Some pm \<Rightarrow>
             if 0 < pm \<and> (\<exists>b s. book_ret = Some b \<and> spy_ret = Some s \<and> s \<le> b) then cp Keep BeatsBoth
             else if pm < 0 \<and> (\<exists>a. all_mean = Some a \<and> pm < a) then cp Stop TrailsBoth
             else cp Rework Mixed))"

section \<open>The book's line\<close>

record book_stats_t =
  bs_start :: "date option"
  bs_start_equity :: "dec option"
  bs_equity :: "dec option"
  bs_ret :: "dec option"
  bs_spy :: "dec option"
  bs_closed :: nat
  bs_trade_ret :: "dec option"
  bs_real :: "dec option"

definition book_stats :: "desk \<Rightarrow> ledger \<Rightarrow> exn + book_stats_t" where
  "book_stats st L =
     (let real = map_option ac_value (latest_account L) in
      case paper_book st of
        None \<Rightarrow> Inr \<lparr>bs_start = None, bs_start_equity = None, bs_equity = None, bs_ret = None, bs_spy = None,
                     bs_closed = 0, bs_trade_ret = None, bs_real = real\<rparr>
      | Some (start, eq0) \<Rightarrow>
          bind_e (book_state st None) (\<lambda>book.
          let spy = bars_for st ''SPY'' (Some start) None in
          bind_e (if length spy < 2 then Inr None
                  else bind_e (ddiv (dsub (b_close (last spy)) (b_close (hd spy))) (b_close (hd spy))) (\<lambda>x. Inr (Some (dmul x 100)))) (\<lambda>spy_ret.
          bind_e (closed_trades st) (\<lambda>trades.
          bind_e (cents (equity book)) (\<lambda>eq.
          bind_e (ddiv (dsub (equity book) eq0) eq0) (\<lambda>x.
          bind_e (cents (dmul x 100)) (\<lambda>ret.
          bind_e (q_cents spy_ret) (\<lambda>spy_q.
          bind_e (q_cents (mean (map ct_ret trades))) (\<lambda>trade_q.
          Inr \<lparr>bs_start = Some start, bs_start_equity = Some eq0, bs_equity = Some eq, bs_ret = Some ret, bs_spy = spy_q,
               bs_closed = length trades, bs_trade_ret = trade_q, bs_real = real\<rparr>)))))))))"

section \<open>The card\<close>

record scorecard =
  sc_asof :: date
  sc_analysts :: "group_stats_t list"
  sc_all :: group_stats_t
  sc_calls :: group_stats_t
  sc_edge :: "dec option"
  sc_book :: book_stats_t
  sc_checkpoint :: checkpoint
  sc_flags :: "(string \<times> nat \<times> dec) list"

definition card_pitches :: "resolved_row list \<Rightarrow> resolution list" where
  "card_pitches rows = map rr_res (filter (\<lambda>r. r_kind (rr_res r) = KPitch) rows)"

definition card_calls :: "resolved_row list \<Rightarrow> resolution list" where
  "card_calls rows = map rr_res (filter (\<lambda>r. r_kind (rr_res r) = KCall \<and> rr_origin r \<in> {Some OPitch, Some OPm}) rows)"

definition analyst_flag :: "int \<Rightarrow> group_stats_t \<Rightarrow> (string \<times> nat \<times> dec) option" where
  "analyst_flag review_min g =
     (case gs_bench g of
        Some b \<Rightarrow> if review_min \<le> int (gs_n g) \<and> b < 0 then Some (gs_name g, gs_n g, b) else None
      | None \<Rightarrow> None)"

definition build_scorecard :: "(nat \<Rightarrow> nat \<Rightarrow> nat) \<Rightarrow> desk \<Rightarrow> ledger \<Rightarrow> rules \<Rightarrow> desk_config \<Rightarrow> date \<Rightarrow> exn + scorecard" where
  "build_scorecard draw st L rules cfg day =
     bind_e (rules_int rules ''strategy'' ''scorecard_ci_min_n'') (\<lambda>ci_min.
     bind_e (resolved_rows st) (\<lambda>rows.
     let pitched = card_pitches rows; called = card_calls rows in
     bind_e (map_e (\<lambda>a. group_stats draw (analyst_text a) (map rr_res (filter (\<lambda>r. rr_analyst r = Some a) rows)) ci_min) ANALYSTS) (\<lambda>groups.
     let analysts = filter (\<lambda>g. 0 < gs_n g) groups;
         pm_mean = mean (map excess_spy called); all_mean = mean (map excess_spy pitched);
         edge = (case (pm_mean, all_mean) of (Some p, Some a) \<Rightarrow> Some (dsub p a) | _ \<Rightarrow> None) in
     bind_e (rules_int rules ''strategy'' ''analyst_review_min_pitches'') (\<lambda>review_min.
     let flags = List.map_filter (analyst_flag review_min) analysts in
     bind_e (book_stats st L) (\<lambda>book.
     bind_e (group_stats draw ''all pitches'' pitched ci_min) (\<lambda>all_g.
     bind_e (group_stats draw ''PM calls'' called ci_min) (\<lambda>call_g.
     bind_e (q_cents edge) (\<lambda>edge_q.
     bind_e (rules_int rules ''strategy'' ''checkpoint_min_pm_calls'') (\<lambda>min_calls.
     Inr \<lparr>sc_asof = day, sc_analysts = analysts, sc_all = all_g, sc_calls = call_g, sc_edge = edge_q, sc_book = book,
          sc_checkpoint = checkpoint_verdict day (checkpoint_date cfg) min_calls (length called) pm_mean all_mean
                            (bs_ret book) (bs_spy book),
          sc_flags = flags\<rparr>)))))))))"

datatype card_line =
    LHead date | LGroup group_stats_t | LEdge dec | LBook book_stats_t | LReal dec | LCheckpoint checkpoint
  | LFlag "string \<times> nat \<times> dec"

definition render_scorecard :: "scorecard \<Rightarrow> card_line list" where
  "render_scorecard sc =
     [LHead (sc_asof sc), LGroup (sc_calls sc), LGroup (sc_all sc)] @
     (case sc_edge sc of Some e \<Rightarrow> [LEdge e] | None \<Rightarrow> []) @ map LGroup (sc_analysts sc) @
     (if bs_start (sc_book sc) \<noteq> None then [LBook (sc_book sc)] else []) @
     (case bs_real (sc_book sc) of Some v \<Rightarrow> [LReal v] | None \<Rightarrow> []) @
     [LCheckpoint (sc_checkpoint sc)] @ map LFlag (sc_flags sc)"

section \<open>Intervals\<close>

definition draws_ok :: "(nat \<Rightarrow> nat \<Rightarrow> nat) \<Rightarrow> bool" where
  "draws_ok draw \<longleftrightarrow> (\<forall>n k. 0 < n \<longrightarrow> draw n k < n)"

lemma sorted_quantile:
  assumes "sorted xs" and "k < length xs"
  shows "length (filter (\<lambda>x. x < xs ! k) xs) \<le> k"
    and "length (filter (\<lambda>x. xs ! k < x) xs) \<le> length xs - Suc k"
proof -
  have "{i. i < length xs \<and> xs ! i < xs ! k} \<subseteq> {..<k}"
    using sorted_nth_mono [OF assms(1)] assms(2) by (auto simp: not_less intro: ccontr) (meson leD leI)
  from card_mono [OF _ this] show "length (filter (\<lambda>x. x < xs ! k) xs) \<le> k"
    by (simp add: length_filter_conv_card)
  have "{i. i < length xs \<and> xs ! k < xs ! i} \<subseteq> {Suc k..<length xs}"
    using sorted_nth_mono [OF assms(1)] assms(2) by (auto simp: Suc_le_eq) (meson leD leI)
  from card_mono [OF _ this] show "length (filter (\<lambda>x. xs ! k < x) xs) \<le> length xs - Suc k"
    by (simp add: length_filter_conv_card)
qed

lemma length_filter_sort: "length (filter P (sort xs)) = length (filter P xs)"
  by (simp add: filter_sort)

lemma length_filter_mono: "(\<And>x. P x \<Longrightarrow> Q x) \<Longrightarrow> length (filter P xs) \<le> length (filter Q xs)"
  by (induction xs) auto

lemma dsum_nonpos: "(\<And>x. x \<in> set xs \<Longrightarrow> x \<le> 0) \<Longrightarrow> dsum xs \<le> 0"
proof (induction xs rule: rev_induct)
  case (snoc x xs)
  then show ?case by (auto simp: dsum_snoc dadd_def intro!: ctx28.nonpos add_nonpos_nonpos)
qed simp

lemma resample_sign:
  assumes "draws_ok draw" and "xs \<noteq> []"
  shows "\<forall>x \<in> set xs. 0 \<le> x \<Longrightarrow> 0 \<le> resample_mean draw xs i"
    and "\<forall>x \<in> set xs. x \<le> 0 \<Longrightarrow> resample_mean draw xs i \<le> 0"
  using assms
  by (auto simp: resample_mean_def draws_ok_def Let_def ddiv_nz_def intro!: ctx28.nonneg ctx28.nonpos divide_nonneg_nonneg
      divide_nonpos_nonneg dsum_nonneg dsum_nonpos)

lemma bootstrap_facts:
  assumes "bootstrap_ci draw xs = Inr (lo, hi)"
  defines "means \<equiv> map (resample_mean draw xs) [0..<RESAMPLES]"
  shows "xs \<noteq> []" and "lo \<in> set means" and "hi \<in> set means" and "lo \<le> hi"
    and "length (filter (\<lambda>m. m < lo) means) \<le> 50" and "length (filter (\<lambda>m. hi < m) means) \<le> 50"
proof -
  let ?s = "sort means"
  have n: "length means = 2000" by (simp add: means_def RESAMPLES_def)
  show "xs \<noteq> []" using assms(1) by (auto simp: bootstrap_ci_def)
  then have lh: "lo = ?s ! 50" "hi = ?s ! 1949"
    using assms(1) by (simp_all add: bootstrap_ci_def means_def Let_def)
  have "?s ! 50 \<in> set ?s" "?s ! 1949 \<in> set ?s" by (rule nth_mem, simp add: n)+
  then show "lo \<in> set means" "hi \<in> set means" unfolding lh by simp_all
  show "lo \<le> hi" unfolding lh by (rule sorted_nth_mono) (simp_all add: n)
  show "length (filter (\<lambda>m. m < lo) means) \<le> 50"
    using sorted_quantile(1) [of ?s 50] by (simp add: lh n length_filter_sort)
  show "length (filter (\<lambda>m. hi < m) means) \<le> 50"
    using sorted_quantile(2) [of ?s 1949] by (simp add: lh n length_filter_sort)
qed

section \<open>What a group shows\<close>

lemma q_cents_Inr: "q_cents d = Inr c \<longleftrightarrow> (d = None \<and> c = None) \<or> (\<exists>x y. d = Some x \<and> c = Some y \<and> cents x = Inr y)"
  by (auto simp: q_cents_def err split: option.splits)

lemma cents_mono: "cents x = Inr a \<Longrightarrow> cents y = Inr b \<Longrightarrow> x \<le> y \<Longrightarrow> a \<le> b"
  by (auto simp: money_defs intro: half_even_r.q.mono)

lemma cents_sign:
  assumes "cents x = Inr a"
  shows "0 \<le> x \<Longrightarrow> 0 \<le> a" and "x \<le> 0 \<Longrightarrow> a \<le> 0"
proof -
  have z: "cents 0 = Inr 0" by (simp add: dec_eval)
  show "0 \<le> x \<Longrightarrow> 0 \<le> a" "x \<le> 0 \<Longrightarrow> a \<le> 0" using cents_mono [OF z assms] cents_mono [OF assms z] by auto
qed

lemma hit_rate_bounds:
  assumes "k \<le> n" and "cents (dmul (ddiv_nz (of_nat k) (of_nat n)) 100) = Inr h"
  shows "0 \<le> h \<and> h \<le> 100"
proof -
  have c: "cents 100 = Inr 100" by (simp add: dec_eval)
  have "(of_nat k :: rat) / of_nat n \<le> 1" "0 \<le> (of_nat k :: rat) / of_nat n" using assms(1) by (auto simp: divide_le_eq)
  then have "0 \<le> ddiv_nz (of_nat k) (of_nat n)" "ddiv_nz (of_nat k) (of_nat n) \<le> 1"
    by (auto simp: ddiv_nz_def intro!: ctx28.nonneg ctx28.le_fixed fix28_eval)
  then have "0 \<le> dmul (ddiv_nz (of_nat k) (of_nat n)) 100" "dmul (ddiv_nz (of_nat k) (of_nat n)) 100 \<le> 100"
    by (auto simp: dmul_def intro!: ctx28.nonneg ctx28.le_fixed fix28_eval)
  then show ?thesis using cents_sign(1) [OF assms(2)] cents_mono [OF assms(2) c] by blast
qed

lemma group_stats_Nil: "group_stats draw nm [] ci_min = Inr g \<Longrightarrow> gs_n g = 0"
  by (auto simp: group_stats_def)

lemma group_stats_Inr:
  assumes "group_stats draw nm rs ci_min = Inr g" and "rs \<noteq> []"
  obtains h ret spy bench where "gs_name g = nm" "gs_n g = length rs" "gs_hit g = Some h" "gs_ret g = Some ret"
    "gs_spy g = Some spy" "gs_bench g = Some bench"
    "cents (dmul (ddiv_nz (of_nat (length (filter hit rs))) (of_nat (length rs))) 100) = Inr h"
    "cents (ddiv_nz (dsum (map r_ret rs)) (of_nat (length rs))) = Inr ret"
    "cents (ddiv_nz (dsum (map excess_spy rs)) (of_nat (length rs))) = Inr spy"
    "cents (ddiv_nz (dsum (map excess_bench rs)) (of_nat (length rs))) = Inr bench"
    "if ci_min \<le> int (length rs)
     then \<exists>lo hi lo' hi'. bootstrap_ci draw (map excess_spy rs) = Inr (lo, hi) \<and> cents lo = Inr lo' \<and> cents hi = Inr hi' \<and> gs_ci g = Some (lo', hi')
     else gs_ci g = None"
  using assms unfolding group_stats_def Let_def by (auto simp: err q_cents_Inr mean_def split: if_splits)

lemma group_stats_n: "group_stats draw nm rs ci_min = Inr g \<Longrightarrow> gs_n g = length rs"
  by (cases "rs = []") (auto dest: group_stats_Nil elim: group_stats_Inr)

text \<open>C31: what a group of the scorecard shows. Its count is the number of its resolutions; an empty group
  shows nothing else. The hit rate is a percentage. The 95 percent interval is shown exactly from
  the minimum count on; its ends are in order, at most 50 of the 2000 resampled means print below
  its lower end and at most 50 above its upper one; and when no item trails SPY the interval is not
  negative, when none beats it not positive.\<close>

theorem group_stats_sound:
  assumes "group_stats draw nm rs ci_min = Inr g" and "draws_ok draw"
  shows "gs_n g = length rs \<and> (rs = [] \<longrightarrow> gs_hit g = None \<and> gs_ci g = None) \<and>
    (\<forall>h. gs_hit g = Some h \<longrightarrow> 0 \<le> h \<and> h \<le> 100) \<and> (gs_ci g \<noteq> None \<longleftrightarrow> rs \<noteq> [] \<and> ci_min \<le> int (length rs)) \<and>
    (\<forall>lo hi. gs_ci g = Some (lo, hi) \<longrightarrow>
       (let means = map (resample_mean draw (map excess_spy rs)) [0..<RESAMPLES] in
        lo \<le> hi \<and> length (filter (\<lambda>m. \<exists>c. cents m = Inr c \<and> c < lo) means) \<le> 50 \<and>
        length (filter (\<lambda>m. \<exists>c. cents m = Inr c \<and> hi < c) means) \<le> 50 \<and>
        (list_all (\<lambda>r. 0 \<le> excess_spy r) rs \<longrightarrow> 0 \<le> lo) \<and> (list_all (\<lambda>r. excess_spy r \<le> 0) rs \<longrightarrow> hi \<le> 0)))"
proof (cases "rs = []")
  case True
  then show ?thesis using assms(1) by (auto simp: group_stats_def)
next
  case False
  let ?means = "map (resample_mean draw (map excess_spy rs)) [0..<RESAMPLES]"
  from group_stats_Inr [OF assms(1) False] obtain h where g: "gs_n g = length rs" "gs_hit g = Some h"
    "cents (dmul (ddiv_nz (of_nat (length (filter hit rs))) (of_nat (length rs))) 100) = Inr h"
    "if ci_min \<le> int (length rs)
     then \<exists>lo hi lo' hi'. bootstrap_ci draw (map excess_spy rs) = Inr (lo, hi) \<and> cents lo = Inr lo' \<and> cents hi = Inr hi' \<and> gs_ci g = Some (lo', hi')
     else gs_ci g = None" by metis
  have h: "0 \<le> h \<and> h \<le> 100" by (rule hit_rate_bounds [OF _ g(3)]) simp
  have ci: "lo \<le> hi \<and> length (filter (\<lambda>m. \<exists>c. cents m = Inr c \<and> c < lo) ?means) \<le> 50 \<and>
      length (filter (\<lambda>m. \<exists>c. cents m = Inr c \<and> hi < c) ?means) \<le> 50 \<and>
      (list_all (\<lambda>r. 0 \<le> excess_spy r) rs \<longrightarrow> 0 \<le> lo) \<and> (list_all (\<lambda>r. excess_spy r \<le> 0) rs \<longrightarrow> hi \<le> 0)"
    if shown: "gs_ci g = Some (lo, hi)" for lo hi
  proof -
    obtain a b where b: "bootstrap_ci draw (map excess_spy rs) = Inr (a, b)" "cents a = Inr lo" "cents b = Inr hi"
      using g(4) shown by (auto split: if_splits)
    note f = bootstrap_facts [OF b(1)]
    have "length (filter (\<lambda>m. \<exists>c. cents m = Inr c \<and> c < lo) ?means) \<le> length (filter (\<lambda>m. m < a) ?means)"
      by (rule length_filter_mono) (metis b(2) cents_mono leD leI)
    moreover have "length (filter (\<lambda>m. \<exists>c. cents m = Inr c \<and> hi < c) ?means) \<le> length (filter (\<lambda>m. b < m) ?means)"
      by (rule length_filter_mono) (metis b(3) cents_mono leD leI)
    moreover have "0 \<le> a" if "list_all (\<lambda>r. 0 \<le> excess_spy r) rs"
      using f(2) resample_sign(1) [OF assms(2) f(1)] that by (auto simp: list_all_iff)
    moreover have "b \<le> 0" if "list_all (\<lambda>r. excess_spy r \<le> 0) rs"
      using f(3) resample_sign(2) [OF assms(2) f(1)] that by (auto simp: list_all_iff)
    ultimately show ?thesis using f(4,5,6) cents_mono [OF b(2,3)] cents_sign [OF b(2)] cents_sign [OF b(3)] by (meson order_trans)
  qed
  then show ?thesis using g h False by (auto simp: Let_def split: if_splits)
qed


section \<open>What the card shows\<close>

lemma resolved_row_analyst:
  assumes "resolved_rows st = Inr rows" and "row \<in> set rows"
  shows "rr_analyst row \<noteq> None \<longleftrightarrow> r_kind (rr_res row) = KPitch"
proof -
  have "\<exists>r \<in> set rs. f r = Inr x" if "map_e f rs = Inr xs" "x \<in> set xs" for f :: "resolution \<Rightarrow> exn + resolved_row" and rs xs x
    using that by (induction rs arbitrary: xs) (auto simp: err)
  from this [OF assms [unfolded resolved_rows_def]] show ?thesis
    by (auto split: option.splits if_splits)
qed

lemma analysts_partition:
  "(\<Sum>a\<leftarrow>ANALYSTS. length (filter (\<lambda>r. rr_analyst r = Some a) rows)) = length (filter (\<lambda>r. rr_analyst r \<noteq> None) rows)"
proof (induction rows)
  case (Cons r rows)
  then show ?case by (cases "rr_analyst r"; cases "the (rr_analyst r)") (simp_all add: ANALYSTS_def)
qed simp

lemma group_counts:
  assumes "map_e (\<lambda>a. group_stats draw (nm a) (rs a) ci_min) as = Inr gs"
  shows "sum_list (map gs_n (filter (\<lambda>g. 0 < gs_n g) gs)) = (\<Sum>a\<leftarrow>as. length (rs a))"
  using assms by (induction as arbitrary: gs) (auto simp: err dest: group_stats_n)

lemma shown_mean:
  assumes "group_stats draw nm rs ci_min = Inr g" and "mean (map excess_spy rs) = Some m"
  shows "\<exists>c. gs_spy g = Some c \<and> cents m = Inr c"
proof -
  have ne: "rs \<noteq> []" using assms(2) by (auto simp: mean_def)
  from group_stats_Inr [OF assms(1) this] show ?thesis using assms(2) ne by (auto simp: mean_def)
qed

lemma checkpoint_cases:
  assumes "checkpoint_verdict day cp_day min_calls n pm a b s = cp"
  shows "cp_verdict cp = NotYet \<longleftrightarrow> day < cp_day \<or> int n < min_calls"
    and "cp_verdict cp = Keep \<Longrightarrow> \<exists>p x y. pm = Some p \<and> 0 < p \<and> b = Some x \<and> s = Some y \<and> y \<le> x"
    and "cp_verdict cp = Stop \<Longrightarrow> \<exists>p q. pm = Some p \<and> a = Some q \<and> p < 0 \<and> p < q"
  using assms by (auto simp: checkpoint_verdict_def Let_def split: option.splits if_splits)

text \<open>C25: the card agrees with itself and with its verdict. Every resolved pitch is counted under exactly one
  analyst. The checkpoint is not judged before its day or below its number of calls, and judged
  from then on. A card that says keep shows calls that do not trail SPY and a book that does not
  trail it; one that says stop shows calls that do not beat SPY, nor the pitches, and an edge that
  is not positive. A flagged analyst has enough resolved pitches and a negative mean excess.\<close>

theorem scorecard_consistent:
  assumes "build_scorecard draw st L rules cfg day = Inr sc"
  shows "sum_list (map gs_n (sc_analysts sc)) = gs_n (sc_all sc) \<and>
    rules_int rules ''strategy'' ''checkpoint_min_pm_calls'' = Inr (cp_min_calls (sc_checkpoint sc)) \<and>
    (cp_verdict (sc_checkpoint sc) = NotYet \<longleftrightarrow>
       day < checkpoint_date cfg \<or> int (gs_n (sc_calls sc)) < cp_min_calls (sc_checkpoint sc)) \<and>
    (cp_verdict (sc_checkpoint sc) = Keep \<longrightarrow> (\<exists>c x y. gs_spy (sc_calls sc) = Some c \<and> 0 \<le> c \<and>
       bs_ret (sc_book sc) = Some x \<and> bs_spy (sc_book sc) = Some y \<and> y \<le> x)) \<and>
    (cp_verdict (sc_checkpoint sc) = Stop \<longrightarrow> (\<exists>c a e. gs_spy (sc_calls sc) = Some c \<and> c \<le> 0 \<and>
       gs_spy (sc_all sc) = Some a \<and> c \<le> a \<and> sc_edge sc = Some e \<and> e \<le> 0)) \<and>
    (\<forall>(nm, n, b) \<in> set (sc_flags sc). b < 0 \<and> (\<exists>g \<in> set (sc_analysts sc). gs_name g = nm \<and> gs_n g = n \<and> gs_bench g = Some b) \<and>
       (\<exists>m. rules_int rules ''strategy'' ''analyst_review_min_pitches'' = Inr m \<and> m \<le> int n))"
proof -
  from assms obtain ci_min rows groups review_min book edge_q min_calls where
    rows: "resolved_rows st = Inr rows"
    and groups: "map_e (\<lambda>a. group_stats draw (analyst_text a) (map rr_res (filter (\<lambda>r. rr_analyst r = Some a) rows)) ci_min) ANALYSTS = Inr groups"
    and review: "rules_int rules ''strategy'' ''analyst_review_min_pitches'' = Inr review_min"
    and all_g: "group_stats draw ''all pitches'' (card_pitches rows) ci_min = Inr (sc_all sc)"
    and call_g: "group_stats draw ''PM calls'' (card_calls rows) ci_min = Inr (sc_calls sc)"
    and edge: "q_cents (case (mean (map excess_spy (card_calls rows)), mean (map excess_spy (card_pitches rows))) of
        (Some p, Some a) \<Rightarrow> Some (dsub p a) | _ \<Rightarrow> None) = Inr (sc_edge sc)"
    and min_calls: "rules_int rules ''strategy'' ''checkpoint_min_pm_calls'' = Inr min_calls"
    and parts: "sc_analysts sc = filter (\<lambda>g. 0 < gs_n g) groups" "sc_flags sc = List.map_filter (analyst_flag review_min) (sc_analysts sc)"
      "sc_checkpoint sc = checkpoint_verdict day (checkpoint_date cfg) min_calls (length (card_calls rows))
         (mean (map excess_spy (card_calls rows))) (mean (map excess_spy (card_pitches rows))) (bs_ret (sc_book sc)) (bs_spy (sc_book sc))"
    unfolding build_scorecard_def Let_def by (auto simp: err)
  have "(\<lambda>r. r_kind (rr_res r) = KPitch) r \<longleftrightarrow> rr_analyst r \<noteq> None" if "r \<in> set rows" for r
    using resolved_row_analyst [OF rows that] by simp
  then have "length (card_pitches rows) = length (filter (\<lambda>r. rr_analyst r \<noteq> None) rows)"
    unfolding card_pitches_def length_map by (simp cong: filter_cong)
  then have sum: "sum_list (map gs_n (sc_analysts sc)) = gs_n (sc_all sc)"
    using group_counts [OF groups] analysts_partition [of rows] group_stats_n [OF all_g] by (simp add: parts(1))
  note cp = checkpoint_cases [OF parts(3) [symmetric]]
  have m: "cp_min_calls (sc_checkpoint sc) = min_calls"
    unfolding parts(3) by (simp add: checkpoint_verdict_def Let_def split: option.split)
  have keep: "\<exists>c x y. gs_spy (sc_calls sc) = Some c \<and> 0 \<le> c \<and> bs_ret (sc_book sc) = Some x \<and> bs_spy (sc_book sc) = Some y \<and> y \<le> x"
    if "cp_verdict (sc_checkpoint sc) = Keep"
    using cp(2) [OF that] shown_mean [OF call_g] cents_sign(1) by fastforce
  have stop: "\<exists>c a e. gs_spy (sc_calls sc) = Some c \<and> c \<le> 0 \<and> gs_spy (sc_all sc) = Some a \<and> c \<le> a \<and> sc_edge sc = Some e \<and> e \<le> 0"
    if shown: "cp_verdict (sc_checkpoint sc) = Stop"
  proof -
    obtain p q where pq: "mean (map excess_spy (card_calls rows)) = Some p" "mean (map excess_spy (card_pitches rows)) = Some q"
      "p < 0" "p < q" using cp(3) [OF shown] by auto
    obtain c a where ca: "gs_spy (sc_calls sc) = Some c" "cents p = Inr c" "gs_spy (sc_all sc) = Some a" "cents q = Inr a"
      using shown_mean [OF call_g pq(1)] shown_mean [OF all_g pq(2)] by auto
    obtain e where e: "sc_edge sc = Some e" "cents (dsub p q) = Inr e" using edge by (auto simp: pq(1,2) q_cents_Inr)
    have "dsub p q \<le> 0" using pq(4) by (auto simp: dsub_def intro: ctx28.nonpos)
    then show ?thesis using ca e cents_sign(2) [OF ca(2)] cents_sign(2) [OF e(2)] cents_mono [OF ca(2,4)] pq(3,4) by auto
  qed
  have flags: "\<forall>(nm, n, b) \<in> set (sc_flags sc). b < 0 \<and> (\<exists>g \<in> set (sc_analysts sc). gs_name g = nm \<and> gs_n g = n \<and> gs_bench g = Some b) \<and>
      (\<exists>m. rules_int rules ''strategy'' ''analyst_review_min_pitches'' = Inr m \<and> m \<le> int n)"
    by (auto simp: parts(2) List.map_filter_def analyst_flag_def review split: option.splits if_splits)
  show ?thesis using sum cp(1) keep stop flags min_calls by (simp add: m group_stats_n [OF call_g])
qed


text \<open>
  The strategy drops an analyst with a negative mean excess; the flag tests the mean as it prints,
  so a loss of at most half a cent point is not flagged.
\<close>

lemma flag_misses_small_loss:
  assumes "group_stats draw nm rs ci_min = Inr g" and "mean (map excess_bench rs) = Some m" and "- 5 / 1000 \<le> m" and "m < 0"
  shows "analyst_flag review_min g = None"
proof -
  have ne: "rs \<noteq> []" using assms(2) by (auto simp: mean_def)
  from group_stats_Inr [OF assms(1) ne] obtain b where b: "gs_bench g = Some b" "cents m = Inr b"
    using assms(2) ne by (auto simp: mean_def)
  have "\<lfloor>- (1 / 2) :: rat\<rfloor> = - 1" by (simp add: floor_eq_iff)
  then have "cents (- 5 / 1000) = Inr 0" by (simp add: dec_eval)
  then have "0 \<le> b" using cents_mono [OF _ b(2) assms(3)] by blast
  then show ?thesis by (simp add: analyst_flag_def b(1))
qed

section \<open>An example\<close>

lemma sort_replicate: "sort (replicate n x) = replicate n x"
  by (rule sorted_sort_id) (simp add: sorted_replicate)

lemma sample_interval: "bootstrap_ci (\<lambda>n k. k mod n) [9] = Inr (9, 9)"
proof -
  have "resample_mean (\<lambda>n k. k mod n) [9] = (\<lambda>i. 9)" by (rule ext) (simp add: resample_mean_def dec_eval)
  then have "map (resample_mean (\<lambda>n k. k mod n) [9]) [0..<RESAMPLES] = replicate 2000 9"
    by (simp add: map_replicate_const RESAMPLES_def)
  then show ?thesis unfolding bootstrap_ci_def Let_def by (simp add: sort_replicate)
qed

lemma sample_group:
  "group_stats draw ''technical'' [sample_resolution] 20 =
     Inr \<lparr>gs_name = ''technical'', gs_n = 1, gs_hit = Some 100, gs_ret = Some 10, gs_spy = Some 9, gs_bench = Some 8, gs_ci = None\<rparr>"
  by (simp add: group_stats_def q_cents_def mean_def excess_spy_def excess_bench_def hit_def sample_resolution_def dec_eval)

theorem group_stats_sound_witness:
  "\<exists>g. group_stats (\<lambda>n k. k mod n) ''technical'' [sample_resolution] 1 = Inr g \<and> gs_n g = 1 \<and> gs_ci g = Some (9, 9)"
proof -
  let ?d = "\<lambda>n k. k mod n :: nat"
  have e: "map excess_spy [sample_resolution] = [9]" by (simp add: excess_spy_def sample_resolution_def dec_eval)
  have c: "cents 9 = Inr 9" by (simp add: dec_eval)
  obtain g where g: "group_stats ?d ''technical'' [sample_resolution] 1 = Inr g" and ci: "gs_ci g = Some (9, 9)"
    unfolding group_stats_def Let_def e sample_interval
    by (simp add: c q_cents_def mean_def excess_spy_def excess_bench_def hit_def sample_resolution_def dec_eval)
  have "draws_ok ?d" by (simp add: draws_ok_def)
  from group_stats_sound [OF g this] g ci show ?thesis by auto
qed

definition sample_card_desk :: desk where
  "sample_card_desk = empty_desk\<lparr>pitches := [sample_pitch], resolutions := [sample_resolution]\<rparr>"

lemma sample_rows: "resolved_rows sample_card_desk =
    Inr [\<lparr>rr_res = sample_resolution, rr_analyst = Some Technical, rr_origin = None, rr_conviction = 4\<rparr>]"
  by (simp add: resolved_rows_def sample_card_desk_def sample_resolution_def sample_pitch_def empty_desk_def)

theorem scorecard_consistent_witness:
  "\<exists>sc. build_scorecard (\<lambda>n k. k mod n) sample_card_desk empty_ledger rules_yml sample_config 739990 = Inr sc \<and>
     sum_list (map gs_n (sc_analysts sc)) = 1 \<and> gs_n (sc_all sc) = 1 \<and> cp_verdict (sc_checkpoint sc) = NotYet"
proof -
  let ?draw = "\<lambda>n k. k mod n :: nat"
  have yml: "rules_int rules_yml ''strategy'' ''scorecard_ci_min_n'' = Inr 20"
    "rules_int rules_yml ''strategy'' ''analyst_review_min_pitches'' = Inr 15"
    "rules_int rules_yml ''strategy'' ''checkpoint_min_pm_calls'' = Inr 40"
    by (simp_all add: rules_defs rules_yml_def int_of_dec_def)
  have k: "r_kind sample_resolution = KPitch" by (simp add: sample_resolution_def)
  have n: "group_stats ?draw nm [] 20 = Inr \<lparr>gs_name = nm, gs_n = 0, gs_hit = None, gs_ret = None, gs_spy = None, gs_bench = None, gs_ci = None\<rparr>"
    for nm by (simp add: group_stats_def)
  have a: "\<exists>g. group_stats ?draw ''all pitches'' [sample_resolution] 20 = Inr g \<and> gs_n g = 1"
    by (simp add: group_stats_def q_cents_def mean_def excess_spy_def excess_bench_def hit_def sample_resolution_def dec_eval)
  then obtain g where g: "group_stats ?draw ''all pitches'' [sample_resolution] 20 = Inr g" "gs_n g = 1" by blast
  have b: "book_stats sample_card_desk empty_ledger = Inr \<lparr>bs_start = None, bs_start_equity = None, bs_equity = None, bs_ret = None,
      bs_spy = None, bs_closed = 0, bs_trade_ret = None, bs_real = None\<rparr>"
    by (simp add: book_stats_def sample_card_desk_def empty_desk_def empty_ledger_def latest_account_def)
  have "\<exists>sc. build_scorecard ?draw sample_card_desk empty_ledger rules_yml sample_config 739990 = Inr sc \<and> gs_n (sc_all sc) = 1 \<and> gs_n (sc_calls sc) = 0"
    unfolding build_scorecard_def yml sample_rows
    by (simp add: card_pitches_def card_calls_def k n g sample_group b ANALYSTS_def mean_def q_cents_def yml)
  then obtain sc where sc: "build_scorecard ?draw sample_card_desk empty_ledger rules_yml sample_config 739990 = Inr sc"
    "gs_n (sc_all sc) = 1" "gs_n (sc_calls sc) = 0" by blast
  from scorecard_consistent [OF sc(1)] sc yml(3) show ?thesis by auto
qed

end
