(* ===== verification/TC_Csv.thy ===== *)
theory TC_Csv
  imports TC_Render "HOL-Library.List_Lexorder" "HOL-Library.Char_ord"
begin

text \<open>
  \<open>csv.reader\<close> and \<open>csv.DictReader\<close> of Python's library over \<open>io.StringIO\<close>, as the symbol
  directory is read (tc/loops/universe.py): the reader's state machine with its default dialect but
  for the delimiter (doubled quotes, not strict, fields of at most 131072 characters).
\<close>

section \<open>The reader\<close>

definition CR :: char where "CR = CHR 0x0D"
definition QUOTE :: char where "QUOTE = CHR 0x22"
definition FIELD_LIMIT :: int where "FIELD_LIMIT = 131072"

datatype csv_state = StartRecord | StartField | InField | InQuoted | QuoteInQuoted | EatCrnl

record csv =
  cs_state :: csv_state
  cs_field :: string \<comment> \<open>the field being read, last character first\<close>
  cs_fields :: "string list" \<comment> \<open>the record being read, last field first\<close>
  cs_rows :: "string list list" \<comment> \<open>last record first\<close>

definition add_char :: "char \<Rightarrow> csv \<Rightarrow> exn + csv" where
  "add_char c r = (if FIELD_LIMIT \<le> int (length (cs_field r)) then Inl CsvError else Inr (r\<lparr>cs_field := c # cs_field r\<rparr>))"

definition save_field :: "csv \<Rightarrow> csv" where
  "save_field r = r\<lparr>cs_fields := rev (cs_field r) # cs_fields r, cs_field := []\<rparr>"

definition to_state :: "csv_state \<Rightarrow> exn + csv \<Rightarrow> exn + csv" where
  "to_state s m = bind_e m (\<lambda>r. Inr (r\<lparr>cs_state := s\<rparr>))"

text \<open>One character; then the end of a line, which the reader sees after each.\<close>

definition csv_char :: "char \<Rightarrow> char \<Rightarrow> csv \<Rightarrow> exn + csv" where
  "csv_char x c r =
     (let ends = (c = NL \<or> c = CR);
          field_start =
            (if ends then to_state EatCrnl (Inr (save_field r))
             else if c = QUOTE then to_state InQuoted (Inr r)
             else if c = x then to_state StartField (Inr (save_field r))
             else to_state InField (add_char c r)) in
      case cs_state r of
        StartRecord \<Rightarrow> if ends then to_state EatCrnl (Inr r) else field_start
      | StartField \<Rightarrow> field_start
      | InField \<Rightarrow>
          if ends then to_state EatCrnl (Inr (save_field r))
          else if c = x then to_state StartField (Inr (save_field r))
          else add_char c r
      | InQuoted \<Rightarrow> if c = QUOTE then to_state QuoteInQuoted (Inr r) else add_char c r
      | QuoteInQuoted \<Rightarrow>
          if c = QUOTE then to_state InQuoted (add_char c r)
          else if c = x then to_state StartField (Inr (save_field r))
          else if ends then to_state EatCrnl (Inr (save_field r))
          else to_state InField (add_char c r)
      | EatCrnl \<Rightarrow> if ends then Inr r else Inl CsvError)"

definition csv_eol :: "csv \<Rightarrow> csv" where
  "csv_eol r =
     (case cs_state r of
        StartRecord \<Rightarrow> r
      | InQuoted \<Rightarrow> r
      | EatCrnl \<Rightarrow> r\<lparr>cs_state := StartRecord\<rparr>
      | _ \<Rightarrow> (save_field r)\<lparr>cs_state := StartRecord\<rparr>)"

definition emit :: "csv \<Rightarrow> csv" where
  "emit r = r\<lparr>cs_rows := rev (cs_fields r) # cs_rows r, cs_fields := []\<rparr>"

definition csv_line :: "char \<Rightarrow> string \<Rightarrow> csv \<Rightarrow> exn + csv" where
  "csv_line x line r =
     bind_e (fold_e (csv_char x) line r) (\<lambda>r1.
     let r2 = csv_eol r1 in Inr (if cs_state r2 = StartRecord then emit r2 else r2))"

text \<open>The lines of a \<open>StringIO\<close>, with their ends; a quoted field that is still open at the end is closed.\<close>

fun text_lines :: "string \<Rightarrow> string list" where
  "text_lines [] = []"
| "text_lines (c # s) = (if c = NL then [c] # text_lines s else case text_lines s of [] \<Rightarrow> [[c]] | l # ls \<Rightarrow> (c # l) # ls)"

definition csv_start :: csv where
  "csv_start = \<lparr>cs_state = StartRecord, cs_field = [], cs_fields = [], cs_rows = []\<rparr>"

definition csv_rows :: "char \<Rightarrow> string \<Rightarrow> exn + string list list" where
  "csv_rows x text =
     bind_e (fold_e (csv_line x) (text_lines text) csv_start) (\<lambda>r.
     Inr (rev (cs_rows (if cs_field r \<noteq> [] \<or> cs_state r = InQuoted then emit (save_field r) else r))))"

text \<open>
  \<open>DictReader\<close>: the first record names the fields, empty records are skipped, missing fields read
  as \<open>None\<close>, and of two fields with one name the later counts. A row is what its \<open>get\<close> answers.
\<close>

definition row_dict :: "string list \<Rightarrow> string list \<Rightarrow> string \<Rightarrow> string option" where
  "row_dict names row k =
     (case map_of (rev (zip names (map Some row @ replicate (length names - length row) None))) k of
        None \<Rightarrow> None | Some v \<Rightarrow> v)"

definition dict_rows :: "string list list \<Rightarrow> (string \<Rightarrow> string option) list" where
  "dict_rows rows =
     (case rows of [] \<Rightarrow> [] | names # rest \<Rightarrow> map (row_dict names) (filter (\<lambda>r. r \<noteq> []) rest))"

lemma csv_examples:
  "csv_rows CHR ''|'' (''a|b'' @ [CR, NL] @ ''1|'' @ [QUOTE] @ ''x|y'' @ [QUOTE, QUOTE] @ ''z'' @ [QUOTE, NL, NL]) =
     Inr [[''a'', ''b''], [''1'', ''x|y'' @ [QUOTE] @ ''z''], []]"
  "csv_rows CHR ''|'' (''a'' @ [CR] @ ''b'') = Inl CsvError"
  "csv_rows CHR ''|'' ([QUOTE] @ ''a'' @ [NL] @ ''b'') = Inr [[''a'' @ [NL] @ ''b'']]"
  by code_simp+

section \<open>Texts without quotes\<close>

text \<open>A text without quotes and carriage returns, whose lines are not empty, is read by splitting.\<close>

definition plain :: "string \<Rightarrow> bool" where
  "plain s \<longleftrightarrow> NL \<notin> set s \<and> CR \<notin> set s \<and> QUOTE \<notin> set s"

definition first_with :: "string \<Rightarrow> string list \<Rightarrow> string list" where
  "first_with f ls = (f @ hd ls) # tl ls"

lemma split_first: "x \<notin> set a \<Longrightarrow> split_on x (a @ x # b) = a # split_on x b"
  by (induction a) auto

lemma split_Cons: "split_on x (c # s) = (if c = x then [] # split_on x s else first_with [c] (split_on x s))"
  by (cases "split_on x s") (simp_all add: first_with_def)

lemma special: "NL \<noteq> CR" "QUOTE \<noteq> NL" "QUOTE \<noteq> CR"
  by (simp_all add: NL_def CR_def QUOTE_def)

lemma plain_chars:
  assumes "plain s" and "cs_state r \<in> {StartField, InField}" and "cs_state r = StartField \<Longrightarrow> cs_field r = []"
    and "int (length (cs_field r) + length s) \<le> FIELD_LIMIT"
  shows "\<exists>r'. fold_e (csv_char x) s r = Inr r' \<and> cs_state r' \<in> {StartField, InField} \<and> cs_rows r' = cs_rows r \<and>
    rev (cs_fields (save_field r')) = rev (cs_fields r) @ first_with (rev (cs_field r)) (split_on x s)"
  using assms
proof (induction s arbitrary: r)
  case Nil
  then show ?case by (auto simp: save_field_def first_with_def)
next
  case (Cons c s)
  have c: "c \<noteq> NL" "c \<noteq> CR" "c \<noteq> QUOTE" and p: "plain s" using Cons.prems(1) by (auto simp: plain_def)
  show ?case
  proof (cases "c = x")
    case True
    have step: "csv_char x c r = Inr ((save_field r)\<lparr>cs_state := StartField\<rparr>)"
      using Cons.prems(2) c True by (auto simp: csv_char_def to_state_def Let_def)
    obtain r' where "fold_e (csv_char x) s ((save_field r)\<lparr>cs_state := StartField\<rparr>) = Inr r'" "cs_state r' \<in> {StartField, InField}"
      "cs_rows r' = cs_rows r"
      "rev (cs_fields (save_field r')) = (rev (cs_fields r) @ [rev (cs_field r)]) @ first_with [] (split_on x s)"
      using Cons.IH [OF p, of "(save_field r)\<lparr>cs_state := StartField\<rparr>"] Cons.prems(4) by (auto simp: save_field_def)
    moreover have "first_with [] (split_on x s) = split_on x s" by (simp add: first_with_def)
    ultimately show ?thesis using step True by (auto simp: split_Cons first_with_def)
  next
    case False
    have "\<not> FIELD_LIMIT \<le> int (length (cs_field r))" using Cons.prems(4) by simp
    then have step: "csv_char x c r = Inr (r\<lparr>cs_field := c # cs_field r, cs_state := InField\<rparr>)"
      using Cons.prems(2) c False by (auto simp: csv_char_def to_state_def Let_def add_char_def)
    obtain r' where "fold_e (csv_char x) s (r\<lparr>cs_field := c # cs_field r, cs_state := InField\<rparr>) = Inr r'" "cs_state r' \<in> {StartField, InField}"
      "cs_rows r' = cs_rows r"
      "rev (cs_fields (save_field r')) = rev (cs_fields r) @ first_with (rev (cs_field r) @ [c]) (split_on x s)"
      using Cons.IH [OF p, of "r\<lparr>cs_field := c # cs_field r, cs_state := InField\<rparr>"] Cons.prems(4) by auto
    moreover have "first_with (rev (cs_field r) @ [c]) (split_on x s) = first_with (rev (cs_field r)) (split_on x (c # s))"
      using False by (cases "split_on x s") (simp_all add: first_with_def)
    ultimately show ?thesis using step by (auto simp del: split_on.simps)
  qed
qed

lemma start_like_field:
  assumes "c \<noteq> NL" and "c \<noteq> CR"
  shows "csv_char x c (r\<lparr>cs_state := StartRecord\<rparr>) = csv_char x c (r\<lparr>cs_state := StartField\<rparr>)"
  using assms by (auto simp: csv_char_def to_state_def Let_def add_char_def save_field_def)

definition at_record :: "string list list \<Rightarrow> csv" where
  "at_record rows = \<lparr>cs_state = StartRecord, cs_field = [], cs_fields = [], cs_rows = rows\<rparr>"

lemma plain_line:
  assumes "plain l" and "l \<noteq> []" and "int (length l) \<le> FIELD_LIMIT" and "e = [] \<or> e = [NL]"
  shows "csv_line x (l @ e) (at_record rows) = Inr (at_record (split_on x l # rows))"
proof -
  obtain c s where l: "l = c # s" using assms(2) by (cases l) auto
  have cn: "c \<noteq> NL" "c \<noteq> CR" using assms(1) by (auto simp: l plain_def)
  let ?r = "(at_record rows)\<lparr>cs_state := StartField\<rparr>"
  have same: "csv_char x c (at_record rows) = csv_char x c ?r"
    using start_like_field [OF cn, of x "at_record rows"] by (simp add: at_record_def)
  obtain r' where r': "fold_e (csv_char x) l ?r = Inr r'" "cs_state r' \<in> {StartField, InField}" "cs_rows r' = rows"
    "rev (cs_fields (save_field r')) = first_with [] (split_on x l)"
    using plain_chars [OF assms(1), of ?r x] assms(3) by (auto simp: at_record_def)
  have f: "fold_e (csv_char x) l (at_record rows) = Inr r'" using r'(1) by (simp add: l same)
  have w: "first_with [] (split_on x l) = split_on x l" by (simp add: first_with_def)
  have fin: "emit ((save_field r')\<lparr>cs_state := StartRecord\<rparr>) = at_record (split_on x l # rows)"
    using r'(3,4) by (simp add: emit_def save_field_def at_record_def w)
  show ?thesis
  proof (cases "e = []")
    case True
    then have "csv_line x (l @ e) (at_record rows) = Inr (emit ((save_field r')\<lparr>cs_state := StartRecord\<rparr>))"
      using r'(2) f by (auto simp: csv_line_def csv_eol_def)
    then show ?thesis using fin by simp
  next
    case False
    then have "fold_e (csv_char x) (l @ e) (at_record rows) = bind_e (csv_char x NL r') (fold_e (csv_char x) [])" using assms(4) f by (auto simp: fold_e_append)
    also have "\<dots> = csv_char x NL r'" by (cases "csv_char x NL r'") simp_all
    also have "csv_char x NL r' = Inr ((save_field r')\<lparr>cs_state := EatCrnl\<rparr>)"
      using r'(2) by (auto simp: csv_char_def to_state_def Let_def)
    finally have "csv_line x (l @ e) (at_record rows) = Inr (emit ((save_field r')\<lparr>cs_state := StartRecord\<rparr>))"
      by (simp add: csv_line_def csv_eol_def)
    then show ?thesis using fin by simp
  qed
qed

lemma text_lines_line: "NL \<notin> set l \<Longrightarrow> text_lines (l @ NL # s) = (l @ [NL]) # text_lines s"
  by (induction l) auto

lemma text_lines_last: "NL \<notin> set l \<Longrightarrow> l \<noteq> [] \<Longrightarrow> text_lines l = [l]"
proof (induction l)
  case (Cons c l)
  then show ?case by (cases "l = []") auto
qed simp

lemma plain_lines:
  assumes "\<forall>l \<in> set ls. plain l \<and> l \<noteq> [] \<and> int (length l) \<le> FIELD_LIMIT" and "ls \<noteq> []"
  shows "fold_e (csv_line x) (text_lines (join [NL] ls)) (at_record rows) = Inr (at_record (rev (map (split_on x) ls) @ rows))"
  using assms
proof (induction ls arbitrary: rows)
  case (Cons l ls)
  then have l: "plain l" "l \<noteq> []" "int (length l) \<le> FIELD_LIMIT" and nl: "NL \<notin> set l" by (auto simp: plain_def)
  show ?case
  proof (cases "ls = []")
    case True
    then show ?thesis using plain_line [OF l, of "[]"] by (simp add: text_lines_last [OF nl l(2)])
  next
    case False
    then have "text_lines (join [NL] (l # ls)) = (l @ [NL]) # text_lines (join [NL] ls)" by (simp add: join_Cons text_lines_line [OF nl])
    then show ?thesis using plain_line [OF l, of "[NL]"] Cons.IH [of "split_on x l # rows"] Cons.prems(1) False by simp
  qed
qed simp

theorem csv_rows_plain:
  assumes "\<forall>l \<in> set ls. plain l \<and> l \<noteq> [] \<and> int (length l) \<le> FIELD_LIMIT" and "ls \<noteq> []"
  shows "csv_rows x (join [NL] ls) = Inr (map (split_on x) ls)"
proof -
  have "csv_start = at_record []" by (simp add: csv_start_def at_record_def)
  then show ?thesis using plain_lines [OF assms, of x "[]"] by (simp add: csv_rows_def) (simp add: at_record_def rev_map)
qed

end
