(* ===== verification/TC_Docs.thy ===== *)
theory TC_Docs
  imports TC_Render "HOL-Library.AList"
begin

text \<open>
  The documents that are read whole (tc/research/docs.py): their table, the checks a body must pass,
  the compare-and-swap on the \<open>Last pass:\<close> line and the atomic write. The directory is a map from
  file names to texts; a path is the name of a file in it. The digest of a text is a parameter;
  the lock of a path (one operation is one step) and the time of an artifact row are left out.
\<close>

section \<open>The table of documents\<close>

record doc_spec =
  sp_file :: string
  sp_min :: nat
  sp_first :: string
  sp_banners :: "string list"
  sp_dated :: bool
  sp_last_pass :: bool
  sp_verified :: bool

definition SPECS :: "(string \<times> doc_spec) list" where
  "SPECS =
     [(''candidates'', \<lparr>sp_file = ''candidates.md'', sp_min = 10, sp_first = ''# Research candidates'',
         sp_banners = [''never a source for order parameters''], sp_dated = False, sp_last_pass = True, sp_verified = False\<rparr>),
      (''options-roster'', \<lparr>sp_file = ''options-roster.md'', sp_min = 5, sp_first = ''# Options-viable roster'',
         sp_banners = [''never a source for order parameters'', ''TTL''], sp_dated = False, sp_last_pass = False, sp_verified = False\<rparr>),
      (''preopen'', \<lparr>sp_file = ''preopen-{date}.md'', sp_min = 5, sp_first = ''# Pre-open brief - {date}'',
         sp_banners = [''Pre-market data informs, it never qualifies''], sp_dated = True, sp_last_pass = False, sp_verified = False\<rparr>),
      (''scorecard'', \<lparr>sp_file = ''scorecard.md'', sp_min = 5, sp_first = ''# Research scorecard'',
         sp_banners = [''never loosens a gate in-flight'', ''explicit conversation with Chris''], sp_dated = False,
         sp_last_pass = False, sp_verified = False\<rparr>),
      (''universe'', \<lparr>sp_file = ''universe.md'', sp_min = 5, sp_first = ''# Fallback universe'',
         sp_banners = [''never a source for order parameters''], sp_dated = False, sp_last_pass = False, sp_verified = False\<rparr>),
      (''standing'', \<lparr>sp_file = ''standing.md'', sp_min = 5, sp_first = ''# Standing research reference'',
         sp_banners = [''never a source for order parameters''], sp_dated = False, sp_last_pass = False, sp_verified = True\<rparr>)]"

text \<open>\<open>template.format(date=...)\<close>.\<close>

function fill :: "string \<Rightarrow> string \<Rightarrow> string" where
  "fill dt [] = []"
| "fill dt (c # s) =
     (if take 6 (c # s) = ''{date}'' then dt @ fill dt (drop 6 (c # s)) else c # fill dt s)"
  by pat_completeness auto
termination
  by (relation "measure (length \<circ> snd)") auto

definition doc_spec_of :: "string \<Rightarrow> exn + doc_spec" where
  "doc_spec_of kind = (case map_of SPECS kind of Some sp \<Rightarrow> Inr sp | None \<Rightarrow> Inl (DocInvalid UnknownKind))"

definition path_for :: "string \<Rightarrow> date option \<Rightarrow> exn + string" where
  "path_for kind d =
     bind_e (doc_spec_of kind) (\<lambda>sp.
     if sp_dated sp
     then (case d of None \<Rightarrow> Inl (DocInvalid NeedsDate) | Some x \<Rightarrow> Inr (fill (isoformat x) (sp_file sp)))
     else if d \<noteq> None then Inl (DocInvalid TakesNoDate)
     else Inr (sp_file sp))"

section \<open>Reading\<close>

text \<open>\<open>Path.read_text\<close> translates the ends of lines; the patterns \<open>^Last pass:.*$\<close> and \<open>^Verified as of:.*$\<close>.\<close>

fun universal_newlines :: "string \<Rightarrow> string" where
  "universal_newlines [] = []"
| "universal_newlines (c # s) =
     (if c = CHR 0x0D then NL # universal_newlines (if s \<noteq> [] \<and> hd s = NL then tl s else s) else c # universal_newlines s)"

definition stamp :: "string \<Rightarrow> string \<Rightarrow> string option" where
  "stamp tag body = find (\<lambda>l. take (length tag) l = tag) (split_on NL body)"

definition LAST_PASS :: "string \<Rightarrow> string option" where "LAST_PASS = stamp ''Last pass:''"
definition VERIFIED_AS_OF :: "string \<Rightarrow> string option" where "VERIFIED_AS_OF = stamp ''Verified as of:''"

record artifact =
  ar_kind :: string
  ar_date :: "date option"
  ar_path :: string
  ar_sha :: string
  ar_lines :: nat

record doc_store =
  ds_files :: "string \<rightharpoonup> string"
  ds_artifacts :: "artifact list"

record doc_view =
  dv_path :: string
  dv_exists :: bool
  dv_body :: string
  dv_last_pass :: "string option"
  dv_verified :: "string option"

definition read_file :: "(string \<rightharpoonup> string) \<Rightarrow> string \<Rightarrow> string" where
  "read_file fs p = (case fs p of None \<Rightarrow> [] | Some t \<Rightarrow> universal_newlines t)"

definition doc_read :: "doc_store \<Rightarrow> string \<Rightarrow> date option \<Rightarrow> exn + doc_view" where
  "doc_read ds kind d =
     bind_e (path_for kind d) (\<lambda>p.
     let body = read_file (ds_files ds) p in
     Inr \<lparr>dv_path = p, dv_exists = ds_files ds p \<noteq> None, dv_body = body,
          dv_last_pass = map_option strip (LAST_PASS body), dv_verified = map_option strip (VERIFIED_AS_OF body)\<rparr>)"

section \<open>Validating\<close>

definition check_body :: "string \<Rightarrow> string \<Rightarrow> date option \<Rightarrow> exn + unit" where
  "check_body kind body d =
     bind_e (doc_spec_of kind) (\<lambda>sp.
     let ls = splitlines body in
     bind_e (raise_if (length ls \<le> sp_min sp) (DocInvalid TooShort)) (\<lambda>_.
     bind_e (if sp_dated sp
             then (case d of None \<Rightarrow> Inl (DocInvalid NeedsDate) | Some x \<Rightarrow> Inr (fill (isoformat x) (sp_first sp)))
             else Inr (sp_first sp)) (\<lambda>want.
     bind_e (raise_if (strip (hd ls) \<noteq> want) (DocInvalid WrongTitle)) (\<lambda>_.
     bind_e (map_e (\<lambda>b. raise_if (\<not> occurs b body) (DocInvalid (NoBanner b))) (sp_banners sp)) (\<lambda>_.
     bind_e (raise_if (sp_last_pass sp \<and> LAST_PASS body = None) (DocInvalid NoLastPass)) (\<lambda>_.
     raise_if (sp_verified sp \<and> VERIFIED_AS_OF body = None) (DocInvalid NoVerified)))))))"

section \<open>Writing\<close>

text \<open>\<open>_write_atomic\<close>: opening truncates the temporary file, the rename moves it.\<close>

datatype doc_call = DOpen string | DWrite string string | DReplace string

definition tmp_name :: "string \<Rightarrow> string" where "tmp_name p = p @ ''.tmp''"
definition prev_name :: "string \<Rightarrow> string" where "prev_name p = p @ ''.prev''"

fun doc_step :: "doc_call \<Rightarrow> (string \<rightharpoonup> string) \<Rightarrow> (string \<rightharpoonup> string)" where
  "doc_step (DOpen p) fs = fs(tmp_name p \<mapsto> [])"
| "doc_step (DWrite p t) fs = fs(tmp_name p \<mapsto> t)"
| "doc_step (DReplace p) fs = fs(p := fs (tmp_name p), tmp_name p := None)"

definition write_atomic :: "string \<Rightarrow> string \<Rightarrow> doc_call list" where
  "write_atomic p t = [DOpen p, DWrite p t, DReplace p]"

definition with_newline :: "string \<Rightarrow> string" where
  "with_newline body = (if body \<noteq> [] \<and> last body = NL then body else body @ [NL])"

definition cas_ok :: "(string \<rightharpoonup> string) \<Rightarrow> string \<Rightarrow> string option \<Rightarrow> bool" where
  "cas_ok fs p expect =
     (case expect of None \<Rightarrow> True
      | Some e \<Rightarrow> fs p = None \<or> map_option strip (LAST_PASS (read_file fs p)) = Some (strip e))"

definition replace_calls :: "(string \<rightharpoonup> string) \<Rightarrow> string \<Rightarrow> string \<Rightarrow> doc_call list" where
  "replace_calls fs p text =
     (if fs p = None then [] else write_atomic (prev_name p) (read_file fs p)) @ write_atomic p text"

definition doc_replace ::
  "(string \<Rightarrow> string) \<Rightarrow> doc_store \<Rightarrow> string \<Rightarrow> string \<Rightarrow> date option \<Rightarrow> string option \<Rightarrow> exn + doc_store" where
  "doc_replace sha ds kind body d expect =
     bind_e (path_for kind d) (\<lambda>p.
     bind_e (check_body kind body d) (\<lambda>_.
     let text = with_newline body in
     bind_e (raise_if (\<not> cas_ok (ds_files ds) p expect) DocCasMismatch) (\<lambda>_.
     Inr (ds\<lparr>ds_files := fold doc_step (replace_calls (ds_files ds) p text) (ds_files ds),
             ds_artifacts := ds_artifacts ds @ [\<lparr>ar_kind = kind, ar_date = d, ar_path = p, ar_sha = sha text,
                                                ar_lines = length (splitlines text)\<rparr>]\<rparr>))))"

section \<open>Lines and stamps under a final newline\<close>

lemma split_on_snoc: "split_on x (s @ [x]) = split_on x s @ [[]]"
proof (induction x s rule: split_on.induct)
  case (2 x c s)
  show ?case
  proof (cases "c = x")
    case True
    then show ?thesis using 2(1) by simp
  next
    case False
    obtain l ls where "split_on x s = l # ls" using split_on_Nil [of x s] by (cases "split_on x s") auto
    then show ?thesis using 2(2) False by simp
  qed
qed simp

lemma find_append: "find P xs = Some y \<Longrightarrow> find P (xs @ ys) = Some y"
  by (induction xs) (auto split: if_splits)

lemma with_newline_cases: "with_newline body = body \<or> with_newline body = body @ [NL]"
  by (simp add: with_newline_def)

lemma stamp_newline:
  assumes "stamp tag body \<noteq> None"
  shows "stamp tag (with_newline body) \<noteq> None"
proof -
  obtain l where "stamp tag body = Some l" using assms by blast
  then have "stamp tag (body @ [NL]) = Some l" unfolding stamp_def split_on_snoc by (rule find_append)
  then show ?thesis using assms with_newline_cases [of body] by auto
qed

lemma splitlines_Nil_iff [simp]: "splitlines s = [] \<longleftrightarrow> s = []"
  by (cases s rule: splitlines.cases) (auto split: list.splits)

lemma splitlines_snoc: "s \<noteq> [] \<Longrightarrow> \<exists>e. splitlines (s @ [NL]) = splitlines s @ e"
proof (induction s rule: splitlines.induct)
  case (2 c s)
  have nl: "line_end NL" "NL \<noteq> CHR 0x0D" and cr: "line_end (CHR 0x0D)" by (simp_all add: line_end_def NL_def code_def)
  consider (crlf) t where "c = CHR 0x0D" "s = NL # t" | (fin) "line_end c" "\<not> (c = CHR 0x0D \<and> s \<noteq> [] \<and> hd s = NL)"
    | (plain) "\<not> line_end c" "c \<noteq> CHR 0x0D"
    using cr by (metis list.collapse)
  then show ?case
  proof cases
    case crlf
    then show ?thesis using 2(1) nl by (cases "t = []") auto
  next
    case fin
    show ?thesis
    proof (cases "s = []")
      case True
      then show ?thesis using fin nl by auto
    next
      case False
      then have "hd (s @ [NL]) = hd s" by simp
      then show ?thesis using 2(2) fin False by auto
    qed
  next
    case plain
    show ?thesis
    proof (cases "s = []")
      case True
      then show ?thesis using plain nl by auto
    next
      case False
      then obtain l ls where l: "splitlines s = l # ls" by (cases "splitlines s") auto
      obtain e where e: "splitlines (s @ [NL]) = splitlines s @ e" using 2(3) plain False by auto
      show ?thesis using plain l e by auto
    qed
  qed
qed simp

lemma map_e_unit: "map_e f xs = Inr us \<longleftrightarrow> us = map (\<lambda>_. ()) xs \<and> (\<forall>x \<in> set xs. f x = Inr ())" for f :: "'a \<Rightarrow> 'e + unit"
  by (induction xs arbitrary: us) (auto simp: err)

definition wanted :: "doc_spec \<Rightarrow> date option \<Rightarrow> exn + string" where
  "wanted sp d =
     (if sp_dated sp then (case d of None \<Rightarrow> Inl (DocInvalid NeedsDate) | Some x \<Rightarrow> Inr (fill (isoformat x) (sp_first sp)))
      else Inr (sp_first sp))"

lemma check_body_Inr:
  "check_body kind body d = Inr u \<longleftrightarrow>
     (\<exists>sp. doc_spec_of kind = Inr sp \<and> sp_min sp < length (splitlines body) \<and> wanted sp d = Inr (strip (hd (splitlines body))) \<and>
        (\<forall>b \<in> set (sp_banners sp). occurs b body) \<and> (sp_last_pass sp \<longrightarrow> stamp ''Last pass:'' body \<noteq> None) \<and>
        (sp_verified sp \<longrightarrow> stamp ''Verified as of:'' body \<noteq> None))"
  unfolding check_body_def Let_def LAST_PASS_def VERIFIED_AS_OF_def wanted_def [symmetric]
  by (auto simp: err map_e_unit not_le)

lemma check_body_newline:
  assumes "check_body kind body d = Inr u"
  shows "check_body kind (with_newline body) d = Inr ()"
proof -
  from assms obtain sp where sp: "doc_spec_of kind = Inr sp" "sp_min sp < length (splitlines body)"
    "wanted sp d = Inr (strip (hd (splitlines body)))" "\<forall>b \<in> set (sp_banners sp). occurs b body"
    "sp_last_pass sp \<longrightarrow> stamp ''Last pass:'' body \<noteq> None" "sp_verified sp \<longrightarrow> stamp ''Verified as of:'' body \<noteq> None"
    unfolding check_body_Inr by blast
  have ne: "body \<noteq> []" using sp(2) by auto
  obtain e where e: "splitlines (with_newline body) = splitlines body @ e"
    using splitlines_snoc [OF ne] with_newline_cases [of body] by (metis append_Nil2)
  have "wanted sp d = Inr (strip (hd (splitlines (with_newline body))))" "sp_min sp < length (splitlines (with_newline body))"
    using sp(2,3) ne by (simp_all add: e)
  moreover have "\<forall>b \<in> set (sp_banners sp). occurs b (with_newline body)"
    using sp(4) with_newline_cases [of body] occurs_append by metis
  ultimately show ?thesis unfolding check_body_Inr using sp(1,5,6) stamp_newline by blast
qed

section \<open>What a write does to the directory\<close>

lemma names_distinct [simp]: "tmp_name p \<noteq> p" "p \<noteq> tmp_name p" "prev_name p \<noteq> p" "p \<noteq> prev_name p"
  "p \<noteq> tmp_name (prev_name p)" "tmp_name p \<noteq> prev_name q" "prev_name p \<noteq> tmp_name q"
proof -
  have "last (tmp_name p) \<noteq> last (prev_name q)" for p q by (simp add: tmp_name_def prev_name_def)
  then show "tmp_name p \<noteq> prev_name q" "prev_name p \<noteq> tmp_name q" by metis+
qed (simp_all add: tmp_name_def prev_name_def)

lemma tmp_name_inj [simp]: "tmp_name p = tmp_name q \<longleftrightarrow> p = q"
  by (simp add: tmp_name_def)

lemma write_atomic_map: "fold doc_step (write_atomic p t) fs = fs(p \<mapsto> t, tmp_name p := None)"
  by (rule ext) (simp add: write_atomic_def)

lemma write_atomic_upto:
  "k < 3 \<Longrightarrow> q \<noteq> tmp_name p \<Longrightarrow> fold doc_step (take k (write_atomic p t)) fs q = fs q"
  by (auto simp: write_atomic_def take_Cons' less_Suc_eq numeral_3_eq_3)

definition replaced :: "(string \<rightharpoonup> string) \<Rightarrow> string \<Rightarrow> string \<Rightarrow> (string \<rightharpoonup> string)" where
  "replaced fs p text =
     (if fs p = None then fs(p \<mapsto> text, tmp_name p := None)
      else fs(prev_name p \<mapsto> read_file fs p, tmp_name (prev_name p) := None, p \<mapsto> text, tmp_name p := None))"

lemma replace_calls_map: "fold doc_step (replace_calls fs p text) fs = replaced fs p text"
  by (rule ext) (simp add: replace_calls_def replaced_def write_atomic_map)

text \<open>The directory after \<open>k\<close> of the calls of a write.\<close>

definition write_state :: "(string \<rightharpoonup> string) \<Rightarrow> string \<Rightarrow> string \<Rightarrow> nat \<Rightarrow> (string \<rightharpoonup> string)" where
  "write_state fs p text k = fold doc_step (take k (replace_calls fs p text)) fs"

text \<open>C23: a document is never half replaced. Stopped after any of the system calls of a write, the document is the
  old one or the new one, whole; once it is the new one, the snapshot holds what the old one read
  as; and at no point is any other file but the snapshot and the temporary files touched. When all
  calls have run the temporary files are gone.\<close>

theorem replace_crash_safe:
  "write_state fs p text k p \<in> {fs p, Some text} \<and>
    (fs p \<noteq> None \<and> write_state fs p text k p \<noteq> fs p \<longrightarrow> write_state fs p text k (prev_name p) = Some (read_file fs p)) \<and>
    (q \<notin> {p, prev_name p, tmp_name p, tmp_name (prev_name p)} \<longrightarrow> write_state fs p text k q = fs q) \<and>
    (6 \<le> k \<longrightarrow> write_state fs p text k p = Some text \<and> write_state fs p text k (tmp_name p) = None)"
proof -
  let ?w = "write_atomic p text" and ?v = "write_atomic (prev_name p) (read_file fs p)"
  have n: "length (write_atomic q t) = 3" for q t by (simp add: write_atomic_def)
  show ?thesis
  proof (cases "fs p = None")
    case none: True
    have st: "write_state fs p text k = fold doc_step (take k ?w) fs" by (simp add: write_state_def replace_calls_def none)
    show ?thesis
    proof (cases "k < 3")
      case k: True
      then show ?thesis by (simp add: st write_atomic_upto none)
    next
      case False
      then have "take k ?w = ?w" by (simp add: n)
      then show ?thesis by (simp add: st write_atomic_map none)
    qed
  next
    case False
    let ?fs = "fs(prev_name p \<mapsto> read_file fs p, tmp_name (prev_name p) := None)"
    have st: "write_state fs p text k = fold doc_step (take (k - 3) ?w) (fold doc_step (take k ?v) fs)"
      by (simp add: write_state_def replace_calls_def False n)
    have early: "k < 3 \<Longrightarrow> take (k - 3) ?w = []" by simp
    have full: "\<not> k < 3 \<Longrightarrow> fold doc_step (take k ?v) fs = ?fs" by (simp add: n write_atomic_map)
    consider "k < 3" | "\<not> k < 3" "k - 3 < 3" | "\<not> k < 3" "\<not> k - 3 < 3" by blast
    then show ?thesis
    proof cases
      case 1
      then show ?thesis by (simp add: st early write_atomic_upto)
    next
      case 2
      then have "\<not> 6 \<le> k" by simp
      then show ?thesis using 2 False by (simp add: st full write_atomic_upto)
    next
      case 3
      then have "take (k - 3) ?w = ?w" by (simp add: n)
      then show ?thesis using 3 by (simp add: st full write_atomic_map)
    qed
  qed
qed

text \<open>C30: what a replacement that is accepted leaves. The body passes every check of its kind, also as it is stored;
  whoever compared saw the stamp it expects, unless there was no document; a read gives the body
  back with the ends of its lines translated; the snapshot is what a read gave before; one row
  records the write; a replacement that raises changes nothing.\<close>

theorem replace_reads_back:
  assumes "doc_replace sha ds kind body d expect = Inr ds'" and "doc_read ds kind d = Inr old"
  shows "check_body kind body d = Inr () \<and> check_body kind (with_newline body) d = Inr () \<and>
    (\<forall>e. expect = Some e \<and> dv_exists old \<longrightarrow> dv_last_pass old = Some (strip e)) \<and>
    (\<exists>new. doc_read ds' kind d = Inr new \<and> dv_exists new \<and> dv_path new = dv_path old \<and>
       dv_body new = universal_newlines (with_newline body) \<and>
       (dv_exists old \<longrightarrow> ds_files ds' (prev_name (dv_path old)) = Some (dv_body old)) \<and>
       (\<forall>q. q \<notin> {dv_path old, prev_name (dv_path old), tmp_name (dv_path old), tmp_name (prev_name (dv_path old))} \<longrightarrow>
          ds_files ds' q = ds_files ds q) \<and>
       ds_artifacts ds' = ds_artifacts ds @ [\<lparr>ar_kind = kind, ar_date = d, ar_path = dv_path old, ar_sha = sha (with_newline body),
         ar_lines = length (splitlines (with_newline body))\<rparr>])"
proof -
  from assms(2) obtain p where p: "path_for kind d = Inr p" and old: "old = \<lparr>dv_path = p, dv_exists = ds_files ds p \<noteq> None,
      dv_body = read_file (ds_files ds) p, dv_last_pass = map_option strip (LAST_PASS (read_file (ds_files ds) p)),
      dv_verified = map_option strip (VERIFIED_AS_OF (read_file (ds_files ds) p))\<rparr>"
    by (auto simp: doc_read_def Let_def err)
  from assms(1) have c: "check_body kind body d = Inr ()" "cas_ok (ds_files ds) p expect"
    and ds': "ds' = ds\<lparr>ds_files := replaced (ds_files ds) p (with_newline body),
       ds_artifacts := ds_artifacts ds @ [\<lparr>ar_kind = kind, ar_date = d, ar_path = p, ar_sha = sha (with_newline body),
         ar_lines = length (splitlines (with_newline body))\<rparr>]\<rparr>"
    by (auto simp: doc_replace_def p Let_def err replace_calls_map)
  have "replaced fs p t p = Some t" for fs t by (simp add: replaced_def)
  then have new: "\<exists>new. doc_read ds' kind d = Inr new \<and> dv_exists new \<and> dv_path new = p \<and>
      dv_body new = universal_newlines (with_newline body)"
    by (simp add: doc_read_def p ds' Let_def read_file_def)
  show ?thesis using c check_body_newline [OF c(1)] new
    by (auto simp: ds' old cas_ok_def replaced_def split: option.splits)
qed

text \<open>The compare-and-swap: a writer who holds the stamp of an older document is refused.\<close>

lemma stale_writer_refused:
  assumes "doc_read ds kind d = Inr seen" and "dv_exists seen" and "map_option strip (Some e) \<noteq> dv_last_pass seen"
    and "check_body kind body d = Inr ()"
  shows "doc_replace sha ds kind body d (Some e) = Inl DocCasMismatch"
  using assms by (auto simp: doc_read_def doc_replace_def Let_def err cas_ok_def)

section \<open>An example\<close>

definition demo_files :: "string \<rightharpoonup> string" where "demo_files = [''universe.md'' \<mapsto> ''old'']"

theorem replace_crash_safe_witness:
  "write_state demo_files ''universe.md'' ''new'' 6 ''universe.md'' = Some ''new'' \<and>
   write_state demo_files ''universe.md'' ''new'' 6 (prev_name ''universe.md'') = Some ''old''"
proof -
  have o: "demo_files ''universe.md'' = Some ''old''" "read_file demo_files ''universe.md'' = ''old''"
    by (simp_all add: demo_files_def read_file_def)
  from replace_crash_safe [of demo_files "''universe.md''" "''new''" 6] o show ?thesis by auto
qed

definition demo_body :: string where
  "demo_body = join [NL] [''# Fallback universe'', ''This file is never a source for order parameters.'', [], ''a'', ''b'', ''c'']"

definition demo_store :: doc_store where "demo_store = \<lparr>ds_files = demo_files, ds_artifacts = []\<rparr>"

theorem replace_reads_back_witness:
  "\<exists>ds' new. doc_replace id demo_store ''universe'' demo_body None None = Inr ds' \<and> doc_read ds' ''universe'' None = Inr new \<and>
     dv_exists new \<and> dv_body new = universal_newlines (with_newline demo_body) \<and> ds_files ds' (prev_name ''universe.md'') = Some ''old''"
proof -
  have c: "check_body ''universe'' demo_body None = Inr ()" and p: "path_for ''universe'' None = Inr ''universe.md''" by code_simp+
  have o: "ds_files demo_store ''universe.md'' = Some ''old''" "read_file (ds_files demo_store) ''universe.md'' = ''old''"
    by (simp_all add: demo_store_def demo_files_def read_file_def)
  obtain ds' where ds': "doc_replace id demo_store ''universe'' demo_body None None = Inr ds'"
    by (simp add: doc_replace_def c p Let_def cas_ok_def)
  obtain old where old: "doc_read demo_store ''universe'' None = Inr old" "dv_exists old" "dv_path old = ''universe.md''" "dv_body old = ''old''"
    by (simp add: doc_read_def p Let_def o)
  from replace_reads_back [OF ds' old(1)] ds' old(2,3,4) show ?thesis by auto
qed

end
