(* ===== verification/TC_Universe.thy ===== *)
theory TC_Universe
  imports TC_Csv TC_Docs TC_Rules TC_Json "HOL-Library.Product_Lexorder"
begin

text \<open>
  The weekly whole-market sweep (tc/loops/universe.py) and its table (tc/store/db.py): the symbol
  directory, the quotes in chunks, the gates, the rank, the table and the document. The directory's
  server and the broker are parameters. A document's text is written with a hyphen where the source
  has a dash; a zero prints without a sign unless it was rounded from below.
\<close>

section \<open>Data\<close>

record verbose_quote =
  vq_symbol :: string
  vq_price :: "dec option"
  vq_adv10 :: dec
  vq_leverage :: dec \<comment> \<open>per cent\<close>
  vq_high :: "dec option"
  vq_low :: "dec option"
  vq_week52 :: dec
  vq_change :: dec
  vq_optionable :: bool
  vq_description :: string
  vq_earnings :: string
  vq_etf :: bool

record universe_row =
  ur_symbol :: string
  ur_price :: dec
  ur_adv10 :: dec
  ur_dollar :: dec
  ur_gap :: dec
  ur_optionable :: bool
  ur_leverage :: dec \<comment> \<open>a multiple\<close>
  ur_earnings :: string
  ur_etf :: bool
  ur_range :: "dec option"
  ur_description :: string
  ur_qualified :: bool

record counts =
  ct_fetched :: nat
  ct_quoted :: nat
  ct_qualified :: nat
  ct_stub :: nat
  ct_nodata :: nat
  ct_ranked :: nat
  ct_dropped :: nat
  ct_skipped :: "string list"
  ct_chunks :: nat
  ct_failed :: nat

definition SANITY_FLOOR :: nat where "SANITY_FLOOR = 1000"
definition CHUNK :: nat where "CHUNK = 150"
definition MAJOR_EXCHANGES :: "string list" where "MAJOR_EXCHANGES = [''N'', ''Q'', ''A'', ''P'', ''Z'']"
definition NAME_EXCLUSIONS :: "string list" where
  "NAME_EXCLUSIONS = ['' warrant'', ''% note'', '' right'', '' unit'', ''preferred'', '' depositary'', ''when issued'', '' due 20'']"
definition NO_52WK_HIGH_GAP :: dec where "NO_52WK_HIGH_GAP = 999"

section \<open>The directory\<close>

definition opt_str :: "string option \<Rightarrow> string" where "opt_str v = (case v of None \<Rightarrow> [] | Some s \<Rightarrow> s)"

definition keep_row :: "(string \<Rightarrow> string option) \<Rightarrow> string option" where
  "keep_row row =
     (let sym = strip (opt_str (row ''Symbol'')) in
      if sym = [] \<or> CHR ''$'' \<in> set sym \<or> 5 < length sym then None
      else if row ''Listing Exchange'' \<notin> Some ` set MAJOR_EXCHANGES then None
      else if row ''Test Issue'' \<noteq> Some ''N'' then None
      else if list_ex (\<lambda>k. occurs k (lower (opt_str (row ''Security Name'')))) NAME_EXCLUSIONS then None
      else Some sym)"

definition parse_directory :: "string \<Rightarrow> exn + string list" where
  "parse_directory text =
     bind_e (csv_rows CHR ''|'' text) (\<lambda>rows. Inr (sorted_list_of_set (set (List.map_filter keep_row (dict_rows rows)))))"

text \<open>What the server answers: nothing usable, or a status and a body.\<close>

datatype directory_reply = Unreachable | Answer int string

definition fetch_symbols :: "directory_reply \<Rightarrow> exn + string list" where
  "fetch_symbols reply =
     (case reply of
        Unreachable \<Rightarrow> Inl (UniverseUnavailable DirectoryUnavailable)
      | Answer status text \<Rightarrow>
          bind_e (raise_if (status div 100 \<noteq> 2) (UniverseUnavailable DirectoryUnavailable)) (\<lambda>_.
          bind_e (raise_if (strip text = []) (UniverseUnavailable DirectoryUnavailable)) (\<lambda>_.
          bind_e (parse_directory text) (\<lambda>symbols.
          bind_e (raise_if (length symbols < SANITY_FLOOR) (UniverseUnavailable DirectoryUnavailable)) (\<lambda>_.
          Inr symbols)))))"

section \<open>The gates\<close>

definition session_range_pct :: "verbose_quote \<Rightarrow> dec \<Rightarrow> dec option" where
  "session_range_pct q price =
     (case (vq_high q, vq_low q) of
        (Some hi, Some lo) \<Rightarrow> if hi \<le> 0 \<or> lo \<le> 0 \<or> price \<le> 0 then None else Some (dmul (ddiv_nz (dsub hi lo) price) 100)
      | _ \<Rightarrow> None)"

record gates =
  gt_price :: dec
  gt_dollar :: dec
  gt_shares :: dec
  gt_range :: dec

definition row_of :: "string \<Rightarrow> verbose_quote \<Rightarrow> dec \<Rightarrow> universe_row" where
  "row_of symbol q price =
     \<lparr>ur_symbol = symbol, ur_price = price, ur_adv10 = vq_adv10 q, ur_dollar = dmul (vq_adv10 q) price,
      ur_gap = (if vq_week52 q \<noteq> 0 then dmul (ddiv_nz (dsub (vq_week52 q) price) (vq_week52 q)) 100 else NO_52WK_HIGH_GAP),
      ur_optionable = vq_optionable q, ur_leverage = ddiv_nz (vq_leverage q) 100, ur_earnings = vq_earnings q,
      ur_etf = vq_etf q, ur_range = session_range_pct q price, ur_description = vq_description q, ur_qualified = True\<rparr>"

text \<open>One pass of the loop over what it collects: rows, unquotable symbols, stubs, rows without a range.\<close>

type_synonym collected = "universe_row list \<times> string list \<times> nat \<times> nat"

definition gate_quote :: "gates \<Rightarrow> collected \<Rightarrow> string \<times> verbose_quote \<Rightarrow> collected" where
  "gate_quote g acc sq =
     (let (rows, skipped, stub, nodata) = acc; (symbol, q) = sq in
      case vq_price q of
        None \<Rightarrow> (rows, skipped @ [symbol], stub, nodata)
      | Some price \<Rightarrow>
          let dollar_vol = dmul (vq_adv10 q) price in
          if price < gt_price g then acc
          else if dollar_vol < gt_dollar g then acc
          else if vq_adv10 q < gt_shares g then acc
          else if vq_leverage q \<notin> {0, 100} then acc
          else
            (case session_range_pct q price of
               Some rng \<Rightarrow> if rng < gt_range g then (rows, skipped, stub + 1, nodata)
                           else (rows @ [row_of symbol q price], skipped, stub, nodata)
             | None \<Rightarrow> (rows @ [row_of symbol q price], skipped, stub, nodata + 1)))"

text \<open>\<open>rows[:n]\<close> for an \<open>n\<close> that is not 0.\<close>

definition head_rows :: "int \<Rightarrow> 'a list \<Rightarrow> 'a list" where
  "head_rows n rows = (if 0 \<le> n then take (nat n) rows else take (length rows - nat (- n)) rows)"

definition rank_key :: "universe_row \<Rightarrow> dec \<times> dec" where "rank_key r = (ur_gap r, - ur_dollar r)"

definition read_gates :: "rules \<Rightarrow> exn + gates" where
  "read_gates rules =
     bind_e (rules_get rules ''manual'' ''min_share_price_usd'') (\<lambda>min_price.
     bind_e (rules_get rules ''manual'' ''min_avg_daily_dollar_volume'') (\<lambda>min_dollar.
     bind_e (rules_get rules ''manual'' ''min_avg_daily_volume'') (\<lambda>min_shares.
     bind_e (rules_get rules ''strategy'' ''min_session_range_pct'') (\<lambda>min_range.
     Inr \<lparr>gt_price = min_price, gt_dollar = min_dollar, gt_shares = min_shares, gt_range = min_range\<rparr>))))"

definition filter_universe :: "(string \<times> verbose_quote) list \<Rightarrow> rules \<Rightarrow> int option \<Rightarrow> exn + universe_row list \<times> counts" where
  "filter_universe quotes rules rank_top =
     bind_e (read_gates rules) (\<lambda>g.
     bind_e (case rank_top of Some n \<Rightarrow> Inr n | None \<Rightarrow> rules_int rules ''strategy'' ''working_universe_size'') (\<lambda>top.
     let (found, skipped, stub, nodata) = foldl (gate_quote g) ([], [], 0, 0) quotes;
         rows = sort_key rank_key found; qualified = length rows;
         kept = (if top \<noteq> 0 \<and> top < int qualified then head_rows top rows else rows) in
     Inr (kept, \<lparr>ct_fetched = 0, ct_quoted = length quotes, ct_qualified = qualified, ct_stub = stub, ct_nodata = nodata,
       ct_ranked = length kept, ct_dropped = qualified - length kept, ct_skipped = skipped, ct_chunks = 0, ct_failed = 0\<rparr>)))"

section \<open>The document\<close>

text \<open>\<open>str(d.quantize(places))\<close> with \<open>k\<close> places.\<close>

definition show_q :: "nat \<Rightarrow> dec \<Rightarrow> exn + string" where
  "show_q k d =
     bind_e (quantize half_even k d) (\<lambda>_.
     let n = \<bar>half_even (d * 10 ^ k)\<bar> in
     Inr ((if d < 0 then ''-'' else []) @ show_int (n div 10 ^ k) @ (if k = 0 then [] else ''.'' @ pad k (n mod 10 ^ k))))"

definition tsv :: "universe_row \<Rightarrow> exn + string" where
  "tsv r =
     bind_e (show_q 4 (ur_price r)) (\<lambda>price.
     bind_e (show_q 0 (ur_adv10 r)) (\<lambda>adv.
     bind_e (show_q 0 (ur_dollar r)) (\<lambda>dollar.
     bind_e (show_q 2 (ur_gap r)) (\<lambda>gap.
     bind_e (show_q 1 (ur_leverage r)) (\<lambda>lev.
     bind_e (case ur_range r of None \<Rightarrow> Inr ''-'' | Some x \<Rightarrow> show_q 2 x) (\<lambda>rng.
     Inr (join [CHR 0x09]
       [ur_symbol r, price, adv, dollar, gap, if ur_optionable r then ''true'' else ''false'', lev,
        if ur_earnings r \<noteq> [] then ur_earnings r else ''-'', if ur_etf r then ''true'' else ''false'', rng])))))))"

definition HEADER :: string where
  "HEADER = join [CHR 0x09] [''symbol'', ''price'', ''adv10'', ''dollar_vol'', ''pct_from_52wk_high'', ''optionable'', ''leverage'',
     ''last_earnings'', ''is_etf'', ''session_range_pct'']"

definition assembled :: "instant \<Rightarrow> string" where
  "assembled i = isoformat (date_of i) @ ''T'' @ strftime_hm (time_of i) @ '':'' @ pad 2 (time_of i div us_of_s 1 mod 60) @ ''Z''"

abbreviation SECT :: char where "SECT \<equiv> CHR 0xA7"

definition doc_head :: "counts \<Rightarrow> instant \<Rightarrow> string list" where
  "doc_head ct i =
     [''# Fallback universe'',
      [],
      ''This file is never a source for order parameters - every candidate'',
      ''re-verifies live under '' @ [SECT] @ ''4.9/'' @ [SECT] @ ''4.10. Regenerated weekly by the engine's'',
      ''weekly_universe job; the daily research tier only reads it.'',
      [],
      ''Assembled: '' @ assembled i @ '' - fetched '' @ show_nat (ct_fetched ct) @ '' / quoted '' @ show_nat (ct_quoted ct) @ '' /'',
      ''qualified '' @ show_nat (ct_qualified ct) @ '' / ranked '' @ show_nat (ct_ranked ct) @ '' / dropped '' @ show_nat (ct_dropped ct) @ ''.'',
      ''Stub-filtered '' @ show_nat (ct_stub ct) @ ''; no usable high/low '' @ show_nat (ct_nodata ct) @ '';'',
      ''chunks '' @ show_nat (ct_chunks ct) @ '' ('' @ show_nat (ct_failed ct) @ '' failed). Skipped: '' @
        (if ct_skipped ct \<noteq> [] then join '', '' (ct_skipped ct) else ''-'') @ ''.'',
      [],
      ''Tilts: the '' @ [SECT] @ ''4 tilts are not applied here (50-day SMA, 3- and 6-month'',
      ''returns) and belong to the daily tier - the verbose quote payload this'',
      ''sweep reads carries no price history to compute them from.'',
      [],
      ''Columns: symbol, price (regular-session close), 10-day ADV, dollar volume,'',
      ''% from 52-week high, optionable, leverage (a MULTIPLE: 0 single stock,'',
      ''1.0 a 1x fund; leveraged and inverse funds are gated out by '' @ [SECT] @ ''3.5 and do'',
      ''not appear), last earnings date, ETF flag, latest-session range as a'',
      ''% of price (`-` = the payload carried no usable high/low).'',
      [],
      ''```'']"

definition render_universe_md :: "universe_row list \<Rightarrow> counts \<Rightarrow> instant \<Rightarrow> exn + string" where
  "render_universe_md rows ct i =
     bind_e (map_e tsv rows) (\<lambda>ls. Inr (join [NL] (doc_head ct i @ [HEADER] @ ls @ [''```'']) @ [NL]))"

section \<open>The table\<close>

type_synonym universe_table = "(date \<times> universe_row) list"

definition replace_universe :: "date \<Rightarrow> universe_row list \<Rightarrow> universe_table \<Rightarrow> exn + universe_table" where
  "replace_universe asof rows tbl =
     (if distinct (map ur_symbol rows) then Inr (filter (\<lambda>(d, _). d \<noteq> asof) tbl @ map (Pair asof) rows) else Inl IntegrityError)"

definition universe_asof :: "universe_table \<Rightarrow> date option" where
  "universe_asof tbl = (if tbl = [] then None else Some (Max (fst ` set tbl)))"

definition universe_rows :: "universe_table \<Rightarrow> bool \<Rightarrow> universe_row list" where
  "universe_rows tbl qualified_only =
     (case universe_asof tbl of
        None \<Rightarrow> []
      | Some d \<Rightarrow> sort_key ur_symbol (filter (\<lambda>r. qualified_only \<longrightarrow> ur_qualified r) (map snd (filter (\<lambda>(x, _). x = d) tbl))))"

section \<open>The sweep\<close>

record universe_state =
  us_table :: universe_table
  us_docs :: doc_store

record universe_env =
  ue_zone :: zone
  ue_rules :: rules
  ue_sha :: "string \<Rightarrow> string"
  ue_directory :: directory_reply
  ue_quotes :: "string list \<Rightarrow> exn + (string \<times> verbose_quote) list"

function chunks_of :: "nat \<Rightarrow> 'a list \<Rightarrow> 'a list list" where
  "chunks_of n xs = (if xs = [] \<or> n = 0 then [] else take n xs # chunks_of n (drop n xs))"
  by pat_completeness auto
termination
  by (relation "measure (length \<circ> snd)") auto

declare chunks_of.simps [simp del]

definition ask_chunk :: "universe_env \<Rightarrow> string list \<Rightarrow> (string \<times> verbose_quote) list \<times> nat \<times> nat \<Rightarrow> (string \<times> verbose_quote) list \<times> nat \<times> nat" where
  "ask_chunk env chunk acc =
     (let (quotes, n, failed) = acc in
      case ue_quotes env chunk of
        Inr m \<Rightarrow> (dict_merge quotes m, n + 1, failed)
      | Inl _ \<Rightarrow> (quotes, n + 1, failed + 1))"

text \<open>Everything before the first write: the whole qualified set, its head for the document, and the counts.\<close>

definition sweep :: "universe_env \<Rightarrow> exn + universe_row list \<times> universe_row list \<times> counts" where
  "sweep env =
     bind_e (fetch_symbols (ue_directory env)) (\<lambda>symbols.
     let (quotes, n, failed) = fold (ask_chunk env) (chunks_of CHUNK symbols) ([], 0, 0) in
     bind_e (rules_get (ue_rules env) ''strategy'' ''universe_max_failed_chunk_pct'') (\<lambda>max_failed_pct.
     let failed_pct = (if n \<noteq> 0 then ddiv_nz (dmul (of_nat failed) 100) (of_nat n) else 0) in
     bind_e (raise_if (failed_pct > max_failed_pct) (UniverseUnavailable PartialSweep)) (\<lambda>_.
     bind_e (filter_universe quotes (ue_rules env) (Some 0)) (\<lambda>(rows, ct).
     bind_e (raise_if (rows = []) (UniverseUnavailable EmptyUniverse)) (\<lambda>_.
     bind_e (rules_int (ue_rules env) ''strategy'' ''working_universe_size'') (\<lambda>rank_top.
     let ranked = (if rank_top \<noteq> 0 then head_rows rank_top rows else rows) in
     Inr (rows, ranked, ct\<lparr>ct_fetched := length symbols, ct_chunks := n, ct_failed := failed,
       ct_ranked := length ranked, ct_dropped := length rows - length ranked\<rparr>)))))))"

definition run_weekly_universe :: "universe_env \<Rightarrow> instant \<Rightarrow> universe_state \<Rightarrow> (exn + counts) \<times> universe_state" where
  "run_weekly_universe env now st =
     (case sweep env of
        Inl e \<Rightarrow> (Inl e, st)
      | Inr (rows, ranked, ct) \<Rightarrow>
          (case replace_universe (et_date (ue_zone env) now) rows (us_table st) of
             Inl e \<Rightarrow> (Inl e, st)
           | Inr tbl \<Rightarrow>
               let st1 = st\<lparr>us_table := tbl\<rparr> in
               (case bind_e (render_universe_md ranked ct now) (\<lambda>body. doc_replace (ue_sha env) (us_docs st1) ''universe'' body None None) of
                  Inl e \<Rightarrow> (Inl e, st1)
                | Inr docs \<Rightarrow> (Inr ct, st1\<lparr>us_docs := docs\<rparr>))))"

definition counts_detail :: "counts \<Rightarrow> counts \<times> nat" where
  "counts_detail ct = (ct\<lparr>ct_skipped := take 20 (ct_skipped ct)\<rparr>, length (ct_skipped ct))"

section \<open>What the gates keep\<close>

text \<open>The gates as one condition on a quote.\<close>

definition priced_in :: "gates \<Rightarrow> verbose_quote \<Rightarrow> dec \<Rightarrow> bool" where
  "priced_in g q price \<longleftrightarrow>
     gt_price g \<le> price \<and> gt_dollar g \<le> dmul (vq_adv10 q) price \<and> gt_shares g \<le> vq_adv10 q \<and> vq_leverage q \<in> {0, 100}"

definition pinned :: "gates \<Rightarrow> verbose_quote \<Rightarrow> dec \<Rightarrow> bool" where
  "pinned g q price \<longleftrightarrow> (\<exists>rng. session_range_pct q price = Some rng \<and> rng < gt_range g)"

definition qualifies :: "gates \<Rightarrow> verbose_quote \<Rightarrow> bool" where
  "qualifies g q \<longleftrightarrow> (\<exists>price. vq_price q = Some price \<and> priced_in g q price \<and> \<not> pinned g q price)"

definition quote_row :: "gates \<Rightarrow> string \<times> verbose_quote \<Rightarrow> universe_row option" where
  "quote_row g sq = (if qualifies g (snd sq) then Some (row_of (fst sq) (snd sq) (the (vq_price (snd sq)))) else None)"

definition stubbed :: "gates \<Rightarrow> verbose_quote \<Rightarrow> bool" where
  "stubbed g q \<longleftrightarrow> (\<exists>price. vq_price q = Some price \<and> priced_in g q price \<and> pinned g q price)"

lemma gate_quote_eq:
  "gate_quote g (rows, skipped, stub, nodata) sq =
    (rows @ (case quote_row g sq of Some r \<Rightarrow> [r] | None \<Rightarrow> []),
     skipped @ (if vq_price (snd sq) = None then [fst sq] else []),
     stub + (if stubbed g (snd sq) then 1 else 0),
     nodata + (if \<exists>r. quote_row g sq = Some r \<and> ur_range r = None then 1 else 0))"
proof (cases sq)
  case (Pair s q)
  show ?thesis
  proof (cases "vq_price q")
    case None
    then show ?thesis by (simp add: Pair gate_quote_def quote_row_def qualifies_def stubbed_def)
  next
    case (Some price)
    show ?thesis
    proof (cases "priced_in g q price")
      case False
      then have "\<not> qualifies g q" "\<not> stubbed g q" using Some by (simp_all add: qualifies_def stubbed_def)
      moreover have "gate_quote g (rows, skipped, stub, nodata) sq = (rows, skipped, stub, nodata)"
        using False by (auto simp: Pair gate_quote_def Some priced_in_def Let_def not_le split: option.split)
      ultimately show ?thesis using Some by (simp add: Pair quote_row_def)
    next
      case True
      then have r: "qualifies g q \<longleftrightarrow> \<not> pinned g q price" "stubbed g q \<longleftrightarrow> pinned g q price" using Some by (simp_all add: qualifies_def stubbed_def)
      have "gate_quote g (rows, skipped, stub, nodata) sq =
          (case session_range_pct q price of
             Some rng \<Rightarrow> if rng < gt_range g then (rows, skipped, stub + 1, nodata) else (rows @ [row_of s q price], skipped, stub, nodata)
           | None \<Rightarrow> (rows @ [row_of s q price], skipped, stub, nodata + 1))"
        using True by (auto simp: Pair gate_quote_def Some priced_in_def Let_def not_less)
      then show ?thesis using r
        by (cases "session_range_pct q price") (auto simp: Pair quote_row_def Some pinned_def row_of_def)
    qed
  qed
qed

lemma gates_fold:
  "foldl (gate_quote g) (rows, skipped, stub, nodata) quotes =
    (rows @ List.map_filter (quote_row g) quotes,
     skipped @ map fst (filter (\<lambda>sq. vq_price (snd sq) = None) quotes),
     stub + length (filter (\<lambda>sq. stubbed g (snd sq)) quotes),
     nodata + length (filter (\<lambda>r. ur_range r = None) (List.map_filter (quote_row g) quotes)))"
proof (induction quotes arbitrary: rows skipped stub nodata)
  case (Cons sq quotes)
  show ?case unfolding foldl_Cons gate_quote_eq Cons.IH
    by (cases "quote_row g sq") (simp_all add: map_filter_simps)
qed (simp add: map_filter_simps)

lemma filter_universe_Inr:
  "filter_universe quotes rules rank_top = Inr (kept, ct) \<longleftrightarrow>
     (\<exists>g top. read_gates rules = Inr g \<and> (case rank_top of Some n \<Rightarrow> top = n | None \<Rightarrow> rules_int rules ''strategy'' ''working_universe_size'' = Inr top) \<and>
        (let found = List.map_filter (quote_row g) quotes; rows = sort_key rank_key found in
         kept = (if top \<noteq> 0 \<and> top < int (length found) then head_rows top rows else rows) \<and>
         ct = \<lparr>ct_fetched = 0, ct_quoted = length quotes, ct_qualified = length found, ct_stub = length (filter (\<lambda>sq. stubbed g (snd sq)) quotes),
           ct_nodata = length (filter (\<lambda>r. ur_range r = None) found), ct_ranked = length kept, ct_dropped = length found - length kept,
           ct_skipped = map fst (filter (\<lambda>sq. vq_price (snd sq) = None) quotes), ct_chunks = 0, ct_failed = 0\<rparr>))"
proof -
  have top: "(case rank_top of Some n \<Rightarrow> Inr n | None \<Rightarrow> rules_int rules ''strategy'' ''working_universe_size'') = Inr top \<longleftrightarrow>
      (case rank_top of Some n \<Rightarrow> top = n | None \<Rightarrow> rules_int rules ''strategy'' ''working_universe_size'' = Inr top)" for top
    by (cases rank_top) auto
  show ?thesis unfolding filter_universe_def gates_fold bind_e_eq_Inr top
    by (simp add: Let_def eq_commute [of _ kept] eq_commute [of _ ct] cong: conj_cong)
qed

lemma length_map_filter_Some:
  "length (List.map_filter f xs) = length (filter (\<lambda>x. f x \<noteq> None) xs)"
  by (induction xs) (auto simp: map_filter_simps split: option.split)

lemma quotes_partition:
  "length quotes = length (List.map_filter (quote_row g) quotes) + length (filter (\<lambda>sq. stubbed g (snd sq)) quotes) +
     length (filter (\<lambda>sq. vq_price (snd sq) = None) quotes) +
     length (filter (\<lambda>sq. \<exists>price. vq_price (snd sq) = Some price \<and> \<not> priced_in g (snd sq) price) quotes)"
  unfolding length_map_filter_Some
  by (induction quotes) (auto simp: quote_row_def qualifies_def stubbed_def)

text \<open>The key of the broker's answer is the symbol of the row.\<close>

lemma found_symbols:
  "map ur_symbol (List.map_filter (quote_row g) quotes) = map fst (filter (\<lambda>sq. qualifies g (snd sq)) quotes)"
  by (induction quotes) (auto simp: map_filter_simps quote_row_def row_of_def)

text \<open>C22: what the gates keep. A quote becomes a row exactly when it has a price at the floor, dollar and share
  volume at theirs, is a single stock or a plain fund, and is not pinned; a quote without a usable
  high and low is kept, and counted. Rows are ranked by the distance from the 52-week high, larger
  volume first among equals, and cut at the rank asked for or, without one, at the size in the rules:
  all rows stay when the rank is 0 or there are no more rows than that, a positive rank keeps that
  many from the front, and a negative one drops that many at the end, as a slice does. Every quote is counted once:
  as a row, a stub, skipped by name, or below a floor.\<close>

theorem filter_universe_exact:
  assumes "filter_universe quotes rules rank_top = Inr (kept, ct)" and "read_gates rules = Inr g" and "distinct (map fst quotes)"
  shows "(\<exists>rows top. (case rank_top of Some n \<Rightarrow> top = n | None \<Rightarrow> rules_int rules ''strategy'' ''working_universe_size'' = Inr top) \<and>
      kept = (if top = 0 \<or> int (length rows) \<le> top then rows
              else if 0 < top then take (nat top) rows else take (length rows - nat (- top)) rows) \<and>
      ct_nodata ct = length (filter (\<lambda>r. ur_range r = None) rows) \<and> length rows = ct_qualified ct \<and> sorted (map rank_key rows) \<and> distinct (map ur_symbol rows) \<and>
      set rows = {row_of s q price | s q price. (s, q) \<in> set quotes \<and> vq_price q = Some price \<and> priced_in g q price \<and> \<not> pinned g q price}) \<and>
    ct_ranked ct = length kept \<and> ct_ranked ct + ct_dropped ct = ct_qualified ct \<and> ct_skipped ct = map fst (filter (\<lambda>(_, q). vq_price q = None) quotes) \<and>
    ct_quoted ct = ct_qualified ct + ct_stub ct + length (ct_skipped ct) +
      length (filter (\<lambda>(_, q). \<exists>price. vq_price q = Some price \<and> \<not> priced_in g q price) quotes) \<and>
    (rank_top = Some 0 \<longrightarrow> ct_dropped ct = 0 \<and> ct_nodata ct = length (filter (\<lambda>r. ur_range r = None) kept))"
proof -
  let ?found = "List.map_filter (quote_row g) quotes"
  let ?rows = "sort_key rank_key ?found"
  from assms(1,2) obtain top where top: "case rank_top of Some n \<Rightarrow> top = n | None \<Rightarrow> rules_int rules ''strategy'' ''working_universe_size'' = Inr top"
    and kept: "kept = (if top \<noteq> 0 \<and> top < int (length ?found) then head_rows top ?rows else ?rows)"
    and ct: "ct = \<lparr>ct_fetched = 0, ct_quoted = length quotes, ct_qualified = length ?found, ct_stub = length (filter (\<lambda>sq. stubbed g (snd sq)) quotes),
           ct_nodata = length (filter (\<lambda>r. ur_range r = None) ?found), ct_ranked = length kept, ct_dropped = length ?found - length kept,
           ct_skipped = map fst (filter (\<lambda>sq. vq_price (snd sq) = None) quotes), ct_chunks = 0, ct_failed = 0\<rparr>"
    unfolding filter_universe_Inr Let_def by auto
  have cut: "kept = (if top = 0 \<or> int (length ?rows) \<le> top then ?rows
      else if 0 < top then take (nat top) ?rows else take (length ?rows - nat (- top)) ?rows)"
    by (auto simp: kept head_rows_def)
  then have len: "length kept \<le> length ?found" by (auto simp: not_le)
  have nodata: "ct_nodata ct = length (filter (\<lambda>r. ur_range r = None) ?rows)" by (simp add: ct filter_sort)
  have "set ?found = {row_of s q price | s q price. (s, q) \<in> set quotes \<and> vq_price q = Some price \<and> priced_in g q price \<and> \<not> pinned g q price}"
    by (force simp: List.map_filter_def quote_row_def qualifies_def image_iff)
  moreover have "distinct (map ur_symbol ?rows)"
  proof -
    have "distinct (map ur_symbol ?found)" unfolding found_symbols using assms(3) by (rule distinct_map_filter)
    then show ?thesis by (simp add: distinct_map inj_on_def distinct_sort)
  qed
  moreover have "length ?rows = ct_qualified ct" "sorted (map rank_key ?rows)" by (simp_all add: ct)
  ultimately have "\<exists>rows top. (case rank_top of Some n \<Rightarrow> top = n | None \<Rightarrow> rules_int rules ''strategy'' ''working_universe_size'' = Inr top) \<and>
      kept = (if top = 0 \<or> int (length rows) \<le> top then rows
              else if 0 < top then take (nat top) rows else take (length rows - nat (- top)) rows) \<and>
      ct_nodata ct = length (filter (\<lambda>r. ur_range r = None) rows) \<and> length rows = ct_qualified ct \<and> sorted (map rank_key rows) \<and> distinct (map ur_symbol rows) \<and>
      set rows = {row_of s q price | s q price. (s, q) \<in> set quotes \<and> vq_price q = Some price \<and> priced_in g q price \<and> \<not> pinned g q price}"
    using top cut nodata by (intro exI [of _ ?rows] exI [of _ top]) simp
  moreover have "rank_top = Some 0 \<longrightarrow> ct_dropped ct = 0 \<and> ct_nodata ct = length (filter (\<lambda>r. ur_range r = None) kept)"
    using top by (auto simp: kept ct filter_sort)
  ultimately show ?thesis using quotes_partition [of quotes g] len by (simp add: ct case_prod_unfold)
qed

section \<open>The document passes its own checks\<close>

lemma splitlines_line: "list_all (\<lambda>c. \<not> line_end c) a \<Longrightarrow> splitlines (a @ NL # b) = a # splitlines b"
proof (induction a)
  case Nil
  have "line_end NL" "NL \<noteq> CHR 0x0D" by (simp_all add: line_end_def NL_def code_def)
  then show ?case by auto
next
  case (Cons c a)
  have "c \<noteq> CHR 0x0D" using Cons.prems by (auto simp: line_end_def code_def)
  then show ?case using Cons by auto
qed

lemma join_NL: "ls \<noteq> [] \<Longrightarrow> join [NL] (l # ls) = l @ NL # join [NL] ls"
  by (simp add: join_Cons)

definition doc_top :: "string list" where
  "doc_top = [''# Fallback universe'', [], ''This file is never a source for order parameters - every candidate'',
     ''re-verifies live under '' @ [SECT] @ ''4.9/'' @ [SECT] @ ''4.10. Regenerated weekly by the engine's'',
     ''weekly_universe job; the daily research tier only reads it.'', []]"

lemma doc_head_top: "\<exists>rest. doc_head ct i = doc_top @ rest \<and> rest \<noteq> []"
  unfolding doc_head_def doc_top_def by simp

lemma doc_top_plain: "list_all (list_all (\<lambda>c. \<not> line_end c)) doc_top" "occurs ''never a source for order parameters'' (doc_top ! 2)"
  by code_simp+

lemma splitlines_join:
  "list_all (list_all (\<lambda>c. \<not> line_end c)) hd_ls \<Longrightarrow> rest \<noteq> [] \<Longrightarrow>
    splitlines (join [NL] (hd_ls @ rest) @ [NL]) = hd_ls @ splitlines (join [NL] rest @ [NL])"
proof (induction hd_ls)
  case (Cons l hd_ls)
  then have "join [NL] ((l # hd_ls) @ rest) @ [NL] = l @ NL # (join [NL] (hd_ls @ rest) @ [NL])" by (simp add: join_NL)
  then show ?case using Cons by (simp only: splitlines_line [of l] list.pred_inject append_Cons simp_thms)
qed simp

lemma occurs_join: "l \<in> set ls \<Longrightarrow> occurs w l \<Longrightarrow> occurs w (join sep ls)"
proof (induction ls)
  case (Cons x ls)
  then show ?case by (cases "ls = []") (auto simp: join_Cons intro: occurs_append occurs_right)
qed simp

lemma rendered_passes:
  assumes "render_universe_md rows ct i = Inr body"
  shows "check_body ''universe'' body None = Inr ()"
proof -
  obtain rest where rest: "doc_head ct i = doc_top @ rest" "rest \<noteq> []" using doc_head_top by blast
  from assms obtain ls where "body = join [NL] (doc_top @ (rest @ [HEADER] @ ls @ [''```''])) @ [NL]"
    by (auto simp: render_universe_md_def err rest(1))
  then obtain more where body: "body = join [NL] (doc_top @ more) @ [NL]" and more: "more \<noteq> []" by blast
  have lines: "splitlines body = doc_top @ splitlines (join [NL] more @ [NL])"
    unfolding body by (rule splitlines_join [OF doc_top_plain(1) more])
  have "doc_top ! 2 \<in> set (doc_top @ more)" by (simp add: doc_top_def)
  then have b: "occurs ''never a source for order parameters'' body"
    unfolding body by (intro occurs_append occurs_join [OF _ doc_top_plain(2)])
  have "splitlines (join [NL] more @ [NL]) \<noteq> []" by simp
  then have "5 < length (splitlines body)" unfolding lines by (simp add: doc_top_def)
  moreover have "strip (hd (splitlines body)) = ''# Fallback universe''" unfolding lines by (simp add: doc_top_def) code_simp
  ultimately show ?thesis unfolding check_body_Inr using b
    by (auto simp: doc_spec_of_def SPECS_def wanted_def)
qed

section \<open>What a sweep collects\<close>

lemma distinct_dict_merge: "distinct (map fst a) \<Longrightarrow> distinct (map fst (dict_merge a b))"
  by (induction b arbitrary: a) (auto simp: dict_merge_def distinct_update split: prod.split)

text \<open>The quotes a chunk brings, and what the broker last said of a symbol over all chunks.\<close>

definition chunk_quotes :: "universe_env \<Rightarrow> string list \<Rightarrow> (string \<times> verbose_quote) list" where
  "chunk_quotes env chunk = (case ue_quotes env chunk of Inr m \<Rightarrow> m | Inl _ \<Rightarrow> [])"

definition last_quote :: "universe_env \<Rightarrow> string list list \<Rightarrow> string \<Rightarrow> verbose_quote option" where
  "last_quote env chunks = map_of (rev (concat (map (chunk_quotes env) chunks)))"

lemma ask_chunk_simp:
  "ask_chunk env chunk (quotes, n, failed) =
    (dict_merge quotes (chunk_quotes env chunk), n + 1, failed + (if isl (ue_quotes env chunk) then 1 else 0))"
  by (simp add: ask_chunk_def chunk_quotes_def dict_merge_def split: sum.split)

lemma ask_chunks:
  assumes "fold (ask_chunk env) chunks (quotes, n, failed) = (quotes', n', failed')" and "distinct (map fst quotes)"
  shows "distinct (map fst quotes') \<and> map_of quotes' = map_of quotes ++ last_quote env chunks \<and> n' = n + length chunks \<and>
    failed' = failed + length (filter (\<lambda>chunk. isl (ue_quotes env chunk)) chunks)"
  using assms
proof (induction chunks arbitrary: quotes n failed)
  case (Cons chunk chunks)
  have "last_quote env (chunk # chunks) = map_of (rev (chunk_quotes env chunk)) ++ last_quote env chunks"
    by (simp add: last_quote_def)
  moreover have "fold (ask_chunk env) chunks
      (dict_merge quotes (chunk_quotes env chunk), n + 1, failed + (if isl (ue_quotes env chunk) then 1 else 0)) = (quotes', n', failed')"
    using Cons.prems(1) by (simp only: fold_simps ask_chunk_simp)
  note Cons.IH [OF this distinct_dict_merge [OF Cons.prems(2)]]
  ultimately show ?case by (simp add: map_of_dict_merge)
qed (simp add: last_quote_def)

lemma chunks_cover: "0 < n \<Longrightarrow> concat (chunks_of n xs) = xs \<and> (\<forall>c \<in> set (chunks_of n xs). 0 < length c \<and> length c \<le> n)"
proof (induction n xs rule: chunks_of.induct)
  case (1 n xs)
  show ?case
  proof (cases "xs = []")
    case True
    then show ?thesis by (simp add: chunks_of.simps [of n "[]"])
  next
    case False
    then have "chunks_of n xs = take n xs # chunks_of n (drop n xs)" using 1(2) by (subst chunks_of.simps) simp
    moreover have "concat (chunks_of n (drop n xs)) = drop n xs \<and> (\<forall>c \<in> set (chunks_of n (drop n xs)). 0 < length c \<and> length c \<le> n)"
      using 1 False by simp
    ultimately show ?thesis using False 1(2) by simp
  qed
qed

section \<open>A sweep, whole or not at all\<close>

lemma sweep_Inr:
  assumes "sweep env = Inr (rows, ranked, ct)"
  obtains symbols quotes n failed m ct0 rtop where
    "fetch_symbols (ue_directory env) = Inr symbols"
    "fold (ask_chunk env) (chunks_of CHUNK symbols) ([], 0, 0) = (quotes, n, failed)"
    "rules_get (ue_rules env) ''strategy'' ''universe_max_failed_chunk_pct'' = Inr m"
    "\<not> m < (if n \<noteq> 0 then ddiv_nz (dmul (of_nat failed) 100) (of_nat n) else 0)"
    "filter_universe quotes (ue_rules env) (Some 0) = Inr (rows, ct0)" "rows \<noteq> []"
    "ranked = (if rtop \<noteq> 0 then head_rows rtop rows else rows)"
    "ct = ct0\<lparr>ct_fetched := length symbols, ct_chunks := n, ct_failed := failed, ct_ranked := length ranked, ct_dropped := length rows - length ranked\<rparr>"
proof -
  obtain symbols where s: "fetch_symbols (ue_directory env) = Inr symbols" using assms by (auto simp: sweep_def err)
  obtain quotes n failed where f: "fold (ask_chunk env) (chunks_of CHUNK symbols) ([], 0, 0) = (quotes, n, failed)" by (metis prod_cases3)
  obtain m where m: "rules_get (ue_rules env) ''strategy'' ''universe_max_failed_chunk_pct'' = Inr m"
    using assms by (auto simp: sweep_def s f err Let_def)
  have r: "bind_e (raise_if (m < (if n \<noteq> 0 then ddiv_nz (dmul (of_nat failed) 100) (of_nat n) else 0)) (UniverseUnavailable PartialSweep)) (\<lambda>_.
      bind_e (filter_universe quotes (ue_rules env) (Some 0)) (\<lambda>(rows, ct).
      bind_e (raise_if (rows = []) (UniverseUnavailable EmptyUniverse)) (\<lambda>_.
      bind_e (rules_int (ue_rules env) ''strategy'' ''working_universe_size'') (\<lambda>rank_top.
      let ranked = (if rank_top \<noteq> 0 then head_rows rank_top rows else rows) in
      Inr (rows, ranked, ct\<lparr>ct_fetched := length symbols, ct_chunks := n, ct_failed := failed,
        ct_ranked := length ranked, ct_dropped := length rows - length ranked\<rparr>))))) = Inr (rows, ranked, ct)"
    using assms by (simp add: sweep_def s f m Let_def)
  obtain ct0 rtop where "\<not> m < (if n \<noteq> 0 then ddiv_nz (dmul (of_nat failed) 100) (of_nat n) else 0)"
    "filter_universe quotes (ue_rules env) (Some 0) = Inr (rows, ct0)" "rows \<noteq> []"
    "ranked = (if rtop \<noteq> 0 then head_rows rtop rows else rows)"
    "ct = ct0\<lparr>ct_fetched := length symbols, ct_chunks := n, ct_failed := failed, ct_ranked := length ranked, ct_dropped := length rows - length ranked\<rparr>"
    using r by (auto simp: err Let_def)
  then show thesis using that s f m by blast
qed

lemma read_gates_filter: "filter_universe quotes rules rtop = Inr x \<Longrightarrow> \<exists>g. read_gates rules = Inr g"
  by (auto simp: filter_universe_def err)

lemma rows_found:
  assumes "filter_universe quotes rules (Some 0) = Inr (rows, ct)" and "distinct (map fst quotes)"
  shows "distinct (map ur_symbol rows)" and "sorted (map rank_key rows)" and "ct_qualified ct = length rows"
    and "\<exists>g. read_gates rules = Inr g \<and> set rows = {row_of s q price | s q price. (s, q) \<in> set quotes \<and> vq_price q = Some price \<and> priced_in g q price \<and> \<not> pinned g q price}"
proof -
  obtain g where g: "read_gates rules = Inr g" and rows: "rows = sort_key rank_key (List.map_filter (quote_row g) quotes)"
    and "ct_qualified ct = length (List.map_filter (quote_row g) quotes)"
    using assms(1) unfolding filter_universe_Inr Let_def by auto
  then show "ct_qualified ct = length rows" by simp
  show "sorted (map rank_key rows)" by (simp add: rows)
  have "distinct (map ur_symbol (List.map_filter (quote_row g) quotes))" unfolding found_symbols using assms(2) by (rule distinct_map_filter)
  then show "distinct (map ur_symbol rows)" by (simp add: rows distinct_map inj_on_def distinct_sort)
  have "set rows = {row_of s q price | s q price. (s, q) \<in> set quotes \<and> vq_price q = Some price \<and> priced_in g q price \<and> \<not> pinned g q price}"
    by (force simp: rows List.map_filter_def quote_row_def qualifies_def image_iff)
  then show "\<exists>g. read_gates rules = Inr g \<and> set rows = {row_of s q price | s q price. (s, q) \<in> set quotes \<and> vq_price q = Some price \<and> priced_in g q price \<and> \<not> pinned g q price}"
    using g by blast
qed

lemma sweep_distinct: "sweep env = Inr (rows, ranked, ct) \<Longrightarrow> distinct (map ur_symbol rows)"
  by (elim sweep_Inr) (auto dest!: ask_chunks intro: rows_found(1))

lemma doc_replace_universe:
  "check_body ''universe'' body None = Inr () \<Longrightarrow> \<exists>ds'. doc_replace sha ds ''universe'' body None None = Inr ds'"
  by (simp add: doc_replace_def path_for_def doc_spec_of_def SPECS_def Let_def cas_ok_def)

lemma run_cases:
  obtains (refused) e where "sweep env = Inl e" "run_weekly_universe env now st = (Inl e, st)"
    | (installed) rows ranked ct tbl where "sweep env = Inr (rows, ranked, ct)"
        "tbl = filter (\<lambda>(x, _). x \<noteq> et_date (ue_zone env) now) (us_table st) @ map (Pair (et_date (ue_zone env) now)) rows"
        "run_weekly_universe env now st =
           (case bind_e (render_universe_md ranked ct now) (\<lambda>body. doc_replace (ue_sha env) (us_docs st) ''universe'' body None None) of
              Inl e \<Rightarrow> (Inl e, st\<lparr>us_table := tbl\<rparr>) | Inr docs \<Rightarrow> (Inr ct, st\<lparr>us_table := tbl, us_docs := docs\<rparr>))"
proof (cases "sweep env")
  case (Inl e)
  then show ?thesis using refused by (simp add: run_weekly_universe_def)
next
  case (Inr y)
  obtain rows ranked ct where y: "y = (rows, ranked, ct)" by (metis prod_cases3)
  then have "distinct (map ur_symbol rows)" using sweep_distinct Inr by blast
  then have "run_weekly_universe env now st =
      (case bind_e (render_universe_md ranked ct now) (\<lambda>body. doc_replace (ue_sha env) (us_docs st) ''universe'' body None None) of
         Inl e \<Rightarrow> (Inl e, st\<lparr>us_table := filter (\<lambda>(x, _). x \<noteq> et_date (ue_zone env) now) (us_table st) @ map (Pair (et_date (ue_zone env) now)) rows\<rparr>)
       | Inr docs \<Rightarrow> (Inr ct, st\<lparr>us_table := filter (\<lambda>(x, _). x \<noteq> et_date (ue_zone env) now) (us_table st) @ map (Pair (et_date (ue_zone env) now)) rows, us_docs := docs\<rparr>))"
    by (simp add: run_weekly_universe_def replace_universe_def Inr y Let_def)
  then show ?thesis using installed [OF _ refl] Inr y by blast
qed

lemma show_q_Inl: "show_q k d = Inl e \<Longrightarrow> e = InvalidOperation"
  by (auto simp: show_q_def Let_def err quantize_Inl)

lemma tsv_Inl: "tsv r = Inl e \<Longrightarrow> e = InvalidOperation"
  by (auto simp: tsv_def err split: option.splits dest: show_q_Inl)

lemma render_Inl: "render_universe_md rows ct i = Inl e \<Longrightarrow> e = InvalidOperation \<and> (\<exists>r \<in> set rows. isl (tsv r))"
proof -
  have "map_e tsv rows = Inl e \<Longrightarrow> e = InvalidOperation \<and> (\<exists>r \<in> set rows. isl (tsv r))"
    by (induction rows) (auto simp: err dest: tsv_Inl)
  then show "render_universe_md rows ct i = Inl e \<Longrightarrow> ?thesis" by (simp add: render_universe_md_def err)
qed

lemma sweep_Inl:
  assumes "sweep env = Inl e"
  shows "e = CsvError \<or> (\<exists>x. e = UniverseUnavailable x) \<or> (\<exists>k. e = KeyError k)"
proof -
  have add: "add_char c r = Inl e \<Longrightarrow> e = CsvError" for c r by (auto simp: add_char_def split: if_splits)
  have "csv_char x c r = Inl e \<Longrightarrow> e = CsvError" for x c r
    by (auto simp: csv_char_def to_state_def Let_def err split: csv_state.splits if_splits dest: add)
  then have "fold_e (csv_char x) l r = Inl e \<Longrightarrow> e = CsvError" for x l r by (induction l arbitrary: r) (auto simp: err)
  then have "csv_line x l r = Inl e \<Longrightarrow> e = CsvError" for x l r by (auto simp: csv_line_def err Let_def)
  then have "fold_e (csv_line x) ls r = Inl e \<Longrightarrow> e = CsvError" for x ls r by (induction ls arbitrary: r) (auto simp: err)
  then have "csv_rows x t = Inl e \<Longrightarrow> e = CsvError" for x t by (auto simp: csv_rows_def err)
  then have f: "fetch_symbols dr = Inl e \<Longrightarrow> e = CsvError \<or> (\<exists>x. e = UniverseUnavailable x)" for dr
    by (auto simp: fetch_symbols_def parse_directory_def err split: directory_reply.splits)
  have g: "rules_get rs a b = Inl e \<Longrightarrow> \<exists>k. e = KeyError k" for rs a b by (auto simp: rules_get_def err split: if_splits)
  then have i: "rules_int rs a b = Inl e \<Longrightarrow> \<exists>k. e = KeyError k" for rs a b by (auto simp: rules_int_def err)
  have u: "filter_universe q rs (Some 0) = Inl e \<Longrightarrow> \<exists>k. e = KeyError k" for q rs
    using g by (auto simp: filter_universe_def read_gates_def err Let_def case_prod_unfold)
  show ?thesis using assms by (auto simp: sweep_def err Let_def case_prod_unfold dest: f g i u)
qed

text \<open>C27: a sweep that fails writes nothing. The directory may be unreachable, refused, empty or implausible, too
  many chunks may fail, nothing may qualify: then the table and the documents are what they were,
  so last week's universe stands. The one failure after a write is a row whose amounts cannot be
  printed: the table is then already the new one, today's rows in place of any of today's and every
  other day as it was, while the document is the old one.\<close>

theorem failed_sweep_writes_nothing:
  assumes "run_weekly_universe env now st = (Inl e, st')"
  shows "us_docs st' = us_docs st \<and>
    (if e = InvalidOperation
     then \<exists>rows ranked ct. sweep env = Inr (rows, ranked, ct) \<and> (\<exists>r \<in> set ranked. isl (tsv r)) \<and>
       us_table st' = filter (\<lambda>(d, _). d \<noteq> et_date (ue_zone env) now) (us_table st) @ map (Pair (et_date (ue_zone env) now)) rows
     else st' = st \<and> sweep env = Inl e \<and> (e = CsvError \<or> (\<exists>x. e = UniverseUnavailable x) \<or> (\<exists>k. e = KeyError k)))"
proof (cases rule: run_cases [of env now st])
  case (refused e')
  then show ?thesis using assms sweep_Inl [of env e] by auto
next
  case (installed rows ranked ct tbl)
  show ?thesis
  proof (cases "render_universe_md ranked ct now")
    case (Inl x)
    then have "x = InvalidOperation \<and> (\<exists>r \<in> set ranked. isl (tsv r))" by (rule render_Inl)
    then show ?thesis using installed Inl assms by auto
  next
    case (Inr body)
    then obtain ds' where "doc_replace (ue_sha env) (us_docs st) ''universe'' body None None = Inr ds'"
      using doc_replace_universe [OF rendered_passes] by blast
    then show ?thesis using installed(3) Inr assms by simp
  qed
qed

lemma universe_rows_newest:
  assumes "rows \<noteq> []" and "\<forall>r \<in> set rows. ur_qualified r" and old: "\<forall>(x, _) \<in> set t. x \<le> day"
  shows "universe_rows (filter (\<lambda>(x, _). x \<noteq> day) t @ map (Pair day) rows) True = sort_key ur_symbol rows"
proof -
  let ?t = "filter (\<lambda>(x, _). x \<noteq> day) t @ map (Pair day) rows"
  have "day \<in> fst ` set ?t" using assms(1) by (cases rows) auto
  moreover have "x \<le> day" if "x \<in> fst ` set ?t" for x using that old by auto
  ultimately have "Max (fst ` set ?t) = day" by (intro Max_eqI) auto
  then have "universe_asof ?t = Some day" using assms(1) by (simp add: universe_asof_def)
  moreover have "map snd (filter (\<lambda>(x, _). x = day) ?t) = rows"
  proof -
    have "filter (\<lambda>(x, _). x = day) (filter (\<lambda>(x, _). x \<noteq> day) t) = []" by (induction t) auto
    moreover have "map snd (filter (\<lambda>(x, _). x = day) (map (Pair day) rs)) = rs" for rs :: "universe_row list" by (induction rs) auto
    ultimately show ?thesis by simp
  qed
  moreover have "filter ur_qualified rows = rows" using assms(2) by simp
  ultimately show ?thesis by (simp add: universe_rows_def)
qed

text \<open>What a sweep hands on to the writes.\<close>

lemma sweep_complete:
  assumes "sweep env = Inr (rows, ranked, ct)"
  obtains symbols g m where
    "fetch_symbols (ue_directory env) = Inr symbols" "SANITY_FLOOR \<le> length symbols" "concat (chunks_of CHUNK symbols) = symbols"
    "ct_fetched ct = length symbols" "ct_chunks ct = length (chunks_of CHUNK symbols)"
    "ct_failed ct = length (filter (\<lambda>c. isl (ue_quotes env c)) (chunks_of CHUNK symbols))"
    "rules_get (ue_rules env) ''strategy'' ''universe_max_failed_chunk_pct'' = Inr m"
    "ddiv_nz (dmul (of_nat (ct_failed ct)) 100) (of_nat (ct_chunks ct)) \<le> m"
    "rows \<noteq> []" "length rows = ct_qualified ct" "sorted (map rank_key rows)" "distinct (map ur_symbol rows)"
    "read_gates (ue_rules env) = Inr g"
    "set rows = {row_of s q price | s q price. last_quote env (chunks_of CHUNK symbols) s = Some q \<and> vq_price q = Some price \<and>
       priced_in g q price \<and> \<not> pinned g q price}"
    "prefix ranked rows" "length ranked = ct_ranked ct"
proof (rule sweep_Inr [OF assms])
  fix symbols quotes n failed m ct0 rtop
  assume s: "fetch_symbols (ue_directory env) = Inr symbols"
    and f: "fold (ask_chunk env) (chunks_of CHUNK symbols) ([], 0, 0) = (quotes, n, failed)"
    and m: "rules_get (ue_rules env) ''strategy'' ''universe_max_failed_chunk_pct'' = Inr m"
    and share: "\<not> m < (if n \<noteq> 0 then ddiv_nz (dmul (of_nat failed) 100) (of_nat n) else 0)"
    and fu: "filter_universe quotes (ue_rules env) (Some 0) = Inr (rows, ct0)" and ne: "rows \<noteq> []"
    and ranked: "ranked = (if rtop \<noteq> 0 then head_rows rtop rows else rows)"
    and ct: "ct = ct0\<lparr>ct_fetched := length symbols, ct_chunks := n, ct_failed := failed, ct_ranked := length ranked,
      ct_dropped := length rows - length ranked\<rparr>"
  have floor: "SANITY_FLOOR \<le> length symbols" using s by (auto simp: fetch_symbols_def err split: directory_reply.splits)
  have cc: "concat (chunks_of CHUNK symbols) = symbols" using chunks_cover [of CHUNK symbols] by (simp add: CHUNK_def)
  from ask_chunks [OF f] have q: "distinct (map fst quotes)" "map_of quotes = last_quote env (chunks_of CHUNK symbols)"
    "n = length (chunks_of CHUNK symbols)" "failed = length (filter (\<lambda>c. isl (ue_quotes env c)) (chunks_of CHUNK symbols))" by simp_all
  have "chunks_of CHUNK symbols \<noteq> []" using cc floor by (auto simp: SANITY_FLOOR_def)
  then have part: "ddiv_nz (dmul (of_nat failed) 100) (of_nat n) \<le> m" using share by (simp add: q(3))
  note found = rows_found [OF fu q(1)]
  obtain g where g: "read_gates (ue_rules env) = Inr g"
    "set rows = {row_of s q price | s q price. (s, q) \<in> set quotes \<and> vq_price q = Some price \<and> priced_in g q price \<and> \<not> pinned g q price}"
    using found(4) by blast
  have mem: "(x, y) \<in> set quotes \<longleftrightarrow> last_quote env (chunks_of CHUNK symbols) x = Some y" for x y
    using q(1) by (simp add: q(2) [symmetric])
  have pre: "prefix ranked rows" by (auto simp: ranked head_rows_def take_is_prefix)
  show thesis
    by (rule that [OF s floor cc _ _ _ m _ ne _ found(2,1) g(1) g(2) [unfolded mem] pre]) (simp_all add: ct part q(3,4) [symmetric] found(3))
qed

lemma run_Inr:
  assumes "run_weekly_universe env now st = (Inr ct, st')"
  obtains rows ranked body where "sweep env = Inr (rows, ranked, ct)" "render_universe_md ranked ct now = Inr body"
    "check_body ''universe'' body None = Inr ()" "doc_replace (ue_sha env) (us_docs st) ''universe'' body None None = Inr (us_docs st')"
    "us_table st' = filter (\<lambda>(x, _). x \<noteq> et_date (ue_zone env) now) (us_table st) @ map (Pair (et_date (ue_zone env) now)) rows"
proof (cases rule: run_cases [of env now st])
  case (refused e')
  then show ?thesis using assms by simp
next
  case (installed rows ranked ct' tbl)
  show ?thesis
  proof (cases "render_universe_md ranked ct' now")
    case (Inl x)
    then show ?thesis using installed(3) assms by simp
  next
    case (Inr body)
    then obtain ds' where d: "doc_replace (ue_sha env) (us_docs st) ''universe'' body None None = Inr ds'"
      using doc_replace_universe [OF rendered_passes] by blast
    have e: "ct' = ct" "st' = st\<lparr>us_table := tbl, us_docs := ds'\<rparr>" using installed(3) assms by (simp_all add: Inr d)
    show ?thesis
      by (rule that [of rows ranked body]) (use installed(1,2) Inr d rendered_passes [OF Inr] in \<open>simp_all add: e\<close>)
  qed
qed

text \<open>C18: what a sweep that succeeds has installed. At least a thousand symbols were fetched, every chunk of them
  was asked and no larger a share failed than the rules allow; today's rows are exactly one per
  symbol whose last quote qualifies, ranked, none twice, and at least one; rows of other days stay;
  a reader of the newest sweep gets them; and the document is the rendering of the head of the same
  ranking, which passes the checks of its kind.\<close>

theorem sweep_installs:
  assumes "run_weekly_universe env now st = (Inr ct, st')"
  defines "day \<equiv> et_date (ue_zone env) now"
  shows "\<exists>symbols rows g m. fetch_symbols (ue_directory env) = Inr symbols \<and> SANITY_FLOOR \<le> length symbols \<and>
    concat (chunks_of CHUNK symbols) = symbols \<and> ct_fetched ct = length symbols \<and> ct_chunks ct = length (chunks_of CHUNK symbols) \<and>
    ct_failed ct = length (filter (\<lambda>c. isl (ue_quotes env c)) (chunks_of CHUNK symbols)) \<and>
    rules_get (ue_rules env) ''strategy'' ''universe_max_failed_chunk_pct'' = Inr m \<and>
    ddiv_nz (dmul (of_nat (ct_failed ct)) 100) (of_nat (ct_chunks ct)) \<le> m \<and>
    rows \<noteq> [] \<and> length rows = ct_qualified ct \<and> sorted (map rank_key rows) \<and> distinct (map ur_symbol rows) \<and>
    read_gates (ue_rules env) = Inr g \<and>
    set rows = {row_of s q price | s q price. last_quote env (chunks_of CHUNK symbols) s = Some q \<and> vq_price q = Some price \<and>
       priced_in g q price \<and> \<not> pinned g q price} \<and>
    us_table st' = filter (\<lambda>(x, _). x \<noteq> day) (us_table st) @ map (Pair day) rows \<and>
    ((\<forall>(x, _) \<in> set (us_table st). x \<le> day) \<longrightarrow> universe_rows (us_table st') True = sort_key ur_symbol rows) \<and>
    (\<exists>ranked body. prefix ranked rows \<and> length ranked = ct_ranked ct \<and> render_universe_md ranked ct now = Inr body \<and>
       check_body ''universe'' body None = Inr () \<and> doc_replace (ue_sha env) (us_docs st) ''universe'' body None None = Inr (us_docs st'))"
proof (rule run_Inr [OF assms(1), folded day_def])
  fix rows ranked body
  assume sw: "sweep env = Inr (rows, ranked, ct)" and body: "render_universe_md ranked ct now = Inr body"
    "check_body ''universe'' body None = Inr ()" "doc_replace (ue_sha env) (us_docs st) ''universe'' body None None = Inr (us_docs st')"
    and t: "us_table st' = filter (\<lambda>(x, _). x \<noteq> day) (us_table st) @ map (Pair day) rows"
  show ?thesis
  proof (rule sweep_complete [OF sw], goal_cases)
    case (1 symbols g m)
    have ql: "\<forall>r \<in> set rows. ur_qualified r" by (auto simp: 1(14) row_of_def)
    have rd: "(\<forall>(x, _) \<in> set (us_table st). x \<le> day) \<longrightarrow> universe_rows (us_table st') True = sort_key ur_symbol rows"
      unfolding t by (rule impI) (rule universe_rows_newest [OF 1(9) ql])
    show ?case by (rule exI [of _ symbols], rule exI [of _ rows], rule exI [of _ g], rule exI [of _ m],
      intro conjI 1(1-14) t rd exI [of _ ranked] exI [of _ body] 1(15,16) body)
  qed
qed

section \<open>An example\<close>

text \<open>A directory of a thousand symbols, of which the broker knows one.\<close>

definition sample_lines :: "string list" where
  "sample_lines = ''Symbol|Security Name|Listing Exchange|Test Issue'' # map (\<lambda>n. show_nat n @ ''|Inc|N|N'') [0..<1000]"

definition amd_quote :: verbose_quote where
  "amd_quote = \<lparr>vq_symbol = ''AMD'', vq_price = Some 100, vq_adv10 = 1000000, vq_leverage = 0, vq_high = Some 102, vq_low = Some 99,
     vq_week52 = 125, vq_change = 1, vq_optionable = True, vq_description = ''Advanced Micro'', vq_earnings = [], vq_etf = False\<rparr>"

definition sample_universe_env :: universe_env where
  "sample_universe_env = \<lparr>ue_zone = \<lparr>utc_off = (\<lambda>_. 0), wall_off = (\<lambda>_. 0)\<rparr>, ue_rules = rules_yml, ue_sha = id,
     ue_directory = Answer 200 (join [NL] sample_lines), ue_quotes = (\<lambda>_. Inr [(''AMD'', amd_quote)])\<rparr>"

definition empty_universe :: universe_state where
  "empty_universe = \<lparr>us_table = [], us_docs = \<lparr>ds_files = (\<lambda>_. None), ds_artifacts = []\<rparr>\<rparr>"

lemma strip_nonempty:
  assumes "c \<in> set s" and "\<not> is_space c"
  shows "strip s \<noteq> []"
proof -
  have kept: "c \<in> set (dropWhile is_space t)" if "c \<in> set t" for t
    using that assms(2) by (metis Un_iff set_append set_takeWhileD takeWhile_dropWhile_id)
  have "c \<in> set (dropWhile is_space (rev (dropWhile is_space s)))" using kept [of "rev (dropWhile is_space s)"] kept [OF assms(1)] by simp
  then show ?thesis unfolding strip_def by (metis empty_iff list.set(1) rev_is_Nil_conv)
qed

lemma strip_plain: "list_all (\<lambda>c. \<not> is_space c) s \<Longrightarrow> strip s = s"
proof -
  assume a: "list_all (\<lambda>c. \<not> is_space c) s"
  then have "dropWhile is_space s = s" by (cases s) auto
  moreover have "dropWhile is_space (rev s) = rev s" using a by (cases s rule: rev_cases) auto
  ultimately show ?thesis by (simp add: strip_def)
qed

lemma length_show_nat: "n < 10 ^ k \<Longrightarrow> 0 < k \<Longrightarrow> length (show_nat n) \<le> k"
proof (induction k arbitrary: n)
  case (Suc k)
  show ?case
  proof (cases "n < 10")
    case True
    then show ?thesis by (simp add: show_nat.simps [of n])
  next
    case False
    then have "0 < k" using Suc.prems by (cases k) auto
    moreover have "n div 10 < 10 ^ k" using Suc.prems by (simp add: less_mult_imp_div_less mult.commute)
    ultimately show ?thesis using Suc.IH False by (simp add: show_nat.simps [of n])
  qed
qed simp

lemma show_nat_nonempty [simp]: "show_nat n \<noteq> []"
  by (simp add: show_nat.simps [of n])

lemma sample_parsed:
  "\<exists>symbols. fetch_symbols (Answer 200 (join [NL] sample_lines)) = Inr symbols \<and> length symbols = 1000"
proof -
  define symbols where "symbols = map show_nat [0..<1000]"
  have dig: "c \<in> set (show_nat n) \<Longrightarrow> 48 \<le> code c \<and> code c \<le> 57" for c n using show_nat_digits [of n] by (auto simp: list_all_iff is_digit_def)
  have sp: "c \<in> set (show_nat n) \<Longrightarrow> \<not> is_space c \<and> c \<noteq> CHR ''|'' \<and> c \<noteq> CHR ''$'' \<and> c \<noteq> NL \<and> c \<noteq> CR \<and> c \<noteq> QUOTE" for c n
    using dig [of c n] by (auto simp: is_space_def code_def NL_def CR_def QUOTE_def)
  have len: "length (show_nat n) \<le> 3" if "n < 1000" for n using length_show_nat [of n 3] that by simp
  have pl: "\<forall>l \<in> set sample_lines. plain l \<and> l \<noteq> [] \<and> int (length l) \<le> FIELD_LIMIT"
  proof
    fix l assume "l \<in> set sample_lines"
    then consider "l = ''Symbol|Security Name|Listing Exchange|Test Issue''" | n where "n < 1000" "l = show_nat n @ ''|Inc|N|N''"
      by (auto simp: sample_lines_def)
    then show "plain l \<and> l \<noteq> [] \<and> int (length l) \<le> FIELD_LIMIT"
    proof cases
      case 1
      then show ?thesis by (simp add: plain_def NL_def CR_def QUOTE_def FIELD_LIMIT_def)
    next
      case 2
      have "plain (show_nat n)" using sp [of _ n] by (auto simp: plain_def)
      then show ?thesis using len [OF 2(1)] 2(2) by (simp add: plain_def FIELD_LIMIT_def) (simp add: NL_def CR_def QUOTE_def)
    qed
  qed
  have rows: "csv_rows CHR ''|'' (join [NL] sample_lines) = Inr (map (split_on CHR ''|'') sample_lines)"
    using pl by (rule csv_rows_plain) (simp add: sample_lines_def)
  have names: "split_on CHR ''|'' ''Symbol|Security Name|Listing Exchange|Test Issue'' = [''Symbol'', ''Security Name'', ''Listing Exchange'', ''Test Issue'']"
    and inc: "split_on CHR ''|'' ''Inc|N|N'' = [''Inc'', ''N'', ''N'']" and nm: "\<not> list_ex (\<lambda>k. occurs k (lower ''Inc'')) NAME_EXCLUSIONS" by code_simp+
  have row: "split_on CHR ''|'' (show_nat n @ ''|Inc|N|N'') = [show_nat n, ''Inc'', ''N'', ''N'']" for n
    using split_first [of "CHR ''|''" "show_nat n" "''Inc|N|N''"] sp [of "CHR ''|''" n] by (auto simp: inc)
  have keep: "keep_row (row_dict [''Symbol'', ''Security Name'', ''Listing Exchange'', ''Test Issue''] [show_nat n, ''Inc'', ''N'', ''N'']) = Some (show_nat n)"
    if "n < 1000" for n
  proof -
    have "strip (show_nat n) = show_nat n" using sp [of _ n] by (intro strip_plain) (auto simp: list_all_iff)
    moreover have "CHR ''$'' \<notin> set (show_nat n)" using sp [of "CHR ''$''" n] by auto
    ultimately show ?thesis using len [OF that] nm by (simp add: keep_row_def row_dict_def opt_str_def MAJOR_EXCHANGES_def Let_def)
  qed
  have "List.map_filter keep_row (dict_rows (map (split_on CHR ''|'') sample_lines)) = symbols"
    using keep by (simp add: dict_rows_def sample_lines_def names row symbols_def List.map_filter_def comp_def)
  then have p: "parse_directory (join [NL] sample_lines) = Inr (sorted_list_of_set (set symbols))"
    by (simp add: parse_directory_def rows)
  have "inj_on show_nat {0..<1000}" by (auto simp: inj_on_def dest: show_nat_inj)
  then have card: "card (set symbols) = 1000" by (simp add: symbols_def card_image)
  have "CHR ''S'' \<in> set (join [NL] sample_lines)" by (simp add: sample_lines_def join_Cons)
  then have "strip (join [NL] sample_lines) \<noteq> []" by (rule strip_nonempty) (simp add: is_space_def code_def)
  then show ?thesis using p card by (simp add: fetch_symbols_def SANITY_FLOOR_def)
qed

lemma one_quote:
  assumes "\<And>c. ue_quotes env c = Inr [(s, q)]" and "quotes \<in> {[], [(s, q)]}" and "chunks \<noteq> []"
  shows "fold (ask_chunk env) chunks (quotes, n, failed) = ([(s, q)], n + length chunks, failed)"
  using assms(2,3)
proof (induction chunks arbitrary: quotes n)
  case (Cons chunk chunks)
  have "ask_chunk env chunk (quotes, n, failed) = ([(s, q)], n + 1, failed)"
    using Cons.prems(1) by (auto simp: ask_chunk_def assms(1) dict_merge_def)
  then show ?case using Cons.IH [of "[(s, q)]" "n + 1"] by (cases "chunks = []") simp_all
qed simp

definition yml_gates :: gates where "yml_gates = \<lparr>gt_price = 5, gt_dollar = 5000000, gt_shares = 100000, gt_range = 75 / 100\<rparr>"

lemma sample_gates: "read_gates rules_yml = Inr yml_gates"
  by (simp add: read_gates_def rules_defs rules_yml_def yml_gates_def)

definition amd_row :: universe_row where "amd_row = row_of ''AMD'' amd_quote 100"

lemma amd_numbers: "session_range_pct amd_quote 100 = Some 3" "dmul 1000000 100 = 100000000" "dmul (ddiv_nz (dsub 125 100) 125) 100 = 20" "ddiv_nz 0 100 = 0"
  by (simp_all add: session_range_pct_def amd_quote_def dec_eval)

lemma sample_filtered: "\<exists>ct. filter_universe [(''AMD'', amd_quote)] rules_yml (Some 0) = Inr ([amd_row], ct)"
proof -
  have "quote_row yml_gates (''AMD'', amd_quote) = Some amd_row"
    using amd_numbers by (simp add: quote_row_def qualifies_def priced_in_def pinned_def yml_gates_def amd_row_def) (simp add: amd_quote_def)
  then show ?thesis by (simp add: filter_universe_Inr sample_gates Let_def map_filter_simps)
qed

lemma amd_printed: "\<exists>l. tsv amd_row = Inr l"
proof -
  define f where "f k x = projr (show_q k x)" for k x
  have f: "\<bar>half_even (x * 10 ^ k)\<bar> < 10 ^ 28 \<Longrightarrow> show_q k x = Inr (f k x)" for k x
    by (simp add: f_def show_q_def quantize_def Let_def)
  have r: "ur_price amd_row = 100" "ur_adv10 amd_row = 1000000" "ur_dollar amd_row = 100000000" "ur_gap amd_row = 20" "ur_leverage amd_row = 0" "ur_range amd_row = Some 3"
    using amd_numbers by (simp_all add: amd_row_def row_of_def) (simp_all add: amd_quote_def)
  have "show_q 4 100 = Inr (f 4 100)" "show_q 0 1000000 = Inr (f 0 1000000)" "show_q 0 100000000 = Inr (f 0 100000000)"
    "show_q 2 20 = Inr (f 2 20)" "show_q 1 0 = Inr (f 1 0)" "show_q 2 3 = Inr (f 2 3)"
    by (rule f, simp add: half_even_def)+
  then show ?thesis by (simp add: tsv_def r)
qed

lemma sample_swept: "\<exists>ct. sweep sample_universe_env = Inr ([amd_row], [amd_row], ct) \<and> ct_fetched ct = 1000"
proof -
  obtain symbols where s: "fetch_symbols (Answer 200 (join [NL] sample_lines)) = Inr symbols" "length symbols = 1000" using sample_parsed by blast
  have cc: "concat (chunks_of CHUNK symbols) = symbols" using chunks_cover [of CHUNK symbols] by (simp add: CHUNK_def)
  then have ne: "chunks_of CHUNK symbols \<noteq> []" using s(2) by auto
  have f: "fold (ask_chunk sample_universe_env) (chunks_of CHUNK symbols) ([], 0, 0) = ([(''AMD'', amd_quote)], length (chunks_of CHUNK symbols), 0)"
    using one_quote [of sample_universe_env "''AMD''" amd_quote "[]" "chunks_of CHUNK symbols" 0 0] ne by (simp add: sample_universe_env_def)
  obtain ct where ct: "filter_universe [(''AMD'', amd_quote)] rules_yml (Some 0) = Inr ([amd_row], ct)" using sample_filtered by blast
  have e: "ue_directory sample_universe_env = Answer 200 (join [NL] sample_lines)" "ue_rules sample_universe_env = rules_yml"
    by (simp_all add: sample_universe_env_def)
  have yml: "rules_get rules_yml ''strategy'' ''universe_max_failed_chunk_pct'' = Inr 20" "rules_int rules_yml ''strategy'' ''working_universe_size'' = Inr 500"
    by (simp_all add: rules_defs rules_yml_def int_of_dec_def)
  have z: "ddiv_nz (dmul 0 100) x = 0" for x by (simp add: ddiv_nz_def dmul_def)
  show ?thesis unfolding sweep_def e s(1) bind_e_Inr f yml by (simp add: ct z s(2) head_rows_def Let_def)
qed

theorem sweep_installs_witness:
  "\<exists>ct st'. run_weekly_universe sample_universe_env 63924768000000000 empty_universe = (Inr ct, st') \<and> ct_fetched ct = 1000 \<and>
     universe_rows (us_table st') True = [amd_row]"
proof -
  obtain ct where sw: "sweep sample_universe_env = Inr ([amd_row], [amd_row], ct)" "ct_fetched ct = 1000" using sample_swept by blast
  obtain l where "tsv amd_row = Inr l" using amd_printed by blast
  then obtain body where body: "render_universe_md [amd_row] ct 63924768000000000 = Inr body" by (simp add: render_universe_md_def)
  obtain ds' where ds': "doc_replace (ue_sha sample_universe_env) (us_docs empty_universe) ''universe'' body None None = Inr ds'"
    using doc_replace_universe [OF rendered_passes [OF body]] by blast
  let ?run = "run_weekly_universe sample_universe_env 63924768000000000 empty_universe"
  have run: "\<exists>st'. ?run = (Inr ct, st') \<and> map snd (us_table st') = [amd_row]"
  proof (cases rule: run_cases [of sample_universe_env 63924768000000000 empty_universe])
    case (refused e)
    then show ?thesis using sw(1) by simp
  next
    case (installed rows ranked ct' tbl)
    have i: "rows = [amd_row]" "ranked = [amd_row]" "ct' = ct" using installed(1) sw(1) by auto
    have "map snd tbl = [amd_row]" using installed(2) i(1) by (simp add: empty_universe_def)
    then show ?thesis using installed(3) by (simp add: i(2,3) body ds')
  qed
  then obtain st' where st': "?run = (Inr ct, st')" "map snd (us_table st') = [amd_row]" by (elim exE conjE)
  let ?day = "et_date (ue_zone sample_universe_env) 63924768000000000"
  have "\<exists>rows. us_table st' = filter (\<lambda>(x, _). x \<noteq> ?day) (us_table empty_universe) @ map (Pair ?day) rows \<and>
      ((\<forall>(x, _) \<in> set (us_table empty_universe). x \<le> ?day) \<longrightarrow> universe_rows (us_table st') True = sort_key ur_symbol rows)"
    using sweep_installs [OF st'(1)] by blast
  then obtain rows where "us_table st' = filter (\<lambda>(x, _). x \<noteq> ?day) (us_table empty_universe) @ map (Pair ?day) rows"
    and "(\<forall>(x, _) \<in> set (us_table empty_universe). x \<le> ?day) \<longrightarrow> universe_rows (us_table st') True = sort_key ur_symbol rows" by blast
  then have rows: "us_table st' = map (Pair ?day) rows" "universe_rows (us_table st') True = sort_key ur_symbol rows"
    by (simp_all add: empty_universe_def)
  have "map snd (map (Pair ?day) rs) = rs" for rs :: "universe_row list" by (induction rs) simp_all
  then have "rows = [amd_row]" using st'(2) by (simp only: rows(1))
  then show ?thesis using st'(1) sw(2) rows(2) by simp
qed

theorem filter_universe_exact_witness:
  "\<exists>ct. filter_universe [(''AMD'', amd_quote)] rules_yml (Some 0) = Inr ([amd_row], ct) \<and> ct_ranked ct = 1 \<and> ct_skipped ct = []"
proof -
  obtain ct where ct: "filter_universe [(''AMD'', amd_quote)] rules_yml (Some 0) = Inr ([amd_row], ct)" using sample_filtered by blast
  have "distinct (map fst [(''AMD'', amd_quote)])" by simp
  from filter_universe_exact [OF ct sample_gates this] ct show ?thesis by (auto simp: amd_quote_def)
qed

theorem failed_sweep_writes_nothing_witness:
  "\<exists>st'. run_weekly_universe (sample_universe_env\<lparr>ue_directory := Answer 503 ''Service Unavailable''\<rparr>) 0 empty_universe =
     (Inl (UniverseUnavailable DirectoryUnavailable), st') \<and> st' = empty_universe"
proof -
  let ?e = "sample_universe_env\<lparr>ue_directory := Answer 503 ''Service Unavailable''\<rparr>"
  have "sweep ?e = Inl (UniverseUnavailable DirectoryUnavailable)" by (simp add: sweep_def fetch_symbols_def)
  then have "run_weekly_universe ?e 0 empty_universe = (Inl (UniverseUnavailable DirectoryUnavailable), empty_universe)"
    by (simp add: run_weekly_universe_def)
  with failed_sweep_writes_nothing [OF this] show ?thesis by auto
qed

end
