(* ===== verification/TC_State.thy ===== *)
theory TC_State
  imports TC_Tick TC_Scheduler TC_Token TC_Dispatch TC_Desk TC_Scorecard TC_Universe
begin

text \<open>
  The engine's state (tc/main.py), its market window and the jobs made of the monitoring
  components. The outside is the record \<open>engine_env\<close>: the brokers, the chat, the clock, and the
  runner, which may do anything to the engine while it runs (its tools are served by it), as other
  tasks may while a job sleeps. What is posted and pinged is appended to two lists of the state;
  neither the notifier nor the pinger raises.
\<close>

section \<open>State\<close>

datatype notice =
    NRun run_notice | NBlindRun string | NChainBlind string | NChainStale string
  | NChain string "(string \<times> verdict) list" "(analyst \<times> int) list" date | NBarsBlind int int | NStuck "(item_kind \<times> int \<times> string) list"
  | NMissed string wall | NFailed string exn | NTrips wall bool "trip list" | NClean wall
  | NClose session_status_row | NDigest nat nat "(string \<times> xp_detail) list" | NToken post_text
  | NUniverse counts | NUniverseFailed universe_refusal | NCard "card_line list"

datatype ping = PStart | POk verdict | PFail verdict

record engine =
  en_sched :: scheduler
  en_ledger :: ledger
  en_tdir :: tdir
  en_window :: "market_window option"
  en_fallback :: bool
  en_try :: "instant option"
  en_hash :: "string option"
  en_locks :: "string set"
  en_streaks :: "(string \<times> int) list"
  en_blind :: bool
  en_read_ok :: "instant option"
  en_signature :: "trip list option"
  en_trip_at :: "instant option"
  en_posts :: "notice list"
  en_pings :: "(string \<times> ping) list"
  en_desk :: desk
  en_active :: "string option" \<comment> \<open>the Claude job whose tools are being served\<close>
  en_runner_ok :: "bool option"
  en_backups :: "string list" \<comment> \<open>the file names of the backup directory\<close>
  en_universe :: universe_state \<comment> \<open>the universe's table and the research documents\<close>

record engine_env =
  ee_zone :: zone
  ee_rules :: rules
  ee_reserve :: dec
  ee_broker :: account_broker
  ee_market :: "date \<Rightarrow> exn + market_window"
  ee_orders_from :: date
  ee_leveraged :: "string set"
  ee_token :: token_env
  ee_epoch :: "instant \<Rightarrow> rat" \<comment> \<open>the token clock's reading at an instant\<close>
  ee_expect :: "expectation list"
  ee_runner :: "run_env option"
  ee_run :: "run_request \<Rightarrow> engine \<Rightarrow> http_reply \<times> engine" \<comment> \<open>a run of the runner, with all its tools do\<close>
  ee_health :: "string \<Rightarrow> engine \<Rightarrow> http_reply \<times> engine"
  ee_clock :: "engine \<Rightarrow> instant \<times> engine"
  ee_sleep :: "rat \<Rightarrow> engine \<Rightarrow> engine" \<comment> \<open>what the other tasks do meanwhile\<close>
  ee_desk :: desk_config
  ee_chat :: "proposal_msg \<Rightarrow> string option"
  ee_reactions :: "string \<Rightarrow> reaction"
  ee_desk_broker :: broker
  ee_daily :: "string \<Rightarrow> int \<Rightarrow> exn + daily_bar list"
  ee_backup :: "string \<Rightarrow> exn + unit"
  ee_open :: "exn + unit" \<comment> \<open>opening the broker\<close>
  ee_directory :: directory_reply
  ee_quotes :: "string list \<Rightarrow> exn + (string \<times> verbose_quote) list"
  ee_sha :: "string \<Rightarrow> string"
  ee_draw :: "nat \<Rightarrow> nat \<Rightarrow> nat" \<comment> \<open>the seeded generator\<close>

text \<open>The world of a dispatched job is the engine itself.\<close>

definition utc :: "instant \<Rightarrow> datetime" where "utc i = \<lparr>dt_wall = i, dt_tz = TzFixed 0\<rparr>"

definition post :: "notice \<Rightarrow> engine \<Rightarrow> engine" where "post n e = e\<lparr>en_posts := en_posts e @ [n]\<rparr>"

definition ping_job :: "string \<Rightarrow> ping \<Rightarrow> engine \<Rightarrow> engine" where "ping_job j p e = e\<lparr>en_pings := en_pings e @ [(j, p)]\<rparr>"

definition engine_world :: "engine_env \<Rightarrow> engine run_world" where
  "engine_world env = \<lparr>rw_post_run = ee_run env, rw_get_health = ee_health env, rw_clock = ee_clock env, rw_sleep = ee_sleep env,
     rw_post = (\<lambda>n. post (NRun n))\<rparr>"

definition WINDOW_RETRY_S :: int where "WINDOW_RETRY_S = 300"
definition TRIP_REPOST_S :: int where "TRIP_REPOST_S = 3600"

section \<open>The market window\<close>

definition trading_day :: "engine \<Rightarrow> date \<Rightarrow> bool" where
  "trading_day e d =
     (case en_window e of
        Some w \<Rightarrow> if w_date w = d then is_trading_day w else is_trading_day (fallback_window d)
      | None \<Rightarrow> is_trading_day (fallback_window d))"

definition window_retry_due :: "engine \<Rightarrow> instant \<Rightarrow> bool" where
  "window_retry_due e now = (case en_try e of None \<Rightarrow> True | Some t \<Rightarrow> now - t \<ge> us_of_s WINDOW_RETRY_S)"

definition refresh_window :: "engine_env \<Rightarrow> date \<Rightarrow> instant \<Rightarrow> engine \<Rightarrow> engine" where
  "refresh_window env d now e =
     (case ee_market env d of
        Inr w \<Rightarrow> e\<lparr>en_try := Some now, en_window := Some w, en_fallback := False\<rparr>
      | Inl _ \<Rightarrow> e\<lparr>en_try := Some now, en_window := Some (fallback_window d), en_fallback := True\<rparr>)"

section \<open>The monitoring jobs\<close>

text \<open>The signature of a sweep is its trips.\<close>

definition post_trips :: "tick_result \<Rightarrow> instant \<Rightarrow> engine \<Rightarrow> engine" where
  "post_trips res now e =
     (if Some (rs_trips res) \<noteq> en_signature e
      then
        let e1 = (if rs_trips res \<noteq> [] then post (NTrips (tk_at (rs_row res)) False (rs_trips res)) e
                  else if en_signature e \<noteq> None \<and> en_signature e \<noteq> Some [] then post (NClean (tk_at (rs_row res))) e else e) in
        e1\<lparr>en_signature := Some (rs_trips res), en_trip_at := Some now\<rparr>
      else if rs_trips res \<noteq> [] \<and> (\<exists>t. en_trip_at e = Some t \<and> now - t \<ge> us_of_s TRIP_REPOST_S)
      then (post (NTrips (tk_at (rs_row res)) True (rs_trips res)) e)\<lparr>en_trip_at := Some now\<rparr>
      else e)"

definition job_tick :: "engine_env \<Rightarrow> instant \<Rightarrow> engine \<Rightarrow> (exn + verdict) \<times> engine" where
  "job_tick env now e =
     (case run_tick (ee_zone env) (ee_broker env) (en_ledger e) (ee_rules env) (ee_reserve env) (en_hash e) now (en_window e)
             (ee_orders_from env) (ee_leveraged env) trading_days_between of
        (Inl x, L) \<Rightarrow> (Inl x, e\<lparr>en_ledger := L\<rparr>)
      | (Inr res, L) \<Rightarrow>
          let blind = (tk_state (rs_row res) = TsBLIND);
              e1 = e\<lparr>en_ledger := L, en_blind := blind, en_read_ok := (if blind then en_read_ok e else Some now)\<rparr> in
          (Inr VDone, post_trips res now e1))"

definition engine_hash :: "engine_env \<Rightarrow> engine \<Rightarrow> exn + string \<times> engine" where
  "engine_hash env e =
     (case en_hash e of Some h \<Rightarrow> Inr (h, e)
      | None \<Rightarrow> bind_e (ab_hashes (ee_broker env)) (\<lambda>hs.
          case hs of [] \<Rightarrow> Inl BrokerError | h # _ \<Rightarrow> Inr (h, e\<lparr>en_hash := Some h\<rparr>)))"

definition job_session_close :: "engine_env \<Rightarrow> instant \<Rightarrow> engine \<Rightarrow> (exn + verdict) \<times> engine" where
  "job_session_close env now e =
     (let today = et_date (ee_zone env) now in
      if \<exists>w. en_window e = Some w \<and> w_date w = today \<and> \<not> is_trading_day w then (Inr VNoop, e)
      else
        (case engine_hash env e of
           Inl x \<Rightarrow> (Inl x, e)
         | Inr (h, e1) \<Rightarrow>
             (case reconcile (ee_broker env) (en_ledger e1) h now (ee_orders_from env) of
                Inl x \<Rightarrow> (Inl x, e1)
              | Inr (view, L) \<Rightarrow>
                  (case close_session L (ee_rules env) today (ac_value (bv_account view)) of
                     Inl x \<Rightarrow> (Inl x, e1\<lparr>en_ledger := L\<rparr>)
                   | Inr (row, L') \<Rightarrow> (Inr VDone, post (NClose row) (e1\<lparr>en_ledger := L'\<rparr>))))))"

text \<open>The runner's health is read by this job, when there is a runner.\<close>

definition check_runner :: "engine_env \<Rightarrow> engine \<Rightarrow> engine" where
  "check_runner env e =
     (case ee_runner env of None \<Rightarrow> e
      | Some renv \<Rightarrow> (let (ok, e1) = health renv (engine_world env) e in e1\<lparr>en_runner_ok := Some ok\<rparr>))"

definition job_token_check :: "engine_env \<Rightarrow> instant \<Rightarrow> engine \<Rightarrow> (exn + verdict) \<times> engine" where
  "job_token_check env now e =
     (let (rep, body, L, d) = token_check (ee_zone env) (ee_token env) (ee_epoch env now) now (en_ledger e) (en_tdir e);
          e1 = e\<lparr>en_ledger := L, en_tdir := d\<rparr> in
      (Inr VDone, check_runner env (case body of None \<Rightarrow> e1 | Some b \<Rightarrow> post (NToken b) e1)))"

definition job_expectations :: "engine_env \<Rightarrow> instant \<Rightarrow> engine \<Rightarrow> (exn + verdict) \<times> engine" where
  "job_expectations env now e =
     (let (left, d) = days_until_dead (ee_token env) (ee_epoch env now) (en_tdir e);
          (res, L) = run_expectations (en_ledger e) left (ee_expect env) (et_date (ee_zone env) now);
          e1 = e\<lparr>en_ledger := L, en_tdir := (if list_ex (\<lambda>s. xp_check s = TokenDaysUntilDeadMin) (ee_expect env) then d else en_tdir e)\<rparr> in
      (case res of Inl x \<Rightarrow> (Inl x, e1)
       | Inr rs \<Rightarrow> (Inr VDone, post (case digest rs of (n, b, ds) \<Rightarrow> NDigest n b ds) e1)))"

section \<open>The broker connection\<close>

definition open_broker :: "engine_env \<Rightarrow> engine \<Rightarrow> (exn + unit) \<times> engine" where
  "open_broker env e =
     (case ee_open env of Inr _ \<Rightarrow> (Inr (), e)
      | Inl x \<Rightarrow> if x = BrokerError \<or> x = BrokerUnauthorized then (Inr (), e\<lparr>en_blind := True\<rparr>) else (Inl x, e))"

definition first_hash :: "string list \<Rightarrow> string option" where
  "first_hash hs = (case hs of [] \<Rightarrow> None | h # _ \<Rightarrow> Some h)"

definition resolve_hash :: "engine_env \<Rightarrow> engine \<Rightarrow> (exn + string option) \<times> engine" where
  "resolve_hash env e =
     (case ab_hashes (ee_broker env) of Inr hs \<Rightarrow> (Inr (first_hash hs), e)
      | Inl x \<Rightarrow> if x = BrokerUnauthorized then (Inr None, e\<lparr>en_blind := True\<rparr>)
                 else if x = BrokerError then (Inr None, e) else (Inl x, e))"

text \<open>A token was installed: \<open>blind\<close> follows from the read, not from the file.\<close>

definition on_token_installed :: "engine_env \<Rightarrow> instant \<Rightarrow> engine \<Rightarrow> (exn + unit) \<times> engine" where
  "on_token_installed env now e =
     (case open_broker env e of (Inl x, e1) \<Rightarrow> (Inl x, e1)
      | (Inr _, e1) \<Rightarrow>
          (case ab_hashes (ee_broker env) of
             Inl x \<Rightarrow> if x \<in> {BrokerError, BrokerUnauthorized, OSError} then (Inr (), e1\<lparr>en_blind := True\<rparr>) else (Inl x, e1)
           | Inr hs \<Rightarrow>
               (Inr (), refresh_window env (et_date (ee_zone env) now) now
                  (e1\<lparr>en_hash := first_hash hs, en_blind := False, en_read_ok := Some now, en_try := None\<rparr>))))"

lemma on_token_installed_blind:
  assumes "on_token_installed env now e = (Inr u, e')"
  shows "en_blind e' \<longleftrightarrow> (\<exists>x. ab_hashes (ee_broker env) = Inl x)"
    and "\<not> en_blind e' \<Longrightarrow> en_read_ok e' = Some now \<and> (en_fallback e' \<longleftrightarrow> (\<exists>x. ee_market env (et_date (ee_zone env) now) = Inl x))"
  using assms by (auto simp: on_token_installed_def refresh_window_def split: sum.splits prod.splits if_splits)

section \<open>An example\<close>

text \<open>An engine whose runner is always busy.\<close>

definition sample_engine :: engine where
  "sample_engine = \<lparr>en_sched = sample_scheduler, en_ledger = empty_ledger, en_tdir = sample_dir, en_window = None, en_fallback = False,
     en_try = None, en_hash = None, en_locks = {}, en_streaks = [], en_blind = False, en_read_ok = None, en_signature = None,
     en_trip_at = None, en_posts = [], en_pings = [], en_desk = empty_desk, en_active = None, en_runner_ok = None, en_backups = [],
     en_universe = empty_universe\<rparr>"

definition sample_engine_env :: engine_env where
  "sample_engine_env = \<lparr>ee_zone = \<lparr>utc_off = (\<lambda>_. 0), wall_off = (\<lambda>_. 0)\<rparr>, ee_rules = rules_yml, ee_reserve = 900,
     ee_broker = sample_account_broker, ee_market = (\<lambda>_. Inl BrokerError), ee_orders_from = 739800, ee_leveraged = {},
     ee_token = sample_token_env, ee_epoch = (\<lambda>_. 0), ee_expect = [],
     ee_runner = Some demo_env, ee_run = (\<lambda>_ e. (HttpReply 409 (Inl ''JSONDecodeError''), e)), ee_health = (\<lambda>_ e. (HttpFail ''ConnectError'', e)),
     ee_clock = (\<lambda>e. (combine 739870 (hm 13 50), e)), ee_sleep = (\<lambda>_ e. e), ee_desk = sample_config, ee_chat = (\<lambda>_. None),
     ee_reactions = (\<lambda>_. no_reactions), ee_desk_broker = sample_broker, ee_daily = sample_feed, ee_backup = (\<lambda>_. Inr ()), ee_open = Inr (),
     ee_directory = Unreachable, ee_quotes = (\<lambda>_. Inl BrokerError), ee_sha = id, ee_draw = (\<lambda>n k. k mod n)\<rparr>"

end
