(* ===== verification/TC_Jobs.thy ===== *)
theory TC_Jobs
  imports TC_State "HOL-Library.Char_ord" "HOL-Library.List_Lexorder"
begin

text \<open>
  The engine's other jobs (tc/main.py): the Claude jobs with what surrounds a dispatch, the two
  chains, the evening's bars and scores, the watch of the paper book, and the nightly backup; then
  the weekly sweep and scorecard; then the table that executes a job by its name.
\<close>

section \<open>A Claude job\<close>

definition ensure_paper_book :: "engine_env \<Rightarrow> instant \<Rightarrow> engine \<Rightarrow> engine" where
  "ensure_paper_book env now e =
     (case latest_account (en_ledger e) of None \<Rightarrow> e
      | Some acct \<Rightarrow> e\<lparr>en_desk := snd (ensure_book (en_desk e) (et_date (ee_zone env) now) (ac_value acct))\<rparr>)"

text \<open>
  The \<open>finally\<close> of the PM's run: its proposals are posted, whatever became of the run; a failure
  to post is raised only when the run itself raised nothing.
\<close>

definition post_after :: "engine_env \<Rightarrow> exn + verdict \<times> dict \<Rightarrow> engine \<Rightarrow> (exn + verdict \<times> dict) \<times> engine" where
  "post_after env res e =
     (let (now, e1) = ee_clock env e in
      case post_proposals (ee_zone env) (ee_chat env) (ee_rules env) (ee_desk env) now (en_window e1) (en_desk e1) of
        Inl x \<Rightarrow>
          let e2 = e1\<lparr>en_desk := post_left (ee_zone env) (ee_chat env) (ee_rules env) (ee_desk env) now (en_window e1) (en_desk e1)\<rparr> in
          (case res of Inl y \<Rightarrow> (Inl y, e2) | Inr _ \<Rightarrow> (Inl x, e2))
      | Inr (ids, st) \<Rightarrow>
          (case res of Inl y \<Rightarrow> (Inl y, e1\<lparr>en_desk := st\<rparr>)
           | Inr (v, d) \<Rightarrow> (Inr (v, dict_merge d [(''proposals_posted'', JArr (map (\<lambda>n. JNum (of_int n)) ids))]), e1\<lparr>en_desk := st\<rparr>)))"

text \<open>The dispatch itself, under the job's name.\<close>

definition dispatch_claude :: "engine_env \<Rightarrow> run_env \<Rightarrow> string \<Rightarrow> instant \<Rightarrow> bool \<Rightarrow> engine \<Rightarrow> (exn + verdict \<times> dict) \<times> engine" where
  "dispatch_claude env renv job now ign e =
     (let on_dispatch = (if job = ''pm'' then Some (do_w (ensure_paper_book env now)) else None);
          (res, e1) = job_execute renv (engine_world env) job (Some now) ign on_dispatch (e\<lparr>en_active := Some job\<rparr>) in
      (res, e1\<lparr>en_active := None\<rparr>))"

definition job_claude :: "engine_env \<Rightarrow> string \<Rightarrow> instant \<Rightarrow> bool \<Rightarrow> engine \<Rightarrow> (exn + verdict \<times> dict) \<times> engine" where
  "job_claude env job now ign e =
     (case ee_runner env of
        None \<Rightarrow> (Inr (VNoop, [(''skipped'', JStr ''no runner configured'')]), e)
      | Some renv \<Rightarrow>
          if job \<in> SUMMARY_JOBS \<and> en_blind e then (Inr (VNoop, [(''skipped'', JStr ''blind'')]), post (NBlindRun job) e)
          else if job = ''pm'' then
            (case expire_stale_proposals (ee_zone env) (en_desk e) now of
               Inl x \<Rightarrow> (Inl x, e)
             | Inr (_, st) \<Rightarrow>
                 (let (res, e1) = dispatch_claude env renv job now ign (e\<lparr>en_desk := st\<rparr>) in post_after env res e1))
          else dispatch_claude env renv job now ign e)"

section \<open>The chains\<close>

text \<open>A stored time of the job table, in Eastern time.\<close>

definition row_date :: "zone \<Rightarrow> job_run \<Rightarrow> date" where "row_date z r = date_of (to_et z (jr_started r))"

definition bars_stale :: "engine_env \<Rightarrow> instant \<Rightarrow> engine \<Rightarrow> bool" where
  "bars_stale env now e =
     (case find (\<lambda>r. row_date (ee_zone env) r = et_date (ee_zone env) now)
             (take 10 (filter (\<lambda>r. jr_job r = ''bars_refresh'') (rev (job_runs (en_ledger e))))) of
        None \<Rightarrow> False
      | Some r \<Rightarrow> jr_verdict r \<in> {VFailed, VMissed})"

definition chain_one :: "engine_env \<Rightarrow> bool \<Rightarrow> string \<Rightarrow> (string \<times> verdict) list \<times> engine \<Rightarrow> (string \<times> verdict) list \<times> engine" where
  "chain_one env ign job = (\<lambda>(results, e).
     let (started, e1) = ee_clock env e;
         (res, e2) = job_claude env job started ign e1;
         v = (case res of Inl _ \<Rightarrow> VFailed | Inr (v, _) \<Rightarrow> v);
         (ended, e3) = ee_clock env e2 in
     (AList.update job v results, e3\<lparr>en_ledger := record_job_run (en_ledger e3) job (utc started) (utc ended) v\<rparr>))"

definition chain_verdict :: "(string \<times> verdict) list \<Rightarrow> verdict" where
  "chain_verdict results =
     (let ran = filter (\<lambda>v. v \<noteq> VNoop \<and> v \<noteq> VMissed) (map snd results); failed = filter (\<lambda>v. v \<in> FAILED_VERDICTS) ran in
      if ran \<noteq> [] \<and> length failed = length ran then VFailed else if ran = [] then VMissed else VDone)"

definition job_desk_chain :: "engine_env \<Rightarrow> string \<Rightarrow> instant \<Rightarrow> bool \<Rightarrow> engine \<Rightarrow> (exn + verdict) \<times> engine" where
  "job_desk_chain env chain now ign e =
     (if ee_runner env = None then (Inr VNoop, e)
      else if en_blind e then (Inr VNoop, post (NChainBlind chain) e)
      else if chain = ''desk_evening'' \<and> bars_stale env now e then (Inr VNoop, post (NChainStale chain) e)
      else
        (case map_of DESK_CHAINS chain of
           None \<Rightarrow> (Inl (KeyError chain), e)
         | Some jobs \<Rightarrow>
             (let (results, e1) = fold (chain_one env ign) jobs ([], e) in
              (Inr (chain_verdict results),
               post (NChain chain results (map (\<lambda>a. (a, pitch_counts_since (en_desk e1) now a)) ANALYSTS) (et_date (ee_zone env) now)) e1))))"

section \<open>Bars, watch and backup\<close>

definition job_bars_refresh :: "engine_env \<Rightarrow> instant \<Rightarrow> engine \<Rightarrow> (exn + verdict) \<times> engine" where
  "job_bars_refresh env now e =
     (let symbols = sorted_list_of_set (bars_symbols (en_desk e) (ee_desk env) (carried_symbols (en_desk e))) in
      case refresh_bars (ee_daily env) (en_desk e) symbols (ee_desk env) (et_date (ee_zone env) now) of
        Inl x \<Rightarrow> (Inl x, e\<lparr>en_desk := refresh_left (ee_daily env) (en_desk e) symbols (ee_desk env) (et_date (ee_zone env) now)\<rparr>)
      | Inr (rep, st) \<Rightarrow>
          let e1 = e\<lparr>en_desk := st\<rparr> in
          if br_blind rep then (Inr VFailed, post (NBarsBlind (br_fetched rep) (br_requested rep)) e1)
          else
            (case score st of
               Inl x \<Rightarrow> (Inl x, e1\<lparr>en_desk := score_left st\<rparr>)
             | Inr (srep, st2) \<Rightarrow>
                 let e2 = e1\<lparr>en_desk := st2\<rparr> in
                 (Inr VDone, if sr_stuck srep \<noteq> [] then post (NStuck (sr_stuck srep)) e2 else e2)))"

definition watch_env_of :: "engine_env \<Rightarrow> instant \<Rightarrow> watch_env" where
  "watch_env_of env now = \<lparr>we_zone = ee_zone env, we_broker = ee_desk_broker env, we_reactions = ee_reactions env,
     we_rules = ee_rules env, we_reserve = ee_reserve env, we_now = now\<rparr>"

definition job_desk_watch :: "engine_env \<Rightarrow> instant \<Rightarrow> engine \<Rightarrow> (exn + verdict) \<times> engine" where
  "job_desk_watch env now e =
     (case run_desk_watch (watch_env_of env now) (en_window e) (en_desk e) of
        Inl x \<Rightarrow> (Inl x, e\<lparr>en_desk := watch_left (watch_env_of env now) (en_window e) (en_desk e)\<rparr>)
      | Inr (rep, st) \<Rightarrow> (Inr (if wr_outside rep \<or> wr_blind rep then VNoop else VDone), e\<lparr>en_desk := st\<rparr>))"

definition BACKUPS_KEPT :: nat where "BACKUPS_KEPT = 14"

text \<open>\<open>glob("engine-*.db")\<close>.\<close>

definition backup_match :: "string \<Rightarrow> bool" where
  "backup_match nm \<longleftrightarrow> take 7 nm = ''engine-'' \<and> 10 \<le> length nm \<and> drop (length nm - 3) nm = ''.db''"

definition prune_backups :: "string list \<Rightarrow> nat \<Rightarrow> string list \<times> string list" where
  "prune_backups names keep =
     (let files = sort (filter backup_match names); stale = take (length files - keep) files in
      (stale, filter (\<lambda>nm. nm \<notin> set stale) names))"

definition backup_name :: "date \<Rightarrow> string" where "backup_name d = ''engine-'' @ isoformat d @ ''.db''"

definition job_backup :: "engine_env \<Rightarrow> instant \<Rightarrow> engine \<Rightarrow> (exn + verdict) \<times> engine" where
  "job_backup env now e =
     (let nm = backup_name (et_date (ee_zone env) now) in
      if nm \<in> set (en_backups e) then (Inr VNoop, e)
      else
        (case ee_backup env nm of
           Inl x \<Rightarrow> (Inl x, e)
         | Inr _ \<Rightarrow> (Inr VDone, e\<lparr>en_backups := snd (prune_backups (en_backups e @ [nm]) BACKUPS_KEPT)\<rparr>)))"

section \<open>The weekly jobs\<close>

definition universe_env_of :: "engine_env \<Rightarrow> universe_env" where
  "universe_env_of env = \<lparr>ue_zone = ee_zone env, ue_rules = ee_rules env, ue_sha = ee_sha env, ue_directory = ee_directory env,
     ue_quotes = ee_quotes env\<rparr>"

definition job_weekly_universe :: "engine_env \<Rightarrow> instant \<Rightarrow> engine \<Rightarrow> (exn + verdict) \<times> engine" where
  "job_weekly_universe env now e =
     (let (res, u) = run_weekly_universe (universe_env_of env) now (en_universe e); e1 = e\<lparr>en_universe := u\<rparr> in
      case res of
        Inr ct \<Rightarrow> (Inr VDone, post (NUniverse ct) e1)
      | Inl x \<Rightarrow> (case x of UniverseUnavailable r \<Rightarrow> (Inr VFailed, post (NUniverseFailed r) e1) | _ \<Rightarrow> (Inl x, e1)))"

definition job_scorecard_weekly :: "engine_env \<Rightarrow> instant \<Rightarrow> engine \<Rightarrow> (exn + verdict) \<times> engine" where
  "job_scorecard_weekly env now e =
     (case build_scorecard (ee_draw env) (en_desk e) (en_ledger e) (ee_rules env) (ee_desk env) (et_date (ee_zone env) now) of
        Inl x \<Rightarrow> (Inl x, e)
      | Inr sc \<Rightarrow> (Inr VDone, post (NCard (render_scorecard sc)) e))"

section \<open>The job table\<close>

definition CLAUDE_JOBS :: "string list" where
  "CLAUDE_JOBS = (case JOB_SPECS of Inl _ \<Rightarrow> [] | Inr specs \<Rightarrow> map fst specs)"

definition JOBS :: "string list" where
  "JOBS = [''tick'', ''session_close'', ''token_check'', ''expectations'', ''backup'', ''weekly_universe'',
     ''bars_refresh'', ''scorecard_weekly'', ''desk_watch'', ''desk_evening'', ''desk_preopen''] @ CLAUDE_JOBS"

definition drop_detail :: "(exn + verdict \<times> dict) \<times> engine \<Rightarrow> (exn + verdict) \<times> engine" where
  "drop_detail r = (case r of (Inl x, e) \<Rightarrow> (Inl x, e) | (Inr (v, _), e) \<Rightarrow> (Inr v, e))"

definition execute :: "engine_env \<Rightarrow> string \<Rightarrow> instant \<Rightarrow> bool \<Rightarrow> engine \<Rightarrow> (exn + verdict) \<times> engine" where
  "execute env job now ign e =
     (if job = ''tick'' then job_tick env now e
      else if job = ''session_close'' then job_session_close env now e
      else if job = ''token_check'' then job_token_check env now e
      else if job = ''expectations'' then job_expectations env now e
      else if job = ''backup'' then job_backup env now e
      else if job = ''weekly_universe'' then job_weekly_universe env now e
      else if job = ''bars_refresh'' then job_bars_refresh env now e
      else if job = ''scorecard_weekly'' then job_scorecard_weekly env now e
      else if job = ''desk_watch'' then job_desk_watch env now e
      else if map_of DESK_CHAINS job \<noteq> None then job_desk_chain env job now ign e
      else if job \<in> set CLAUDE_JOBS then drop_detail (job_claude env job now ign e)
      else (Inl ValueError, e))"

section \<open>Under its own name\<close>

text \<open>What serves the tools asks who is calling: the runner, the clock and the other tasks leave the name alone.\<close>

definition name_kept :: "engine_env \<Rightarrow> bool" where
  "name_kept env \<longleftrightarrow>
     (\<forall>q e. en_active (snd (ee_run env q e)) = en_active e) \<and> (\<forall>e. en_active (snd (ee_clock env e)) = en_active e) \<and>
     (\<forall>t e. en_active (ee_sleep env t e) = en_active e)"

definition same_under :: "engine_env \<Rightarrow> string \<Rightarrow> (run_request \<Rightarrow> engine \<Rightarrow> http_reply \<times> engine) \<Rightarrow> bool" where
  "same_under env job run' \<longleftrightarrow> (\<forall>q e. en_active e = Some job \<longrightarrow> run' q e = ee_run env q e)"

text \<open>The paper book starts when the PM's runner is first called.\<close>

abbreviation book_hook :: "engine_env \<Rightarrow> string \<Rightarrow> instant \<Rightarrow> (engine, unit) act option" where
  "book_hook env job now \<equiv> (if job = ''pm'' then Some (do_w (ensure_paper_book env now)) else None)"

lemma dispatch_claude_eq:
  "dispatch_claude env renv job now ign e =
     (fst (job_execute renv (engine_world env) job (Some now) ign (book_hook env job now) (e\<lparr>en_active := Some job\<rparr>)),
      (snd (job_execute renv (engine_world env) job (Some now) ign (book_hook env job now) (e\<lparr>en_active := Some job\<rparr>)))\<lparr>en_active := None\<rparr>)"
  by (simp only: dispatch_claude_def Let_def case_prod_beta)

lemma job_claude_ends:
  obtains (idle) "snd (job_claude env job now ign e) = e"
    | (blind) "snd (job_claude env job now ign e) = post (NBlindRun job) e"
    | (ran) renv where "snd (job_claude env job now ign e) = snd (dispatch_claude env renv job now ign e)"
    | (posted) renv st res e1 where "dispatch_claude env renv job now ign (e\<lparr>en_desk := st\<rparr>) = (res, e1)"
        "snd (job_claude env job now ign e) = snd (post_after env res e1)"
proof (cases "ee_runner env")
  case None
  then show ?thesis using idle by (simp add: job_claude_def)
next
  case r: (Some renv)
  show ?thesis
  proof (cases "job \<in> SUMMARY_JOBS \<and> en_blind e")
    case True
    then show ?thesis using r blind by (simp add: job_claude_def)
  next
    case nb: False
    show ?thesis
    proof (cases "job = ''pm''")
      case False
      then have "job_claude env job now ign e = dispatch_claude env renv job now ign e" using r nb by (auto simp: job_claude_def)
      then show ?thesis using ran by simp
    next
      case True
      show ?thesis
      proof (cases "expire_stale_proposals (ee_zone env) (en_desk e) now")
        case (Inl x)
        then have "job_claude env job now ign e = (Inl x, e)" using r nb True by (auto simp: job_claude_def)
        then show ?thesis using idle by simp
      next
        case (Inr y)
        obtain res e1 where d: "dispatch_claude env renv job now ign (e\<lparr>en_desk := snd y\<rparr>) = (res, e1)" by force
        then have "job_claude env job now ign e = post_after env res e1"
          using r nb True Inr by (auto simp: job_claude_def case_prod_beta)
        then show ?thesis using posted [OF d] by simp
      qed
    qed
  qed
qed

lemma post_after_end:
  "\<exists>st. snd (post_after env res e) = snd (ee_clock env e) \<or> snd (post_after env res e) = (snd (ee_clock env e))\<lparr>en_desk := st\<rparr>"
proof (cases "post_proposals (ee_zone env) (ee_chat env) (ee_rules env) (ee_desk env) (fst (ee_clock env e)) (en_window (snd (ee_clock env e))) (en_desk (snd (ee_clock env e)))")
  case (Inl x)
  then show ?thesis by (cases res) (auto simp: post_after_def case_prod_beta Let_def)
next
  case (Inr y)
  then show ?thesis by (cases res) (auto simp: post_after_def case_prod_beta Let_def)
qed

interpretation named: same_worlds "\<lambda>e. name_kept env \<and> same_under env job run' \<and> en_active e = Some job"
  "engine_world env" "engine_world (env\<lparr>ee_run := run'\<rparr>)" for env job run'
  by unfold_locales (auto simp: engine_world_def post_def name_kept_def same_under_def)

lemma run_swap:
  "ee_zone (env\<lparr>ee_run := run'\<rparr>) = ee_zone env" "ee_runner (env\<lparr>ee_run := run'\<rparr>) = ee_runner env"
  by simp_all

lemma hook_same: "book_hook (env\<lparr>ee_run := run'\<rparr>) job now = book_hook env job now"
  unfolding ensure_paper_book_def [abs_def] run_swap by (rule refl)

lemma dispatch_named:
  assumes "name_kept env" and "same_under env job run'"
  shows "dispatch_claude (env\<lparr>ee_run := run'\<rparr>) renv job now ign e = dispatch_claude env renv job now ign e"
proof -
  have od: "case book_hook env job now of None \<Rightarrow> True | Some a \<Rightarrow> named.agree env job run' a a"
    by (simp add: named.agree_def do_w_def ensure_paper_book_def split: option.split)
  show ?thesis unfolding dispatch_claude_eq hook_same
    using named.execute_agree [OF od, of "e\<lparr>en_active := Some job\<rparr>" renv job "Some now" ign] assms by simp
qed

text \<open>C34: the tools know who is calling. A Claude job calls the runner only while the engine says that this job is
  the one running: what the runner would do under any other name, or under none, makes no
  difference to the outcome, the retry and the wait for a busy runner included. Afterwards no job
  is named as running, also when the run raised.\<close>

theorem claude_under_own_name:
  assumes "name_kept env" and "same_under env job run'"
  shows "job_claude (env\<lparr>ee_run := run'\<rparr>) job now ign e = job_claude env job now ign e \<and>
    (en_active e = None \<longrightarrow> en_active (snd (job_claude env job now ign e)) = None)"
proof -
  have post: "post_after (env\<lparr>ee_run := run'\<rparr>) res e = post_after env res e" for res e by (simp add: post_after_def Let_def split: prod.split sum.split)
  have none: "en_active (snd (dispatch_claude env renv job now ign e)) = None" for renv e
    by (simp add: dispatch_claude_eq)
  have keep: "en_active (snd (post_after env res e)) = en_active e" for res e
  proof -
    have "en_active (snd (ee_clock env e)) = en_active e" using assms(1) by (simp add: name_kept_def)
    then show ?thesis using post_after_end [of env res e] by auto
  qed
  have "en_active e = None \<longrightarrow> en_active (snd (job_claude env job now ign e)) = None"
  proof (cases rule: job_claude_ends [of env job now ign e])
    case (ran renv)
    then show ?thesis using none by simp
  next
    case (posted renv st res e1)
    then show ?thesis using none [of renv "e\<lparr>en_desk := st\<rparr>"] keep by simp
  qed (simp_all add: post_def)
  moreover have "job_claude (env\<lparr>ee_run := run'\<rparr>) job now ign e = job_claude env job now ign e"
    unfolding job_claude_def dispatch_named [OF assms] post run_swap by (rule refl)
  ultimately show ?thesis by blast
qed

section \<open>A chain leaves one row per job\<close>

text \<open>The runner's tools, the clock and the other tasks leave the job table alone.\<close>

definition rows_kept :: "engine_env \<Rightarrow> bool" where
  "rows_kept env \<longleftrightarrow>
     (\<forall>q e. job_runs (en_ledger (snd (ee_run env q e))) = job_runs (en_ledger e)) \<and>
     (\<forall>e. job_runs (en_ledger (snd (ee_clock env e))) = job_runs (en_ledger e)) \<and>
     (\<forall>t e. job_runs (en_ledger (ee_sleep env t e)) = job_runs (en_ledger e))"

interpretation same_rows: world_relation "\<lambda>e e'. rows_kept env \<longrightarrow> job_runs (en_ledger e') = job_runs (en_ledger e)" "engine_world env" for env
  by unfold_locales (auto simp: engine_world_def post_def rows_kept_def)

lemma active_ledger: "en_ledger (e\<lparr>en_active := a\<rparr>) = en_ledger e"
  by simp

lemma dispatch_rows:
  assumes "rows_kept env"
  shows "job_runs (en_ledger (snd (dispatch_claude env renv job now ign e))) = job_runs (en_ledger e)"
proof -
  have "case book_hook env job now of None \<Rightarrow> True | Some a \<Rightarrow> same_rows.kept env a"
    by (simp add: same_rows.kept_def do_w_def ensure_paper_book_def split: option.split)
  from mp [OF same_rows.execute_kept [OF this] assms]
  have "job_runs (en_ledger (snd (job_execute renv (engine_world env) job (Some now) ign (book_hook env job now) (e\<lparr>en_active := Some job\<rparr>)))) =
      job_runs (en_ledger (e\<lparr>en_active := Some job\<rparr>))" .
  then show ?thesis unfolding dispatch_claude_eq snd_conv active_ledger .
qed

lemma claude_rows:
  assumes "rows_kept env"
  shows "job_runs (en_ledger (snd (job_claude env job now ign e))) = job_runs (en_ledger e)"
proof (cases rule: job_claude_ends [of env job now ign e])
  case (ran renv)
  then show ?thesis using dispatch_rows [OF assms] by simp
next
  case (posted renv st res e1)
  have "job_runs (en_ledger (snd (ee_clock env e1))) = job_runs (en_ledger e1)" using assms by (simp add: rows_kept_def)
  then have "job_runs (en_ledger (snd (post_after env res e1))) = job_runs (en_ledger e1)" using post_after_end [of env res e1] by auto
  then show ?thesis using dispatch_rows [OF assms, of renv job now ign "e\<lparr>en_desk := st\<rparr>"] posted by simp
qed (simp_all add: post_def)

abbreviation row_of :: "job_run \<Rightarrow> string \<times> verdict" where "row_of r \<equiv> (jr_job r, jr_verdict r)"

lemma chain_one_row:
  assumes "rows_kept env" and "job \<notin> fst ` set results"
  shows "\<exists>v r. fst (chain_one env ign job (results, e)) = results @ [(job, v)] \<and> row_of r = (job, v) \<and> dt_tz (jr_started r) = TzFixed 0 \<and>
    job_runs (en_ledger (snd (chain_one env ign job (results, e)))) = job_runs (en_ledger e) @ [r]"
proof -
  obtain started e1 where c: "ee_clock env e = (started, e1)" by force
  obtain res e2 where j: "job_claude env job started ign e1 = (res, e2)" by force
  obtain ended e3 where c2: "ee_clock env e2 = (ended, e3)" by force
  have "job_runs (en_ledger e1) = job_runs (en_ledger e)" "job_runs (en_ledger e3) = job_runs (en_ledger e2)"
    using assms(1) c c2 unfolding rows_kept_def by (metis snd_conv)+
  moreover have "job_runs (en_ledger e2) = job_runs (en_ledger e1)" using claude_rows [OF assms(1), of job started ign e1] j by simp
  moreover have "AList.update job v results = results @ [(job, v)]" for v
    using assms(2) by (induction results) auto
  ultimately show ?thesis by (simp add: chain_one_def c j c2 Let_def record_job_run_def utc_def)
qed

lemma chain_rows:
  assumes "rows_kept env" and "distinct (map fst results @ jobs)"
  shows "\<exists>rows. map row_of rows = drop (length results) (fst (fold (chain_one env ign) jobs (results, e))) \<and>
    map jr_job rows = jobs \<and> list_all (\<lambda>r. dt_tz (jr_started r) = TzFixed 0) rows \<and>
    take (length results) (fst (fold (chain_one env ign) jobs (results, e))) = results \<and>
    job_runs (en_ledger (snd (fold (chain_one env ign) jobs (results, e)))) = job_runs (en_ledger e) @ rows"
  using assms(2)
proof (induction jobs arbitrary: results e)
  case (Cons job jobs)
  have "job \<notin> fst ` set results" using Cons.prems by auto
  from chain_one_row [OF assms(1) this] obtain v r where o:
    "fst (chain_one env ign job (results, e)) = results @ [(job, v)]" "row_of r = (job, v)" "dt_tz (jr_started r) = TzFixed 0"
    "job_runs (en_ledger (snd (chain_one env ign job (results, e)))) = job_runs (en_ledger e) @ [r]" by blast
  obtain e1 where e1: "chain_one env ign job (results, e) = (results @ [(job, v)], e1)" using o(1) by (metis prod.collapse)
  let ?F = "fold (chain_one env ign) jobs (results @ [(job, v)], e1)"
  have "distinct (map fst (results @ [(job, v)]) @ jobs)" using Cons.prems by simp
  from Cons.IH [OF this, of e1] obtain rows where ih:
    "map row_of rows = drop (length (results @ [(job, v)])) (fst ?F)" "map jr_job rows = jobs"
    "list_all (\<lambda>r. dt_tz (jr_started r) = TzFixed 0) rows" "take (length (results @ [(job, v)])) (fst ?F) = results @ [(job, v)]"
    "job_runs (en_ledger (snd ?F)) = job_runs (en_ledger e1) @ rows" by blast
  have f: "fst ?F = results @ [(job, v)] @ map row_of rows" using ih(1,4) by (metis append_assoc append_take_drop_id)
  show ?case
    by (rule exI [of _ "r # rows"]) (use o e1 ih(2,3,5) f in \<open>simp add: e1\<close>)
qed simp

text \<open>Whether the chain runs, and its verdict.\<close>

definition chain_starts :: "engine_env \<Rightarrow> string \<Rightarrow> instant \<Rightarrow> engine \<Rightarrow> bool" where
  "chain_starts env chain now e \<longleftrightarrow> ee_runner env \<noteq> None \<and> \<not> en_blind e \<and> \<not> (chain = ''desk_evening'' \<and> bars_stale env now e)"

lemma chain_verdict_iff:
  "(chain_verdict results = VFailed \<longleftrightarrow> (\<exists>x \<in> set results. snd x \<noteq> VNoop \<and> snd x \<noteq> VMissed) \<and>
      (\<forall>x \<in> set results. snd x \<noteq> VNoop \<and> snd x \<noteq> VMissed \<longrightarrow> snd x \<in> FAILED_VERDICTS)) \<and>
   (chain_verdict results = VMissed \<longleftrightarrow> (\<forall>x \<in> set results. snd x = VNoop \<or> snd x = VMissed)) \<and>
   chain_verdict results \<in> {VFailed, VMissed, VDone}"
proof -
  define ran where "ran = filter (\<lambda>v. v \<noteq> VNoop \<and> v \<noteq> VMissed) (map snd results)"
  have all: "length (filter P xs) = length xs \<longleftrightarrow> (\<forall>x \<in> set xs. P x)" for P and xs :: "verdict list"
    by (metis filter_id_conv length_filter_less less_irrefl filter_True)
  have v: "chain_verdict results = (if ran \<noteq> [] \<and> (\<forall>v \<in> set ran. v \<in> FAILED_VERDICTS) then VFailed else if ran = [] then VMissed else VDone)"
    unfolding chain_verdict_def ran_def [symmetric] Let_def all by (rule refl)
  have "ran = [] \<longleftrightarrow> (\<forall>x \<in> set results. snd x = VNoop \<or> snd x = VMissed)" by (auto simp: ran_def filter_empty_conv)
  moreover have "(\<forall>v \<in> set ran. v \<in> FAILED_VERDICTS) \<longleftrightarrow>
      (\<forall>x \<in> set results. snd x \<noteq> VNoop \<and> snd x \<noteq> VMissed \<longrightarrow> snd x \<in> FAILED_VERDICTS)"
    by (auto simp: ran_def)
  ultimately show ?thesis unfolding v by auto
qed

lemma chains_distinct: "map_of DESK_CHAINS chain = Some jobs \<Longrightarrow> distinct jobs"
  by (auto simp: DESK_CHAINS_def split: if_splits)

text \<open>C33: what a chain leaves in the job table. A chain that is held back (no runner, a blind broker, or for the
  evening chain bars that failed or were missed today) leaves no row and is a \<open>noop\<close>. One that
  starts leaves exactly one row per job of the chain, in the chain's order, whatever the jobs did,
  raises included, each under the clock's time (so never in place of a scheduled fire's row); and
  it is \<open>failed\<close> exactly when some job ran and all that ran failed, \<open>missed\<close> exactly when none ran.\<close>

theorem chain_leaves_rows:
  assumes "map_of DESK_CHAINS chain = Some jobs" and "rows_kept env" and "job_desk_chain env chain now ign e = (res, e')"
  shows "if chain_starts env chain now e
    then \<exists>rows v. job_runs (en_ledger e') = job_runs (en_ledger e) @ rows \<and> map jr_job rows = jobs \<and>
        list_all (\<lambda>r. dt_tz (jr_started r) = TzFixed 0) rows \<and> res = Inr v \<and>
        (v = VFailed \<longleftrightarrow> (\<exists>r \<in> set rows. jr_verdict r \<notin> {VNoop, VMissed}) \<and>
           (\<forall>r \<in> set rows. jr_verdict r \<in> {VNoop, VMissed} \<or> jr_verdict r \<in> FAILED_VERDICTS)) \<and>
        (v = VMissed \<longleftrightarrow> (\<forall>r \<in> set rows. jr_verdict r \<in> {VNoop, VMissed})) \<and> v \<in> {VFailed, VMissed, VDone}
    else res = Inr VNoop \<and> job_runs (en_ledger e') = job_runs (en_ledger e)"
proof (cases "chain_starts env chain now e")
  case False
  then have "res = Inr VNoop \<and> job_runs (en_ledger e') = job_runs (en_ledger e)"
    using assms(3) by (auto simp: job_desk_chain_def chain_starts_def post_def split: if_splits)
  then show ?thesis using False by simp
next
  case True
  obtain results e1 where f: "fold (chain_one env ign) jobs ([], e) = (results, e1)" by force
  have "distinct (map fst ([] :: (string \<times> verdict) list) @ jobs)" using chains_distinct [OF assms(1)] by simp
  from chain_rows [OF assms(2) this, of ign e] obtain rows where r: "map row_of rows = results" "map jr_job rows = jobs"
    "list_all (\<lambda>r. dt_tz (jr_started r) = TzFixed 0) rows" "job_runs (en_ledger e1) = job_runs (en_ledger e) @ rows"
    unfolding f by auto
  have "res = Inr (chain_verdict results)" "job_runs (en_ledger e') = job_runs (en_ledger e1)"
    using True assms(1,3) f by (auto simp: job_desk_chain_def chain_starts_def post_def Let_def)
  moreover note chain_verdict_iff [of results, folded r(1)]
  ultimately have "job_runs (en_ledger e') = job_runs (en_ledger e) @ rows \<and> map jr_job rows = jobs \<and>
        list_all (\<lambda>r. dt_tz (jr_started r) = TzFixed 0) rows \<and> res = Inr (chain_verdict results) \<and>
        (chain_verdict results = VFailed \<longleftrightarrow> (\<exists>r \<in> set rows. jr_verdict r \<notin> {VNoop, VMissed}) \<and>
           (\<forall>r \<in> set rows. jr_verdict r \<in> {VNoop, VMissed} \<or> jr_verdict r \<in> FAILED_VERDICTS)) \<and>
        (chain_verdict results = VMissed \<longleftrightarrow> (\<forall>r \<in> set rows. jr_verdict r \<in> {VNoop, VMissed})) \<and> chain_verdict results \<in> {VFailed, VMissed, VDone}"
    using r(2,3,4) by (auto simp: r(1)[symmetric])
  then show ?thesis using True by auto
qed

section \<open>Backups\<close>

lemma take_sorted_le: "sorted xs \<Longrightarrow> x \<in> set (take n xs) \<Longrightarrow> y \<in> set (drop n xs) \<Longrightarrow> x \<le> y"
  by (metis append_take_drop_id sorted_append)

lemma prune_backups_facts:
  assumes "prune_backups names keep = (gone, left)" and "distinct names"
  shows "length (filter backup_match left) = min keep (length (filter backup_match names)) \<and>
    set left = set names - set gone \<and> (\<forall>a \<in> set gone. a \<in> set names \<and> backup_match a) \<and>
    (\<forall>a \<in> set gone. \<forall>b \<in> set (filter backup_match left). a < b) \<and>
    (gone \<noteq> [] \<longrightarrow> length (filter backup_match left) = keep)"
proof -
  define files where "files = sort (filter backup_match names)"
  define k where "k = length files - keep"
  have gone: "gone = take k files" and left: "left = filter (\<lambda>nm. nm \<notin> set gone) names"
    using assms(1) by (auto simp: prune_backups_def Let_def files_def k_def)
  have sd: "sorted files" "distinct files" "set files = set (filter backup_match names)" "length files = length (filter backup_match names)"
    using assms(2) by (simp_all add: files_def)
  have sub: "set gone \<subseteq> set files" unfolding gone by (rule set_take_subset)
  have "set (filter backup_match left) = set files - set gone" using sd(3) by (auto simp: left)
  also have "\<dots> = set (drop k files)"
  proof -
    have d: "distinct (take k files @ drop k files)" and u: "set files = set (take k files) \<union> set (drop k files)"
      using sd(2) by (simp_all del: set_append flip: set_append)
    have "set (take k files) \<inter> set (drop k files) = {}" using d by (simp only: distinct_append)
    then show ?thesis unfolding gone u by blast
  qed
  finally have eq: "set (filter backup_match left) = set (drop k files)" .
  have "distinct (filter backup_match left)" using assms(2) by (simp add: left)
  then have "length (filter backup_match left) = length (drop k files)"
    using eq sd(2) by (metis distinct_card distinct_drop)
  then have len: "length (filter backup_match left) = min keep (length (filter backup_match names))" using sd(4) by (simp add: k_def)
  have "a < b" if "a \<in> set gone" "b \<in> set (filter backup_match left)" for a b
  proof -
    have "a \<le> b" using take_sorted_le [OF sd(1)] that eq gone by metis
    moreover have "a \<noteq> b" using that by (auto simp: left)
    ultimately show ?thesis by simp
  qed
  moreover have "length (filter backup_match left) = keep" if "gone \<noteq> []"
  proof -
    have "keep \<le> length files" using that unfolding gone k_def by (cases "length files \<le> keep") auto
    then show ?thesis using len sd(4) by simp
  qed
  ultimately show ?thesis using len sub sd(3) by (auto simp: left)
qed

text \<open>The nightly backup. On a day that has its backup already, or when the copy fails, the directory is as it
  was. Otherwise it has today's copy, unless fourteen newer names are there; at most fourteen
  backups are left, a backup is deleted only if every backup kept has a greater name (the names
  are dates, so it is the oldest that go), and no other file is touched.\<close>

theorem backup_keeps_newest:
  assumes "job_backup env now e = (res, e')" and "distinct (en_backups e)"
  shows "(res \<noteq> Inr VDone \<longrightarrow> e' = e) \<and>
    (res = Inr VDone \<longrightarrow>
       length (filter backup_match (en_backups e')) \<le> BACKUPS_KEPT \<and>
       set (en_backups e') \<subseteq> insert (backup_name (et_date (ee_zone env) now)) (set (en_backups e)) \<and>
       (\<forall>a \<in> insert (backup_name (et_date (ee_zone env) now)) (set (en_backups e)) - set (en_backups e').
          backup_match a \<and> (\<forall>b \<in> set (en_backups e'). backup_match b \<longrightarrow> a < b) \<and> length (filter backup_match (en_backups e')) = BACKUPS_KEPT))"
proof (cases "res = Inr VDone")
  case False
  then show ?thesis using assms(1) by (auto simp: job_backup_def Let_def split: if_splits sum.splits)
next
  case True
  let ?nm = "backup_name (et_date (ee_zone env) now)"
  obtain gone left where p: "prune_backups (en_backups e @ [?nm]) BACKUPS_KEPT = (gone, left)" by force
  have new: "?nm \<notin> set (en_backups e)" and left: "en_backups e' = left"
    using assms(1) True p by (auto simp: job_backup_def Let_def split: if_splits sum.splits)
  have "distinct (en_backups e @ [?nm])" using assms(2) new by simp
  note f = prune_backups_facts [OF p this]
  have "length (filter backup_match left) = BACKUPS_KEPT" if "gone \<noteq> []" using that f by blast
  moreover have "gone \<noteq> []" if "x \<in> set gone" for x using that by auto
  moreover have "x \<in> set gone" if "x \<in> insert ?nm (set (en_backups e)) - set left" for x using that f by auto
  moreover have "length (filter backup_match left) \<le> BACKUPS_KEPT" "set left \<subseteq> insert ?nm (set (en_backups e))" using f by auto
  moreover have "backup_match x \<and> (\<forall>b \<in> set left. backup_match b \<longrightarrow> x < b)" if "x \<in> set gone" for x using that f by auto
  ultimately show ?thesis using True unfolding left by blast
qed

section \<open>Witnesses\<close>

theorem claude_under_own_name_witness:
  "job_claude (sample_engine_env\<lparr>ee_run := (\<lambda>q e. if en_active e = Some ''analyst_news'' then ee_run sample_engine_env q e
       else (HttpFail ''ReadError'', e\<lparr>en_blind := True\<rparr>))\<rparr>) ''analyst_news'' 0 True sample_engine =
     job_claude sample_engine_env ''analyst_news'' 0 True sample_engine \<and>
   en_active (snd (job_claude sample_engine_env ''analyst_news'' 0 True sample_engine)) = None"
proof -
  have k: "name_kept sample_engine_env" by (simp add: name_kept_def sample_engine_env_def)
  have s: "same_under sample_engine_env ''analyst_news'' (\<lambda>q e. if en_active e = Some ''analyst_news'' then ee_run sample_engine_env q e
       else (HttpFail ''ReadError'', e\<lparr>en_blind := True\<rparr>))" by (simp add: same_under_def)
  have a: "en_active sample_engine = None" by (simp add: sample_engine_def)
  note t = claude_under_own_name [OF k s, of 0 True sample_engine]
  show ?thesis using conjunct1 [OF t] mp [OF conjunct2 [OF t] a] by (rule conjI)
qed

text \<open>The pre-open chain, started long after its window: both jobs have a row, and the chain is missed.\<close>

theorem chain_leaves_rows_witness:
  "\<exists>res e' rows. job_desk_chain sample_engine_env ''desk_preopen'' 0 False sample_engine = (res, e') \<and>
     job_runs (en_ledger e') = job_runs (en_ledger sample_engine) @ rows \<and> map jr_job rows = [''preopen_news'', ''preopen_earnings'']"
proof -
  obtain res e' where r: "job_desk_chain sample_engine_env ''desk_preopen'' 0 False sample_engine = (res, e')" by force
  have c: "map_of DESK_CHAINS ''desk_preopen'' = Some [''preopen_news'', ''preopen_earnings'']" by (simp add: DESK_CHAINS_def)
  have k: "rows_kept sample_engine_env" by (simp add: rows_kept_def sample_engine_env_def)
  have s: "chain_starts sample_engine_env ''desk_preopen'' 0 sample_engine"
    by (simp add: chain_starts_def sample_engine_env_def sample_engine_def)
  have "\<exists>rows. job_runs (en_ledger e') = job_runs (en_ledger sample_engine) @ rows \<and> map jr_job rows = [''preopen_news'', ''preopen_earnings'']"
    using chain_leaves_rows [OF c k r] unfolding if_P [OF s] by (elim exE conjE) (rule exI, rule conjI, assumption, assumption)
  then show ?thesis using r by (elim exE) (rule exI, rule exI, rule exI, rule conjI)
qed

definition many_backups :: "string list" where
  "many_backups = map (\<lambda>n. ''engine-2026-08-'' @ pad 2 (int n) @ ''.db'') [10..<24] @ [''notes.txt'']"

theorem backup_keeps_newest_witness:
  "\<exists>e'. job_backup sample_engine_env (combine 739870 0) (sample_engine\<lparr>en_backups := many_backups\<rparr>) = (Inr VDone, e') \<and>
     length (filter backup_match (en_backups e')) = 14 \<and> ''engine-2026-08-10.db'' \<notin> set (en_backups e') \<and> ''notes.txt'' \<in> set (en_backups e')"
proof -
  let ?e = "sample_engine\<lparr>en_backups := many_backups\<rparr>"
  have name: "backup_name (et_date (ee_zone sample_engine_env) (combine 739870 0)) = ''engine-2026-09-11.db''"
    by (simp add: sample_engine_env_def et_date_def et_wall_def DAY_US_def) code_simp
  obtain e' where b: "job_backup sample_engine_env (combine 739870 0) ?e = (Inr VDone, e')"
    "en_backups e' = snd (prune_backups (many_backups @ [''engine-2026-09-11.db'']) BACKUPS_KEPT)"
  proof -
    have "''engine-2026-09-11.db'' \<notin> set many_backups" by code_simp
    then show thesis using that name by (simp add: job_backup_def sample_engine_env_def sample_engine_def Let_def)
  qed
  have d: "distinct (en_backups ?e)" by simp code_simp
  have v: "length (filter backup_match (en_backups e')) = 14 \<and> ''engine-2026-08-10.db'' \<notin> set (en_backups e') \<and> ''notes.txt'' \<in> set (en_backups e')"
    unfolding b(2) by code_simp
  have "length (filter backup_match (en_backups e')) \<le> BACKUPS_KEPT" using conjunct2 [OF backup_keeps_newest [OF b(1) d]] by simp
  then show ?thesis using b(1) v by blast
qed

end
