(* ===== verification/TC_Engine.thy ===== *)
theory TC_Engine
  imports TC_Jobs
begin

text \<open>
  The engine's loop (tc/main.py): the scheduler pass and the dispatch of a fire, over the jobs of
  TC_State and TC_Jobs. The clock readings of one operation are its arguments. A task is a fire
  waiting to run: the engine may run the tasks in any order, one at a time.
\<close>

section \<open>The pass\<close>

definition record_missed :: "fire \<Rightarrow> engine \<Rightarrow> engine" where
  "record_missed f e =
     (if job_run_exists (en_ledger e) (fi_job f) (et_dt (fi_at f)) then e
      else
        let e1 = e\<lparr>en_ledger := record_job_run (en_ledger e) (fi_job f) (et_dt (fi_at f)) (et_dt (fi_at f)) VMissed\<rparr> in
        if fi_job f \<in> SUMMARY_JOBS then post (NMissed (fi_job f) (fi_at f)) e1 else e1)"

definition pass_window :: "engine_env \<Rightarrow> instant \<Rightarrow> engine \<Rightarrow> engine" where
  "pass_window env now e =
     (let today = et_date (ee_zone env) now in
      if en_window e = None \<or> w_date (the (en_window e)) \<noteq> today
      then let e1 = refresh_window env today now e in e1\<lparr>en_sched := snd (prune today (en_sched e1))\<rparr>
      else if en_fallback e \<and> window_retry_due e now then refresh_window env today now e else e)"

definition engine_pass :: "engine_env \<Rightarrow> instant \<Rightarrow> engine \<Rightarrow> fire list \<times> engine" where
  "engine_pass env now e =
     (let e1 = pass_window env now e; now_et = et_wall (ee_zone env) now;
          (late, s1) = mark_missed (trading_day e1) now_et (en_sched e1);
          e2 = fold record_missed late (e1\<lparr>en_sched := s1\<rparr>);
          (fires, s2) = due (trading_day e2) now_et (en_sched e2) in
      (fires, e2\<lparr>en_sched := s2\<rparr>))"

section \<open>Dispatch\<close>

definition streak :: "engine \<Rightarrow> string \<Rightarrow> int" where
  "streak e job = (case map_of (en_streaks e) job of None \<Rightarrow> 0 | Some n \<Rightarrow> n)"

definition record_fire :: "string \<Rightarrow> datetime \<Rightarrow> instant \<Rightarrow> verdict \<Rightarrow> engine \<Rightarrow> engine" where
  "record_fire job fired ended v e = e\<lparr>en_ledger := record_job_run (en_ledger e) job fired (utc ended) v\<rparr>"

definition dispatch :: "engine_env \<Rightarrow> bool \<Rightarrow> string \<Rightarrow> datetime \<Rightarrow> instant \<Rightarrow> instant \<Rightarrow> engine \<Rightarrow> verdict \<times> engine" where
  "dispatch env ign job fired started ended e =
     (case execute env job started ign (ping_job job PStart e) of
        (Inl x, e1) \<Rightarrow>
          let e2 = record_fire job fired ended VFailed (e1\<lparr>en_streaks := AList.update job (streak e1 job + 1) (en_streaks e1)\<rparr>) in
          (VFailed, post (NFailed job x) (ping_job job (PFail VFailed) e2))
      | (Inr v, e1) \<Rightarrow>
          let failed = (v \<in> FAILED_VERDICTS);
              e2 = record_fire job fired ended v
                     (e1\<lparr>en_streaks := AList.update job (if failed then streak e1 job + 1 else 0) (en_streaks e1)\<rparr>) in
          (v, ping_job job (if failed then PFail v else POk v) e2))"

definition run_fire :: "engine_env \<Rightarrow> fire \<Rightarrow> instant \<Rightarrow> instant \<Rightarrow> engine \<Rightarrow> verdict \<times> engine" where
  "run_fire env f started ended e =
     (if fi_job f \<in> en_locks e then (VNoop, record_fire (fi_job f) (et_dt (fi_at f)) ended VNoop e)
      else dispatch env False (fi_job f) (et_dt (fi_at f)) started ended e)"

text \<open>\<open>tc run --once\<close>: one job outside the schedule, recorded under the clock's time.\<close>

definition run_job :: "engine_env \<Rightarrow> string \<Rightarrow> instant \<Rightarrow> bool \<Rightarrow> instant \<Rightarrow> instant \<Rightarrow> engine \<Rightarrow> (exn + verdict) \<times> engine" where
  "run_job env job fired ign started ended e =
     (if job \<notin> set JOBS then (Inl ValueError, e)
      else (let (v, e1) = dispatch env ign job (utc fired) started ended e in (Inr v, e1)))"

section \<open>Starting the engine\<close>

definition start_engine :: "engine_env \<Rightarrow> (string \<times> string) list \<Rightarrow> instant \<Rightarrow> engine \<Rightarrow> (exn + unit) \<times> engine" where
  "start_engine env schedule now e =
     (case map_e (\<lambda>(job, text). bind_e (parse_schedule text) (\<lambda>sp. Inr (job, sp))) schedule of
        Inl x \<Rightarrow> (Inl x, e)
      | Inr specs \<Rightarrow>
          let e1 = e\<lparr>en_sched := \<lparr>sd_specs = specs, sd_fired = {}, sd_missed = {}\<rparr>\<rparr> in
          if \<exists>s \<in> set specs. fst s \<notin> set JOBS then (Inl ValueError, e1)
          else
            (case open_broker env e1 of (Inl x, e2) \<Rightarrow> (Inl x, e2)
             | (Inr _, e2) \<Rightarrow>
                 (case resolve_hash env (refresh_window env (et_date (ee_zone env) now) now e2) of
                    (Inl x, e3) \<Rightarrow> (Inl x, e3)
                  | (Inr h, e3) \<Rightarrow> (Inr (), check_runner env (e3\<lparr>en_hash := h\<rparr>)))))"

text \<open>\<open>engine.http_bind\<close>: the text before and after the last colon; \<open>ipaddress\<close> is a parameter.\<close>

definition rpartition_colon :: "string \<Rightarrow> (string \<times> string) option" where
  "rpartition_colon s =
     (if CHR 0x3A \<in> set s
      then Some (rev (tl (dropWhile (\<lambda>c. c \<noteq> CHR 0x3A) (rev s))), rev (takeWhile (\<lambda>c. c \<noteq> CHR 0x3A) (rev s)))
      else None)"

definition strip_brackets :: "string \<Rightarrow> string" where
  "strip_brackets s =
     (let br = (\<lambda>c. c = CHR 0x5B \<or> c = CHR 0x5D) in rev (dropWhile br (rev (dropWhile br s))))"

definition is_loopback :: "(string \<Rightarrow> bool option) \<Rightarrow> string \<Rightarrow> bool" where
  "is_loopback ip host =
     (let h = strip_brackets host in h = ''localhost'' \<or> (case ip h of None \<Rightarrow> False | Some b \<Rightarrow> b))"

definition check_bind :: "(string \<Rightarrow> bool option) \<Rightarrow> string \<Rightarrow> exn + string \<times> int" where
  "check_bind ip bind =
     (case rpartition_colon bind of None \<Rightarrow> Inl ValueError
      | Some (host, port) \<Rightarrow>
          if host = [] \<or> port = [] \<or> \<not> list_all is_digit port then Inl ValueError
          else if \<not> is_loopback ip host then Inl ValueError else Inr (host, digits_val port))"

lemma rpartition_colon_eq: "rpartition_colon s = Some (h, p) \<longleftrightarrow> s = h @ [CHR 0x3A] @ p \<and> CHR 0x3A \<notin> set p"
proof
  assume "rpartition_colon s = Some (h, p)"
  then have c: "CHR 0x3A \<in> set s" and h: "h = rev (tl (dropWhile (\<lambda>c. c \<noteq> CHR 0x3A) (rev s)))"
    and p: "p = rev (takeWhile (\<lambda>c. c \<noteq> CHR 0x3A) (rev s))" by (auto simp: rpartition_colon_def split: if_splits)
  have "dropWhile (\<lambda>c. c \<noteq> CHR 0x3A) (rev s) \<noteq> []" using c by (auto simp: dropWhile_eq_Nil_conv)
  then obtain y t where yt: "dropWhile (\<lambda>c. c \<noteq> CHR 0x3A) (rev s) = y # t" and "\<not> y \<noteq> CHR 0x3A"
    using hd_dropWhile [of "\<lambda>c. c \<noteq> CHR 0x3A" "rev s"] by (cases "dropWhile (\<lambda>c. c \<noteq> CHR 0x3A) (rev s)") auto
  then have t: "dropWhile (\<lambda>c. c \<noteq> CHR 0x3A) (rev s) = CHR 0x3A # t" by simp
  have "rev s = takeWhile (\<lambda>c. c \<noteq> CHR 0x3A) (rev s) @ CHR 0x3A # t" using t by (metis takeWhile_dropWhile_id)
  then have "rev (rev s) = rev (takeWhile (\<lambda>c. c \<noteq> CHR 0x3A) (rev s) @ CHR 0x3A # t)" by (rule arg_cong)
  then have "s = rev t @ [CHR 0x3A] @ p" by (simp only: rev_rev_ident rev_append rev.simps p append_assoc)
  moreover have "CHR 0x3A \<notin> set p" unfolding p by (auto dest: set_takeWhileD)
  ultimately show "s = h @ [CHR 0x3A] @ p \<and> CHR 0x3A \<notin> set p" using h t by simp
next
  assume s: "s = h @ [CHR 0x3A] @ p \<and> CHR 0x3A \<notin> set p"
  have "dropWhile (\<lambda>c. c \<noteq> CHR 0x3A) (rev p @ CHR 0x3A # rev h) = CHR 0x3A # rev h"
    using s by (subst dropWhile_append2) auto
  moreover have "takeWhile (\<lambda>c. c \<noteq> CHR 0x3A) (rev p @ CHR 0x3A # rev h) = rev p"
    using s by (subst takeWhile_append2) auto
  ultimately show "rpartition_colon s = Some (h, p)" using s by (simp add: rpartition_colon_def)
qed

text \<open>The HTTP surface is bound to an address of the allowlist and to nothing else.\<close>

lemma check_bind_loopback:
  "check_bind ip s = Inr (host, port) \<longleftrightarrow>
     (\<exists>ds. s = host @ [CHR 0x3A] @ ds \<and> host \<noteq> [] \<and> ds \<noteq> [] \<and> list_all is_digit ds \<and> port = digits_val ds \<and>
        (strip_brackets host = ''localhost'' \<or> ip (strip_brackets host) = Some True))"
proof -
  have colon: "list_all is_digit ds \<Longrightarrow> CHR 0x3A \<notin> set ds" for ds
    by (auto simp: list_all_iff is_digit_def code_def)
  have ip: "(case x of None \<Rightarrow> False | Some b \<Rightarrow> b) \<longleftrightarrow> x = Some True" for x by (cases x) auto
  have "check_bind ip s = Inr (host, port) \<longleftrightarrow>
     (\<exists>ds. rpartition_colon s = Some (host, ds) \<and> host \<noteq> [] \<and> ds \<noteq> [] \<and> list_all is_digit ds \<and> port = digits_val ds \<and>
        (strip_brackets host = ''localhost'' \<or> ip (strip_brackets host) = Some True))"
    by (cases "rpartition_colon s") (auto simp: check_bind_def is_loopback_def Let_def ip split: if_splits)
  then show ?thesis unfolding rpartition_colon_eq using colon by blast
qed

section \<open>What a pass does\<close>

definition missed_row :: "fire \<Rightarrow> job_run" where
  "missed_row f = \<lparr>jr_job = fi_job f, jr_started = et_dt (fi_at f), jr_ended = et_dt (fi_at f), jr_verdict = VMissed\<rparr>"

abbreviation on_record :: "ledger \<Rightarrow> fire \<Rightarrow> bool" where
  "on_record L f \<equiv> job_run_exists L (fi_job f) (et_dt (fi_at f))"

lemma et_dt_inj [simp]: "et_dt a = et_dt b \<longleftrightarrow> a = b"
  by (simp add: et_dt_def)

lemma fire_eqI: "fi_job f = fi_job g \<Longrightarrow> fi_at f = fi_at g \<Longrightarrow> f = (g :: fire)"
  by simp

lemma missed_row_inj [simp]: "missed_row f = missed_row g \<longleftrightarrow> f = g"
  by (auto simp: missed_row_def dest: fire_eqI)

lemma record_missed_frame [simp]:
  "en_sched (record_missed f e) = en_sched e" "en_window (record_missed f e) = en_window e"
  by (simp_all add: record_missed_def Let_def post_def)

lemma record_missed_rows:
  "job_runs (en_ledger (record_missed f e)) = job_runs (en_ledger e) @ (if on_record (en_ledger e) f then [] else [missed_row f])"
  by (simp add: record_missed_def Let_def post_def record_job_run_def missed_row_def)

lemma fold_missed_frame [simp]:
  "en_sched (fold record_missed fs e) = en_sched e" "en_window (fold record_missed fs e) = en_window e"
  by (induction fs arbitrary: e) simp_all

lemma on_record_missed: "f \<noteq> g \<Longrightarrow> on_record (en_ledger (record_missed g e)) f = on_record (en_ledger e) f"
  by (auto simp: job_run_exists_def record_missed_rows missed_row_def dest: fire_eqI)

lemma fold_missed_rows:
  "distinct fs \<Longrightarrow> job_runs (en_ledger (fold record_missed fs e)) =
     job_runs (en_ledger e) @ map missed_row (filter (\<lambda>f. \<not> on_record (en_ledger e) f) fs)"
proof (induction fs arbitrary: e)
  case (Cons f fs)
  have "filter (\<lambda>g. \<not> on_record (en_ledger (record_missed f e)) g) fs = filter (\<lambda>g. \<not> on_record (en_ledger e) g) fs"
  proof (rule filter_cong [OF refl])
    fix g assume "g \<in> set fs"
    then have "g \<noteq> f" using Cons.prems by auto
    then show "(\<not> on_record (en_ledger (record_missed f e)) g) = (\<not> on_record (en_ledger e) g)" by (simp add: on_record_missed)
  qed
  then show ?case using Cons by (simp add: record_missed_rows)
qed simp

lemma trading_day_frame: "en_window e' = en_window e \<Longrightarrow> trading_day e' = trading_day e"
  by (simp add: trading_day_def fun_eq_iff)

lemma pass_window_frame [simp]: "en_ledger (pass_window env now e) = en_ledger e" "sd_specs (en_sched (pass_window env now e)) = sd_specs (en_sched e)"
  by (simp_all add: pass_window_def refresh_window_def prune_def Let_def split: sum.split)

lemma engine_pass_facts:
  fixes env now e
  defines "e1 \<equiv> pass_window env now e"
  defines "todays \<equiv> fires_of (trading_day e1) (en_sched e1) (et_date (ee_zone env) now)"
  assumes "engine_pass env now e = (fires, e')"
  obtains late where "distinct late" "distinct fires" "set late \<inter> set fires = {}"
    "set late = {f \<in> set todays. fi_at f + GRACE < et_wall (ee_zone env) now \<and> f \<notin> settled (en_sched e1)}"
    "set fires = {f \<in> set todays. fi_at f \<le> et_wall (ee_zone env) now \<and> et_wall (ee_zone env) now \<le> fi_at f + GRACE \<and> f \<notin> settled (en_sched e1)}"
    "job_runs (en_ledger e') = job_runs (en_ledger e) @ map missed_row (filter (\<lambda>f. \<not> on_record (en_ledger e) f) late)"
    "settled (en_sched e') = settled (en_sched e1) \<union> set late \<union> set fires"
    "sd_specs (en_sched e') = sd_specs (en_sched e)"
proof -
  obtain late s1 where l: "mark_missed (trading_day e1) (et_wall (ee_zone env) now) (en_sched e1) = (late, s1)" by force
  let ?e2 = "fold record_missed late (e1\<lparr>en_sched := s1\<rparr>)"
  have td: "trading_day ?e2 = trading_day e1" by (rule trading_day_frame) simp
  obtain s2 where d: "due (trading_day e1) (et_wall (ee_zone env) now) s1 = (fires, s2)" and e': "e' = ?e2\<lparr>en_sched := s2\<rparr>"
    using assms(3) l td by (auto simp: engine_pass_def Let_def simp flip: e1_def split: prod.splits)
  note lf = mark_missed_facts [OF l] and df = due_facts [OF d]
  have fo: "fires_of (trading_day e1) s1 = fires_of (trading_day e1) (en_sched e1)" by (simp add: fires_of_def lf(2) fun_eq_iff)
  have st: "settled s1 = settled (en_sched e1) \<union> set late" by (auto simp: settled_def lf(2))
  have set_late: "set late = {f \<in> set todays. fi_at f + GRACE < et_wall (ee_zone env) now \<and> f \<notin> settled (en_sched e1)}"
    by (simp add: lf(3) todays_def et_date_def)
  have set_fires: "set fires = {f \<in> set todays. fi_at f \<le> et_wall (ee_zone env) now \<and> et_wall (ee_zone env) now \<le> fi_at f + GRACE \<and> f \<notin> settled (en_sched e1)}"
    using set_late by (auto simp: df(3) todays_def et_date_def fo st)
  have "job_runs (en_ledger e') = job_runs (en_ledger e) @ map missed_row (filter (\<lambda>f. \<not> on_record (en_ledger e) f) late)"
    using fold_missed_rows [OF lf(1), of "e1\<lparr>en_sched := s1\<rparr>"] by (simp add: e' e1_def)
  moreover have "settled (en_sched e') = settled (en_sched e1) \<union> set late \<union> set fires" using st by (auto simp: e' df(2) settled_def)
  moreover have "set late \<inter> set fires = {}" using set_late set_fires by auto
  moreover have "sd_specs (en_sched e') = sd_specs (en_sched e)" by (simp add: e' df(2) lf(2) e1_def)
  ultimately show thesis using that lf(1) df(1) set_late set_fires by blast
qed

text \<open>What one pass of the engine does about the fires of the day. The fires it hands out are exactly those whose
  minute is running and which this process has not settled; the rows it writes are \<open>missed\<close> rows,
  one for each fire whose minute has passed, that this process has not settled and for which no
  process has left a row (so a restart never overwrites a day that ran); and afterwards every
  fire whose time has come is settled.\<close>

theorem engine_pass_accounts:
  assumes "engine_pass env now e = (fires, e')"
    and "f \<in> set (fires_of (trading_day (pass_window env now e)) (en_sched (pass_window env now e)) (et_date (ee_zone env) now))"
  shows "(f \<in> set fires \<longleftrightarrow> fi_at f \<le> et_wall (ee_zone env) now \<and> et_wall (ee_zone env) now \<le> fi_at f + GRACE \<and>
      f \<notin> settled (en_sched (pass_window env now e))) \<and>
    (\<exists>rows. job_runs (en_ledger e') = job_runs (en_ledger e) @ rows \<and>
      (missed_row f \<in> set rows \<longleftrightarrow> fi_at f + GRACE < et_wall (ee_zone env) now \<and> f \<notin> settled (en_sched (pass_window env now e)) \<and>
         \<not> on_record (en_ledger e) f)) \<and>
    (fi_at f \<le> et_wall (ee_zone env) now \<longrightarrow> f \<in> settled (en_sched e'))"
  using assms(1)
proof (rule engine_pass_facts)
  fix late
  assume l: "set late = {f \<in> set (fires_of (trading_day (pass_window env now e)) (en_sched (pass_window env now e)) (et_date (ee_zone env) now)).
        fi_at f + GRACE < et_wall (ee_zone env) now \<and> f \<notin> settled (en_sched (pass_window env now e))}"
    and d: "set fires = {f \<in> set (fires_of (trading_day (pass_window env now e)) (en_sched (pass_window env now e)) (et_date (ee_zone env) now)).
        fi_at f \<le> et_wall (ee_zone env) now \<and> et_wall (ee_zone env) now \<le> fi_at f + GRACE \<and> f \<notin> settled (en_sched (pass_window env now e))}"
    and r: "job_runs (en_ledger e') = job_runs (en_ledger e) @ map missed_row (filter (\<lambda>f. \<not> on_record (en_ledger e) f) late)"
    and s: "settled (en_sched e') = settled (en_sched (pass_window env now e)) \<union> set late \<union> set fires"
  have "missed_row f \<in> set (map missed_row (filter (\<lambda>f. \<not> on_record (en_ledger e) f) late)) \<longleftrightarrow> f \<in> set late \<and> \<not> on_record (en_ledger e) f"
    by auto
  then show ?thesis using l d r s assms(2) by auto
qed

text \<open>
  A restart forgets what was handed out: in the same minute the fire is handed out again, although
  the ledger has its row. Only the \<open>missed\<close> path looks at the ledger.
\<close>

lemma restart_fires_again:
  assumes "engine_pass env now e = (fires, e')" and "settled (en_sched (pass_window env now e)) = {}"
    and "f \<in> set (fires_of (trading_day (pass_window env now e)) (en_sched (pass_window env now e)) (et_date (ee_zone env) now))"
    and "fi_at f \<le> et_wall (ee_zone env) now" and "et_wall (ee_zone env) now \<le> fi_at f + GRACE" and "on_record (en_ledger e) f"
  shows "f \<in> set fires"
  using assms(1) by (rule engine_pass_facts) (use assms(2-) in simp)

section \<open>One row per fire\<close>

text \<open>
  What is needed of the outside (the runner and its tools, the clock, and the tasks that run while
  a job sleeps): it leaves the scheduler alone and adds no row of the job
  table under a scheduled Eastern time. The jobs of a chain have rows of their own, keyed by the
  clock (UTC).
\<close>

definition scheduled_rows :: "ledger \<Rightarrow> (string \<times> wall) list" where
  "scheduled_rows L = map (\<lambda>r. (jr_job r, dt_wall (jr_started r))) (filter (\<lambda>r. dt_tz (jr_started r) = TzET) (job_runs L))"

definition job_frame :: "engine \<Rightarrow> engine \<Rightarrow> bool" where
  "job_frame e e' \<longleftrightarrow> en_sched e' = en_sched e \<and> scheduled_rows (en_ledger e') = scheduled_rows (en_ledger e)"

definition other_ok :: "engine_env \<Rightarrow> bool" where
  "other_ok env \<longleftrightarrow>
     (\<forall>q e. job_frame e (snd (ee_run env q e))) \<and>
     (\<forall>url e. job_frame e (snd (ee_health env url e))) \<and> (\<forall>e. job_frame e (snd (ee_clock env e))) \<and> (\<forall>t e. job_frame e (ee_sleep env t e))"

lemma job_frame_refl [simp]: "job_frame e e"
  by (simp add: job_frame_def)

lemma job_frame_trans: "job_frame a b \<Longrightarrow> job_frame b c \<Longrightarrow> job_frame a c"
  by (simp add: job_frame_def)

text \<open>The dispatched jobs keep what the runner and the clock keep.\<close>

interpretation framed: world_relation "\<lambda>e e'. other_ok env \<longrightarrow> job_frame e e'" "engine_world env" for env
proof unfold_locales
  show "other_ok env \<longrightarrow> job_frame a c" if "other_ok env \<longrightarrow> job_frame a b" "other_ok env \<longrightarrow> job_frame b c" for a b c
    using that job_frame_trans by blast
  show "other_ok env \<longrightarrow> job_frame e (rw_post (engine_world env) n e)" for e n
    by (simp add: engine_world_def post_def job_frame_def)
qed (auto simp: engine_world_def other_ok_def)

lemma check_runner_frame: "other_ok env \<Longrightarrow> job_frame e (check_runner env e)"
proof (cases "ee_runner env")
  case (Some renv)
  assume ok: "other_ok env"
  obtain b e1 where h: "health renv (engine_world env) e = (b, e1)" by force
  have "job_frame e (snd (rw_get_health (engine_world env) url e))" for url e using ok by (simp add: other_ok_def engine_world_def)
  then have "job_frame e e1" using framed.health_kept [of env e renv] h ok by simp
  then show ?thesis using Some h by (simp add: check_runner_def job_frame_def)
qed (simp add: check_runner_def)

lemma run_tick_job_runs: "job_runs (snd (run_tick z b L r reserve h now window d lev tdb)) = job_runs L"
proof (cases "tick_read b L h now d")
  case (Inl x)
  then show ?thesis by (cases x) (simp_all add: run_tick_def append_tick_def Let_def)
next
  case (Inr x)
  obtain prior view L1 where x: "x = ((prior, view), L1)" by (metis surj_pair)
  have "job_runs L1 = job_runs L"
    using Inr x by (auto simp: tick_read_def reconcile_def err record_account_def record_orders_def)
  then show ?thesis using Inr x
    by (cases "tick_compute z b L1 r reserve now window lev tdb prior view") (simp_all add: run_tick_def append_tick_def)
qed

lemma job_tick_frame: "job_frame e (snd (job_tick env now e))"
proof -
  obtain res L where r: "run_tick (ee_zone env) (ee_broker env) (en_ledger e) (ee_rules env) (ee_reserve env) (en_hash e) now (en_window e)
      (ee_orders_from env) (ee_leveraged env) trading_days_between = (res, L)" by force
  have "job_runs L = job_runs (en_ledger e)" using run_tick_job_runs r by (metis snd_conv)
  then show ?thesis
    by (simp add: job_tick_def r job_frame_def scheduled_rows_def post_trips_def post_def Let_def split: sum.split)
qed

lemma close_session_job_runs: "close_session L r d v = Inr (row, L') \<Longrightarrow> job_runs L' = job_runs L"
  by (auto simp: close_session_def err Let_def write_session_status_def)

lemma job_session_close_frame: "job_frame e (snd (job_session_close env now e))"
proof -
  have hash: "engine_hash env e = Inr (h, e1) \<Longrightarrow> en_sched e1 = en_sched e \<and> en_ledger e1 = en_ledger e" for h e1
    by (cases "en_hash e"; cases "ab_hashes (ee_broker env)"; cases "projr (ab_hashes (ee_broker env))") (auto simp: engine_hash_def)
  have rec: "reconcile b L h t d = Inr (v, L') \<Longrightarrow> job_runs L' = job_runs L" for b L h t d v L'
    by (auto simp: reconcile_def err record_account_def record_orders_def)
  show ?thesis
    by (auto simp: job_session_close_def Let_def job_frame_def scheduled_rows_def post_def split: sum.split dest!: hash rec close_session_job_runs)
qed

lemma token_check_job_runs:
  assumes "token_check z env clock now L d = (rep, body, L', d')"
  shows "job_runs L' = job_runs L"
  using assms by (cases rule: token_check_cases)
    (simp_all add: ack_alerts_of_kind_def record_token_event_def stand_alert_def open_alert_def Let_def)

lemma job_token_check_frame: "other_ok env \<Longrightarrow> job_frame e (snd (job_token_check env now e))"
proof -
  assume ok: "other_ok env"
  obtain rep body L d where t: "token_check (ee_zone env) (ee_token env) (ee_epoch env now) now (en_ledger e) (en_tdir e) = (rep, body, L, d)"
    by (metis surj_pair)
  let ?e1 = "case body of None \<Rightarrow> e\<lparr>en_ledger := L, en_tdir := d\<rparr> | Some b \<Rightarrow> post (NToken b) (e\<lparr>en_ledger := L, en_tdir := d\<rparr>)"
  have "job_frame e ?e1" using token_check_job_runs [OF t] by (simp add: job_frame_def scheduled_rows_def post_def split: option.split)
  then show ?thesis using check_runner_frame [OF ok, of ?e1] job_frame_trans by (simp add: job_token_check_def t Let_def)
qed

lemma run_expectations_job_runs: "job_runs (snd (run_expectations L left specs d)) = job_runs L"
  by (induction specs arbitrary: L) (auto simp: split_def Let_def split: sum.split)

lemma job_expectations_frame: "job_frame e (snd (job_expectations env now e))"
proof -
  obtain left d where t: "days_until_dead (ee_token env) (ee_epoch env now) (en_tdir e) = (left, d)" by force
  obtain res L where r: "run_expectations (en_ledger e) left (ee_expect env) (et_date (ee_zone env) now) = (res, L)" by force
  have "job_runs L = job_runs (en_ledger e)" using run_expectations_job_runs r by (metis snd_conv)
  then show ?thesis by (simp add: job_expectations_def t r job_frame_def scheduled_rows_def post_def Let_def split: sum.split)
qed

lemma desk_frame [simp]: "job_frame e (e'\<lparr>en_desk := st\<rparr>) = job_frame e e'" "job_frame e (e'\<lparr>en_active := a\<rparr>) = job_frame e e'"
  "job_frame (e\<lparr>en_desk := st\<rparr>) e' = job_frame e e'" "job_frame (e\<lparr>en_active := a\<rparr>) e' = job_frame e e'"
  "job_frame e (post n e') = job_frame e e'"
  by (simp_all add: job_frame_def post_def)

lemma paper_book_frame [simp]: "job_frame e (ensure_paper_book env now e)"
  by (simp add: ensure_paper_book_def split: option.split)

lemma dispatch_claude_frame:
  assumes "other_ok env"
  shows "job_frame e (snd (dispatch_claude env renv job now ign e))"
proof -
  have "other_ok env \<longrightarrow> job_frame (e\<lparr>en_active := Some job\<rparr>) (snd (job_execute renv (engine_world env) job (Some now) ign
      (if job = ''pm'' then Some (do_w (ensure_paper_book env now)) else None) (e\<lparr>en_active := Some job\<rparr>)))"
    by (rule framed.execute_kept) (simp add: framed.kept_def do_w_def)
  then show ?thesis using assms by (simp add: dispatch_claude_def Let_def case_prod_beta)
qed

lemma post_after_frame:
  assumes "other_ok env"
  shows "job_frame e (snd (post_after env res e))"
proof -
  have "job_frame e (snd (ee_clock env e))" using assms by (simp add: other_ok_def)
  then show ?thesis by (auto simp: post_after_def Let_def split: prod.splits sum.splits)
qed

lemma job_claude_frame:
  assumes "other_ok env"
  shows "job_frame e (snd (job_claude env job now ign e))"
proof -
  have "job_frame e (snd (let (res, e1) = dispatch_claude env renv job now ign (e\<lparr>en_desk := st\<rparr>) in post_after env res e1))" for renv st
  proof -
    obtain res e1 where d: "dispatch_claude env renv job now ign (e\<lparr>en_desk := st\<rparr>) = (res, e1)" by force
    have "job_frame e e1" using dispatch_claude_frame [OF assms, of "e\<lparr>en_desk := st\<rparr>" renv job now ign] d by simp
    then show ?thesis using job_frame_trans post_after_frame [OF assms] d by auto
  qed
  then show ?thesis using dispatch_claude_frame [OF assms] by (auto simp: job_claude_def split: option.split sum.split)
qed

lemma chain_one_frame:
  assumes "other_ok env"
  shows "job_frame e (snd (chain_one env ign job (results, e)))"
proof -
  obtain started e1 where c: "ee_clock env e = (started, e1)" by force
  obtain res e2 where j: "job_claude env job started ign e1 = (res, e2)" by force
  obtain ended e3 where c2: "ee_clock env e2 = (ended, e3)" by force
  have "job_frame e e1" "job_frame e2 e3" using assms c c2 unfolding other_ok_def by (metis snd_conv)+
  moreover have "job_frame e1 e2" using job_claude_frame [OF assms, of e1 job started ign] j by simp
  ultimately have "job_frame e e3" using job_frame_trans by blast
  moreover have "scheduled_rows (record_job_run L job (utc a) (utc b) v) = scheduled_rows L" for L a b v
    by (simp add: scheduled_rows_def record_job_run_def utc_def)
  ultimately show ?thesis by (simp add: chain_one_def c j c2 job_frame_def Let_def)
qed

lemma chain_fold_frame:
  assumes "other_ok env"
  shows "job_frame e (snd (fold (chain_one env ign) jobs (results, e)))"
proof (induction jobs arbitrary: results e)
  case (Cons job jobs)
  obtain r1 e1 where c: "chain_one env ign job (results, e) = (r1, e1)" by force
  then have "job_frame e e1" using chain_one_frame [OF assms, of e ign job results] by simp
  then show ?case using Cons [where results = r1 and e = e1] c job_frame_trans by auto
qed simp

lemma job_desk_chain_frame: "other_ok env \<Longrightarrow> job_frame e (snd (job_desk_chain env chain now ign e))"
proof -
  assume ok: "other_ok env"
  have "job_frame e (snd (let (results, e1) = fold (chain_one env ign) jobs ([], e) in
      (Inr (chain_verdict results), post (n results e1) e1)))" for jobs n
    using chain_fold_frame [OF ok, of e ign jobs "[]"] by (simp add: split_def Let_def)
  then show ?thesis by (auto simp: job_desk_chain_def split_def Let_def split: option.split)
qed

lemma job_bars_frame: "job_frame e (snd (job_bars_refresh env now e))"
  by (simp add: job_bars_refresh_def Let_def split: sum.split prod.split)

lemma job_watch_frame: "job_frame e (snd (job_desk_watch env now e))"
  by (simp add: job_desk_watch_def split: sum.split prod.split)

lemma job_backup_frame: "job_frame e (snd (job_backup env now e))"
  by (simp add: job_backup_def Let_def job_frame_def split: sum.split)

lemma job_universe_frame: "job_frame e (snd (job_weekly_universe env now e))"
  by (simp add: job_weekly_universe_def Let_def job_frame_def post_def split: sum.split prod.split exn.split)

lemma job_scorecard_frame: "job_frame e (snd (job_scorecard_weekly env now e))"
  by (simp add: job_scorecard_weekly_def split: sum.split)

lemma execute_frame: "other_ok env \<Longrightarrow> job_frame e (snd (execute env job now ign e))"
proof -
  assume ok: "other_ok env"
  have "job_frame e (snd (drop_detail (job_claude env job now ign e)))"
    using job_claude_frame [OF ok, of e job now ign] by (auto simp: drop_detail_def split: prod.splits sum.splits)
  then show ?thesis
    by (simp add: execute_def job_tick_frame job_session_close_frame job_token_check_frame [OF ok] job_expectations_frame
        job_desk_chain_frame [OF ok] job_bars_frame job_watch_frame job_backup_frame job_universe_frame job_scorecard_frame)
qed

lemma run_fire_frame:
  assumes "run_fire env f started ended e = (v, e')" and "other_ok env"
  shows "en_sched e' = en_sched e \<and> scheduled_rows (en_ledger e') = scheduled_rows (en_ledger e) @ [(fi_job f, fi_at f)]"
proof -
  have rec: "scheduled_rows (record_job_run L j (et_dt t) x w) = scheduled_rows L @ [(j, t)]" for L j t x w
    by (simp add: scheduled_rows_def record_job_run_def et_dt_def)
  obtain res e1 where x: "execute env (fi_job f) started False (ping_job (fi_job f) PStart e) = (res, e1)" by force
  have "job_frame (ping_job (fi_job f) PStart e) e1" using execute_frame [OF assms(2)] x by (metis snd_conv)
  then have "en_sched e1 = en_sched e" "scheduled_rows (en_ledger e1) = scheduled_rows (en_ledger e)"
    by (simp_all add: job_frame_def ping_job_def)
  then show ?thesis using assms(1) x
    by (auto simp: run_fire_def dispatch_def record_fire_def rec ping_job_def post_def Let_def split: if_splits sum.splits)
qed

text \<open>
  The engine between two restarts: passes on days that never go back, tasks run in any order,
  locks taken and released. The state has the last day seen, the engine and the waiting tasks.
\<close>

inductive engine_step :: "engine_env \<Rightarrow> date \<times> engine \<times> fire list \<Rightarrow> date \<times> engine \<times> fire list \<Rightarrow> bool" for env where
  PassStep: "engine_pass env now e = (fires, e') \<Longrightarrow> lo \<le> et_date (ee_zone env) now \<Longrightarrow>
    engine_step env (lo, e, tasks) (et_date (ee_zone env) now, e', tasks @ fires)"
| RunStep: "f \<in> set tasks \<Longrightarrow> run_fire env f started ended e = (v, e') \<Longrightarrow> engine_step env (lo, e, tasks) (lo, e', remove1 f tasks)"
| LockStep: "engine_step env (lo, e, tasks) (lo, e\<lparr>en_locks := ls\<rparr>, tasks)"

abbreviation fire_key :: "fire \<Rightarrow> string \<times> wall" where "fire_key f \<equiv> (fi_job f, fi_at f)"

fun engine_inv :: "date \<times> engine \<times> fire list \<Rightarrow> bool" where
  "engine_inv (lo, e, tasks) \<longleftrightarrow>
     (\<forall>(j, sp) \<in> set (sd_specs (en_sched e)). spec_ok sp) \<and>
     distinct (scheduled_rows (en_ledger e) @ map fire_key tasks) \<and>
     (\<forall>k \<in> set (scheduled_rows (en_ledger e) @ map fire_key tasks). date_of (snd k) < lo \<or> k \<in> fire_key ` settled (en_sched e))"

fun engine_init :: "date \<times> engine \<times> fire list \<Rightarrow> bool" where
  "engine_init (lo, e, tasks) \<longleftrightarrow> tasks = [] \<and> distinct (scheduled_rows (en_ledger e)) \<and>
     (\<forall>k \<in> set (scheduled_rows (en_ledger e)). date_of (snd k) < lo) \<and> (\<forall>(j, sp) \<in> set (sd_specs (en_sched e)). spec_ok sp)"

lemma fire_key_inj: "inj fire_key"
  by (rule injI) simp

lemma pass_window_settled:
  "f \<in> settled (en_sched e) \<Longrightarrow> et_date (ee_zone env) now \<le> date_of (fi_at f) \<Longrightarrow> f \<in> settled (en_sched (pass_window env now e))"
  by (auto simp: pass_window_def refresh_window_def prune_def settled_def Let_def split: sum.split)

lemma distinct_swap: "distinct (a @ b @ c @ d) \<longleftrightarrow> distinct (a @ c @ b @ d)"
  by auto

lemma engine_step_inv:
  assumes "other_ok env" "engine_inv a" "engine_step env a b"
  shows "engine_inv b"
  using assms(3)
proof (cases rule: engine_step.cases)
  case (PassStep now e fires e' lo tasks)
  let ?e1 = "pass_window env now e" and ?d = "et_date (ee_zone env) now"
  let ?old = "scheduled_rows (en_ledger e) @ map fire_key tasks"
  have ok: "\<forall>(j, sp) \<in> set (sd_specs (en_sched e)). spec_ok sp"
    and dist: "distinct ?old" and old: "\<forall>k \<in> set ?old. date_of (snd k) < lo \<or> k \<in> fire_key ` settled (en_sched e)"
    using assms(2) PassStep(1) by simp_all
  from PassStep(3) show ?thesis
  proof (rule engine_pass_facts)
    fix late
    let ?today = "fires_of (trading_day ?e1) (en_sched ?e1) ?d"
    assume l: "distinct late" "set late = {f \<in> set ?today. fi_at f + GRACE < et_wall (ee_zone env) now \<and> f \<notin> settled (en_sched ?e1)}"
      and d: "distinct fires" "set fires = {f \<in> set ?today. fi_at f \<le> et_wall (ee_zone env) now \<and>
          et_wall (ee_zone env) now \<le> fi_at f + GRACE \<and> f \<notin> settled (en_sched ?e1)}"
      and disj: "set late \<inter> set fires = {}"
      and r: "job_runs (en_ledger e') = job_runs (en_ledger e) @ map missed_row (filter (\<lambda>f. \<not> on_record (en_ledger e) f) late)"
      and st: "settled (en_sched e') = settled (en_sched ?e1) \<union> set late \<union> set fires"
      and sp: "sd_specs (en_sched e') = sd_specs (en_sched e)"
    define new where "new = filter (\<lambda>f. \<not> on_record (en_ledger e) f) late @ fires"
    have new: "date_of (fi_at f) = ?d" "f \<notin> settled (en_sched ?e1)" if "f \<in> set new" for f
      using that l(2) d(2) ok fires_of_date [of "en_sched ?e1" f "trading_day ?e1" ?d] by (auto simp: new_def)
    have "distinct new" using l(1) d(1) disj by (auto simp: new_def)
    then have "distinct (map fire_key new)" by (simp add: distinct_map inj_on_def)
    moreover have "set ?old \<inter> fire_key ` set new = {}"
    proof (rule Int_emptyI)
      fix k assume k: "k \<in> set ?old" "k \<in> fire_key ` set new"
      then obtain f where f: "f \<in> set new" "k = fire_key f" by auto
      then have "f \<in> settled (en_sched e)" using old k(1) new(1) [OF f(1)] PassStep(4) fire_key_inj by (fastforce dest: injD)
      then show False using new [OF f(1)] pass_window_settled [of f e env now] by simp
    qed
    ultimately have dn: "distinct (?old @ map fire_key new)" using dist by auto
    have rows: "scheduled_rows (en_ledger e') = scheduled_rows (en_ledger e) @ map fire_key (filter (\<lambda>f. \<not> on_record (en_ledger e) f) late)"
      by (simp add: scheduled_rows_def r missed_row_def et_dt_def comp_def filter_map)
    have same: "distinct (scheduled_rows (en_ledger e') @ map fire_key (tasks @ fires))"
      "set (scheduled_rows (en_ledger e') @ map fire_key (tasks @ fires)) = set (?old @ map fire_key new)"
      using dn distinct_swap [of "scheduled_rows (en_ledger e)"] unfolding rows new_def map_append append_assoc
      by (simp_all only: set_append Un_ac)
    have "date_of (snd k) < ?d \<or> k \<in> fire_key ` settled (en_sched e')" if "k \<in> set (?old @ map fire_key new)" for k
    proof (cases "k \<in> set ?old")
      case True
      then consider "date_of (snd k) < lo" | f where "k = fire_key f" "f \<in> settled (en_sched e)" using old by auto
      then show ?thesis using PassStep(4) pass_window_settled [of _ e env now] st by cases (auto simp: not_less)
    next
      case False
      then show ?thesis using that st l(2) d(2) by (auto simp: new_def)
    qed
    then show ?thesis using ok sp same unfolding PassStep(2) engine_inv.simps by (simp only: same(2)) blast
  qed
next
  case (RunStep f tasks started ended e v e' lo)
  note fr = run_fire_frame [OF RunStep(4) assms(1)]
  have "distinct tasks" using assms(2) RunStep(1) by (auto simp: distinct_map)
  then have "set (remove1 f tasks) = set tasks - {f}" "distinct (remove1 f tasks)" by simp_all
  moreover have "fire_key f \<in> set (scheduled_rows (en_ledger e) @ map fire_key tasks)" using RunStep(3) by simp
  then have "date_of (fi_at f) < lo \<or> fire_key f \<in> fire_key ` settled (en_sched e)"
    using assms(2) unfolding RunStep(1) engine_inv.simps by (metis snd_conv)
  ultimately show ?thesis using assms(2) fr RunStep(3) fire_key_inj unfolding RunStep(1,2) by (auto simp: distinct_map inj_on_def)
next
  case (LockStep lo e tasks ls)
  then show ?thesis using assms(2) by simp
qed

interpretation engine_run: invariant engine_init "\<lambda>a b. other_ok env \<and> engine_step env a b" engine_inv for env
  by unfold_locales (auto intro: engine_step_inv)

text \<open>C5: the job table has one row per scheduled fire. From a process started on a day without rows yet, through any
  number of passes, with the tasks run in any order and locks held by others, no scheduled fire
  is recorded twice: not run twice, not both run and missed, not both run and skipped.\<close>

theorem engine_rows_once:
  assumes "reachable engine_init (\<lambda>a b. other_ok env \<and> engine_step env a b) (lo, e, tasks)"
  shows "distinct (scheduled_rows (en_ledger e))"
  using engine_run.reachable_inv [OF assms] by simp

section \<open>Standing trips are repeated hourly\<close>

text \<open>A run of sweeps that all find the same trips: the times at which they are posted.\<close>

fun sweep_posts :: "(instant \<times> tick_result) list \<Rightarrow> engine \<Rightarrow> instant list" where
  "sweep_posts [] e = []"
| "sweep_posts ((t, res) # sweeps) e =
     (let e' = post_trips res t e in (if en_posts e' = en_posts e then [] else [t]) @ sweep_posts sweeps e')"

lemma standing_posts:
  assumes "\<forall>(t, res) \<in> set sweeps. rs_trips res = ts" and "ts \<noteq> []" and "en_signature e = Some ts" and "en_trip_at e = Some t0"
    and "sorted_wrt (\<lambda>a b. a \<le> b) (t0 # map fst sweeps)"
  shows "sorted_wrt (\<lambda>a b. a + us_of_s TRIP_REPOST_S \<le> b) (t0 # sweep_posts sweeps e) \<and>
    (\<forall>(t, res) \<in> set sweeps. \<exists>p \<in> set (t0 # sweep_posts sweeps e). p \<le> t \<and> t < p + us_of_s TRIP_REPOST_S)"
  using assms
proof (induction sweeps arbitrary: e t0)
  case (Cons x sweeps)
  obtain t res where x: "x = (t, res)" by force
  have res: "rs_trips res = ts" and le: "t0 \<le> t" and so: "sorted_wrt (\<lambda>a b. a \<le> b) (t # map fst sweeps)"
    using Cons.prems x by auto
  have all: "\<forall>(t, res) \<in> set sweeps. rs_trips res = ts" using Cons.prems(1) by auto
  have pos: "0 < us_of_s TRIP_REPOST_S" by (simp add: us_of_s_def TRIP_REPOST_S_def)
  show ?case
  proof (cases "t - t0 \<ge> us_of_s TRIP_REPOST_S")
    case True
    let ?e = "post_trips res t e"
    have e: "en_signature ?e = Some ts" "en_trip_at ?e = Some t" "en_posts ?e \<noteq> en_posts e"
      using True Cons.prems(2-4) res by (simp_all add: post_trips_def post_def)
    have ih: "sorted_wrt (\<lambda>a b. a + us_of_s TRIP_REPOST_S \<le> b) (t # sweep_posts sweeps ?e)"
      "\<forall>(t', r) \<in> set sweeps. \<exists>p \<in> set (t # sweep_posts sweeps ?e). p \<le> t' \<and> t' < p + us_of_s TRIP_REPOST_S"
      using Cons.IH [OF all Cons.prems(2) e(1,2) so] by blast+
    have sp: "sweep_posts (x # sweeps) e = t # sweep_posts sweeps ?e" using e(3) by (simp add: x Let_def)
    have "sorted_wrt (\<lambda>a b. a + us_of_s TRIP_REPOST_S \<le> b) (t0 # t # sweep_posts sweeps ?e)"
      using ih(1) True pos by force
    then show ?thesis using ih(2) pos unfolding sp by (fastforce simp: x)
  next
    case False
    have e: "post_trips res t e = e" using False Cons.prems(2-4) res by (simp add: post_trips_def)
    have so0: "sorted_wrt (\<lambda>a b. a \<le> b) (t0 # map fst sweeps)" using Cons.prems(5) by simp
    have sp: "sweep_posts (x # sweeps) e = sweep_posts sweeps e" by (simp add: x e Let_def)
    show ?thesis using Cons.IH [OF all Cons.prems(2-4) so0] False le unfolding sp by (auto simp: x)
  qed
qed simp

text \<open>C39: a standing trip is neither spammed nor forgotten. Over sweeps in time order that all find the same trips
  after they were first posted, any two posts are at least an hour apart, and at every sweep the
  last post is less than an hour old.\<close>

theorem trips_reposted_hourly:
  assumes "\<forall>x. x \<in> set sweeps \<longrightarrow> rs_trips (snd x) = rs_trips res" and "rs_trips res \<noteq> []" and "Some (rs_trips res) \<noteq> en_signature e"
    and "sorted (t0 # map fst sweeps)"
  shows "sorted_wrt (\<lambda>a b. a + us_of_s TRIP_REPOST_S \<le> b) (sweep_posts ((t0, res) # sweeps) e) \<and>
    (\<forall>x. x \<in> set sweeps \<longrightarrow> (\<exists>p. p \<in> set (sweep_posts ((t0, res) # sweeps) e) \<and> p \<le> fst x \<and> fst x < p + us_of_s TRIP_REPOST_S))"
proof -
  let ?e = "post_trips res t0 e"
  have e: "en_signature ?e = Some (rs_trips res)" "en_trip_at ?e = Some t0" "en_posts ?e \<noteq> en_posts e"
    using assms(2,3) by (simp_all add: post_trips_def post_def)
  have "\<forall>(t, r) \<in> set sweeps. rs_trips r = rs_trips res" using assms(1) by auto
  from standing_posts [OF this assms(2) e(1,2) assms(4)] e(3) show ?thesis by (fastforce simp: Let_def)
qed

section \<open>The calendar flag\<close>

lemma pass_window_some: "en_window (pass_window env now e) \<noteq> None"
  by (auto simp: pass_window_def refresh_window_def Let_def split: sum.split)

lemma WATCH_FLAG_not_F: "WATCH_FLAG w \<noteq> Some CHR ''F''"
  by (auto simp: WATCH_FLAG_def)

text \<open>
  A sweep is marked F when it is given no window. After a pass there always is one, the fallback
  calendar included, so no sweep of the engine is ever marked, also when its calendar is a guess.
\<close>

lemma fallback_never_flagged:
  assumes "en_window e \<noteq> None"
    and "run_tick (ee_zone env) (ee_broker env) (en_ledger e) (ee_rules env) (ee_reserve env) (en_hash e) now (en_window e)
      (ee_orders_from env) (ee_leveraged env) trading_days_between = (Inr res, L')"
  shows "CHR ''F'' \<notin> set (tk_flags (rs_row res))"
proof (cases "tick_read (ee_broker env) (en_ledger e) (en_hash e) now (ee_orders_from env)")
  case (Inl x)
  then show ?thesis using assms by (cases x) (auto simp: run_tick_def blind_row_def Let_def)
next
  case (Inr x)
  obtain prior view L1 where x: "x = ((prior, view), L1)" by (metis surj_pair)
  have "tick_compute (ee_zone env) (ee_broker env) L1 (ee_rules env) (ee_reserve env) now (en_window e) (ee_leveraged env)
      trading_days_between prior view = Inr res"
    using assms(2) Inr x by (auto simp: run_tick_def split: sum.splits)
  then show ?thesis
  proof (rule tick_compute_facts)
    fix hwm dd ns un clks ws stale
    assume fl: "tk_flags (rs_row res) = flag_string (un @ ws) (extra_flags stale (en_window e = None) (et_date (ee_zone env) now))"
    show ?thesis unfolding fl using assms(1)
      by (subst flag_string_letter) (auto simp: extra_flags_def WATCH_FLAG_not_F)
  qed
qed

section \<open>Witnesses\<close>

lemma sample_sched: "en_sched sample_engine = sample_scheduler"
  by (simp add: sample_engine_def)

lemma sample_zone: "et_wall (ee_zone sample_engine_env) i = i" "et_date (ee_zone sample_engine_env) i = date_of i"
  by (simp_all add: sample_engine_env_def et_wall_def et_date_def)

lemma sample_today: "et_date (ee_zone sample_engine_env) (combine 739870 (hm 9 37)) = 739870"
  by (simp add: sample_zone us_defs)

text \<open>At 09:37 on a Friday the engine starts: the tick of 09:32 is missed.\<close>

lemma sample_late:
  "\<lparr>fi_job = ''tick'', fi_at = combine 739870 (hm 9 32)\<rparr> \<in>
     set (fires_of (trading_day (pass_window sample_engine_env (combine 739870 (hm 9 37)) sample_engine))
       (en_sched (pass_window sample_engine_env (combine 739870 (hm 9 37)) sample_engine))
       (et_date (ee_zone sample_engine_env) (combine 739870 (hm 9 37))))"
proof -
  let ?td = "trading_day (pass_window sample_engine_env (combine 739870 (hm 9 37)) sample_engine)"
  have "day_matches sample_spec 739870 (\<lambda>_. True)" by code_simp
  moreover have "?td 739870"
  proof -
    have "en_window (pass_window sample_engine_env (combine 739870 (hm 9 37)) sample_engine) = Some (fallback_window 739870)"
      by (simp add: pass_window_def refresh_window_def sample_today sample_engine_def) (simp add: sample_engine_env_def Let_def)
    then show ?thesis by (simp add: trading_day_def fallback_window_def weekday_def)
  qed
  ultimately have "day_matches sample_spec 739870 ?td" by (simp add: day_matches_def split: days.splits)
  moreover have "combine 739870 (hm 9 32) \<in> set (fires_on sample_spec 739870 (\<lambda>_. True))" by code_simp
  ultimately have "combine 739870 (hm 9 32) \<in> set (fires_on sample_spec 739870 ?td)" by (simp add: fires_on_def split: if_splits)
  then show ?thesis by (auto simp: fires_of_def sample_sched sample_scheduler_def sample_today)
qed

lemma sample_settled: "settled (en_sched (pass_window sample_engine_env now sample_engine)) = {}"
  by (auto simp: pass_window_def sample_engine_def refresh_window_def prune_def settled_def sample_scheduler_def Let_def split: sum.split)

theorem engine_pass_accounts_witness:
  "\<exists>fires e'. engine_pass sample_engine_env (combine 739870 (hm 9 37)) sample_engine = (fires, e') \<and>
     missed_row \<lparr>fi_job = ''tick'', fi_at = combine 739870 (hm 9 32)\<rparr> \<in> set (job_runs (en_ledger e'))"
proof -
  obtain fires e' where p: "engine_pass sample_engine_env (combine 739870 (hm 9 37)) sample_engine = (fires, e')" by force
  have "fi_at \<lparr>fi_job = ''tick'', fi_at = combine 739870 (hm 9 32)\<rparr> + GRACE < combine 739870 (hm 9 37)"
    by (simp add: GRACE_def combine_def us_defs)
  moreover have "\<not> on_record (en_ledger sample_engine) \<lparr>fi_job = ''tick'', fi_at = combine 739870 (hm 9 32)\<rparr>"
    by (simp add: sample_engine_def empty_ledger_def job_run_exists_def)
  ultimately show ?thesis using engine_pass_accounts [OF p sample_late] p
    by (auto simp: sample_zone sample_settled)
qed

theorem engine_rows_once_witness:
  "\<exists>fires e'. engine_pass sample_engine_env (combine 739870 (hm 9 37)) sample_engine = (fires, e') \<and> distinct (scheduled_rows (en_ledger e'))"
proof -
  obtain fires e' where p: "engine_pass sample_engine_env (combine 739870 (hm 9 37)) sample_engine = (fires, e')" by force
  have "engine_init (739870, sample_engine, [])"
    by (simp add: sample_engine_def scheduled_rows_def empty_ledger_def sample_scheduler_def spec_ok_def sample_spec_def us_defs)
  moreover have "other_ok sample_engine_env" by (simp add: other_ok_def sample_engine_env_def job_frame_def)
  moreover have "engine_step sample_engine_env (739870, sample_engine, []) (739870, e', [] @ fires)"
    using PassStep [OF p, of 739870 "[]"] by (simp add: sample_zone us_defs)
  ultimately have "reachable engine_init (\<lambda>a b. other_ok sample_engine_env \<and> engine_step sample_engine_env a b) (739870, e', fires)"
    unfolding reachable_def by (intro exI [of _ "(739870, sample_engine, [])"]) auto
  from engine_rows_once [OF this] p show ?thesis by blast
qed

definition sample_trip :: tick_result where
  "sample_trip = \<lparr>rs_row = blind_row 0 ''B'', rs_trips = [mk_trip 0 ''blind'' DtBlind], rs_view = None\<rparr>"

theorem trips_reposted_hourly_witness:
  "\<exists>p. p \<in> set (sweep_posts [(0, sample_trip), (us_of_min 50, sample_trip), (us_of_min 65, sample_trip)] sample_engine) \<and>
     p \<le> us_of_min 65 \<and> us_of_min 65 < p + us_of_s TRIP_REPOST_S"
proof -
  have "\<forall>x. x \<in> set [(us_of_min 50, sample_trip), (us_of_min 65, sample_trip)] \<longrightarrow> rs_trips (snd x) = rs_trips sample_trip"
    "rs_trips sample_trip \<noteq> []" "Some (rs_trips sample_trip) \<noteq> en_signature sample_engine"
    "sorted (0 # map fst [(us_of_min 50, sample_trip), (us_of_min 65, sample_trip)])"
    by (auto simp: sample_trip_def sample_engine_def us_defs)
  from conjunct2 [OF trips_reposted_hourly [OF this]] show ?thesis by auto
qed

end
