(* ===== verification/TC_Research.thy ===== *)
theory TC_Research
  imports TC_Json TC_Render "HOL-Library.Word" "HOL-Library.Multiset" "HOL-Library.List_Lexorder" "HOL-Library.Char_ord"
begin

unbundle bit_operations_syntax

text \<open>
  The validating writers of the research ledgers (tc/research/ledgers.py) and the tables they write
  (tc/store/db.py): evidence, escalations, sectors and the five ledgers of JSON records. A record
  is a JSON object; it is stored as it is, since what is read back is equal up to the order of
  its keys. A raise or a score is a check and an insert; \<open>research_step\<close> runs each without interruption,
  \<open>writer_step\<close> lets them overlap and has the importer's raises (tc/research/importer.py) too. Python's texts of a number, of a decimal and of a value that is not a string are
  parameters (\<open>texts\<close>). The time a row was written is left out.
\<close>

section \<open>Tables\<close>

record evidence_row =
  ev_id :: int
  ev_symbol :: string
  ev_date :: string
  ev_claim :: string
  ev_url :: string
  ev_source :: string
  ev_observed :: string
  ev_independence :: string
  ev_extra :: dict

datatype escalation_kind = ERaise | EScore

record escalation_row =
  es_id :: string
  es_kind :: escalation_kind
  es_symbol :: string
  es_at :: string
  es_record :: dict

record ledger_row =
  lr_date :: string
  lr_symbol :: string
  lr_record :: dict

record research =
  rs_evidence :: "evidence_row list"
  rs_escalations :: "escalation_row list"
  rs_sectors :: "(string \<times> string \<times> string) list" \<comment> \<open>symbol, sector, date\<close>
  rs_ledgers :: "string \<Rightarrow> ledger_row list" \<comment> \<open>by the name of the table\<close>

definition empty_research :: research where
  "empty_research = \<lparr>rs_evidence = [], rs_escalations = [], rs_sectors = [], rs_ledgers = (\<lambda>_. [])\<rparr>"

record texts =
  tx_num :: "rat \<Rightarrow> string" \<comment> \<open>a number in \<open>json.dumps\<close>\<close>
  tx_str :: "json \<Rightarrow> string" \<comment> \<open>\<open>str\<close> of a value that is no string\<close>
  tx_dec :: "dec \<Rightarrow> string" \<comment> \<open>\<open>str\<close> of a decimal\<close>

definition SOURCE_TYPES :: "string list" where
  "SOURCE_TYPES = [''end-user'', ''employee'', ''counterparty'', ''enthusiast'', ''primary-doc'', ''mainstream'']"

definition BAR_SOURCE_TYPES :: "string list" where
  "BAR_SOURCE_TYPES = filter (\<lambda>t. t \<noteq> ''mainstream'') SOURCE_TYPES"

definition IN_SCOPE_SECTORS :: "string list" where
  "IN_SCOPE_SECTORS = [''consumer-software'', ''airlines-transport'', ''semis-hardware'']"

definition SECTORS :: "string list" where "SECTORS = IN_SCOPE_SECTORS @ [''other'']"
definition DIRECTIONS :: "string list" where "DIRECTIONS = [''up'', ''down'']"
definition OUTCOMES :: "string list" where "OUTCOMES = [''right'', ''wrong'', ''void'']"
definition RESERVED_ON_RAISE :: "string list" where "RESERVED_ON_RAISE = [''outcome'', ''scored'', ''kind'']"

definition LEDGER_TABLES :: "(string \<times> string) list" where
  "LEDGER_TABLES = [(''screen'', ''screen_rows''), (''iv'', ''iv_series''), (''oi'', ''oi_snapshots''),
     (''tombstones'', ''tombstones''), (''events'', ''events'')]"

definition LEDGER_REQUIRED :: "(string \<times> string list) list" where
  "LEDGER_REQUIRED = [(''screen'', [''symbol'', ''t'', ''src'']), (''iv'', [''symbol'', ''t'', ''atm_iv'']),
     (''oi'', [''symbol'', ''t'']), (''tombstones'', [''symbol'', ''date'', ''gate'', ''reason'', ''ref_price'']), (''events'', [''t''])]"

section \<open>Field checks\<close>

text \<open>
  The patterns \<open>^[A-Za-z0-9.-]+$\<close> and \<open>^\d{4}-\d{2}-\d{2}$\<close> under \<open>re.match\<close>: a \<open>$\<close> also matches
  before one newline at the end of the text.
\<close>

definition before_dollar :: "string \<Rightarrow> string" where
  "before_dollar s = (if s \<noteq> [] \<and> last s = NL then butlast s else s)"

definition symbol_char :: "char \<Rightarrow> bool" where
  "symbol_char c \<longleftrightarrow> is_digit c \<or> (65 \<le> code c \<and> code c \<le> 90) \<or> (97 \<le> code c \<and> code c \<le> 122) \<or> c = CHR ''.'' \<or> c = CHR ''-''"

definition SYMBOL_RE :: "string \<Rightarrow> bool" where
  "SYMBOL_RE s = (let t = before_dollar s in t \<noteq> [] \<and> list_all symbol_char t)"

definition DATE_RE :: "string \<Rightarrow> bool" where
  "DATE_RE s =
     (let t = before_dollar s in
      length t = 10 \<and> list_all (\<lambda>i. if i = 4 \<or> i = 7 then t ! i = CHR ''-'' else is_digit (t ! i)) [0..<10])"

definition check_symbol :: "json option \<Rightarrow> exn + string" where
  "check_symbol v = (case v of Some (JStr s) \<Rightarrow> if s \<noteq> [] \<and> SYMBOL_RE s then Inr s else Inl (LedgerRefused BadSymbol)
                     | _ \<Rightarrow> Inl (LedgerRefused BadSymbol))"

definition date_str :: "json option \<Rightarrow> string \<Rightarrow> exn + string" where
  "date_str v field = (case v of Some (JStr s) \<Rightarrow> if DATE_RE s then Inr s else Inl (LedgerRefused (BadDate field))
                       | _ \<Rightarrow> Inl (LedgerRefused (BadDate field)))"

definition nonempty_str :: "dict \<Rightarrow> string \<Rightarrow> exn + string" where
  "nonempty_str record k = (case map_of record k of Some (JStr s) \<Rightarrow> if s \<noteq> [] then Inr s else Inl (LedgerRefused (NotNonempty k))
                            | _ \<Rightarrow> Inl (LedgerRefused (NotNonempty k)))"

definition present :: "dict \<Rightarrow> string \<Rightarrow> exn + json" where
  "present record k =
     (case map_of record k of None \<Rightarrow> Inl (LedgerRefused (NotPresent k))
      | Some v \<Rightarrow> if v = JNull \<or> v = JStr [] then Inl (LedgerRefused (NotPresent k)) else Inr v)"

section \<open>Evidence\<close>

definition insert_evidence :: "evidence_row \<Rightarrow> research \<Rightarrow> int \<times> research" where
  "insert_evidence row rs =
     (let i = next_id ev_id (rs_evidence rs) in (i, rs\<lparr>rs_evidence := rs_evidence rs @ [row\<lparr>ev_id := i\<rparr>]\<rparr>))"

definition evidence_for :: "research \<Rightarrow> string \<Rightarrow> evidence_row list" where
  "evidence_for rs symbol = sort_key ev_id (filter (\<lambda>r. ev_symbol r = symbol) (rs_evidence rs))"

definition evidence_append :: "research \<Rightarrow> string \<Rightarrow> date \<Rightarrow> dict \<Rightarrow> exn + int \<times> research" where
  "evidence_append rs symbol d record =
     bind_e (check_symbol (Some (JStr symbol))) (\<lambda>sym.
     bind_e (nonempty_str record ''claim'') (\<lambda>claim.
     bind_e (nonempty_str record ''url'') (\<lambda>url.
     bind_e (nonempty_str record ''independence'') (\<lambda>independence.
     bind_e (nonempty_str record ''source_type'') (\<lambda>source_type.
     bind_e (nonempty_str record ''observed'') (\<lambda>observed.
     bind_e (raise_if (source_type \<notin> set SOURCE_TYPES) (LedgerRefused BadSourceType)) (\<lambda>_.
     bind_e (raise_if (observed \<noteq> isoformat d) (LedgerRefused WrongObserved)) (\<lambda>_.
     Inr (insert_evidence
       \<lparr>ev_id = 0, ev_symbol = sym, ev_date = isoformat d, ev_claim = claim, ev_url = url, ev_source = source_type,
        ev_observed = observed, ev_independence = independence,
        ev_extra = filter (\<lambda>(k, _). k \<notin> {''claim'', ''url'', ''source_type'', ''observed'', ''independence''}) record\<rparr> rs)))))))))"

section \<open>The canonical text of a claim\<close>

text \<open>\<open>json.dumps\<close> of a string: what is not printable ASCII is escaped.\<close>

definition json_char :: "char \<Rightarrow> string" where
  "json_char c =
     (if c = CHR 0x22 \<or> c = CHR 0x5C then [CHR 0x5C, c]
      else if c = CHR 0x0A then [CHR 0x5C, CHR ''n''] else if c = CHR 0x0D then [CHR 0x5C, CHR ''r'']
      else if c = CHR 0x09 then [CHR 0x5C, CHR ''t''] else if c = CHR 0x0C then [CHR 0x5C, CHR ''f'']
      else if c = CHR 0x08 then [CHR 0x5C, CHR ''b'']
      else if code c < 32 \<or> 128 \<le> code c then [CHR 0x5C] @ ''u00'' @ [hex_digit (code c div 16), hex_digit (code c mod 16)]
      else [c])"

definition json_str :: "string \<Rightarrow> string" where
  "json_str s = [CHR 0x22] @ concat (map json_char s) @ [CHR 0x22]"

text \<open>\<open>sort_keys=True, separators=(",", ":")\<close>.\<close>

fun dumps :: "texts \<Rightarrow> json \<Rightarrow> string" where
  "dumps tx JNull = ''null''"
| "dumps tx (JBool b) = (if b then ''true'' else ''false'')"
| "dumps tx (JNum x) = tx_num tx x"
| "dumps tx (JStr s) = json_str s"
| "dumps tx (JArr xs) = ''['' @ join '','' (map (dumps tx) xs) @ '']''"
| "dumps tx (JObj kvs) =
     ''{'' @ join '','' (map (\<lambda>(k, t). json_str k @ '':'' @ t) (sort_key fst (map (\<lambda>(k, v). (k, dumps tx v)) kvs))) @ ''}''"

text \<open>\<open>zlib.crc32\<close>, a bit at a time.\<close>

fun crc_bits :: "nat \<Rightarrow> 32 word \<Rightarrow> 32 word" where
  "crc_bits 0 w = w"
| "crc_bits (Suc n) w = crc_bits n (drop_bit 1 w XOR (if bit w 0 then 0xEDB88320 else 0))"

definition crc_byte :: "char \<Rightarrow> 32 word \<Rightarrow> 32 word" where
  "crc_byte c w = crc_bits 8 (w XOR of_nat (code c))"

definition crc32 :: "string \<Rightarrow> 32 word" where
  "crc32 s = fold crc_byte s 0xFFFFFFFF XOR 0xFFFFFFFF"

lemma crc32_check: "crc32 ''123456789'' = 0xCBF43926"
  by code_simp

section \<open>Escalations\<close>

definition escalation_id :: "texts \<Rightarrow> string \<Rightarrow> date \<Rightarrow> dict \<Rightarrow> string" where
  "escalation_id tx symbol d record =
     symbol @ ''-'' @ isoformat d @ ''-'' @ show_nat (unat (crc32 (dumps tx (JObj record))))"

definition insert_escalation :: "escalation_row \<Rightarrow> research \<Rightarrow> research" where
  "insert_escalation row rs = rs\<lparr>rs_escalations := rs_escalations rs @ [row]\<rparr>"

definition escalation_raise_exists :: "research \<Rightarrow> string \<Rightarrow> bool" where
  "escalation_raise_exists rs eid \<longleftrightarrow> list_ex (\<lambda>r. es_id r = eid \<and> es_kind r = ERaise) (rs_escalations rs)"

definition bar_types :: "json list \<Rightarrow> string set" where
  "bar_types types = {t. JStr t \<in> set types \<and> t \<in> set BAR_SOURCE_TYPES}"

lemma bar_types_code [code]: "bar_types types = set (filter (\<lambda>t. JStr t \<in> set types) BAR_SOURCE_TYPES)"
  by (auto simp: bar_types_def)

text \<open>What a raise is checked for, also by the importer (\<open>_validate_raise\<close>).\<close>

definition validate_raise :: "dict \<Rightarrow> exn + unit" where
  "validate_raise record =
     bind_e (map_e (\<lambda>k. raise_if (map_of record k \<noteq> None) (LedgerRefused (ReservedOnRaise k))) RESERVED_ON_RAISE) (\<lambda>_.
     bind_e (nonempty_str record ''claim'') (\<lambda>_.
     bind_e (nonempty_str record ''direction'') (\<lambda>direction.
     bind_e (raise_if (direction \<notin> set DIRECTIONS) (LedgerRefused BadDirection)) (\<lambda>_.
     bind_e (date_str (map_of record ''event_date'') ''event_date'') (\<lambda>_.
     bind_e (case map_of record ''source_types'' of Some (JArr types) \<Rightarrow> Inr types | _ \<Rightarrow> Inl (LedgerRefused TypesNotArray)) (\<lambda>types.
     raise_if (card (bar_types types) < 2) (LedgerRefused UnderTheBar)))))))"

text \<open>
  A raise is two uses of the store: the id is looked up, and then the row is written. The first
  decides and fixes the row (\<open>raise_check\<close>); \<open>escalation_raise\<close> is the operation when nothing comes
  between the two.
\<close>

definition raise_row :: "texts \<Rightarrow> string \<Rightarrow> date \<Rightarrow> dict \<Rightarrow> exn + escalation_row" where
  "raise_row tx symbol d record =
     bind_e (check_symbol (Some (JStr symbol))) (\<lambda>sym.
     bind_e (validate_raise record) (\<lambda>_.
     Inr \<lparr>es_id = escalation_id tx sym d record, es_kind = ERaise, es_symbol = sym, es_at = isoformat d, es_record = record\<rparr>))"

definition raise_check :: "texts \<Rightarrow> research \<Rightarrow> string \<Rightarrow> date \<Rightarrow> dict \<Rightarrow> exn + escalation_row" where
  "raise_check tx rs symbol d record =
     bind_e (raise_row tx symbol d record) (\<lambda>row.
     bind_e (raise_if (escalation_raise_exists rs (es_id row)) (LedgerRefused AlreadyRaised)) (\<lambda>_. Inr row))"

definition escalation_raise :: "texts \<Rightarrow> research \<Rightarrow> string \<Rightarrow> date \<Rightarrow> dict \<Rightarrow> exn + string \<times> research" where
  "escalation_raise tx rs symbol d record =
     bind_e (raise_check tx rs symbol d record) (\<lambda>row. Inr (es_id row, insert_escalation row rs))"

text \<open>The importer carries the id, the symbol and the date of its file; the raise is checked like any other.\<close>

definition import_raise_row :: "dict \<Rightarrow> exn + escalation_row" where
  "import_raise_row record =
     bind_e (nonempty_str record ''id'') (\<lambda>eid.
     bind_e (check_symbol (map_of record ''symbol'')) (\<lambda>symbol.
     bind_e (date_str (map_of record ''raised'') ''raised'') (\<lambda>raised.
     let claim = filter (\<lambda>(k, _). k \<notin> {''id'', ''symbol'', ''raised'', ''kind''}) record in
     bind_e (validate_raise claim) (\<lambda>_.
     Inr \<lparr>es_id = eid, es_kind = ERaise, es_symbol = symbol, es_at = raised, es_record = claim\<rparr>))))"

text \<open>Nothing is to be inserted for an id that is already there.\<close>

definition import_check :: "research \<Rightarrow> dict \<Rightarrow> exn + escalation_row option" where
  "import_check rs record =
     bind_e (import_raise_row record) (\<lambda>row. Inr (if escalation_raise_exists rs (es_id row) then None else Some row))"

text \<open>\<open>s.rsplit("-", n)[0]\<close>.\<close>

definition rsplit_head :: "nat \<Rightarrow> string \<Rightarrow> string" where
  "rsplit_head n s = (let parts = split_on CHR ''-'' s in join ''-'' (take (max 1 (length parts - n)) parts))"

definition score_row :: "string \<Rightarrow> string \<Rightarrow> date \<Rightarrow> exn + escalation_row" where
  "score_row eid result d =
     bind_e (raise_if (result \<notin> set OUTCOMES) (LedgerRefused BadOutcome)) (\<lambda>_.
     Inr \<lparr>es_id = eid, es_kind = EScore, es_symbol = rsplit_head 4 eid, es_at = isoformat d, es_record = [(''outcome'', JStr result)]\<rparr>)"

definition score_check :: "research \<Rightarrow> string \<Rightarrow> string \<Rightarrow> date \<Rightarrow> exn + escalation_row" where
  "score_check rs eid result d =
     bind_e (score_row eid result d) (\<lambda>row.
     bind_e (raise_if (\<not> escalation_raise_exists rs eid) (LedgerRefused NoSuchRaise)) (\<lambda>_. Inr row))"

definition escalation_score :: "research \<Rightarrow> string \<Rightarrow> string \<Rightarrow> date \<Rightarrow> exn + research" where
  "escalation_score rs eid result d = bind_e (score_check rs eid result d) (\<lambda>row. Inr (insert_escalation row rs))"

text \<open>The reader: a raise spreads its record over the entry, a score overwrites the outcome.\<close>

definition raise_entry :: "escalation_row \<Rightarrow> dict" where
  "raise_entry r =
     dict_merge [(''id'', JStr (es_id r)), (''symbol'', JStr (es_symbol r)), (''raised'', JStr (es_at r)), (''latest_outcome'', JNull)]
       (es_record r)"

definition read_escalation :: "escalation_row \<Rightarrow> (string \<times> dict) list \<Rightarrow> (string \<times> dict) list" where
  "read_escalation r entries =
     (if es_kind r = ERaise then AList.update (es_id r) (raise_entry r) entries
      else
        (case map_of entries (es_id r) of
           None \<Rightarrow> entries
         | Some e \<Rightarrow> AList.update (es_id r)
             (AList.update ''latest_outcome'' (case map_of (es_record r) ''outcome'' of None \<Rightarrow> JNull | Some v \<Rightarrow> v) e) entries))"

definition escalations :: "research \<Rightarrow> string option \<Rightarrow> (string \<times> dict) list" where
  "escalations rs symbol =
     fold read_escalation (filter (\<lambda>r. case symbol of None \<Rightarrow> True | Some s \<Rightarrow> es_symbol r = s) (rs_escalations rs)) []"

section \<open>Sectors\<close>

definition tag_sector :: "string \<times> string \<times> string \<Rightarrow> nat \<times> nat \<times> (string \<times> string \<times> string) list \<Rightarrow> nat \<times> nat \<times> (string \<times> string \<times> string) list" where
  "tag_sector row acc =
     (let (symbol, sector, d) = row; (new, retired, tbl) = acc; prev = map_option fst (map_of tbl symbol);
          was = (\<exists>p. prev = Some p \<and> p \<in> set IN_SCOPE_SECTORS) in
      (if sector \<in> set IN_SCOPE_SECTORS \<and> \<not> was then new + 1 else new,
       if sector = ''other'' \<and> was then retired + 1 else retired,
       AList.update symbol (sector, d) tbl))"

definition upsert_sectors :: "(string \<times> string \<times> string) list \<Rightarrow> research \<Rightarrow> nat \<times> nat \<times> research" where
  "upsert_sectors rows rs =
     (let (new, retired, tbl) = fold tag_sector rows (0, 0, rs_sectors rs) in (new, retired, rs\<lparr>rs_sectors := tbl\<rparr>))"

fun check_rows :: "nat \<Rightarrow> dict list \<Rightarrow> string \<Rightarrow> (string \<times> string \<times> string) list \<Rightarrow> exn + (string \<times> string \<times> string) list" where
  "check_rows i [] ds acc = Inr acc"
| "check_rows i (row # rows) ds acc =
     bind_e (check_symbol (map_of row ''symbol'')) (\<lambda>sym.
     case map_of row ''sector'' of
       Some (JStr s) \<Rightarrow>
         if s \<in> set SECTORS then check_rows (i + 1) rows ds (AList.update sym (s, ds) acc) else Inl (LedgerRefused (BadSector i))
     | _ \<Rightarrow> Inl (LedgerRefused (BadSector i)))"

definition sector_write :: "research \<Rightarrow> dict list \<Rightarrow> date \<Rightarrow> exn + (nat \<times> nat \<times> nat) \<times> research" where
  "sector_write rs rows d =
     bind_e (raise_if (rows = []) (LedgerRefused NoRows)) (\<lambda>_.
     bind_e (check_rows 1 rows (isoformat d) []) (\<lambda>validated.
     let (new, retired, rs') = upsert_sectors validated rs in Inr ((length validated, new, retired), rs')))"

section \<open>The ledgers of records\<close>

definition oi_symbol_seen :: "research \<Rightarrow> date \<Rightarrow> string \<Rightarrow> bool" where
  "oi_symbol_seen rs d symbol \<longleftrightarrow> list_ex (\<lambda>r. lr_date r = isoformat d \<and> lr_symbol r = symbol) (rs_ledgers rs ''oi_snapshots'')"

text \<open>\<open>UNIQUE (date, symbol)\<close> of \<open>oi_snapshots\<close>.\<close>

definition append_ledger :: "research \<Rightarrow> string \<Rightarrow> date \<Rightarrow> string option \<Rightarrow> dict \<Rightarrow> exn + research" where
  "append_ledger rs nm d symbol record =
     bind_e (the_or (KeyError nm) (map_of LEDGER_TABLES nm)) (\<lambda>table.
     let row = \<lparr>lr_date = isoformat d, lr_symbol = (case symbol of None \<Rightarrow> [] | Some s \<Rightarrow> s), lr_record = record\<rparr> in
     if table = ''oi_snapshots'' \<and> list_ex (\<lambda>r. lr_date r = lr_date row \<and> lr_symbol r = lr_symbol row) (rs_ledgers rs table)
     then Inl IntegrityError
     else Inr (rs\<lparr>rs_ledgers := (rs_ledgers rs)(table := rs_ledgers rs table @ [row])\<rparr>))"

definition ledger_append :: "texts \<Rightarrow> research \<Rightarrow> string \<Rightarrow> date \<Rightarrow> json \<Rightarrow> exn + bool \<times> research" where
  "ledger_append tx rs nm d j =
     bind_e (case map_of LEDGER_REQUIRED nm of
               Some ks \<Rightarrow> if map_of LEDGER_TABLES nm = None then Inl (LedgerRefused UnknownLedger) else Inr ks
             | None \<Rightarrow> Inl (LedgerRefused UnknownLedger)) (\<lambda>required.
     bind_e (case j of JObj r \<Rightarrow> Inr r | _ \<Rightarrow> Inl (LedgerRefused NotAnObject)) (\<lambda>record.
     bind_e (map_e (present record) required) (\<lambda>_.
     bind_e (raise_if (nm = ''tombstones'' \<and> map_of record ''date'' \<noteq> Some (JStr (isoformat d))) (LedgerRefused WrongTombstoneDate)) (\<lambda>_.
     if nm = ''oi''
     then
       bind_e (check_symbol (map_of record ''symbol'')) (\<lambda>sym.
       if oi_symbol_seen rs d sym then Inr (False, rs)
       else
         (case append_ledger rs nm d (Some sym) record of
            Inl e \<Rightarrow> if e = IntegrityError then Inr (False, rs) else Inl e
          | Inr rs' \<Rightarrow> Inr (True, rs')))
     else
       bind_e (append_ledger rs nm d
         (case map_of record ''symbol'' of None \<Rightarrow> None | Some JNull \<Rightarrow> None | Some (JStr s) \<Rightarrow> Some s | Some v \<Rightarrow> Some (tx_str tx v)) record)
         (\<lambda>rs'. Inr (True, rs'))))))"

definition tombstone ::
  "texts \<Rightarrow> research \<Rightarrow> string \<Rightarrow> date \<Rightarrow> string \<Rightarrow> string \<Rightarrow> dec \<Rightarrow> int option \<Rightarrow> dec option \<Rightarrow> exn + bool \<times> research" where
  "tombstone tx rs symbol d gate why ref_price hypo_qty hypo_stop =
     bind_e (check_symbol (Some (JStr symbol))) (\<lambda>sym.
     ledger_append tx rs ''tombstones'' d (JObj
       ([(''symbol'', JStr sym), (''date'', JStr (isoformat d)), (''gate'', JStr gate), (''reason'', JStr why), (''ref_price'', JStr (tx_dec tx ref_price))] @
        (case hypo_qty of None \<Rightarrow> [] | Some q \<Rightarrow> [(''hypo_qty'', JNum (of_int q))]) @
        (case hypo_stop of None \<Rightarrow> [] | Some s \<Rightarrow> [(''hypo_stop'', JStr (tx_dec tx s))]))))"

text \<open>Reading a ledger: one day, or the newest day before a given one.\<close>

definition ledger_rows :: "research \<Rightarrow> string \<Rightarrow> date option \<Rightarrow> date option \<Rightarrow> exn + ledger_row list" where
  "ledger_rows rs nm d latest_before =
     bind_e (the_or (KeyError nm) (map_of LEDGER_TABLES nm)) (\<lambda>table.
     let rows = rs_ledgers rs table in
     case latest_before of
       Some b \<Rightarrow>
         (case filter (\<lambda>x. x < isoformat b) (map lr_date rows) of
            [] \<Rightarrow> Inr []
          | x # xs \<Rightarrow> Inr (filter (\<lambda>r. lr_date r = Max (set (x # xs))) rows))
     | None \<Rightarrow> Inr (case d of None \<Rightarrow> rows | Some y \<Rightarrow> filter (\<lambda>r. lr_date r = isoformat y) rows))"

section \<open>Texts\<close>

lemma show_nat_no_hyphen: "CHR ''-'' \<notin> set (show_nat n)"
proof
  assume "CHR ''-'' \<in> set (show_nat n)"
  then have "is_digit CHR ''-''" using show_nat_digits [of n] by (simp add: list_all_iff)
  then show False by (simp add: is_digit_def code_def)
qed

lemma pad_no_hyphen: "0 \<le> n \<Longrightarrow> CHR ''-'' \<notin> set (pad k n)"
  using show_nat_no_hyphen by (auto simp: pad_def Let_def show_int_def)

text \<open>The parts of a date are not negative.\<close>

lemma year_of_start:
  assumes "1 \<le> d"
  shows "1 \<le> year_of d" and "days_before_year (year_of d) < d"
proof -
  define n where "n = d - 1"
  define a r where "a = n div 146097" and "r = n mod 146097"
  define b where "b = min 3 (r div 36524)"
  define r1 where "r1 = r - b * 36524"
  define c r2 where "c = r1 div 1461" and "r2 = r1 mod 1461"
  define e where "e = min 3 (r2 div 365)"
  have n: "0 \<le> n" using assms by (simp add: n_def)
  have a: "0 \<le> a" "n = 146097 * a + r" "0 \<le> r" "r < 146097" using n by (auto simp: a_def r_def pos_imp_zdiv_nonneg_iff)
  have b: "0 \<le> b" "b \<le> 3" "b * 36524 \<le> r" using a(3) by (auto simp: b_def min_def pos_imp_zdiv_nonneg_iff)
  have r1: "0 \<le> r1" "r1 < 36525"
  proof -
    show "0 \<le> r1" using b(3) by (simp add: r1_def)
    show "r1 < 36525" using a(3,4) by (auto simp: r1_def b_def min_def split: if_splits)
  qed
  have c: "0 \<le> c" "c \<le> 24" "r1 = 1461 * c + r2" "0 \<le> r2" "r2 < 1461" using r1 by (auto simp: c_def r2_def)
  have e: "0 \<le> e" "e \<le> 3" "365 * e \<le> r2" using c(4) by (auto simp: e_def min_def)
  have y: "year_of d = 400 * a + 100 * b + 4 * c + e + 1"
    by (simp add: year_of_def Let_def n_def a_def r_def b_def r1_def c_def r2_def e_def)
  show "1 \<le> year_of d" using a(1) b(1) c(1) e(1) by (simp add: y)
  have "days_before_year (year_of d) = 365 * (400 * a + 100 * b + 4 * c + e) + (100 * a + 25 * b + c) - (4 * a + b) + a"
  proof -
    have "(400 * a + 100 * b + 4 * c + e) div 4 = 100 * a + 25 * b + c" using e by simp
    moreover have "(400 * a + 100 * b + 4 * c + e) div 100 = 4 * a + b" using c(1,2) e by simp
    moreover have "(400 * a + 100 * b + 4 * c + e) div 400 = a" using b c(1,2) e by simp
    ultimately show ?thesis by (simp add: days_before_year_def y Let_def)
  qed
  then show "days_before_year (year_of d) < d" using a(2) c(3) e(3) unfolding n_def r1_def by (simp add: algebra_simps)
qed

lemma month_day_nonneg: "0 \<le> m \<Longrightarrow> 0 \<le> d \<Longrightarrow> list_all (\<lambda>l. 0 \<le> l) ls \<Longrightarrow> 0 \<le> fst (month_day ls m d) \<and> 0 \<le> snd (month_day ls m d)"
  by (induction ls m d rule: month_day.induct) auto

text \<open>An ISO date has three parts.\<close>

lemma isoformat_parts:
  assumes "1 \<le> d"
  obtains a b c where "isoformat d = a @ ''-'' @ b @ ''-'' @ c" "CHR ''-'' \<notin> set a" "CHR ''-'' \<notin> set b" "CHR ''-'' \<notin> set c"
proof -
  let ?y = "year_of d"
  obtain m dd where md: "month_day (month_lengths ?y) 1 (d - days_before_year ?y) = (m, dd)" by force
  have "list_all (\<lambda>l. 0 \<le> l) (month_lengths ?y)" by (simp add: month_lengths_def)
  then have "0 \<le> m" "0 \<le> dd"
    using month_day_nonneg [of 1 "d - days_before_year ?y" "month_lengths ?y"] year_of_start [OF assms] md by auto
  moreover have "isoformat d = pad 4 ?y @ ''-'' @ pad 2 m @ ''-'' @ pad 2 dd" by (simp add: isoformat_def Let_def md)
  moreover have "0 \<le> ?y" using year_of_start(1) [OF assms] by simp
  ultimately show thesis using that pad_no_hyphen by blast
qed

text \<open>The symbol is recovered from an id, whatever hyphens it has itself.\<close>

lemma rsplit_escalation_id:
  assumes "1 \<le> d"
  shows "rsplit_head 4 (escalation_id tx symbol d record) = symbol"
proof -
  let ?c = "show_nat (unat (crc32 (dumps tx (JObj record))))"
  obtain y m dd where i: "isoformat d = y @ ''-'' @ m @ ''-'' @ dd" "CHR ''-'' \<notin> set y" "CHR ''-'' \<notin> set m" "CHR ''-'' \<notin> set dd"
    by (rule isoformat_parts [OF assms])
  have e: "escalation_id tx symbol d record =
      (((symbol @ [CHR ''-''] @ y) @ [CHR ''-''] @ m) @ [CHR ''-''] @ dd) @ [CHR ''-''] @ ?c"
    by (simp add: escalation_id_def i(1))
  have "split_on CHR ''-'' (escalation_id tx symbol d record) = split_on CHR ''-'' symbol @ [y, m, dd, ?c]"
    unfolding e by (subst split_on_append, simp add: i show_nat_no_hyphen)+ simp
  moreover have "1 \<le> length (split_on CHR ''-'' symbol)" by (simp add: Suc_le_eq)
  ultimately show ?thesis by (simp add: rsplit_head_def Let_def join_split max_def del: dumps.simps)
qed

section \<open>The order of keys\<close>

lemma map_sort_key:
  assumes "\<And>x. k (f x) = h x"
  shows "map f (sort_key h xs) = sort_key k (map f xs)"
proof -
  have ins: "map f (insort_key h x xs) = insort_key k (f x) (map f xs)" for x xs
    using assms by (induction xs) auto
  show ?thesis by (induction xs) (simp_all add: ins)
qed

lemma sort_key_perm:
  assumes "mset xs = mset ys" and "distinct (map fst xs)"
  shows "sort_key fst xs = sort_key fst ys"
proof (rule properties_for_sort_key)
  have ys: "distinct (map fst ys)" "set xs = set ys"
    using assms by (metis distinct_map mset_eq_imp_distinct_iff mset_map) (metis assms(1) mset_eq_setD)
  have one: "filter (\<lambda>z. fst p = fst z) zs = [p]" if "distinct (map fst zs)" "p \<in> set zs" for p and zs :: "('a \<times> 'b) list"
    using that
  proof (induction zs)
    case (Cons a zs)
    show ?case
    proof (cases "p = a")
      case True
      then show ?thesis using Cons.prems(1) by (force simp: filter_empty_conv)
    next
      case False
      then have "p \<in> set zs" using Cons.prems(2) by simp
      then have "fst p \<in> fst ` set zs" by (rule imageI)
      moreover have "fst a \<notin> fst ` set zs" using Cons.prems(1) by simp
      ultimately have "fst p \<noteq> fst a" by metis
      then show ?thesis using Cons \<open>p \<in> set zs\<close> by simp
    qed
  qed simp
  show "mset (sort_key fst ys) = mset xs" using assms(1) by simp
  show "filter (\<lambda>z. fst p = fst z) (sort_key fst ys) = filter (\<lambda>z. fst p = fst z) xs" if "p \<in> set (sort_key fst ys)" for p
    using that one [OF assms(2)] one [of "sort_key fst ys"] ys by (auto simp: distinct_map)
  show "sorted (map fst (sort_key fst ys))" by (rule sorted_sort_key)
qed

text \<open>A value with the keys of every object in it in order.\<close>

fun canon :: "json \<Rightarrow> json" where
  "canon (JArr xs) = JArr (map canon xs)"
| "canon (JObj kvs) = JObj (sort_key fst (map (\<lambda>(k, v). (k, canon v)) kvs))"
| "canon j = j"

lemma dumps_canon: "dumps tx (canon j) = dumps tx j"
proof (induction j)
  case (JArr xs)
  then have m: "map (dumps tx \<circ> canon) xs = map (dumps tx) xs" by auto
  show ?case by (simp only: canon.simps dumps.simps map_map m)
next
  case (JObj kvs)
  let ?f = "\<lambda>(k, v). (k, dumps tx v)" and ?cs = "map (\<lambda>(k, v). (k, canon v)) kvs"
  have m: "map ?f ?cs = map ?f kvs" using JObj by (auto simp: snds.simps)
  have "map ?f (sort_key fst ?cs) = sort_key fst (map ?f ?cs)" by (rule map_sort_key) (simp add: case_prod_unfold)
  then have "map ?f (sort_key fst ?cs) = sort_key fst (map ?f kvs)" unfolding m .
  moreover have "sort_key fst (sort_key fst zs) = sort_key fst zs" for zs :: "(string \<times> string) list"
    by (rule sort_key_id_if_sorted) (rule sorted_sort_key)
  ultimately show ?case by simp
qed simp_all

text \<open>One prediction has one id. The id depends on the claim and not on the order of its keys, at the top or
  inside its values; two texts of one record give the same id; and the symbol is recovered from the
  id also when it has hyphens itself, which is how a score finds its raise's symbol.\<close>

theorem escalation_id_stable:
  "(canon (JObj r) = canon (JObj r') \<longrightarrow> escalation_id tx symbol d r = escalation_id tx symbol d r') \<and>
   (mset r = mset r' \<and> distinct (map fst r) \<longrightarrow> escalation_id tx symbol d r = escalation_id tx symbol d r') \<and>
   (1 \<le> d \<longrightarrow> rsplit_head 4 (escalation_id tx symbol d r) = symbol)"
proof -
  have deep: "escalation_id tx symbol d r = escalation_id tx symbol d r'" if "canon (JObj r) = canon (JObj r')"
    unfolding escalation_id_def using that dumps_canon by metis
  have "canon (JObj r) = canon (JObj r')" if "mset r = mset r'" "distinct (map fst r)"
  proof -
    have "mset (map (\<lambda>(k, v). (k, canon v)) r) = mset (map (\<lambda>(k, v). (k, canon v)) r')" using that(1) by simp
    moreover have "distinct (map fst (map (\<lambda>(k, v). (k, canon v)) r))" using that(2) by (simp add: o_def case_prod_unfold)
    ultimately show ?thesis using sort_key_perm by fastforce
  qed
  then show ?thesis using deep rsplit_escalation_id by blast
qed

section \<open>Escalations as they are read\<close>

text \<open>The rows of one id: one raise, then its scores.\<close>

definition raised_once :: "escalation_row list \<Rightarrow> bool" where
  "raised_once rows \<longleftrightarrow> rows = [] \<or> (\<exists>r qs. rows = r # qs \<and> es_kind r = ERaise \<and>
     list_all (\<lambda>q. es_kind q = EScore \<and> (\<exists>v. v \<in> set OUTCOMES \<and> es_record q = [(''outcome'', JStr v)])) qs)"

definition of_id :: "string \<Rightarrow> escalation_row list \<Rightarrow> escalation_row list" where
  "of_id i rows = filter (\<lambda>r. es_id r = i) rows"

definition raise_ok :: "dict \<Rightarrow> bool" where
  "raise_ok record \<longleftrightarrow>
     (\<forall>k \<in> set RESERVED_ON_RAISE. map_of record k = None) \<and>
     (\<exists>c. c \<noteq> [] \<and> map_of record ''claim'' = Some (JStr c)) \<and>
     (\<exists>v. v \<in> set DIRECTIONS \<and> map_of record ''direction'' = Some (JStr v)) \<and>
     (\<exists>e. DATE_RE e \<and> map_of record ''event_date'' = Some (JStr e)) \<and>
     (\<exists>types. map_of record ''source_types'' = Some (JArr types) \<and> 2 \<le> card (bar_types types))"

definition escalations_wf :: "research \<Rightarrow> bool" where
  "escalations_wf rs \<longleftrightarrow>
     (\<forall>i. raised_once (of_id i (rs_escalations rs))) \<and>
     list_all (\<lambda>r. es_symbol r = rsplit_head 4 (es_id r)) (rs_escalations rs) \<and>
     list_all (\<lambda>r. es_kind r = ERaise \<longrightarrow> raise_ok (es_record r)) (rs_escalations rs)"

lemma raise_exists_iff: "escalation_raise_exists rs i \<longleftrightarrow> (\<exists>r \<in> set (of_id i (rs_escalations rs)). es_kind r = ERaise)"
  by (auto simp: escalation_raise_exists_def of_id_def list_ex_iff)

lemma validate_raise_ok:
  assumes "validate_raise record = Inr u"
  shows "raise_ok record"
proof -
  have unit: "map_e f xs = Inr us \<Longrightarrow> x \<in> set xs \<Longrightarrow> f x = Inr ()" for f :: "string \<Rightarrow> exn + unit" and xs us x
    by (induction xs arbitrary: us) (auto simp: err)
  from assms obtain us c v where
    r: "map_e (\<lambda>k. raise_if (map_of record k \<noteq> None) (LedgerRefused (ReservedOnRaise k))) RESERVED_ON_RAISE = Inr us"
    and c: "nonempty_str record ''claim'' = Inr c" and v: "nonempty_str record ''direction'' = Inr v" "v \<in> set DIRECTIONS"
    and e: "\<exists>e. date_str (map_of record ''event_date'') ''event_date'' = Inr e"
    and t: "\<exists>types. (case map_of record ''source_types'' of Some (JArr types) \<Rightarrow> Inr types | _ \<Rightarrow> Inl (LedgerRefused TypesNotArray)) = Inr types \<and> \<not> card (bar_types types) < 2"
    unfolding validate_raise_def by (auto simp: err)
  have "\<forall>k \<in> set RESERVED_ON_RAISE. map_of record k = None" using unit [OF r] by (auto simp: raise_if_eq_Inr)
  moreover have "\<exists>types. map_of record ''source_types'' = Some (JArr types) \<and> 2 \<le> card (bar_types types)"
    using t by (auto split: option.splits json.splits)
  moreover have "\<exists>c. c \<noteq> [] \<and> map_of record ''claim'' = Some (JStr c)"
    using c by (auto simp: nonempty_str_def split: option.splits json.splits if_splits)
  moreover have "\<exists>v. v \<in> set DIRECTIONS \<and> map_of record ''direction'' = Some (JStr v)"
    using v by (auto simp: nonempty_str_def split: option.splits json.splits if_splits)
  moreover have "\<exists>e. DATE_RE e \<and> map_of record ''event_date'' = Some (JStr e)"
    using e by (auto simp: date_str_def split: option.splits json.splits if_splits)
  ultimately show ?thesis by (simp add: raise_ok_def)
qed

lemma check_symbol_Inr [err]: "check_symbol v = Inr s \<longleftrightarrow> v = Some (JStr s) \<and> SYMBOL_RE s"
  by (auto simp: check_symbol_def SYMBOL_RE_def before_dollar_def split: option.splits json.splits)

lemma raise_row_Inr:
  assumes "raise_row tx symbol d record = Inr row"
  shows "row = \<lparr>es_id = escalation_id tx symbol d record, es_kind = ERaise, es_symbol = symbol, es_at = isoformat d, es_record = record\<rparr>"
    and "SYMBOL_RE symbol" and "raise_ok record"
  using assms validate_raise_ok by (auto simp: raise_row_def err)

lemma escalation_raise_facts:
  assumes "escalation_raise tx rs symbol d record = Inr (eid, rs')"
  shows "eid = escalation_id tx symbol d record" and "\<not> escalation_raise_exists rs eid"
    and "rs' = insert_escalation \<lparr>es_id = eid, es_kind = ERaise, es_symbol = symbol, es_at = isoformat d, es_record = record\<rparr> rs"
    and "SYMBOL_RE symbol" and "raise_ok record"
proof -
  from assms obtain row where row: "raise_row tx symbol d record = Inr row" "\<not> escalation_raise_exists rs (es_id row)"
    "eid = es_id row" "rs' = insert_escalation row rs"
    by (auto simp: escalation_raise_def raise_check_def err)
  show "eid = escalation_id tx symbol d record" "\<not> escalation_raise_exists rs eid" "SYMBOL_RE symbol" "raise_ok record"
    "rs' = insert_escalation \<lparr>es_id = eid, es_kind = ERaise, es_symbol = symbol, es_at = isoformat d, es_record = record\<rparr> rs"
    using raise_row_Inr [OF row(1)] row(2-4) by simp_all
qed

lemma of_id_snoc: "of_id i (rows @ [r]) = (if es_id r = i then of_id i rows @ [r] else of_id i rows)"
  by (simp add: of_id_def)

lemma escalation_raise_wf:
  assumes "escalations_wf rs" and "1 \<le> d" and "escalation_raise tx rs symbol d record = Inr (eid, rs')"
  shows "escalations_wf rs'"
proof -
  note f = escalation_raise_facts [OF assms(3)]
  have "of_id eid (rs_escalations rs) = []"
    using assms(1) f(2) by (auto simp: escalations_wf_def raised_once_def raise_exists_iff)
  then show ?thesis using assms(1) f rsplit_escalation_id [OF assms(2)]
    by (auto simp: escalations_wf_def insert_escalation_def of_id_snoc raised_once_def)
qed

lemma escalation_score_wf:
  assumes "escalations_wf rs" and "escalation_score rs eid result d = Inr rs'"
  shows "escalations_wf rs'"
proof -
  from assms(2) have res: "result \<in> set OUTCOMES" and e: "escalation_raise_exists rs eid"
    and rs': "rs' = insert_escalation \<lparr>es_id = eid, es_kind = EScore, es_symbol = rsplit_head 4 eid, es_at = isoformat d,
                             es_record = [(''outcome'', JStr result)]\<rparr> rs"
    by (auto simp: escalation_score_def score_check_def score_row_def err)
  have "of_id eid (rs_escalations rs) \<noteq> []" using e by (auto simp: raise_exists_iff)
  moreover have "raised_once (of_id eid (rs_escalations rs))" using assms(1) by (simp add: escalations_wf_def)
  ultimately obtain r qs where "of_id eid (rs_escalations rs) = r # qs" "es_kind r = ERaise"
    "list_all (\<lambda>q. es_kind q = EScore \<and> (\<exists>v. v \<in> set OUTCOMES \<and> es_record q = [(''outcome'', JStr v)])) qs"
    by (auto simp: raised_once_def)
  then have "raised_once (of_id eid (rs_escalations rs) @ [\<lparr>es_id = eid, es_kind = EScore, es_symbol = rsplit_head 4 eid,
      es_at = isoformat d, es_record = [(''outcome'', JStr result)]\<rparr>])"
    using res by (auto simp: raised_once_def)
  then show ?thesis using assms(1) by (auto simp: rs' escalations_wf_def insert_escalation_def of_id_snoc)
qed





section \<open>Running the writers\<close>

inductive research_step :: "texts \<Rightarrow> research \<Rightarrow> research \<Rightarrow> bool" for tx where
  step_evidence: "evidence_append rs symbol d record = Inr (i, rs') \<Longrightarrow> research_step tx rs rs'"
| step_raise: "1 \<le> d \<Longrightarrow> escalation_raise tx rs symbol d record = Inr (eid, rs') \<Longrightarrow> research_step tx rs rs'"
| step_score: "escalation_score rs eid result d = Inr rs' \<Longrightarrow> research_step tx rs rs'"
| step_sectors: "sector_write rs rows d = Inr (counts, rs') \<Longrightarrow> research_step tx rs rs'"
| step_ledger: "ledger_append tx rs nm d j = Inr (done, rs') \<Longrightarrow> research_step tx rs rs'"
| step_tombstone: "tombstone tx rs symbol d gate why ref_price hypo_qty hypo_stop = Inr (done, rs') \<Longrightarrow> research_step tx rs rs'"

definition evidence_ok :: "evidence_row \<Rightarrow> bool" where
  "evidence_ok r \<longleftrightarrow> SYMBOL_RE (ev_symbol r) \<and> ev_claim r \<noteq> [] \<and> ev_url r \<noteq> [] \<and> ev_independence r \<noteq> [] \<and>
     ev_source r \<in> set SOURCE_TYPES \<and> ev_observed r = ev_date r"

definition oi_unique :: "research \<Rightarrow> bool" where
  "oi_unique rs \<longleftrightarrow> distinct (map (\<lambda>r. (lr_date r, lr_symbol r)) (rs_ledgers rs ''oi_snapshots''))"

definition sectors_wf :: "research \<Rightarrow> bool" where
  "sectors_wf rs \<longleftrightarrow> distinct (map fst (rs_sectors rs)) \<and> list_all (\<lambda>(s, sector, d). SYMBOL_RE s \<and> sector \<in> set SECTORS) (rs_sectors rs)"

definition tables_ok :: "research \<Rightarrow> bool" where
  "tables_ok rs \<longleftrightarrow> sorted_wrt (<) (map ev_id (rs_evidence rs)) \<and> list_all evidence_ok (rs_evidence rs) \<and> oi_unique rs \<and> sectors_wf rs"

definition research_inv :: "research \<Rightarrow> bool" where
  "research_inv rs \<longleftrightarrow> escalations_wf rs \<and> tables_ok rs"

lemma nonempty_str_Inr [err]: "nonempty_str record k = Inr s \<longleftrightarrow> map_of record k = Some (JStr s) \<and> s \<noteq> []"
  by (auto simp: nonempty_str_def split: option.splits json.splits)

lemma evidence_append_facts:
  assumes "evidence_append rs symbol d record = Inr (i, rs')"
  shows "\<exists>row. rs' = rs\<lparr>rs_evidence := rs_evidence rs @ [row]\<rparr> \<and> ev_id row = i \<and> i = next_id ev_id (rs_evidence rs) \<and> evidence_ok row"
proof -
  from assms obtain claim url independence source extra where
    ok: "SYMBOL_RE symbol" "claim \<noteq> []" "url \<noteq> []" "independence \<noteq> []" "source \<in> set SOURCE_TYPES"
    and ins: "insert_evidence \<lparr>ev_id = 0, ev_symbol = symbol, ev_date = isoformat d, ev_claim = claim, ev_url = url,
      ev_source = source, ev_observed = isoformat d, ev_independence = independence, ev_extra = extra\<rparr> rs = (i, rs')"
    unfolding evidence_append_def err by auto
  from ins show ?thesis unfolding insert_evidence_def Let_def by (auto simp: evidence_ok_def ok)
qed

definition tag_in :: "dict \<Rightarrow> (string \<times> string) option" where
  "tag_in row =
     (case (map_of row ''symbol'', map_of row ''sector'') of
        (Some (JStr tk), Some (JStr s)) \<Rightarrow> if SYMBOL_RE tk \<and> s \<in> set SECTORS then Some (tk, s) else None
      | _ \<Rightarrow> None)"

lemma check_rows_Cons:
  "check_rows i (row # rows) ds acc = Inr v \<longleftrightarrow>
     (\<exists>tk s. tag_in row = Some (tk, s) \<and> check_rows (i + 1) rows ds (AList.update tk (s, ds) acc) = Inr v)"
proof (cases "check_symbol (map_of row ''symbol'')")
  case (Inl e)
  then have "tag_in row = None"
    by (auto simp: tag_in_def check_symbol_def SYMBOL_RE_def before_dollar_def split: option.splits json.splits if_splits)
  then show ?thesis by (simp add: Inl)
next
  case (Inr tk)
  then have tk: "map_of row ''symbol'' = Some (JStr tk)" "SYMBOL_RE tk" by (simp_all add: err)
  show ?thesis
  proof (cases "\<exists>s. map_of row ''sector'' = Some (JStr s) \<and> s \<in> set SECTORS")
    case True
    then show ?thesis using Inr tk by (auto simp: tag_in_def)
  next
    case False
    then show ?thesis using Inr tk by (auto simp: tag_in_def split: option.splits json.splits)
  qed
qed

lemma tag_in_ok: "tag_in row = Some (tk, s) \<Longrightarrow> SYMBOL_RE tk \<and> s \<in> set SECTORS"
  by (auto simp: tag_in_def split: option.splits json.splits if_splits)

lemma check_rows_facts:
  "check_rows i rows ds acc = Inr v \<Longrightarrow> distinct (map fst acc) \<Longrightarrow> list_all (\<lambda>(s, sector, d). SYMBOL_RE s \<and> sector \<in> set SECTORS) acc \<Longrightarrow>
     distinct (map fst v) \<and> list_all (\<lambda>(s, sector, d). SYMBOL_RE s \<and> sector \<in> set SECTORS) v"
proof (induction rows arbitrary: i acc)
  case (Cons row rows)
  from Cons.prems(1) obtain tk s where s: "tag_in row = Some (tk, s)" "check_rows (i + 1) rows ds (AList.update tk (s, ds) acc) = Inr v"
    unfolding check_rows_Cons by blast
  have "list_all (\<lambda>(s, sector, d). SYMBOL_RE s \<and> sector \<in> set SECTORS) (AList.update tk (s, ds) acc)"
    using Cons.prems(3) tag_in_ok [OF s(1)] by (induction acc) (auto simp del: fun_upd_apply)
  with Cons.IH [OF s(2)] Cons.prems(2) show ?case by (simp add: distinct_update)
qed simp

lemma tag_fold:
  "fold tag_sector v (n, r, tbl) = (n', r', tbl') \<Longrightarrow> distinct (map fst tbl) \<Longrightarrow>
     distinct (map fst tbl') \<and> (\<forall>p \<in> set tbl'. p \<in> set tbl \<or> p \<in> set v)"
proof (induction v arbitrary: n r tbl)
  case (Cons row v)
  obtain s sector d where row: "row = (s, sector, d)" by (cases row) auto
  obtain n1 r1 where t: "tag_sector row (n, r, tbl) = (n1, r1, AList.update s (sector, d) tbl)" by (simp add: tag_sector_def row)
  have "p \<in> set (AList.update s (sector, d) tbl) \<Longrightarrow> p \<in> set tbl \<or> p = row" for p
    by (induction tbl) (auto simp: row split: if_splits)
  then show ?case using Cons.IH [of n1 r1 "AList.update s (sector, d) tbl"] Cons.prems t by (auto simp: distinct_update)
qed auto

lemma sector_write_wf:
  assumes "sectors_wf rs" and "sector_write rs rows d = Inr (counts, rs')"
  shows "sectors_wf rs'" and "rs' = rs\<lparr>rs_sectors := rs_sectors rs'\<rparr>"
proof -
  from assms(2) obtain v n r tbl where v: "check_rows 1 rows (isoformat d) [] = Inr v" "fold tag_sector v (0, 0, rs_sectors rs) = (n, r, tbl)"
    "rs' = rs\<lparr>rs_sectors := tbl\<rparr>"
    unfolding sector_write_def upsert_sectors_def Let_def by (auto simp: err split: prod.splits)
  show "rs' = rs\<lparr>rs_sectors := rs_sectors rs'\<rparr>" by (simp add: v(3))
  show "sectors_wf rs'"
    using assms(1) check_rows_facts [OF v(1)] tag_fold [OF v(2)] by (auto simp: sectors_wf_def v(3) list_all_iff; blast)
qed

text \<open>The ledgers of records: a refusal is typed, a skip writes nothing, and a write is one row.\<close>

lemma ledger_append_cases:
  obtains (refused) x where "ledger_append tx rs nm d j = Inl (LedgerRefused x)"
    | (skipped) r tk where "ledger_append tx rs nm d j = Inr (False, rs)" "nm = ''oi''" "j = JObj r"
        "map_of r ''symbol'' = Some (JStr tk)" "oi_symbol_seen rs d tk"
    | (written) table r row where "ledger_append tx rs nm d j = Inr (True, rs\<lparr>rs_ledgers := (rs_ledgers rs)(table := rs_ledgers rs table @ [row])\<rparr>)"
        "map_of LEDGER_TABLES nm = Some table" "j = JObj r" "lr_record row = r" "lr_date row = isoformat d"
        "nm = ''oi'' \<longrightarrow> map_of r ''symbol'' = Some (JStr (lr_symbol row)) \<and> \<not> oi_symbol_seen rs d (lr_symbol row)"
proof -
  have refuse: "map_e (present r) ks = Inl e \<Longrightarrow> \<exists>x. e = LedgerRefused x" for r ks e
    by (induction ks) (auto simp: err present_def split: option.splits if_splits)
  have oi: "table = ''oi_snapshots'' \<longleftrightarrow> nm = ''oi''" if "map_of LEDGER_TABLES nm = Some table" for table
    using that by (auto simp: LEDGER_TABLES_def split: if_splits)
  have "(\<exists>x. ledger_append tx rs nm d j = Inl (LedgerRefused x)) \<or>
    (\<exists>r tk. ledger_append tx rs nm d j = Inr (False, rs) \<and> nm = ''oi'' \<and> j = JObj r \<and> map_of r ''symbol'' = Some (JStr tk) \<and> oi_symbol_seen rs d tk) \<or>
    (\<exists>table r row. ledger_append tx rs nm d j = Inr (True, rs\<lparr>rs_ledgers := (rs_ledgers rs)(table := rs_ledgers rs table @ [row])\<rparr>) \<and>
        map_of LEDGER_TABLES nm = Some table \<and> j = JObj r \<and> lr_record row = r \<and> lr_date row = isoformat d \<and>
        (nm = ''oi'' \<longrightarrow> map_of r ''symbol'' = Some (JStr (lr_symbol row)) \<and> \<not> oi_symbol_seen rs d (lr_symbol row)))"
  proof (cases "map_of LEDGER_REQUIRED nm = None \<or> map_of LEDGER_TABLES nm = None \<or> \<not> is_obj j")
    case True
    then show ?thesis by (auto simp: ledger_append_def is_obj_def split: option.splits json.splits)
  next
    case False
    then obtain ks table r where k: "map_of LEDGER_REQUIRED nm = Some ks" "map_of LEDGER_TABLES nm = Some table" "j = JObj r"
      by (auto simp: is_obj_def split: json.splits)
    show ?thesis
    proof (cases "map_e (present r) ks")
      case (Inl e)
      then show ?thesis using refuse [OF Inl] by (auto simp: ledger_append_def k)
    next
      case (Inr vs)
      show ?thesis
      proof (cases "nm = ''oi''")
        case True
        then have "table = ''oi_snapshots''" using oi [OF k(2)] by simp
        then show ?thesis using k Inr True unfolding ledger_append_def append_ledger_def Let_def check_symbol_def
          by (auto simp: oi_symbol_seen_def split: option.splits json.splits if_splits)
      next
        case False
        then have "table \<noteq> ''oi_snapshots''" using oi [OF k(2)] by simp
        then show ?thesis using k Inr False unfolding ledger_append_def append_ledger_def Let_def
          by (auto simp: raise_if_def)
      qed
    qed
  qed
  then show thesis using refused skipped written by blast
qed

lemma tombstone_is_append: "tombstone tx rs symbol d gate why ref_price hypo_qty hypo_stop = Inr (ok, rs') \<Longrightarrow> \<exists>j. ledger_append tx rs ''tombstones'' d j = Inr (ok, rs')"
  by (auto simp: tombstone_def err)

lemma ledger_append_keeps:
  assumes "ledger_append tx rs nm d j = Inr (ok, rs')"
  shows "rs_evidence rs' = rs_evidence rs" and "rs_escalations rs' = rs_escalations rs" and "rs_sectors rs' = rs_sectors rs"
    and "prefix (rs_ledgers rs table) (rs_ledgers rs' table)" and "oi_unique rs \<Longrightarrow> oi_unique rs'"
proof -
  have *: "rs_evidence rs' = rs_evidence rs \<and> rs_escalations rs' = rs_escalations rs \<and> rs_sectors rs' = rs_sectors rs \<and>
    prefix (rs_ledgers rs table) (rs_ledgers rs' table) \<and> (oi_unique rs \<longrightarrow> oi_unique rs')"
  proof (cases rule: ledger_append_cases [of tx rs nm d j])
    case (written tb r row)
    have "oi_unique rs'" if "oi_unique rs"
    proof (cases "tb = ''oi_snapshots''")
      case True
      then have "nm = ''oi''" using written(2) by (auto simp: LEDGER_TABLES_def split: if_splits)
      then have "\<not> oi_symbol_seen rs d (lr_symbol row)" using written(6) by simp
      then show ?thesis using that assms written(1) True written(5)
        by (auto simp: oi_unique_def oi_symbol_seen_def list_ex_iff; blast)
    next
      case False
      then show ?thesis using that assms written(1) by (auto simp: oi_unique_def)
    qed
    then show ?thesis using assms written(1) by auto
  next
    case (skipped r tk)
    then show ?thesis using assms by simp
  next
    case (refused x)
    then show ?thesis using assms by simp
  qed
  then show "rs_evidence rs' = rs_evidence rs" "rs_escalations rs' = rs_escalations rs" "rs_sectors rs' = rs_sectors rs"
    "prefix (rs_ledgers rs table) (rs_ledgers rs' table)" "oi_unique rs \<Longrightarrow> oi_unique rs'" by simp_all
qed

lemma research_inv_empty: "research_inv empty_research"
  by (simp add: research_inv_def tables_ok_def empty_research_def escalations_wf_def raised_once_def of_id_def oi_unique_def sectors_wf_def)

lemma evidence_append_tables:
  assumes "tables_ok rs" and "evidence_append rs symbol d record = Inr (i, rs')"
  shows "tables_ok rs'" and "rs_escalations rs' = rs_escalations rs"
proof -
  obtain row where row: "rs' = rs\<lparr>rs_evidence := rs_evidence rs @ [row]\<rparr>" "ev_id row = next_id ev_id (rs_evidence rs)" "evidence_ok row"
    using evidence_append_facts [OF assms(2)] by blast
  have "\<forall>r \<in> set (rs_evidence rs). ev_id r < ev_id row" using next_id_greater by (auto simp: row(2))
  then show "tables_ok rs'" "rs_escalations rs' = rs_escalations rs" using assms(1) row(3)
    by (auto simp: tables_ok_def row(1) sorted_wrt_append oi_unique_def sectors_wf_def)
qed

lemma research_step_tables: "research_step tx rs rs' \<Longrightarrow> tables_ok rs \<Longrightarrow> tables_ok rs'"
proof (induction rule: research_step.induct)
  case (step_evidence rs symbol d claim i rs')
  then show ?case using evidence_append_tables(1) by blast
next
  case (step_raise d rs symbol claim eid rs')
  from escalation_raise_facts(3) [OF step_raise(2)] step_raise(3)
  show ?case by (simp add: tables_ok_def insert_escalation_def oi_unique_def sectors_wf_def)
next
  case (step_score rs eid result d rs')
  then show ?case by (auto simp: tables_ok_def escalation_score_def score_check_def score_row_def err insert_escalation_def oi_unique_def sectors_wf_def)
next
  case (step_sectors rs rows d counts rs')
  have "sectors_wf rs" using step_sectors(2) by (simp add: tables_ok_def)
  note w = sector_write_wf [OF this step_sectors(1)]
  obtain t where "rs' = rs\<lparr>rs_sectors := t\<rparr>" using w(2) by blast
  then show ?case using w(1) step_sectors(2) by (simp add: tables_ok_def oi_unique_def)
next
  case (step_ledger rs nm d j ok rs')
  from ledger_append_keeps [OF step_ledger(1)] step_ledger(2)
  show ?case by (simp add: tables_ok_def sectors_wf_def)
next
  case (step_tombstone rs symbol d gate why ref_price hypo_qty hypo_stop ok rs')
  then obtain j where "ledger_append tx rs ''tombstones'' d j = Inr (ok, rs')" using tombstone_is_append by blast
  from ledger_append_keeps [OF this] step_tombstone(2) show ?case by (simp add: tables_ok_def sectors_wf_def)
qed

lemma research_step_escalations: "research_step tx rs rs' \<Longrightarrow> escalations_wf rs \<Longrightarrow> escalations_wf rs'"
proof (induction rule: research_step.induct)
  case (step_evidence rs symbol d claim i rs')
  then show ?case using evidence_append_facts by (fastforce simp: escalations_wf_def)
next
  case (step_raise d rs symbol claim eid rs')
  then show ?case using escalation_raise_wf by blast
next
  case (step_score rs eid result d rs')
  then show ?case using escalation_score_wf by blast
next
  case (step_sectors rs rows d counts rs')
  then show ?case by (auto simp: sector_write_def upsert_sectors_def Let_def escalations_wf_def err split: prod.splits)
next
  case (step_ledger rs nm d j ok rs')
  from ledger_append_keeps [OF step_ledger(1)] step_ledger(2) show ?case by (simp add: escalations_wf_def)
next
  case (step_tombstone rs symbol d gate why ref_price hypo_qty hypo_stop ok rs')
  then obtain j where "ledger_append tx rs ''tombstones'' d j = Inr (ok, rs')" using tombstone_is_append by blast
  from ledger_append_keeps [OF this] step_tombstone(2) show ?case by (simp add: escalations_wf_def)
qed

lemma research_step_inv: "research_step tx rs rs' \<Longrightarrow> research_inv rs \<Longrightarrow> research_inv rs'"
  using research_step_tables research_step_escalations by (simp add: research_inv_def)

lemma research_step_grows:
  assumes "research_step tx rs rs'"
  shows "prefix (rs_evidence rs) (rs_evidence rs')" and "prefix (rs_escalations rs) (rs_escalations rs')"
    and "prefix (rs_ledgers rs table) (rs_ledgers rs' table)"
proof -
  have "prefix (rs_evidence rs) (rs_evidence rs') \<and> prefix (rs_escalations rs) (rs_escalations rs') \<and>
    prefix (rs_ledgers rs table) (rs_ledgers rs' table)"
    using assms
  proof (induction rule: research_step.induct)
    case (step_evidence rs symbol d claim i rs')
    from evidence_append_facts [OF this] show ?case by auto
  next
    case (step_raise d rs symbol claim eid rs')
    from escalation_raise_facts(3) [OF step_raise(2)] show ?case by (simp add: insert_escalation_def)
  next
    case (step_score rs eid result d rs')
    then show ?case by (auto simp: escalation_score_def score_check_def score_row_def err insert_escalation_def)
  next
    case (step_sectors rs rows d counts rs')
    then show ?case by (auto simp: sector_write_def upsert_sectors_def Let_def err split: prod.splits)
  next
    case (step_ledger rs nm d j ok rs')
    from ledger_append_keeps [OF this] show ?case by simp
  next
    case (step_tombstone rs symbol d gate why ref_price hypo_qty hypo_stop ok rs')
    then obtain j where "ledger_append tx rs ''tombstones'' d j = Inr (ok, rs')" using tombstone_is_append by blast
    from ledger_append_keeps [OF this] show ?case by simp
  qed
  then show "prefix (rs_evidence rs) (rs_evidence rs')" "prefix (rs_escalations rs) (rs_escalations rs')"
    "prefix (rs_ledgers rs table) (rs_ledgers rs' table)" by simp_all
qed

interpretation research: invariant "\<lambda>rs. rs = empty_research" "research_step tx" research_inv for tx
  by unfold_locales (auto simp: research_inv_empty intro: research_step_inv)

section \<open>Overlapping writers\<close>

text \<open>
  The lookup of a raise's id and the insert of its row are two uses of the store, with no constraint
  on the table between them (tc/research/ledgers.py); the importer inserts its raises in the same two
  steps (tc/research/importer.py). A state here is the tables and the rows that are checked and
  not yet written; the process may also stop before a row is written. The other writers are one use
  of the store each, except that of a ledger, whose check may have read an earlier state.
\<close>

type_synonym writers = "research \<times> escalation_row list"

inductive writer_step :: "texts \<Rightarrow> writers \<Rightarrow> writers \<Rightarrow> bool" for tx where
  w_raise: "raise_check tx rs symbol d record = Inr row \<Longrightarrow>
     writer_step tx (rs, pending) (rs, pending @ [row])"
| w_import: "import_check rs record = Inr (Some row) \<Longrightarrow>
     writer_step tx (rs, pending) (rs, pending @ [row])"
| w_score: "score_check rs eid result d = Inr row \<Longrightarrow>
     writer_step tx (rs, pending) (rs, pending @ [row])"
| w_insert: "row \<in> set pending \<Longrightarrow> writer_step tx (rs, pending) (insert_escalation row rs, remove1 row pending)"
| w_stop: "writer_step tx (rs, pending) (rs, [])"
| w_late: "append_ledger rs nm d symbol record = Inr rs' \<Longrightarrow> writer_step tx (rs, pending) (rs', pending)"
| w_other: "research_step tx rs rs' \<Longrightarrow> rs_escalations rs' = rs_escalations rs \<Longrightarrow> writer_step tx (rs, pending) (rs', pending)"

definition is_raise :: "escalation_row \<Rightarrow> bool" where "is_raise r \<longleftrightarrow> es_kind r = ERaise"

text \<open>Runs in which no two raises of one id are pending together.\<close>

definition no_race :: "writers \<Rightarrow> bool" where
  "no_race s \<longleftrightarrow> distinct (map es_id (filter is_raise (snd s)))"

definition row_ok :: "escalation_row \<Rightarrow> bool" where
  "row_ok r \<longleftrightarrow>
     (if is_raise r then SYMBOL_RE (es_symbol r) \<and> raise_ok (es_record r)
      else es_symbol r = rsplit_head 4 (es_id r) \<and> (\<exists>v \<in> set OUTCOMES. es_record r = [(''outcome'', JStr v)]))"

definition scores_follow :: "escalation_row list \<Rightarrow> bool" where
  "scores_follow rows \<longleftrightarrow>
     (\<forall>k < length rows. \<not> is_raise (rows ! k) \<longrightarrow> (\<exists>j < k. is_raise (rows ! j) \<and> es_id (rows ! j) = es_id (rows ! k)))"

definition writers_inv :: "writers \<Rightarrow> bool" where
  "writers_inv s \<longleftrightarrow>
     (\<forall>r \<in> set (rs_escalations (fst s) @ snd s). row_ok r) \<and> scores_follow (rs_escalations (fst s)) \<and>
     (\<forall>r \<in> set (snd s). \<not> is_raise r \<longrightarrow> escalation_raise_exists (fst s) (es_id r)) \<and> tables_ok (fst s)"

lemma scores_follow_snoc:
  assumes "scores_follow rows" and "\<not> is_raise r \<longrightarrow> (\<exists>q \<in> set rows. is_raise q \<and> es_id q = es_id r)"
  shows "scores_follow (rows @ [r])"
  unfolding scores_follow_def
proof (intro allI impI)
  fix k
  assume k: "k < length (rows @ [r])" and no: "\<not> is_raise ((rows @ [r]) ! k)"
  show "\<exists>j < k. is_raise ((rows @ [r]) ! j) \<and> es_id ((rows @ [r]) ! j) = es_id ((rows @ [r]) ! k)"
  proof (cases "k < length rows")
    case True
    with no have "\<not> is_raise (rows ! k)" by (simp add: nth_append)
    then obtain j where "j < k" "is_raise (rows ! j)" "es_id (rows ! j) = es_id (rows ! k)"
      using assms(1) True by (auto simp: scores_follow_def)
    then show ?thesis using True by (auto simp: nth_append intro!: exI [of _ j])
  next
    case False
    with k no have e: "k = length rows" "\<not> is_raise r" by (simp_all add: nth_append)
    then obtain j where "j < length rows" "is_raise (rows ! j)" "es_id (rows ! j) = es_id r"
      using assms(2) by (metis in_set_conv_nth)
    then show ?thesis by (auto simp: e(1) nth_append intro!: exI [of _ j])
  qed
qed

lemma raise_found: "escalation_raise_exists rs i \<longleftrightarrow> (\<exists>q \<in> set (rs_escalations rs). is_raise q \<and> es_id q = i)"
  by (auto simp: escalation_raise_exists_def list_ex_iff is_raise_def)

lemma import_raise_row_Inr:
  assumes "import_raise_row record = Inr row"
  shows "row_ok row" and "is_raise row"
proof -
  from assms show "row_ok row" "is_raise row"
    using validate_raise_ok unfolding import_raise_row_def Let_def by (auto simp: err row_ok_def is_raise_def)
qed

lemma raise_row_ok: "raise_row tx symbol d record = Inr row \<Longrightarrow> row_ok row \<and> is_raise row"
  by (frule raise_row_Inr(1), frule raise_row_Inr(2), drule raise_row_Inr(3)) (simp add: row_ok_def is_raise_def)

lemma score_row_ok: "score_row eid result d = Inr row \<Longrightarrow> row_ok row \<and> \<not> is_raise row \<and> es_id row = eid"
  by (auto simp: score_row_def err row_ok_def is_raise_def)

lemma checked_row:
  "raise_check tx rs symbol d record = Inr row \<Longrightarrow> row_ok row \<and> is_raise row \<and> \<not> escalation_raise_exists rs (es_id row)"
  "import_check rs record = Inr (Some row) \<Longrightarrow> row_ok row \<and> is_raise row \<and> \<not> escalation_raise_exists rs (es_id row)"
  "score_check rs eid result d = Inr row \<Longrightarrow> row_ok row \<and> \<not> is_raise row \<and> escalation_raise_exists rs (es_id row)"
  using raise_row_ok import_raise_row_Inr score_row_ok
  by (fastforce simp: raise_check_def import_check_def score_check_def err split: if_splits)+

lemma append_ledger_late:
  assumes "append_ledger rs nm d symbol record = Inr rs'"
  shows "rs_escalations rs' = rs_escalations rs" and "tables_ok rs \<Longrightarrow> tables_ok rs'" and "rs_evidence rs' = rs_evidence rs"
    and "prefix (rs_ledgers rs table) (rs_ledgers rs' table)"
proof -
  obtain tbl row where w: "rs' = rs\<lparr>rs_ledgers := (rs_ledgers rs)(tbl := rs_ledgers rs tbl @ [row])\<rparr>"
    and new: "tbl = ''oi_snapshots'' \<longrightarrow> (\<forall>r \<in> set (rs_ledgers rs tbl). \<not> (lr_date r = lr_date row \<and> lr_symbol r = lr_symbol row))"
    using assms unfolding append_ledger_def Let_def by (auto simp: err list_ex_iff split: if_splits)
  show "rs_escalations rs' = rs_escalations rs" "rs_evidence rs' = rs_evidence rs"
    "prefix (rs_ledgers rs table) (rs_ledgers rs' table)" by (simp_all add: w)
  have "(lr_date row, lr_symbol row) \<notin> (\<lambda>r. (lr_date r, lr_symbol r)) ` set (rs_ledgers rs tbl)" if "tbl = ''oi_snapshots''"
    using new that by auto
  then show "tables_ok rs \<Longrightarrow> tables_ok rs'" by (auto simp: w tables_ok_def oi_unique_def sectors_wf_def)
qed

lemma writer_step_inv: "writers_inv s \<Longrightarrow> writer_step tx s s' \<Longrightarrow> writers_inv s'"
proof (erule writer_step.cases, goal_cases)
  case (1 rs symbol d claim row pending)
  with checked_row(1) show ?case by (fastforce simp: writers_inv_def)
next
  case (2 rs claim row pending)
  with checked_row(2) show ?case by (fastforce simp: writers_inv_def)
next
  case (3 rs eid result d row pending)
  with checked_row(3) show ?case by (fastforce simp: writers_inv_def)
next
  case (4 row pending rs)
  then have inv: "writers_inv (rs, pending)" by simp
  have "scores_follow (rs_escalations rs @ [row])"
    using inv 4(2) by (intro scores_follow_snoc) (auto simp: writers_inv_def 4 raise_found)
  moreover have "set (remove1 row pending) \<subseteq> set pending" by (rule set_remove1_subset)
  moreover have "escalation_raise_exists rs i \<Longrightarrow> escalation_raise_exists (insert_escalation row rs) i" for i
    by (auto simp: raise_found insert_escalation_def)
  ultimately show ?case using inv 4(3,4) by (fastforce simp: writers_inv_def insert_escalation_def tables_ok_def oi_unique_def sectors_wf_def)
next
  case (5 rs pending)
  then show ?case by (simp add: writers_inv_def)
next
  case (6 rs nm d symbol claim rs' pending)
  then show ?case using append_ledger_late(1,2) [OF 6(4)] by (simp add: writers_inv_def raise_found)
next
  case (7 rs rs' pending)
  then show ?case using research_step_tables [OF 7(4)] by (simp add: writers_inv_def raise_found)
qed

lemma writers_inv_empty: "writers_inv (empty_research, [])"
  by (simp add: writers_inv_def scores_follow_def tables_ok_def empty_research_def oi_unique_def sectors_wf_def)

lemma writer_step_grows:
  assumes "writer_step tx s s'"
  shows "prefix (rs_evidence (fst s)) (rs_evidence (fst s'))" and "prefix (rs_escalations (fst s)) (rs_escalations (fst s'))"
    and "prefix (rs_ledgers (fst s) table) (rs_ledgers (fst s') table)"
  using assms by (auto elim!: writer_step.cases simp: insert_escalation_def append_ledger_late research_step_grows)

interpretation writers: invariant "\<lambda>s. s = (empty_research, [])" "writer_step tx" writers_inv for tx
  by unfold_locales (auto simp: writers_inv_empty intro: writer_step_inv)

interpretation evidence: append_only "\<lambda>s. s = (empty_research, [])" "writer_step tx" writers_inv "\<lambda>s. rs_evidence (fst s)" for tx
  by unfold_locales (rule writer_step_grows)

interpretation escalated: append_only "\<lambda>s. s = (empty_research, [])" "writer_step tx" writers_inv "\<lambda>s. rs_escalations (fst s)" for tx
  by unfold_locales (rule writer_step_grows)

interpretation recorded: append_only "\<lambda>s. s = (empty_research, [])" "writer_step tx" writers_inv "\<lambda>s. rs_ledgers (fst s) table" for tx table
  by unfold_locales (rule writer_step_grows)

text \<open>Without a race, the raises written and pending have different ids.\<close>

definition raised_apart :: "writers \<Rightarrow> bool" where
  "raised_apart s \<longleftrightarrow> distinct (map es_id (filter is_raise (rs_escalations (fst s) @ snd s)))"

lemma inserted_apart:
  assumes "row \<in> set pending" and "raised_apart (rs, pending)"
  shows "raised_apart (insert_escalation row rs, remove1 row pending)"
proof -
  have "mset (filter is_raise ((rs_escalations rs @ [row]) @ remove1 row pending)) = mset (filter is_raise (rs_escalations rs @ pending))"
    using assms(1) by (auto simp: mset_filter)
  then have "mset (map es_id (filter is_raise ((rs_escalations rs @ [row]) @ remove1 row pending))) = mset (map es_id (filter is_raise (rs_escalations rs @ pending)))"
    by (simp only: mset_map)
  from mset_eq_imp_distinct_iff [OF this] assms(2) show ?thesis by (simp add: raised_apart_def insert_escalation_def)
qed

lemma checked_apart:
  assumes "raised_apart (rs, pending)" and "no_race (rs, pending @ [row])" and "\<not> escalation_raise_exists rs (es_id row)"
  shows "raised_apart (rs, pending @ [row])"
  using assms by (auto simp: raised_apart_def no_race_def raise_found)

lemma writer_step_apart:
  assumes apart: "raised_apart s" and "writer_step tx s s'" and alone: "no_race s'"
  shows "raised_apart s'"
  using assms(2)
proof cases
  case (w_raise rs symbol d claim row pending)
  then show ?thesis using apart alone checked_apart checked_row(1) by simp
next
  case (w_import rs claim row pending)
  then show ?thesis using apart alone checked_apart checked_row(2) by simp
next
  case (w_score rs eid result d row pending)
  then show ?thesis using apart checked_row(3) by (simp add: raised_apart_def)
next
  case (w_insert row pending rs)
  then show ?thesis using apart inserted_apart by simp
next
  case (w_stop rs pending)
  then show ?thesis using apart by (simp add: raised_apart_def)
next
  case (w_late rs nm d symbol claim rs' pending)
  then show ?thesis using apart by (simp add: raised_apart_def append_ledger_late(1))
next
  case (w_other rs rs' pending)
  then show ?thesis using apart by (simp add: raised_apart_def)
qed

interpretation apart: invariant "\<lambda>s. s = (empty_research, [])" "\<lambda>s s'. writer_step tx s s' \<and> no_race s'" raised_apart for tx
  by unfold_locales (auto simp: raised_apart_def [of "(empty_research, [])"] empty_research_def [THEN arg_cong, of rs_escalations] intro: writer_step_apart)

text \<open>With nothing between their two uses of the store, the writers are \<open>research_step\<close>.\<close>

lemma research_step_writes:
  assumes "research_step tx rs rs'"
  shows "rtranclp (writer_step tx) (rs, []) (rs', [])"
proof -
  have two: "rtranclp (writer_step tx) (rs, []) (insert_escalation row rs, [])" if "writer_step tx (rs, []) (rs, [row])" for row
    using that w_insert [of row "[row]" tx rs] by (simp add: converse_rtranclp_into_rtranclp)
  show ?thesis using assms
  proof cases
    case (step_raise d symbol claim eid)
    then obtain row where "raise_check tx rs symbol d claim = Inr row" "rs' = insert_escalation row rs"
      by (auto simp: escalation_raise_def err)
    then show ?thesis using two [OF w_raise [of tx rs symbol d claim row "[]", simplified]] by simp
  next
    case (step_score eid result d)
    then obtain row where "score_check rs eid result d = Inr row" "rs' = insert_escalation row rs"
      by (auto simp: escalation_score_def err)
    then show ?thesis using two [OF w_score [of rs eid result d row tx "[]", simplified]] by simp
  next
    case (step_evidence symbol d claim i)
    then have "rs_escalations rs' = rs_escalations rs" using evidence_append_facts by fastforce
    from w_other [OF assms this, of "[]"] show ?thesis by (rule r_into_rtranclp)
  next
    case (step_sectors rows d counts)
    then have "rs_escalations rs' = rs_escalations rs"
      by (auto simp: sector_write_def upsert_sectors_def Let_def err split: prod.splits)
    from w_other [OF assms this, of "[]"] show ?thesis by (rule r_into_rtranclp)
  next
    case (step_ledger nm d j ok)
    from w_other [OF assms ledger_append_keeps(2) [OF this], of "[]"] show ?thesis by (rule r_into_rtranclp)
  next
    case (step_tombstone symbol d gate why ref_price hypo_qty hypo_stop ok)
    then obtain j where "ledger_append tx rs ''tombstones'' d j = Inr (ok, rs')" using tombstone_is_append by blast
    from w_other [OF assms ledger_append_keeps(2) [OF this], of "[]"] show ?thesis by (rule r_into_rtranclp)
  qed
qed

text \<open>Two raises of one claim that overlap are both written, under one id.\<close>

lemma raise_race:
  assumes "raise_check tx rs symbol d record = Inr row"
  shows "rtranclp (writer_step tx) (rs, []) (rs\<lparr>rs_escalations := rs_escalations rs @ [row, row]\<rparr>, [])"
proof -
  have "writer_step tx (rs, []) (rs, [row])" using w_raise [OF assms, of "[]"] by simp
  moreover have "writer_step tx (rs, [row]) (rs, [row, row])" using w_raise [OF assms, of "[row]"] by simp
  moreover have "writer_step tx (rs, [row, row]) (insert_escalation row rs, [row])" using w_insert [of row "[row, row]" tx rs] by simp
  moreover have "writer_step tx (insert_escalation row rs, [row]) (rs\<lparr>rs_escalations := rs_escalations rs @ [row, row]\<rparr>, [])"
    using w_insert [of row "[row]" tx "insert_escalation row rs"] by (simp add: insert_escalation_def)
  ultimately show ?thesis by (meson converse_rtranclp_into_rtranclp rtranclp.rtrancl_refl)
qed

text \<open>C20: the research tables in every state that their writers reach, the importer's raises included, whatever the
  order in which the checks and the writes of raises and scores that overlap come. Every raise has a
  symbol, a claim, a direction and an event date, carries none of the reserved keys and clears the
  bar of two distinct source types other than mainstream. Every score has an outcome of the three
  and comes after a raise of its id. Evidence has increasing ids, non-empty fields and an
  observation date equal to its date; an underlying has one open-interest snapshot a day; a symbol
  has one tag of the four. No row of evidence, escalations or a ledger is ever changed or lost.
  And where no two raises of one id overlap, an id has one raise.\<close>

theorem research_tables_sound:
  assumes "reachable (\<lambda>s. s = (empty_research, [])) (writer_step tx) (rs, pending)"
  defines "rows \<equiv> rs_escalations rs"
  shows "(\<forall>r \<in> set rows. es_kind r = ERaise \<longrightarrow> SYMBOL_RE (es_symbol r) \<and> raise_ok (es_record r)) \<and>
    (\<forall>k < length rows. es_kind (rows ! k) = EScore \<longrightarrow>
       (\<exists>v \<in> set OUTCOMES. es_record (rows ! k) = [(''outcome'', JStr v)]) \<and>
       (\<exists>j < k. es_kind (rows ! j) = ERaise \<and> es_id (rows ! j) = es_id (rows ! k))) \<and>
    sorted_wrt (<) (map ev_id (rs_evidence rs)) \<and> list_all evidence_ok (rs_evidence rs) \<and> oi_unique rs \<and> sectors_wf rs \<and>
    (\<forall>rs' pending'. rtranclp (writer_step tx) (rs, pending) (rs', pending') \<longrightarrow>
       prefix (rs_evidence rs) (rs_evidence rs') \<and> prefix rows (rs_escalations rs') \<and>
       (\<forall>table. prefix (rs_ledgers rs table) (rs_ledgers rs' table))) \<and>
    (reachable (\<lambda>s. s = (empty_research, [])) (\<lambda>s s'. writer_step tx s s' \<and> no_race s') (rs, pending) \<longrightarrow>
       distinct (map es_id (filter (\<lambda>r. es_kind r = ERaise) rows)))"
proof -
  have inv: "writers_inv (rs, pending)" by (rule writers.reachable_inv [OF assms(1)])
  have kind: "es_kind r = EScore \<longleftrightarrow> \<not> is_raise r" "es_kind r = ERaise \<longleftrightarrow> is_raise r" for r
    by (cases "es_kind r"; simp add: is_raise_def)+
  have raises: "\<forall>r \<in> set rows. is_raise r \<longrightarrow> SYMBOL_RE (es_symbol r) \<and> raise_ok (es_record r)"
    using inv by (auto simp: writers_inv_def rows_def row_ok_def)
  have scores: "\<forall>k < length rows. \<not> is_raise (rows ! k) \<longrightarrow> (\<exists>v \<in> set OUTCOMES. es_record (rows ! k) = [(''outcome'', JStr v)]) \<and>
       (\<exists>j < k. is_raise (rows ! j) \<and> es_id (rows ! j) = es_id (rows ! k))"
    using inv nth_mem by (fastforce simp: writers_inv_def rows_def row_ok_def scores_follow_def)
  have tables: "sorted_wrt (<) (map ev_id (rs_evidence rs))" "list_all evidence_ok (rs_evidence rs)" "oi_unique rs" "sectors_wf rs"
    using inv by (simp_all add: writers_inv_def tables_ok_def)
  have grow: "prefix (rs_evidence rs) (rs_evidence rs')" "prefix rows (rs_escalations rs')" "prefix (rs_ledgers rs table) (rs_ledgers rs' table)"
    if "rtranclp (writer_step tx) (rs, pending) (rs', pending')" for rs' pending' table
    using evidence.steps_grow [OF that inv] escalated.steps_grow [OF that inv] recorded.steps_grow [OF that inv] by (simp_all add: rows_def)
  have once: "distinct (map es_id (filter is_raise rows))"
    if "reachable (\<lambda>s. s = (empty_research, [])) (\<lambda>s s'. writer_step tx s s' \<and> no_race s') (rs, pending)"
    using apart.reachable_inv [OF that] by (simp add: raised_apart_def rows_def)
  show ?thesis unfolding kind using raises scores tables grow once by blast
qed


section \<open>A batch of sector tags\<close>

definition tag_of :: "dict list \<Rightarrow> string \<Rightarrow> string option" where
  "tag_of rows s = map_of (rev (List.map_filter tag_in rows)) s"

definition scoped :: "(string \<times> string \<times> string) list \<Rightarrow> string \<Rightarrow> bool" where
  "scoped tbl s \<longleftrightarrow> (\<exists>p d. map_of tbl s = Some (p, d) \<and> p \<in> set IN_SCOPE_SECTORS)"

definition in_scope :: "research \<Rightarrow> string \<Rightarrow> bool" where
  "in_scope rs s \<longleftrightarrow> scoped (rs_sectors rs) s"

lemma check_rows_map:
  "check_rows i rows ds acc = Inr v \<Longrightarrow> map_of v s = (case tag_of rows s of Some sector \<Rightarrow> Some (sector, ds) | None \<Rightarrow> map_of acc s)"
proof (induction rows arbitrary: i acc)
  case (Cons row rows)
  from Cons.prems obtain tk t where t: "tag_in row = Some (tk, t)" "check_rows (i + 1) rows ds (AList.update tk (t, ds) acc) = Inr v"
    unfolding check_rows_Cons by blast
  have "tag_of (row # rows) s = (case tag_of rows s of Some x \<Rightarrow> Some x | None \<Rightarrow> if s = tk then Some t else None)"
    by (simp add: tag_of_def List.map_filter_def t(1) map_add_def split: option.split)
  then show ?case using Cons.IH [OF t(2)] by (auto split: option.splits)
qed (simp add: tag_of_def List.map_filter_def)

lemma scoped_update_other: "s' \<noteq> s \<Longrightarrow> scoped (AList.update s x tbl) s' = scoped tbl s'"
  by (simp add: scoped_def update_conv')

lemma tag_sector_eq:
  "tag_sector (s, sector, d) (n, r, tbl) =
    (if sector \<in> set IN_SCOPE_SECTORS \<and> \<not> scoped tbl s then n + 1 else n, if sector = ''other'' \<and> scoped tbl s then r + 1 else r,
     AList.update s (sector, d) tbl)"
  by (auto simp: tag_sector_def scoped_def Let_def)

lemma tag_fold_counts:
  assumes "fold tag_sector v (n, r, tbl) = (n', r', tbl')" and "distinct (map fst v)"
  shows "n' = n + length (filter (\<lambda>(s, sector, _). sector \<in> set IN_SCOPE_SECTORS \<and> \<not> scoped tbl s) v) \<and>
    r' = r + length (filter (\<lambda>(s, sector, _). sector = ''other'' \<and> scoped tbl s) v) \<and> map_of tbl' = map_of tbl ++ map_of v"
  using assms
proof (induction v arbitrary: n r tbl)
  case (Cons row v)
  obtain s sector d where row: "row = (s, sector, d)" by (cases row) auto
  let ?tbl = "AList.update s (sector, d) tbl"
  have f: "fold tag_sector v (if sector \<in> set IN_SCOPE_SECTORS \<and> \<not> scoped tbl s then n + 1 else n,
      if sector = ''other'' \<and> scoped tbl s then r + 1 else r, ?tbl) = (n', r', tbl')"
    using Cons.prems(1) by (simp only: row fold_simps tag_sector_eq)
  have d: "distinct (map fst v)" "s \<notin> fst ` set v" using Cons.prems(2) by (simp_all add: row)
  have ne: "fst q \<noteq> s" if "q \<in> set v" for q using d(2) that by auto
  have c1: "filter (\<lambda>(s', sector', _). sector' \<in> set IN_SCOPE_SECTORS \<and> \<not> scoped ?tbl s') v =
      filter (\<lambda>(s', sector', _). sector' \<in> set IN_SCOPE_SECTORS \<and> \<not> scoped tbl s') v"
    by (rule filter_cong [OF refl]) (simp add: case_prod_unfold ne scoped_update_other)
  have c2: "filter (\<lambda>(s', sector', _). sector' = ''other'' \<and> scoped ?tbl s') v = filter (\<lambda>(s', sector', _). sector' = ''other'' \<and> scoped tbl s') v"
    by (rule filter_cong [OF refl]) (simp add: case_prod_unfold ne scoped_update_other)
  have "map_of v s = None" using d(2) by (simp add: map_of_eq_None_iff)
  then have m: "map_of ?tbl ++ map_of v = map_of tbl ++ map_of (row # v)"
    by (auto simp: row map_add_def fun_eq_iff update_conv' split: option.splits)
  have l1: "length (filter (\<lambda>(s', sector', _). sector' \<in> set IN_SCOPE_SECTORS \<and> \<not> scoped tbl s') (row # v)) =
      (if sector \<in> set IN_SCOPE_SECTORS \<and> \<not> scoped tbl s then 1 else 0) +
      length (filter (\<lambda>(s', sector', _). sector' \<in> set IN_SCOPE_SECTORS \<and> \<not> scoped tbl s') v)"
    by (simp add: row)
  have l2: "length (filter (\<lambda>(s', sector', _). sector' = ''other'' \<and> scoped tbl s') (row # v)) =
      (if sector = ''other'' \<and> scoped tbl s then 1 else 0) + length (filter (\<lambda>(s', sector', _). sector' = ''other'' \<and> scoped tbl s') v)"
    by (simp add: row)
  note ih = Cons.IH [OF f d(1), unfolded c1 c2 m]
  show ?case unfolding l1 l2 using ih by (intro conjI) (simp, simp, simp only:)
qed simp

lemma length_keys:
  assumes "distinct (map fst v)" and "K = {s. \<exists>t d. map_of v s = Some (t, d) \<and> P s t}"
  shows "length (filter (\<lambda>(s, t, _). P s t) v) = card K"
proof -
  let ?f = "filter (\<lambda>(s, t, _). P s t) v"
  have "distinct (map fst ?f)" using assms(1) by (rule distinct_map_filter)
  then have "length ?f = card (fst ` set ?f)" using distinct_card by fastforce
  also have "fst ` set ?f = K" using assms by (force simp: image_iff)
  finally show ?thesis .
qed

text \<open>C29: a batch of sector tags is written whole. After it every symbol of the batch has the tag of its last row
  and the batch's date, and every other symbol what it had; \<open>written\<close> counts the symbols of the
  batch, \<open>new\<close> those that were out of scope and are in it now, \<open>retired\<close> those that were in scope
  and are not any more; no other table is touched. A batch with one bad row is refused.\<close>

theorem sector_write_exact:
  assumes "sector_write rs rows d = Inr ((written, new, retired), rs')"
  shows "list_all (\<lambda>row. tag_in row \<noteq> None) rows \<and> rows \<noteq> [] \<and>
    (\<forall>s. map_of (rs_sectors rs') s = (case tag_of rows s of Some sector \<Rightarrow> Some (sector, isoformat d) | None \<Rightarrow> map_of (rs_sectors rs) s)) \<and>
    written = card {s. tag_of rows s \<noteq> None} \<and> new = card {s. in_scope rs' s \<and> \<not> in_scope rs s} \<and>
    retired = card {s. in_scope rs s \<and> \<not> in_scope rs' s} \<and> rs' = rs\<lparr>rs_sectors := rs_sectors rs'\<rparr>"
proof -
  from assms obtain v tbl where v: "check_rows 1 rows (isoformat d) [] = Inr v" "fold tag_sector v (0, 0, rs_sectors rs) = (new, retired, tbl)"
    "rs' = rs\<lparr>rs_sectors := tbl\<rparr>" "written = length v" "rows \<noteq> []"
    unfolding sector_write_def upsert_sectors_def Let_def by (auto simp: err split: prod.splits)
  have all: "check_rows i rows ds acc = Inr u \<Longrightarrow> list_all (\<lambda>row. tag_in row \<noteq> None) rows" for i ds acc u
    by (induction rows arbitrary: i acc) (auto simp: check_rows_Cons simp del: check_rows.simps(2))
  have dv: "distinct (map fst v)" and ok: "list_all (\<lambda>(s, sector, d). SYMBOL_RE s \<and> sector \<in> set SECTORS) v"
    using check_rows_facts [OF v(1)] by simp_all
  note c = tag_fold_counts [OF v(2) dv]
  have mv: "map_of v s = (case tag_of rows s of Some sector \<Rightarrow> Some (sector, isoformat d) | None \<Rightarrow> None)" for s
    using check_rows_map [OF v(1), of s] by (simp split: option.splits)
  have tbl: "map_of (rs_sectors rs') s = (case map_of v s of Some x \<Rightarrow> Some x | None \<Rightarrow> map_of (rs_sectors rs) s)" for s
    using c by (simp add: v(3) map_add_def)
  have sec: "t \<in> set IN_SCOPE_SECTORS \<or> t = ''other''" if "map_of v s = Some (t, x)" for s t x
    using map_of_SomeD [OF that] ok by (auto simp: list_all_iff SECTORS_def)
  have other: "''other'' \<notin> set IN_SCOPE_SECTORS" by (simp add: IN_SCOPE_SECTORS_def)
  have "new = card {s. in_scope rs' s \<and> \<not> in_scope rs s}"
  proof -
    have "{s. in_scope rs' s \<and> \<not> in_scope rs s} = {s. \<exists>t x. map_of v s = Some (t, x) \<and> t \<in> set IN_SCOPE_SECTORS \<and> \<not> in_scope rs s}"
      by (auto simp: in_scope_def scoped_def tbl split: option.splits)
    from length_keys [OF dv this] c show ?thesis unfolding in_scope_def by simp
  qed
  moreover have "retired = card {s. in_scope rs s \<and> \<not> in_scope rs' s}"
  proof -
    have "{s. in_scope rs s \<and> \<not> in_scope rs' s} = {s. \<exists>t x. map_of v s = Some (t, x) \<and> t = ''other'' \<and> in_scope rs s}"
      using other by (auto simp: in_scope_def scoped_def tbl split: option.splits dest: sec)
    from length_keys [OF dv this] c show ?thesis unfolding in_scope_def by simp
  qed
  moreover have "written = card {s. tag_of rows s \<noteq> None}"
  proof -
    have "{s. tag_of rows s \<noteq> None} = fst ` set v" using mv by (auto simp: dom_map_of_conv_image_fst [symmetric] dom_def split: option.splits)
    then show ?thesis using distinct_card [OF dv] by (simp add: v(4))
  qed
  moreover have "map_of (rs_sectors rs') s = (case tag_of rows s of Some sector \<Rightarrow> Some (sector, isoformat d) | None \<Rightarrow> map_of (rs_sectors rs) s)" for s
    unfolding tbl mv by (simp split: option.split)
  ultimately show ?thesis using all [OF v(1)] v(3,5) by simp
qed

text \<open>The answers of the ledger writer. A refusal is always the typed one, never a database error; an answer of
  \<open>appended: False\<close> is a second open-interest snapshot of the underlying on that day and writes
  nothing; otherwise exactly one row with the record is appended to the ledger's table.\<close>

theorem ledger_append_answers:
  "case ledger_append tx rs nm d j of
     Inl e \<Rightarrow> \<exists>x. e = LedgerRefused x
   | Inr (False, rs') \<Rightarrow> nm = ''oi'' \<and> rs' = rs \<and> (\<exists>r s. j = JObj r \<and> map_of r ''symbol'' = Some (JStr s) \<and> oi_symbol_seen rs d s)
   | Inr (True, rs') \<Rightarrow> \<exists>table row. map_of LEDGER_TABLES nm = Some table \<and> j = JObj (lr_record row) \<and> lr_date row = isoformat d \<and>
       rs' = rs\<lparr>rs_ledgers := (rs_ledgers rs)(table := rs_ledgers rs table @ [row])\<rparr>"
proof (cases rule: ledger_append_cases [of tx rs nm d j])
  case (refused x)
  then show ?thesis by simp
next
  case (skipped r tk)
  then show ?thesis by auto
next
  case (written table r row)
  then show ?thesis by auto
qed

section \<open>What the writers let through\<close>

text \<open>A symbol with a newline at its end passes the pattern, and is not found under the symbol.\<close>

lemma newline_symbol_accepted:
  assumes "SYMBOL_RE s" and "last s \<noteq> NL"
  shows "check_symbol (Some (JStr (s @ [NL]))) = Inr (s @ [NL])"
    and "evidence_append rs (s @ [NL]) d record = Inr (i, rs') \<Longrightarrow> evidence_for rs' s = evidence_for rs s"
proof -
  show "check_symbol (Some (JStr (s @ [NL]))) = Inr (s @ [NL])"
    using assms by (simp add: err SYMBOL_RE_def before_dollar_def split: if_splits)
  assume "evidence_append rs (s @ [NL]) d record = Inr (i, rs')"
  then obtain row where "rs' = rs\<lparr>rs_evidence := rs_evidence rs @ [row]\<rparr>" "ev_symbol row = s @ [NL]"
    unfolding evidence_append_def insert_evidence_def Let_def err by auto
  then show "evidence_for rs' s = evidence_for rs s" by (simp add: evidence_for_def)
qed

text \<open>
  A raise may not carry its own result, but only the key \<open>outcome\<close> is reserved: the reader spreads
  the record over the entry, so a raise with the key \<open>latest_outcome\<close> reads as scored.
\<close>

definition self_scored :: dict where
  "self_scored = [(''claim'', JStr ''c''), (''direction'', JStr ''up''), (''event_date'', JStr ''2026-10-01''),
     (''source_types'', JArr [JStr ''employee'', JStr ''end-user'']), (''latest_outcome'', JStr ''right'')]"

lemma raise_accepted:
  fixes tx :: texts and d :: date
  assumes "SYMBOL_RE symbol" and "\<forall>k \<in> set RESERVED_ON_RAISE. map_of record k = None"
    and "map_of record ''claim'' = Some (JStr ''c'')" and "map_of record ''direction'' = Some (JStr ''up'')"
    and "map_of record ''event_date'' = Some (JStr ''2026-10-01'')"
    and "map_of record ''source_types'' = Some (JArr [JStr ''employee'', JStr ''end-user''])"
  defines "i \<equiv> escalation_id tx symbol d record"
  shows "escalation_raise tx empty_research symbol d record =
    Inr (i, empty_research\<lparr>rs_escalations := [\<lparr>es_id = i, es_kind = ERaise, es_symbol = symbol, es_at = isoformat d, es_record = record\<rparr>]\<rparr>)"
proof -
  have s: "check_symbol (Some (JStr symbol)) = Inr symbol" using assms(1) by (simp add: err)
  have d: "DATE_RE ''2026-10-01''" and b: "\<not> card (bar_types [JStr ''employee'', JStr ''end-user'']) < 2" by code_simp+
  have no: "\<not> escalation_raise_exists empty_research j" "rs_escalations empty_research = []" for j
    by (simp_all add: escalation_raise_exists_def empty_research_def)
  show ?thesis unfolding escalation_raise_def raise_check_def raise_row_def validate_raise_def s i_def
    using assms(2) by (simp add: RESERVED_ON_RAISE_def nonempty_str_def assms(3-6) DIRECTIONS_def date_str_def d b no Let_def insert_escalation_def)
qed

lemma raise_scores_itself:
  "\<exists>eid rs e. escalation_raise tx empty_research ''AMD'' 739870 self_scored = Inr (eid, rs) \<and>
     map_of (escalations rs None) eid = Some e \<and> map_of e ''latest_outcome'' = Some (JStr ''right'')"
proof -
  have s: "SYMBOL_RE ''AMD''" by code_simp
  have k: "\<forall>k \<in> set RESERVED_ON_RAISE. map_of self_scored k = None" by (simp add: RESERVED_ON_RAISE_def self_scored_def)
  have "map_of (escalations (empty_research\<lparr>rs_escalations := [\<lparr>es_id = i, es_kind = ERaise, es_symbol = ''AMD'', es_at = a, es_record = self_scored\<rparr>]\<rparr>) None) i =
      Some (raise_entry \<lparr>es_id = i, es_kind = ERaise, es_symbol = ''AMD'', es_at = a, es_record = self_scored\<rparr>)" for i a
    by (simp add: escalations_def read_escalation_def)
  moreover have "map_of (raise_entry \<lparr>es_id = i, es_kind = ERaise, es_symbol = ''AMD'', es_at = a, es_record = self_scored\<rparr>) ''latest_outcome'' =
      Some (JStr ''right'')" for i a
    by (simp add: raise_entry_def dict_merge_def self_scored_def)
  moreover have m: "map_of self_scored ''claim'' = Some (JStr ''c'')" "map_of self_scored ''direction'' = Some (JStr ''up'')"
    "map_of self_scored ''event_date'' = Some (JStr ''2026-10-01'')"
    "map_of self_scored ''source_types'' = Some (JArr [JStr ''employee'', JStr ''end-user''])"
    by (simp_all add: self_scored_def)
  ultimately show ?thesis unfolding raise_accepted [OF s k m] by blast
qed

section \<open>Examples\<close>

definition plain_texts :: texts where
  "plain_texts = \<lparr>tx_num = (\<lambda>x. show_int \<lfloor>x\<rfloor>), tx_str = (\<lambda>_. ''?''), tx_dec = (\<lambda>x. show_int \<lfloor>x\<rfloor>)\<rparr>"

theorem escalation_id_stable_witness:
  "escalation_id plain_texts ''BRK-B'' 739870 [(''claim'', JStr ''c''), (''direction'', JStr ''up'')] =
     escalation_id plain_texts ''BRK-B'' 739870 [(''direction'', JStr ''up''), (''claim'', JStr ''c'')] \<and>
   rsplit_head 4 (escalation_id plain_texts ''BRK-B'' 739870 [(''claim'', JStr ''c''), (''direction'', JStr ''up'')]) = ''BRK-B''"
proof -
  let ?r = "[(''claim'', JStr ''c''), (''direction'', JStr ''up'')]" and ?r' = "[(''direction'', JStr ''up''), (''claim'', JStr ''c'')]"
  have "mset ?r = mset ?r'" "distinct (map fst ?r)" by simp_all
  with escalation_id_stable [of ?r ?r' plain_texts "''BRK-B''" 739870] show ?thesis by auto
qed

theorem sector_write_exact_witness:
  "\<exists>rs'. sector_write empty_research [[(''symbol'', JStr ''AMD''), (''sector'', JStr ''semis-hardware'')],
       [(''symbol'', JStr ''XOM''), (''sector'', JStr ''other'')]] 739870 = Inr ((2, 1, 0), rs') \<and>
     1 = card {s. in_scope rs' s \<and> \<not> in_scope empty_research s} \<and> map_of (rs_sectors rs') ''AMD'' = Some (''semis-hardware'', isoformat 739870)"
proof -
  let ?rows = "[[(''symbol'', JStr ''AMD''), (''sector'', JStr ''semis-hardware'')], [(''symbol'', JStr ''XOM''), (''sector'', JStr ''other'')]]"
  have "tag_in (?rows ! 0) = Some (''AMD'', ''semis-hardware'')" "tag_in (?rows ! 1) = Some (''XOM'', ''other'')" by code_simp+
  then have t: "tag_in [(''symbol'', JStr ''AMD''), (''sector'', JStr ''semis-hardware'')] = Some (''AMD'', ''semis-hardware'')"
    "tag_in [(''symbol'', JStr ''XOM''), (''sector'', JStr ''other'')] = Some (''XOM'', ''other'')" by simp_all
  have "check_rows 1 ?rows ds [] = Inr [(''AMD'', ''semis-hardware'', ds), (''XOM'', ''other'', ds)]" for ds
    using t by (simp add: check_rows_Cons del: check_rows.simps(2))
  then obtain rs' where w: "sector_write empty_research ?rows 739870 = Inr ((2, 1, 0), rs')"
    by (simp add: sector_write_def upsert_sectors_def tag_sector_def empty_research_def IN_SCOPE_SECTORS_def Let_def)
  have "tag_of ?rows ''AMD'' = Some ''semis-hardware''" using t by (simp add: tag_of_def List.map_filter_def)
  with sector_write_exact [OF w] w show ?thesis by auto
qed

definition sample_raise :: dict where
  "sample_raise = [(''claim'', JStr ''c''), (''direction'', JStr ''up''), (''event_date'', JStr ''2026-10-01''),
     (''source_types'', JArr [JStr ''employee'', JStr ''end-user''])]"



text \<open>A raise of the tool, one of the importer under an id of its own, and a score of the first.\<close>

definition filed_raise :: dict where
  "filed_raise = [(''id'', JStr ''AMD-7''), (''kind'', JStr ''raise''), (''symbol'', JStr ''AMD''), (''raised'', JStr ''2026-09-01'')] @ sample_raise"

lemma filed_raise_row:
  "import_raise_row filed_raise =
     Inr \<lparr>es_id = ''AMD-7'', es_kind = ERaise, es_symbol = ''AMD'', es_at = ''2026-09-01'', es_record = sample_raise\<rparr>"
proof -
  have s: "SYMBOL_RE ''AMD''" and d: "DATE_RE ''2026-09-01''" "DATE_RE ''2026-10-01''"
    and b: "\<not> card (bar_types [JStr ''employee'', JStr ''end-user'']) < 2" by code_simp+
  have c: "filter (\<lambda>(k, _). k \<notin> {''id'', ''symbol'', ''raised'', ''kind''}) filed_raise = sample_raise"
    by (simp add: filed_raise_def sample_raise_def)
  have v: "validate_raise sample_raise = Inr ()"
    unfolding validate_raise_def
    by (simp add: sample_raise_def RESERVED_ON_RAISE_def nonempty_str_def DIRECTIONS_def date_str_def d b)
  have "nonempty_str filed_raise ''id'' = Inr ''AMD-7''" "check_symbol (map_of filed_raise ''symbol'') = Inr ''AMD''"
    "date_str (map_of filed_raise ''raised'') ''raised'' = Inr ''2026-09-01''"
    by (simp_all add: filed_raise_def nonempty_str_def check_symbol_def date_str_def s d)
  then show ?thesis unfolding import_raise_row_def c by (simp add: Let_def v)
qed

lemma filed_raise_check:
  "import_check empty_research filed_raise =
     Inr (Some \<lparr>es_id = ''AMD-7'', es_kind = ERaise, es_symbol = ''AMD'', es_at = ''2026-09-01'', es_record = sample_raise\<rparr>)"
  by (simp add: import_check_def filed_raise_row escalation_raise_exists_def empty_research_def)

theorem research_tables_sound_witness:
  "\<exists>rs. reachable (\<lambda>s. s = (empty_research, [])) (writer_step plain_texts) (rs, []) \<and> length (rs_escalations rs) = 2 \<and>
     distinct (map es_id (filter (\<lambda>r. es_kind r = ERaise) (rs_escalations rs)))"
proof -
  let ?row = "\<lparr>es_id = ''AMD-7'', es_kind = ERaise, es_symbol = ''AMD'', es_at = ''2026-09-01'', es_record = sample_raise\<rparr>"
  let ?q = "\<lparr>es_id = ''AMD-7'', es_kind = EScore, es_symbol = rsplit_head 4 ''AMD-7'', es_at = isoformat 739880, es_record = [(''outcome'', JStr ''right'')]\<rparr>"
  let ?r1 = "insert_escalation ?row empty_research"
  let ?step = "\<lambda>s s'. writer_step plain_texts s s' \<and> no_race s'"
  have yes: "escalation_raise_exists ?r1 ''AMD-7''" by (simp add: escalation_raise_exists_def insert_escalation_def)
  have q: "score_check ?r1 ''AMD-7'' ''right'' 739880 = Inr ?q" using yes by (simp add: score_check_def score_row_def OUTCOMES_def)
  have s1: "?step (empty_research, []) (empty_research, [?row])"
    using w_import [OF filed_raise_check, of plain_texts "[]"] by (simp add: no_race_def)
  have s2: "?step (empty_research, [?row]) (?r1, [])"
    using w_insert [of ?row "[?row]" plain_texts empty_research] by (simp add: no_race_def)
  have s3: "?step (?r1, []) (?r1, [?q])" using w_score [OF q, of plain_texts "[]"] by (simp add: no_race_def is_raise_def)
  have s4: "?step (?r1, [?q]) (insert_escalation ?q ?r1, [])"
    using w_insert [of ?q "[?q]" plain_texts ?r1] by (simp add: no_race_def)
  note next_step = converse_rtranclp_into_rtranclp [where r = ?step]
  have steps: "rtranclp ?step (empty_research, []) (insert_escalation ?q ?r1, [])"
    by (rule next_step [OF s1], rule next_step [OF s2], rule next_step [OF s3], rule next_step [OF s4], rule rtranclp.rtrancl_refl)
  then have "rtranclp (writer_step plain_texts) (empty_research, []) (insert_escalation ?q ?r1, [])"
    by (rule rtranclp_mono [THEN predicate2D, rotated]) blast
  then have r: "reachable (\<lambda>s. s = (empty_research, [])) (writer_step plain_texts) (insert_escalation ?q ?r1, [])"
    and r': "reachable (\<lambda>s. s = (empty_research, [])) ?step (insert_escalation ?q ?r1, [])"
    using steps by (auto simp: reachable_def)
  have "distinct (map es_id (filter (\<lambda>r. es_kind r = ERaise) (rs_escalations (insert_escalation ?q ?r1))))"
    using research_tables_sound [OF r] r' by blast
  moreover have "length (rs_escalations (insert_escalation ?q ?r1)) = 2" by (simp add: insert_escalation_def empty_research_def)
  ultimately show ?thesis using r by blast
qed


end
