(* ===== verification/TC_Runner.thy ===== *)
theory TC_Runner
  imports TC_Dispatch
begin

text \<open>
  The Claude runner (runner/tc_runner/app.py), the service the engine's client posts its jobs to:
  the request's validation, the tool gate, the redaction, the single run slot, and the result. The
  SDK's stream is a parameter: what a run comes back with, by what its attributes are. Pydantic's
  scalar coercions are those of the engine's side.
\<close>

section \<open>The request\<close>

definition DENY_ALWAYS :: "string list" where
  "DENY_ALWAYS = [''Bash'', ''BashOutput'', ''KillShell'', ''Write'', ''Edit'', ''MultiEdit'', ''NotebookEdit'', ''Task'', ''Agent'',
     ''SlashCommand'', ''TodoWrite'']"

text \<open>\<open>^mcp__[^*]+__\*$\<close> on an entry that ends in a star.\<close>

definition WILDCARD_SHAPE :: "string \<Rightarrow> bool" where
  "WILDCARD_SHAPE s \<longleftrightarrow>
     (let server = take (length s - 8) (drop 5 s) in
      9 \<le> length s \<and> take 5 s = ''mcp__'' \<and> drop (length s - 3) s = ''__*'' \<and> CHR ''*'' \<notin> set server)"

definition wild :: "string \<Rightarrow> bool" where "wild e \<longleftrightarrow> e \<noteq> [] \<and> last e = CHR ''*''"

record runner_request =
  nq_job :: string
  nq_prompt :: string
  nq_allowed :: "string list"
  nq_role :: role
  nq_role_token :: string
  nq_schema :: dict
  nq_max_turns :: int
  nq_timeout_s :: rat
  nq_agent :: "string option"

definition role_text :: "role \<Rightarrow> string" where "role_text r = (case r of Research \<Rightarrow> ''research'' | Decide \<Rightarrow> ''decide'')"

definition v_role :: "json \<Rightarrow> verr + role" where
  "v_role j = (if j = JStr ''research'' then Inr Research else if j = JStr ''decide'' then Inr Decide else Inl [([], ''literal_error'')])"

definition v_when :: "('a \<Rightarrow> bool) \<Rightarrow> string \<Rightarrow> verr + 'a \<Rightarrow> verr + 'a" where
  "v_when ok ty x = (case x of Inl e \<Rightarrow> Inl e | Inr a \<Rightarrow> if ok a then Inr a else Inl [([], ty)])"

definition v_allowed :: "json \<Rightarrow> verr + string list" where
  "v_allowed j = v_when (list_all (\<lambda>e. wild e \<longrightarrow> WILDCARD_SHAPE e)) ''value_error'' (v_list v_str j)"

definition v_turns :: "coercions \<Rightarrow> json \<Rightarrow> verr + int" where
  "v_turns co j = v_when (\<lambda>n. n \<le> 200) ''less_than_equal'' (v_when (\<lambda>n. 1 \<le> n) ''greater_than_equal'' (v_scalar (co_int co) j))"

definition v_timeout :: "coercions \<Rightarrow> json \<Rightarrow> verr + rat" where
  "v_timeout co j = v_when (\<lambda>x. x \<le> 7200) ''less_than_equal'' (v_when (\<lambda>x. 0 < x) ''greater_than'' (v_scalar (co_float co) j))"

definition run_request_of :: "coercions \<Rightarrow> json \<Rightarrow> verr + runner_request" where
  "run_request_of co = v_model (\<lambda>d.
     v_forbid [''job'', ''prompt'', ''allowed_tools'', ''mcp_role'', ''mcp_role_token'', ''output_schema'', ''max_turns'', ''timeout_s'', ''agent''] d
     (v_ap (v_ap (v_ap (v_ap (v_ap (v_ap (v_ap (v_ap (v_ap (Inr runner_request.make)
       (v_field ''job'' v_str d))
       (v_field ''prompt'' v_str d))
       (v_field ''allowed_tools'' v_allowed d))
       (v_field ''mcp_role'' v_role d))
       (v_field ''mcp_role_token'' v_str d))
       (v_field ''output_schema'' v_dict d))
       (v_default ''max_turns'' (v_turns co) 40 d))
       (v_default ''timeout_s'' (v_timeout co) 1500 d))
       (v_default ''agent'' (v_opt v_str) None d)))"

section \<open>The gate\<close>

definition starts_with :: "string \<Rightarrow> string \<Rightarrow> bool" where "starts_with s p \<longleftrightarrow> take (length p) s = p"

fun allowed_by :: "string \<Rightarrow> string list \<Rightarrow> bool" where
  "allowed_by nm [] = False"
| "allowed_by nm (e # es) = (e = nm \<or> (wild e \<and> starts_with nm (butlast e)) \<or> allowed_by nm es)"

definition tool_allowed :: "string \<Rightarrow> string list \<Rightarrow> bool" where
  "tool_allowed nm allowed \<longleftrightarrow> nm \<notin> set DENY_ALWAYS \<and> allowed_by nm allowed"

text \<open>
  What the hook answers: a refusal with its reason, or no opinion. The input is whatever arrives;
  of a number the model does not know whether it is an \<open>int\<close> or a \<open>float\<close>.
\<close>

datatype gate_answer = Denied string | NoOpinion

definition gate :: "string list \<Rightarrow> json \<Rightarrow> gate_answer" where
  "gate allowed input =
     (case input of
        JObj d \<Rightarrow>
          (case (case map_of d ''tool_name'' of None \<Rightarrow> JStr [] | Some v \<Rightarrow> v) of
             JStr nm \<Rightarrow>
               if nm \<in> set DENY_ALWAYS then Denied (nm @ '' is denied for every engine job: this runner has no write surface.'')
               else if \<not> tool_allowed nm allowed then Denied (nm @ '' is not on this job's allowlist. Use one of: '' @ join '', '' allowed @ ''.'')
               else NoOpinion
           | JNull \<Rightarrow> Denied ''tool_name is a NoneType, not a name: denied.''
           | JBool _ \<Rightarrow> Denied ''tool_name is a bool, not a name: denied.''
           | JNum _ \<Rightarrow> Denied ''tool_name is a number, not a name: denied.''
           | JArr _ \<Rightarrow> Denied ''tool_name is a list, not a name: denied.''
           | JObj _ \<Rightarrow> Denied ''tool_name is a dict, not a name: denied.'')
      | _ \<Rightarrow> Denied ''gate error: AttributeError'')"

section \<open>Secrets\<close>

record runner_globals =
  rg_cli :: string
  rg_repo :: string
  rg_token :: string
  rg_oauth :: string
  rg_engine :: string

definition REDACTED :: string where "REDACTED = ''[REDACTED]''"

text \<open>\<open>s.replace(w, r)\<close> for a \<open>w\<close> that is not empty.\<close>

function replace_all :: "string \<Rightarrow> string \<Rightarrow> string \<Rightarrow> string" where
  "replace_all w r [] = []"
| "replace_all w r (c # s) =
     (if w \<noteq> [] \<and> starts_with (c # s) w then r @ replace_all w r (drop (length w) (c # s)) else c # replace_all w r s)"
  by pat_completeness auto
termination
  by (relation "measure (length \<circ> snd \<circ> snd)") (auto simp: neq_Nil_conv)

definition secrets_of :: "runner_globals \<Rightarrow> runner_request \<Rightarrow> string list" where
  "secrets_of g q = rev (sort_key length (remdups (filter (\<lambda>s. s \<noteq> []) [nq_role_token q, rg_token g, rg_oauth g])))"

definition redact :: "string option \<Rightarrow> string list \<Rightarrow> string option" where
  "redact text secrets = map_option (\<lambda>t. fold (\<lambda>w out. replace_all w REDACTED out) secrets t) text"

definition mcp_url :: "runner_globals \<Rightarrow> runner_request \<Rightarrow> string" where
  "mcp_url g q = rg_engine g @ ''/mcp/'' @ role_text (nq_role q) @ ''/''"

text \<open>The configuration file of a run, and the options of the SDK, which name the file only.\<close>

definition mcp_servers :: "runner_globals \<Rightarrow> runner_request \<Rightarrow> json" where
  "mcp_servers g q = JObj [(''engine'', JObj [(''type'', JStr ''http''), (''url'', JStr (mcp_url g q)),
     (''headers'', JObj [(''Authorization'', JStr (''Bearer '' @ nq_role_token q)), (''X-TC-Job'', JStr (nq_job q))])])]"

record sdk_options =
  so_cli_path :: string
  so_cwd :: string
  so_env :: "(string \<times> string) list"
  so_sources :: "string list"
  so_allowed :: "string list"
  so_disallowed :: "string list"
  so_gate :: "json \<Rightarrow> gate_answer"
  so_mcp_path :: string
  so_strict :: bool
  so_schema :: dict
  so_permission_mode :: string
  so_max_turns :: int
  so_agent :: "string option"

definition build_options :: "runner_globals \<Rightarrow> runner_request \<Rightarrow> string \<Rightarrow> sdk_options" where
  "build_options g q path =
     \<lparr>so_cli_path = rg_cli g, so_cwd = rg_repo g, so_env = [(''CLAUDE_CODE_OAUTH_TOKEN'', rg_oauth g), (''DISABLE_AUTOUPDATER'', ''1'')], so_sources = [''project''],
      so_allowed = nq_allowed q, so_disallowed = DENY_ALWAYS, so_gate = gate (nq_allowed q), so_mcp_path = path, so_strict = True,
      so_schema = nq_schema q, so_permission_mode = ''default'', so_max_turns = nq_max_turns q,
      so_agent = (case nq_agent q of None \<Rightarrow> None | Some a \<Rightarrow> if a = [] then None else Some a)\<rparr>"

section \<open>The result\<close>

text \<open>A result message of the stream: its attributes, \<open>None\<close> where it has none.\<close>

record sdk_message =
  sm_is_error :: json
  sm_structured :: "json option"
  sm_result :: "json option"
  sm_subtype :: "json option"
  sm_num_turns :: "json option"
  sm_denials :: "json option"
  sm_usage :: "json option"

text \<open>A stream is its messages (\<open>None\<close> for one that is no result), and what it raised.\<close>

definition consume :: "sdk_message option list \<Rightarrow> string option \<Rightarrow> sdk_message option \<times> string option" where
  "consume msgs err = (fold (\<lambda>m last. case m of None \<Rightarrow> last | Some r \<Rightarrow> Some r) msgs None, err)"

text \<open>\<open>getattr(last, name, None) or default\<close>, then \<open>int\<close>, \<open>list\<close> and \<open>dict\<close> of it.\<close>

definition attr_or :: "json option \<Rightarrow> json \<Rightarrow> json" where
  "attr_or a dflt = (case a of None \<Rightarrow> dflt | Some v \<Rightarrow> if truthy v then v else dflt)"

definition py_int :: "(string \<Rightarrow> exn + int) \<Rightarrow> json \<Rightarrow> exn + int" where
  "py_int parse j =
     (case j of JNum x \<Rightarrow> Inr (int_of_dec x) | JBool b \<Rightarrow> Inr (if b then 1 else 0) | JStr s \<Rightarrow> parse s | _ \<Rightarrow> Inl TypeError)"

definition py_list :: "json \<Rightarrow> exn + json list" where
  "py_list j =
     (case j of JArr xs \<Rightarrow> Inr xs | JStr s \<Rightarrow> Inr (map (\<lambda>c. JStr [c]) s) | JObj kvs \<Rightarrow> Inr (map (\<lambda>(k, _). JStr k) kvs) | _ \<Rightarrow> Inl TypeError)"

text \<open>\<open>dict\<close> of a list takes its items for pairs.\<close>

definition pair_of :: "json \<Rightarrow> exn + json \<times> json" where
  "pair_of j = bind_e (py_list j) (\<lambda>xs.
     case xs of [k, v] \<Rightarrow> (case k of JArr _ \<Rightarrow> Inl TypeError | JObj _ \<Rightarrow> Inl TypeError | _ \<Rightarrow> Inr (k, v)) | _ \<Rightarrow> Inl ValueError)"

definition py_dict :: "json \<Rightarrow> exn + (json \<times> json) list" where
  "py_dict j =
     (case j of JObj kvs \<Rightarrow> Inr (map (\<lambda>(k, v). (JStr k, v)) kvs)
      | _ \<Rightarrow> bind_e (py_list j) (\<lambda>xs. bind_e (map_e pair_of xs) (\<lambda>ps. Inr (fold (\<lambda>(k, v) d. AList.update k v d) ps []))))"

record rendering =
  rd_str :: "json \<Rightarrow> string" \<comment> \<open>\<open>str\<close> of a value that is no string\<close>
  rd_int :: "string \<Rightarrow> exn + int" \<comment> \<open>\<open>int\<close> of a text\<close>
  rd_error :: string \<comment> \<open>the text of the validation error\<close>

definition scrub :: "rendering \<Rightarrow> string list \<Rightarrow> json option \<Rightarrow> string option" where
  "scrub rd secrets v =
     redact (case v of None \<Rightarrow> None | Some JNull \<Rightarrow> None | Some (JStr s) \<Rightarrow> Some s | Some x \<Rightarrow> Some (rd_str rd x)) secrets"

definition str_opt :: "string option \<Rightarrow> json option" where "str_opt = map_option JStr"

fun all_objs :: "json list \<Rightarrow> dict list option" where
  "all_objs [] = Some []"
| "all_objs (j # js) = (case (j, all_objs js) of (JObj d, Some ds) \<Rightarrow> Some (d # ds) | _ \<Rightarrow> None)"

fun str_keys :: "(json \<times> json) list \<Rightarrow> dict option" where
  "str_keys [] = Some []"
| "str_keys ((k, v) # kvs) = (case (k, str_keys kvs) of (JStr s, Some d) \<Rightarrow> Some ((s, v) # d) | _ \<Rightarrow> None)"

definition to_result ::
  "rendering \<Rightarrow> sdk_message option \<Rightarrow> string option \<Rightarrow> rat \<Rightarrow> bool \<Rightarrow> string list \<Rightarrow> exn + run_result" where
  "to_result rd res err duration timed_out secrets =
     (let attr = (\<lambda>f. case res of None \<Rightarrow> None | Some m \<Rightarrow> f m);
          text = scrub rd secrets (case res of Some m \<Rightarrow> sm_result m | None \<Rightarrow> str_opt err);
          is_error = ((case res of Some m \<Rightarrow> truthy (sm_is_error m) | None \<Rightarrow> True) \<or> err \<noteq> None);
          subtype = scrub rd secrets (case res of Some m \<Rightarrow> sm_subtype m
            | None \<Rightarrow> if err \<noteq> None \<and> \<not> timed_out then Some (JStr ''error_runner_exception'') else None) in
      bind_e (case res of None \<Rightarrow> Inr 0 | Some m \<Rightarrow> py_int (rd_int rd) (attr_or (sm_num_turns m) (JNum 0))) (\<lambda>turns.
      bind_e (py_list (attr_or (attr sm_denials) (JArr []))) (\<lambda>denials.
      bind_e (py_dict (attr_or (attr sm_usage) (JObj []))) (\<lambda>usage.
      Inr (case (all_objs denials, str_keys usage) of
             (Some ds, Some u) \<Rightarrow>
               \<lparr>rr_verdict_raw = (case attr sm_structured of Some (JObj d) \<Rightarrow> Some d | _ \<Rightarrow> None), rr_text = text, rr_is_error = is_error,
                rr_subtype = subtype, rr_num_turns = turns, rr_denials = ds, rr_usage = u, rr_duration_s = duration, rr_timed_out = timed_out\<rparr>
           | _ \<Rightarrow>
               \<lparr>rr_verdict_raw = None,
                rr_text = redact (Some (''runner could not render the result: '' @ rd_error rd)) secrets,
                rr_is_error = True, rr_subtype = Some ''error_runner_result'', rr_num_turns = 0, rr_denials = [], rr_usage = [],
                rr_duration_s = duration, rr_timed_out = timed_out\<rparr>)))))"

section \<open>One run at a time\<close>

record http_request =
  hq_auth :: string \<comment> \<open>the \<open>authorization\<close> header, empty without one\<close>
  hq_body :: "json option" \<comment> \<open>\<open>None\<close> when it is no JSON\<close>

record runner_state =
  rn_busy :: bool
  rn_runs :: "(nat \<times> runner_request) list" \<comment> \<open>in flight\<close>
  rn_configs :: "(nat \<times> json) list" \<comment> \<open>configuration files on disk\<close>
  rn_children :: "nat set" \<comment> \<open>processes of the CLI\<close>
  rn_next :: nat

definition try_acquire :: "runner_state \<Rightarrow> bool \<times> runner_state" where
  "try_acquire st = (if rn_busy st then (False, st) else (True, st\<lparr>rn_busy := True\<rparr>))"

definition release :: "runner_state \<Rightarrow> runner_state" where "release st = st\<lparr>rn_busy := False\<rparr>"

definition refused_auth :: "runner_globals \<Rightarrow> string \<Rightarrow> int option" where
  "refused_auth g auth =
     (if take 7 (lower auth) \<noteq> ''bearer '' then Some 401
      else if rg_token g = [] \<or> strip (drop 7 auth) \<noteq> rg_token g then Some 403
      else None)"

definition parsed_body :: "coercions \<Rightarrow> json option \<Rightarrow> runner_request option" where
  "parsed_body co b = (case b of None \<Rightarrow> None | Some j \<Rightarrow> (case run_request_of co j of Inl _ \<Rightarrow> None | Inr q \<Rightarrow> Some q))"

datatype arrival = Answered int | Started nat

text \<open>
  A request up to the start of its run. The configuration file or the SDK may fail (\<open>config_ok\<close>,
  \<open>query_ok\<close>): the exception passes through the \<open>finally\<close> clauses and is a 500.
\<close>

definition start_run :: "coercions \<Rightarrow> runner_globals \<Rightarrow> bool \<Rightarrow> bool \<Rightarrow> http_request \<Rightarrow> runner_state \<Rightarrow> arrival \<times> runner_state" where
  "start_run co g config_ok query_ok r st =
     (case refused_auth g (hq_auth r) of
        Some status \<Rightarrow> (Answered status, st)
      | None \<Rightarrow>
          (case parsed_body co (hq_body r) of
             None \<Rightarrow> (Answered 422, st)
           | Some q \<Rightarrow>
               (let (got, st1) = try_acquire st in
                if \<not> got then (Answered 409, st1)
                else if \<not> config_ok \<or> \<not> query_ok then (Answered 500, release st1)
                else
                  (let i = rn_next st1 in
                   (Started i, st1\<lparr>rn_runs := rn_runs st1 @ [(i, q)], rn_configs := rn_configs st1 @ [(i, mcp_servers g q)],
                      rn_children := insert i (rn_children st1), rn_next := i + 1\<rparr>)))))"

text \<open>
  How a run ends: its stream within the budget, the budget with what closing the stream said, or
  the cancellation of the handler itself.
\<close>

datatype run_ending =
    Ran "sdk_message option list" "string option" rat
  | TimedOut "string option" rat
  | Cancelled

definition end_run ::
  "rendering \<Rightarrow> runner_globals \<Rightarrow> nat \<Rightarrow> runner_request \<Rightarrow> run_ending \<Rightarrow> runner_state \<Rightarrow> (exn + run_result) option \<times> runner_state" where
  "end_run rd g i q ending st =
     (let reaped = (case ending of Ran _ _ _ \<Rightarrow> True | TimedOut note _ \<Rightarrow> note = None | Cancelled \<Rightarrow> False);
          st1 = release (st\<lparr>rn_runs := AList.delete i (rn_runs st), rn_configs := AList.delete i (rn_configs st),
            rn_children := (if reaped then rn_children st - {i} else rn_children st)\<rparr>) in
      (case ending of
         Ran msgs err duration \<Rightarrow>
           (let (last, e) = consume msgs err in Some (to_result rd last e duration False (secrets_of g q)))
       | TimedOut note duration \<Rightarrow> Some (to_result rd None note duration True (secrets_of g q))
       | Cancelled \<Rightarrow> None, st1))"

definition runner_health :: "runner_globals \<Rightarrow> runner_state \<Rightarrow> json" where
  "runner_health g st = JObj [(''ok'', JBool (rg_oauth g \<noteq> [] \<and> rg_token g \<noteq> [])), (''busy'', JBool (rn_busy st)),
     (''cli_path'', JStr (rg_cli g)), (''engine_url'', JStr (rg_engine g))]"

section \<open>The slot\<close>

inductive runner_step :: "coercions \<Rightarrow> rendering \<Rightarrow> runner_globals \<Rightarrow> runner_state \<Rightarrow> runner_state \<Rightarrow> bool" for co rd g where
  Arrive: "start_run co g config_ok query_ok r st = (a, st') \<Longrightarrow> runner_step co rd g st st'"
| Finish: "(i, q) \<in> set (rn_runs st) \<Longrightarrow> end_run rd g i q ending st = (x, st') \<Longrightarrow> runner_step co rd g st st'"

definition runner_start :: runner_state where
  "runner_start = \<lparr>rn_busy = False, rn_runs = [], rn_configs = [], rn_children = {}, rn_next = 0\<rparr>"

definition runner_inv :: "runner_globals \<Rightarrow> runner_state \<Rightarrow> bool" where
  "runner_inv g st \<longleftrightarrow> (rn_busy st \<longleftrightarrow> rn_runs st \<noteq> []) \<and> length (rn_runs st) \<le> 1 \<and>
     rn_configs st = map (\<lambda>(i, q). (i, mcp_servers g q)) (rn_runs st) \<and> (\<forall>(i, q) \<in> set (rn_runs st). i \<in> rn_children st) \<and>
     (\<forall>i \<in> rn_children st. i < rn_next st)"

lemma start_run_cases:
  obtains (answered) status where "start_run co g config_ok query_ok r st = (Answered status, st)" "status \<in> {401, 403, 422}"
    | (busy) "start_run co g config_ok query_ok r st = (Answered 409, st)" "rn_busy st"
    | (failed) "start_run co g config_ok query_ok r st = (Answered 500, st)" "\<not> rn_busy st" "\<not> (config_ok \<and> query_ok)"
    | (started) q where "refused_auth g (hq_auth r) = None" "parsed_body co (hq_body r) = Some q" "\<not> rn_busy st" "config_ok" "query_ok"
        "start_run co g config_ok query_ok r st = (Started (rn_next st), st\<lparr>rn_busy := True, rn_runs := rn_runs st @ [(rn_next st, q)],
           rn_configs := rn_configs st @ [(rn_next st, mcp_servers g q)], rn_children := insert (rn_next st) (rn_children st),
           rn_next := rn_next st + 1\<rparr>)"
proof (cases "refused_auth g (hq_auth r)")
  case (Some status)
  then have "status \<in> {401, 403, 422}" by (auto simp: refused_auth_def split: if_splits)
  then show ?thesis using answered Some by (simp add: start_run_def)
next
  case none: None
  show ?thesis
  proof (cases "parsed_body co (hq_body r)")
    case None
    then show ?thesis using answered [of 422] none by (simp add: start_run_def)
  next
    case (Some q)
    have idle: "\<not> rn_busy st \<Longrightarrow> st\<lparr>rn_busy := False\<rparr> = st" by (cases st) simp
    show ?thesis
    proof (cases "rn_busy st")
      case True
      then show ?thesis using busy none Some by (simp add: start_run_def try_acquire_def)
    next
      case False
      show ?thesis
      proof (cases "config_ok \<and> query_ok")
        case True
        then show ?thesis using started [OF none Some False] none Some False by (simp add: start_run_def try_acquire_def Let_def)
      next
        case nok: False
        then have "start_run co g config_ok query_ok r st = (Answered 500, st)"
          using none Some False idle by (auto simp: start_run_def try_acquire_def release_def)
        then show ?thesis using failed False nok by blast
      qed
    qed
  qed
qed

lemma end_run_state:
  "snd (end_run rd g i q ending st) = st\<lparr>rn_busy := False, rn_runs := AList.delete i (rn_runs st), rn_configs := AList.delete i (rn_configs st),
     rn_children := rn_children (snd (end_run rd g i q ending st))\<rparr> \<and>
   rn_children (snd (end_run rd g i q ending st)) \<in> {rn_children st, rn_children st - {i}}"
  by (auto simp: end_run_def release_def Let_def)

lemma runner_inv_step:
  assumes "runner_inv g st" and "runner_step co rd g st st'"
  shows "runner_inv g st'"
  using assms(2)
proof cases
  case (Arrive config_ok query_ok r a)
  show ?thesis
  proof (cases rule: start_run_cases [of co g config_ok query_ok r st])
    case (started q)
    have "rn_runs st = []" using assms(1) started(3) by (simp add: runner_inv_def)
    then show ?thesis using started(6) Arrive assms(1) by (auto simp: runner_inv_def less_Suc_eq)
  qed (use Arrive assms(1) in auto)
next
  case (Finish i q ending x)
  obtain c where c: "st' = st\<lparr>rn_busy := False, rn_runs := AList.delete i (rn_runs st), rn_configs := AList.delete i (rn_configs st), rn_children := c\<rparr>"
    "c \<subseteq> rn_children st"
    using end_run_state [of rd g i q ending st] Finish(2) by (metis Diff_subset insertE order_refl singletonD snd_conv)
  have "rn_runs st = [(i, q)]" using assms(1) Finish(1) by (cases "rn_runs st") (auto simp: runner_inv_def)
  then show ?thesis using assms(1) c by (auto simp: runner_inv_def)
qed

interpretation runner: invariant "\<lambda>st. st = runner_start" "runner_step co rd g" "runner_inv g" for co rd g
  by unfold_locales (simp add: runner_start_def runner_inv_def, metis runner_inv_step)

text \<open>C19: the runner runs one job at a time. In every state it reaches there is at most one run, the slot is taken
  exactly while there is one, and the only configuration file on disk is that run's. While it runs
  every request is answered at once, with 409 when it is well formed and authorised, and changes
  nothing. However the run ends, its process reaped or not, the slot is free, the file is gone, and
  the next well-formed request is started.\<close>

theorem one_run_at_a_time:
  assumes "reachable (\<lambda>st. st = runner_start) (runner_step co rd g) st"
  shows "runner_inv g st \<and>
    (rn_runs st \<noteq> [] \<longrightarrow> (\<exists>status \<in> {401, 403, 422, 409}. start_run co g config_ok query_ok r st = (Answered status, st) \<and>
       (refused_auth g (hq_auth r) = None \<and> parsed_body co (hq_body r) \<noteq> None \<longrightarrow> status = 409))) \<and>
    (\<forall>(i, q) \<in> set (rn_runs st). \<forall>ending. let st' = snd (end_run rd g i q ending st) in
       \<not> rn_busy st' \<and> rn_runs st' = [] \<and> rn_configs st' = [] \<and>
       (refused_auth g (hq_auth r) = None \<and> parsed_body co (hq_body r) \<noteq> None \<longrightarrow> fst (start_run co g True True r st') = Started (rn_next st)))"
proof -
  have inv: "runner_inv g st" by (rule runner.reachable_inv [OF assms])
  have "\<exists>status \<in> {401, 403, 422, 409}. start_run co g config_ok query_ok r st = (Answered status, st) \<and>
       (refused_auth g (hq_auth r) = None \<and> parsed_body co (hq_body r) \<noteq> None \<longrightarrow> status = 409)" if ne: "rn_runs st \<noteq> []"
  proof -
    have b: "rn_busy st" using ne inv by (simp add: runner_inv_def)
    show ?thesis
    proof (cases rule: start_run_cases [of co g config_ok query_ok r st])
      case (answered status)
      have "\<not> (refused_auth g (hq_auth r) = None \<and> parsed_body co (hq_body r) \<noteq> None)"
      proof
        assume "refused_auth g (hq_auth r) = None \<and> parsed_body co (hq_body r) \<noteq> None"
        then have "fst (start_run co g config_ok query_ok r st) = Answered 409" using b by (auto simp: start_run_def try_acquire_def)
        then show False using answered by simp
      qed
      then show ?thesis using answered by blast
    qed (use b in auto)
  qed
  moreover have "\<not> rn_busy st' \<and> rn_runs st' = [] \<and> rn_configs st' = [] \<and>
       (refused_auth g (hq_auth r) = None \<and> parsed_body co (hq_body r) \<noteq> None \<longrightarrow> fst (start_run co g True True r st') = Started (rn_next st))"
    if iq: "(i, q) \<in> set (rn_runs st)" and st': "st' = snd (end_run rd g i q ending st)" for i q ending st'
  proof -
    have one: "rn_runs st = [(i, q)]" using inv iq by (cases "rn_runs st") (auto simp: runner_inv_def)
    then have cfg: "rn_configs st = [(i, mcp_servers g q)]" using inv by (simp add: runner_inv_def)
    obtain c where c: "st' = st\<lparr>rn_busy := False, rn_runs := AList.delete i (rn_runs st), rn_configs := AList.delete i (rn_configs st), rn_children := c\<rparr>"
      using end_run_state [of rd g i q ending st] st' by blast
    then have free: "\<not> rn_busy st'" "rn_runs st' = []" "rn_configs st' = []" "rn_next st' = rn_next st" by (simp_all add: one cfg)
    then show ?thesis by (auto simp: start_run_def try_acquire_def Let_def)
  qed
  ultimately show ?thesis using inv by (auto simp: Let_def)
qed

section \<open>What passes the gate\<close>

lemma wildcard_shape:
  "WILDCARD_SHAPE e \<longleftrightarrow> (\<exists>server. server \<noteq> [] \<and> CHR ''*'' \<notin> set server \<and> e = ''mcp__'' @ server @ ''__*'')"
proof
  assume w: "WILDCARD_SHAPE e"
  let ?server = "take (length e - 8) (drop 5 e)"
  have n: "9 \<le> length e" and p: "take 5 e = ''mcp__''" "drop (length e - 3) e = ''__*''" "CHR ''*'' \<notin> set ?server"
    using w by (simp_all add: WILDCARD_SHAPE_def Let_def)
  have "drop (length e - 8) (drop 5 e) = ''__*''" using n p(2) by simp
  then have "drop 5 e = ?server @ ''__*''" by (metis append_take_drop_id)
  then have "e = ''mcp__'' @ ?server @ ''__*''" using p(1) append_take_drop_id [of 5 e] by metis
  moreover have "?server \<noteq> []" using n by auto
  ultimately show "\<exists>server. server \<noteq> [] \<and> CHR ''*'' \<notin> set server \<and> e = ''mcp__'' @ server @ ''__*''" using p(3) by blast
next
  assume "\<exists>server. server \<noteq> [] \<and> CHR ''*'' \<notin> set server \<and> e = ''mcp__'' @ server @ ''__*''"
  then obtain server where s: "server \<noteq> []" "CHR ''*'' \<notin> set server" "e = ''mcp__'' @ server @ ''__*''" by blast
  then have "1 \<le> length server" by (cases server) auto
  then show "WILDCARD_SHAPE e" using s by (simp add: WILDCARD_SHAPE_def Let_def)
qed

lemma allowed_by_iff: "allowed_by nm es \<longleftrightarrow> nm \<in> set es \<or> (\<exists>e \<in> set es. wild e \<and> starts_with nm (butlast e))"
  by (induction es) auto

lemma v_when_Inr [vd]: "v_when ok ty x = Inr a \<longleftrightarrow> x = Inr a \<and> ok a"
  by (auto simp: v_when_def split: sum.splits)

lemma accepted_allowed:
  assumes "run_request_of co j = Inr q"
  shows "list_all (\<lambda>e. wild e \<longrightarrow> WILDCARD_SHAPE e) (nq_allowed q)" and "1 \<le> nq_max_turns q \<and> nq_max_turns q \<le> 200" and "0 < nq_timeout_s q \<and> nq_timeout_s q \<le> 7200"
proof -
  obtain d where j: "j = JObj d" using assms by (cases j) (auto simp: run_request_of_def vd)
  have d: "v_field ''allowed_tools'' v_allowed d = Inr (nq_allowed q)" and mt: "v_default ''max_turns'' (v_turns co) 40 d = Inr (nq_max_turns q)"
    and ti: "v_default ''timeout_s'' (v_timeout co) 1500 d = Inr (nq_timeout_s q)"
    using assms unfolding run_request_of_def j by (auto simp: vd runner_request.make_def)
  show "list_all (\<lambda>e. wild e \<longrightarrow> WILDCARD_SHAPE e) (nq_allowed q)" using d by (auto simp: vd v_allowed_def)
  show "1 \<le> nq_max_turns q \<and> nq_max_turns q \<le> 200"
    using mt by (auto simp: v_default_def vd v_turns_def split: option.splits)
  show "0 < nq_timeout_s q \<and> nq_timeout_s q \<le> 7200"
    using ti by (auto simp: v_default_def vd v_timeout_def split: option.splits)
qed

text \<open>C21: what a job that the runner accepted can call. The hook lets a call pass exactly when it has a name that is
  not one of the denied tools and is on the job's allowlist, by name or below the prefix of one whole
  MCP server; whatever else arrives, also what is no object or has no name, is refused.\<close>

theorem gate_exact:
  assumes "run_request_of co j = Inr q"
  shows "gate (nq_allowed q) input = NoOpinion \<longleftrightarrow>
    (\<exists>d nm. input = JObj d \<and> (case map_of d ''tool_name'' of None \<Rightarrow> JStr [] | Some v \<Rightarrow> v) = JStr nm \<and> nm \<notin> set DENY_ALWAYS \<and>
       (nm \<in> set (nq_allowed q) \<or>
        (\<exists>server. server \<noteq> [] \<and> CHR ''*'' \<notin> set server \<and> ''mcp__'' @ server @ ''__*'' \<in> set (nq_allowed q) \<and> starts_with nm (''mcp__'' @ server @ ''__''))))"
proof -
  have shape: "e \<in> set (nq_allowed q) \<Longrightarrow> wild e \<Longrightarrow> \<exists>server. server \<noteq> [] \<and> CHR ''*'' \<notin> set server \<and> e = ''mcp__'' @ server @ ''__*''" for e
    using accepted_allowed(1) [OF assms] wildcard_shape by (auto simp: list_all_iff)
  have bl: "butlast (''mcp__'' @ server @ ''__*'') = ''mcp__'' @ server @ ''__''" for server by (simp add: butlast_append)
  have wl: "wild (''mcp__'' @ server @ ''__*'')" for server by (simp add: wild_def)
  have "(\<exists>e \<in> set (nq_allowed q). wild e \<and> starts_with nm (butlast e)) \<longleftrightarrow>
      (\<exists>server. server \<noteq> [] \<and> CHR ''*'' \<notin> set server \<and> ''mcp__'' @ server @ ''__*'' \<in> set (nq_allowed q) \<and> starts_with nm (''mcp__'' @ server @ ''__''))" for nm
    using shape bl wl by metis
  then have t: "tool_allowed nm (nq_allowed q) \<longleftrightarrow> nm \<notin> set DENY_ALWAYS \<and> (nm \<in> set (nq_allowed q) \<or>
        (\<exists>server. server \<noteq> [] \<and> CHR ''*'' \<notin> set server \<and> ''mcp__'' @ server @ ''__*'' \<in> set (nq_allowed q) \<and> starts_with nm (''mcp__'' @ server @ ''__'')))" for nm
    by (simp add: tool_allowed_def allowed_by_iff)
  show ?thesis unfolding t [symmetric]
    by (cases input) (auto simp: gate_def tool_allowed_def split: json.split option.splits)
qed

section \<open>The engine's jobs at the runner\<close>

text \<open>The body the engine posts.\<close>

definition request_json :: "run_request \<Rightarrow> json" where
  "request_json q = JObj [(''job'', JStr (rq_job q)), (''prompt'', JStr (rq_prompt q)), (''allowed_tools'', JArr (map JStr (rq_allowed q))),
     (''mcp_role'', JStr (role_text (rq_role q))), (''mcp_role_token'', JStr (rq_role_token q)), (''output_schema'', rq_schema q),
     (''max_turns'', JNum (of_int (rq_max_turns q))), (''timeout_s'', JNum (rq_timeout_s q)), (''agent'', JStr (rq_agent q))]"

text \<open>What pydantic documents of values of the right type.\<close>

definition exact_coercions :: "coercions \<Rightarrow> bool" where
  "exact_coercions co \<longleftrightarrow> (\<forall>n. co_int co (JNum (of_int n)) = Inr n) \<and> (\<forall>x. co_float co (JNum x) = Inr x) \<and> (\<forall>b. co_bool co (JBool b) = Inr b)"

definition runner_sound :: "job_spec \<Rightarrow> bool" where
  "runner_sound s \<longleftrightarrow> list_all (\<lambda>e. \<not> wild e \<and> e \<notin> set DENY_ALWAYS) (js_allowed s) \<and> 1 \<le> js_max_turns s \<and> js_max_turns s \<le> 200 \<and>
     0 < js_timeout_s s \<and> js_timeout_s s \<le> 7200"

lemma spec_runner_sound:
  assumes "job_spec_of job = Inr spec"
  shows "runner_sound spec"
proof -
  obtain aa pa where aa: "ANALYST_ALLOW = Inr aa" and pa: "PM_ALLOW = Inr pa" using ALLOWS by blast
  have a: "list_all (\<lambda>e. \<not> wild e \<and> e \<notin> set DENY_ALWAYS) aa" using aa unfolding ALLOWS by (auto simp only: sum.inject) code_simp
  have p: "list_all (\<lambda>e. \<not> wild e \<and> e \<notin> set DENY_ALWAYS) pa" using pa unfolding ALLOWS by (auto simp only: sum.inject) code_simp
  have s: "runner_sound (evening aa nm ag)" "runner_sound (preopen aa nm ag)" "runner_sound (pm_spec pa)" "runner_sound (midday_spec pa)" for nm ag
    using a p by (simp_all add: runner_sound_def evening_def preopen_def pm_spec_def midday_spec_def)
  let ?L = "[(''analyst_technical'', evening aa ''analyst_technical'' ''analyst-technical''), (''analyst_earnings'', evening aa ''analyst_earnings'' ''analyst-earnings''),
       (''analyst_news'', evening aa ''analyst_news'' ''analyst-news''), (''analyst_macro'', evening aa ''analyst_macro'' ''analyst-macro''),
       (''preopen_news'', preopen aa ''preopen_news'' ''analyst-news''), (''preopen_earnings'', preopen aa ''preopen_earnings'' ''analyst-earnings''),
       (''pm'', pm_spec pa), (''pm_midday'', midday_spec pa)]"
  have L: "JOB_SPECS = Inr ?L" by (simp add: JOB_SPECS_def aa pa)
  have "map_of ?L job = Some spec" using assms unfolding job_spec_of_def L bind_e_Inr the_or_eq_Inr .
  then have "spec \<in> snd ` set ?L" by (intro image_eqI [where x = "(job, spec)"] map_of_SomeD) simp_all
  moreover have "\<forall>x \<in> snd ` set ?L. runner_sound x" using s by simp
  ultimately show ?thesis by (rule bspec [rotated])
qed

lemma v_str_items: "v_list v_str (JArr (map JStr xs)) = Inr xs"
  by (simp add: vd list_all2_map1 list_all2_same)

lemma request_reads_back:
  assumes "exact_coercions co" and "list_all (\<lambda>e. \<not> wild e) (rq_allowed q)" and "1 \<le> rq_max_turns q" "rq_max_turns q \<le> 200"
    and "0 < rq_timeout_s q" "rq_timeout_s q \<le> 7200" and "rq_schema q = JObj schema"
  shows "run_request_of co (request_json q) = Inr \<lparr>nq_job = rq_job q, nq_prompt = rq_prompt q, nq_allowed = rq_allowed q, nq_role = rq_role q,
    nq_role_token = rq_role_token q, nq_schema = schema, nq_max_turns = rq_max_turns q, nq_timeout_s = rq_timeout_s q, nq_agent = Some (rq_agent q)\<rparr>"
proof -
  have al: "v_allowed (JArr (map JStr (rq_allowed q))) = Inr (rq_allowed q)"
    using assms(2) by (simp add: v_allowed_def v_str_items v_when_def list_all_iff)
  have ro: "v_role (JStr (role_text (rq_role q))) = Inr (rq_role q)" by (cases "rq_role q") (simp_all add: v_role_def role_text_def)
  have mt: "v_turns co (JNum (of_int (rq_max_turns q))) = Inr (rq_max_turns q)"
    using assms(1,3,4) by (simp add: v_turns_def v_when_def v_scalar_def exact_coercions_def)
  have ti: "v_timeout co (JNum (rq_timeout_s q)) = Inr (rq_timeout_s q)"
    using assms(1,5,6) by (simp add: v_timeout_def v_when_def v_scalar_def exact_coercions_def)
  show ?thesis
    by (simp add: run_request_of_def request_json_def v_model_def v_forbid_def v_field_def v_default_def v_str_def al ro mt ti assms(7)
        v_dict_def v_opt_def runner_request.make_def)
qed

lemma schema_is_object: "output_schema s = Inr j \<Longrightarrow> \<exists>d. j = JObj d"
  unfolding output_schema_def Let_def bind_e_eq_Inr by (elim exE conjE) (auto simp: raise_if_def is_obj_def split: if_splits json.splits)

text \<open>C26: the engine's side and the runner's agree. What the engine posts for a job of its table the runner
  accepts, field by field as it was meant; and the hook of that run lets through exactly the tools of
  the job's allowlist, none of them denied.\<close>

theorem dispatched_job_accepted:
  assumes "job_spec_of job = Inr spec" and "run_payload env spec extra base tok = Inr q" and "exact_coercions co"
  shows "\<exists>n. run_request_of co (request_json q) = Inr n \<and> nq_job n = js_name spec \<and> nq_role n = js_role spec \<and> nq_allowed n = js_allowed spec \<and>
    nq_prompt n = (if extra = [] then js_prompt spec else js_prompt spec @ [CHR 0x0A, CHR 0x0A] @ extra) \<and>
    nq_max_turns n = js_max_turns spec \<and> nq_timeout_s n = js_timeout_s spec \<and> nq_agent n = Some (js_agent spec) \<and>
    output_schema (re_schema env (js_verdict spec)) = Inr (JObj (nq_schema n)) \<and>
    nq_role_token n = (case token_for (re_client env) (js_role spec) of None \<Rightarrow> [] | Some t \<Rightarrow> t) \<and>
    (\<forall>nm. gate (nq_allowed n) (JObj [(''tool_name'', JStr nm)]) = NoOpinion \<longleftrightarrow> nm \<in> set (js_allowed spec))"
proof -
  have rs: "runner_sound spec" by (rule spec_runner_sound [OF assms(1)])
  obtain j where j: "output_schema (re_schema env (js_verdict spec)) = Inr j"
    using assms(2) unfolding run_payload_def bind_e_eq_Inr by (elim exE conjE)
  then obtain schema where s: "output_schema (re_schema env (js_verdict spec)) = Inr (JObj schema)" using schema_is_object by blast
  have q: "rq_job q = js_name spec" "rq_role q = js_role spec" "rq_allowed q = js_allowed spec" "rq_max_turns q = js_max_turns spec"
      "rq_timeout_s q = js_timeout_s spec" "rq_agent q = js_agent spec" "rq_schema q = JObj schema" "rq_prompt q = (if extra = [] then js_prompt spec else js_prompt spec @ [CHR 0x0A, CHR 0x0A] @ extra)"
      "rq_role_token q = (case token_for (re_client env) (js_role spec) of None \<Rightarrow> [] | Some t \<Rightarrow> t)"
    using assms(2) by (auto simp: run_payload_def s)
  have nowild: "list_all (\<lambda>e. \<not> wild e) (rq_allowed q)" using rs q(3) by (auto simp: runner_sound_def list_all_iff)
  have r: "run_request_of co (request_json q) = Inr \<lparr>nq_job = rq_job q, nq_prompt = rq_prompt q, nq_allowed = rq_allowed q, nq_role = rq_role q,
    nq_role_token = rq_role_token q, nq_schema = schema, nq_max_turns = rq_max_turns q, nq_timeout_s = rq_timeout_s q, nq_agent = Some (rq_agent q)\<rparr>"
    using rs by (intro request_reads_back [OF assms(3) nowild _ _ _ _ q(7)]) (simp_all add: q runner_sound_def)
  have g: "gate (js_allowed spec) (JObj [(''tool_name'', JStr nm)]) = NoOpinion \<longleftrightarrow> nm \<in> set (js_allowed spec)" for nm
    using rs by (auto simp: gate_def tool_allowed_def allowed_by_iff runner_sound_def list_all_iff)
  show ?thesis using r g s q by auto
qed

text \<open>What the runner answers with, and the engine's reading of it.\<close>

definition result_json :: "run_result \<Rightarrow> rat \<Rightarrow> json" where
  "result_json r teardown = JObj [(''verdict_raw'', case rr_verdict_raw r of None \<Rightarrow> JNull | Some d \<Rightarrow> JObj d), (''result_text'', opt_json (rr_text r)),
     (''is_error'', JBool (rr_is_error r)), (''subtype'', opt_json (rr_subtype r)), (''num_turns'', JNum (of_int (rr_num_turns r))),
     (''permission_denials'', JArr (map JObj (rr_denials r))), (''usage'', JObj (rr_usage r)), (''duration_s'', JNum (rr_duration_s r)),
     (''timed_out'', JBool (rr_timed_out r)), (''teardown_s'', JNum teardown)]"

lemma result_reads_back:
  assumes "exact_coercions co"
  shows "run_result_view co (result_json r teardown) = Inr r"
proof -
  have o: "v_opt v_str (opt_json x) = Inr x" for x by (cases x) (simp_all add: v_opt_def opt_json_def v_str_def)
  have d: "v_opt v_dict (case x of None \<Rightarrow> JNull | Some d \<Rightarrow> JObj d) = Inr x" for x by (cases x) (simp_all add: v_opt_def v_dict_def)
  have l: "v_list v_dict (JArr (map JObj ds)) = Inr ds" for ds by (simp add: vd v_dict_def list_all2_map1 list_all2_same)
  show ?thesis using assms
    by (cases r) (simp add: run_result_view_def result_json_def v_model_def v_default_def o d l v_scalar_def exact_coercions_def v_dict_def run_result.make_def)
qed

lemma to_result_shape:
  assumes "to_result rd res e duration timed_out secrets = Inr r"
  obtains turns denials usage where
    "r = (case (all_objs denials, str_keys usage) of
             (Some ds, Some u) \<Rightarrow>
               \<lparr>rr_verdict_raw = (case (case res of None \<Rightarrow> None | Some m \<Rightarrow> sm_structured m) of Some (JObj d) \<Rightarrow> Some d | _ \<Rightarrow> None),
                rr_text = scrub rd secrets (case res of Some m \<Rightarrow> sm_result m | None \<Rightarrow> str_opt e),
                rr_is_error = ((case res of Some m \<Rightarrow> truthy (sm_is_error m) | None \<Rightarrow> True) \<or> e \<noteq> None),
                rr_subtype = scrub rd secrets (case res of Some m \<Rightarrow> sm_subtype m
                  | None \<Rightarrow> if e \<noteq> None \<and> \<not> timed_out then Some (JStr ''error_runner_exception'') else None),
                rr_num_turns = turns, rr_denials = ds, rr_usage = u, rr_duration_s = duration, rr_timed_out = timed_out\<rparr>
           | _ \<Rightarrow>
               \<lparr>rr_verdict_raw = None,
                rr_text = redact (Some (''runner could not render the result: '' @ rd_error rd)) secrets,
                rr_is_error = True, rr_subtype = Some ''error_runner_result'', rr_num_turns = 0, rr_denials = [], rr_usage = [],
                rr_duration_s = duration, rr_timed_out = timed_out\<rparr>)"
  using assms unfolding to_result_def Let_def bind_e_eq_Inr sum.inject by metis

lemma to_result_cases:
  assumes "to_result rd res e duration timed_out secrets = Inr r"
  obtains (rendered) "rr_verdict_raw r = (case (case res of None \<Rightarrow> None | Some m \<Rightarrow> sm_structured m) of Some (JObj d) \<Rightarrow> Some d | _ \<Rightarrow> None)"
      "rr_text r = scrub rd secrets (case res of Some m \<Rightarrow> sm_result m | None \<Rightarrow> str_opt e)"
      "rr_is_error r = ((case res of Some m \<Rightarrow> truthy (sm_is_error m) | None \<Rightarrow> True) \<or> e \<noteq> None)"
      "\<exists>v. rr_subtype r = scrub rd secrets v" "rr_duration_s r = duration" "rr_timed_out r = timed_out"
    | (unrenderable) "rr_verdict_raw r = None" "\<exists>t. rr_text r = redact (Some t) secrets" "rr_is_error r" "rr_subtype r = Some ''error_runner_result''"
      "rr_duration_s r = duration" "rr_timed_out r = timed_out"
proof (rule to_result_shape [OF assms])
  fix turns denials usage
  assume r: "r = (case (all_objs denials, str_keys usage) of
             (Some ds, Some u) \<Rightarrow>
               \<lparr>rr_verdict_raw = (case (case res of None \<Rightarrow> None | Some m \<Rightarrow> sm_structured m) of Some (JObj d) \<Rightarrow> Some d | _ \<Rightarrow> None),
                rr_text = scrub rd secrets (case res of Some m \<Rightarrow> sm_result m | None \<Rightarrow> str_opt e),
                rr_is_error = ((case res of Some m \<Rightarrow> truthy (sm_is_error m) | None \<Rightarrow> True) \<or> e \<noteq> None),
                rr_subtype = scrub rd secrets (case res of Some m \<Rightarrow> sm_subtype m
                  | None \<Rightarrow> if e \<noteq> None \<and> \<not> timed_out then Some (JStr ''error_runner_exception'') else None),
                rr_num_turns = turns, rr_denials = ds, rr_usage = u, rr_duration_s = duration, rr_timed_out = timed_out\<rparr>
           | _ \<Rightarrow>
               \<lparr>rr_verdict_raw = None,
                rr_text = redact (Some (''runner could not render the result: '' @ rd_error rd)) secrets,
                rr_is_error = True, rr_subtype = Some ''error_runner_result'', rr_num_turns = 0, rr_denials = [], rr_usage = [],
                rr_duration_s = duration, rr_timed_out = timed_out\<rparr>)"
  show thesis
  proof (cases "\<exists>ds u. all_objs denials = Some ds \<and> str_keys usage = Some u")
    case True
    then obtain ds u where "all_objs denials = Some ds" "str_keys usage = Some u" by blast
    then show ?thesis by (intro rendered) (simp_all add: r, blast)
  next
    case False
    then show ?thesis by (cases "all_objs denials"; cases "str_keys usage") (rule unrenderable; auto simp: r)+
  qed
qed

text \<open>The engine sees of a run what the runner made of it. A result the runner renders is read by the engine as
  the same result; it is an error exactly when there was no result message, the message is one, or
  the stream raised; a run past its budget is flagged as such; its verdict is the message's
  structured output when that is an object, and none otherwise.\<close>

theorem rendered_result_read:
  assumes "to_result rd res e duration timed_out secrets = Inr r" and "exact_coercions co"
  shows "read_reply co (HttpReply 200 (Inr (result_json r teardown))) = reply_result r \<and> rr_timed_out r = timed_out \<and> rr_duration_s r = duration \<and>
    (rr_subtype r = Some ''error_runner_result'' \<and> rr_is_error r \<and> rr_verdict_raw r = None \<or>
     (rr_is_error r \<longleftrightarrow> res = None \<or> e \<noteq> None \<or> (\<exists>m. res = Some m \<and> truthy (sm_is_error m))) \<and>
     (\<forall>d. rr_verdict_raw r = Some d \<longleftrightarrow> (\<exists>m. res = Some m \<and> sm_structured m = Some (JObj d))))"
proof -
  have "read_reply co (HttpReply 200 (Inr (result_json r teardown))) = reply_result r"
    by (simp add: read_reply_def result_reads_back [OF assms(2)])
  then show ?thesis
  proof (cases rule: to_result_cases [OF assms(1)])
    case 1
    have "rr_verdict_raw r = Some d \<longleftrightarrow> (\<exists>m. res = Some m \<and> sm_structured m = Some (JObj d))" for d
      unfolding 1(1) by (auto split: option.splits json.splits)
    moreover have "rr_is_error r \<longleftrightarrow> res = None \<or> e \<noteq> None \<or> (\<exists>m. res = Some m \<and> truthy (sm_is_error m))"
      unfolding 1(3) by (cases res) auto
    moreover note read = \<open>read_reply co (HttpReply 200 (Inr (result_json r teardown))) = reply_result r\<close>
    ultimately show ?thesis using 1(5,6) by blast
  next
    case 2
    moreover note read = \<open>read_reply co (HttpReply 200 (Inr (result_json r teardown))) = reply_result r\<close>
    ultimately show ?thesis by blast
  qed
qed

section \<open>Redaction\<close>

text \<open>
  A secret that redaction is sure to hide: it has a character that is not in \<open>[REDACTED]\<close>, and no
  bracket, as every token has.
\<close>

definition hideable :: "string \<Rightarrow> bool" where
  "hideable w \<longleftrightarrow> CHR ''['' \<notin> set w \<and> CHR '']'' \<notin> set w \<and> \<not> set w \<subseteq> set REDACTED"

lemma replace_all_prefix:
  "CHR ''['' \<notin> set (take n (replace_all w REDACTED s)) \<Longrightarrow> take n (replace_all w REDACTED s) = take n s"
proof (induction w "REDACTED" s arbitrary: n rule: replace_all.induct)
  case (2 w c s)
  show ?case
  proof (cases n)
    case (Suc m)
    show ?thesis
    proof (cases "w \<noteq> [] \<and> starts_with (c # s) w")
      case True
      then show ?thesis using 2(3) Suc by (simp add: REDACTED_def)
    next
      case False
      then have "replace_all w REDACTED (c # s) = c # replace_all w REDACTED s" by auto
      then show ?thesis using 2(2) [OF False, of m] 2(3) Suc by simp
    qed
  qed simp
qed simp

lemma occurs_iff: "occurs w s \<longleftrightarrow> (\<exists>i \<le> length s. starts_with (drop i s) w)"
proof (induction s)
  case Nil
  then show ?case by (auto simp: starts_with_def)
next
  case (Cons c s)
  have "(\<exists>i \<le> length (c # s). starts_with (drop i (c # s)) w) \<longleftrightarrow> starts_with (c # s) w \<or> (\<exists>i \<le> length s. starts_with (drop i s) w)"
    by (metis (no_types, lifting) Suc_le_mono drop0 drop_Suc_Cons length_Cons not0_implies_Suc zero_le)
  then show ?case using Cons by (simp add: starts_with_def)
qed

text \<open>An occurrence of a hideable secret does not reach into the mark.\<close>

lemma occurs_past_mark:
  assumes "hideable w" and "occurs w (REDACTED @ t)"
  shows "occurs w t"
proof -
  obtain i where i: "i \<le> length (REDACTED @ t)" "take (length w) (drop i (REDACTED @ t)) = w"
    using assms(2) by (auto simp: occurs_iff starts_with_def)
  have ne: "w \<noteq> []" using assms(1) by (auto simp: hideable_def)
  have "\<not> i < length REDACTED"
  proof
    assume lt: "i < length REDACTED"
    show False
    proof (cases "length w \<le> length REDACTED - i")
      case True
      then have "w = take (length w) (drop i REDACTED)" using i(2) by simp
      then have "set w \<subseteq> set REDACTED" by (metis in_set_dropD in_set_takeD subsetI)
      then show False using assms(1) by (simp add: hideable_def)
    next
      case False
      then have "w = drop i REDACTED @ take (length w - (length REDACTED - i)) t" using i(2) lt by simp
      moreover have "CHR '']'' \<in> set (drop i REDACTED)"
      proof -
        have "last REDACTED = CHR '']''" "REDACTED \<noteq> []" by (simp_all add: REDACTED_def)
        then show ?thesis using lt last_in_set [of "drop i REDACTED"] by simp
      qed
      ultimately have "CHR '']'' \<in> set w" by (metis Un_iff set_append)
      then show False using assms(1) by (simp add: hideable_def)
    qed
  qed
  then have "take (length w) (drop (i - length REDACTED) t) = w" using i(2) by simp
  then show ?thesis using i(1) by (auto simp: occurs_iff starts_with_def intro!: exI [of _ "i - length REDACTED"])
qed

lemma replace_creates_nothing:
  assumes "hideable v" and "occurs v (replace_all w REDACTED s)"
  shows "occurs v s"
  using assms(2)
proof (induction w "REDACTED" s rule: replace_all.induct)
  case (2 w c s)
  show ?case
  proof (cases "w \<noteq> [] \<and> starts_with (c # s) w")
    case True
    then have "occurs v (replace_all w REDACTED (drop (length w) (c # s)))" using 2(3) occurs_past_mark [OF assms(1)] by simp
    then have "occurs v (drop (length w) (c # s))" using 2(1) [OF True] by blast
    then show ?thesis using occurs_right [of v "drop (length w) (c # s)" "take (length w) (c # s)"] by (simp only: append_take_drop_id)
  next
    case False
    then have e: "replace_all w REDACTED (c # s) = c # replace_all w REDACTED s" by auto
    show ?thesis
    proof (cases "starts_with (c # replace_all w REDACTED s) v")
      case True
      then have t: "take (length v) (replace_all w REDACTED (c # s)) = v" unfolding e by (simp only: starts_with_def)
      moreover have "CHR ''['' \<notin> set v" using assms(1) by (simp add: hideable_def)
      ultimately have "take (length v) (c # s) = v" using replace_all_prefix [of "length v" w "c # s"] by simp
      then show ?thesis by simp
    next
      case nf: False
      then have "occurs v (replace_all w REDACTED s)" using 2(3) unfolding e by (simp add: starts_with_def)
      then show ?thesis using 2(2) [OF False] by simp
    qed
  qed
qed simp

lemma replace_hides:
  assumes "hideable w"
  shows "\<not> occurs w (replace_all w REDACTED s)"
proof -
  have ne: "w \<noteq> []" using assms by (auto simp: hideable_def)
  have "\<not> occurs w' (replace_all w' REDACTED s)" if "w' = w" for w'
    using that
  proof (induction w' "REDACTED" s rule: replace_all.induct)
    case (1 w)
    then show ?case using ne by simp
  next
    case (2 w' c s)
    show ?case
    proof (cases "w' \<noteq> [] \<and> starts_with (c # s) w'")
      case True
      then show ?thesis using 2(1) [OF True] 2(3) occurs_past_mark [OF assms] by auto
    next
      case False
      then have e: "replace_all w' REDACTED (c # s) = c # replace_all w' REDACTED s" by auto
      have "take (length w') (replace_all w' REDACTED (c # s)) \<noteq> w'"
      proof
        assume t: "take (length w') (replace_all w' REDACTED (c # s)) = w'"
        moreover have "CHR ''['' \<notin> set w'" using assms 2(3) by (simp add: hideable_def)
        ultimately have "take (length w') (c # s) = w'" using replace_all_prefix [of "length w'" w' "c # s"] by simp
        then show False using False ne 2(3) by (simp add: starts_with_def)
      qed
      then show ?thesis using 2(2) [OF False 2(3)] unfolding e by (simp add: starts_with_def)
    qed
  qed
  then show ?thesis by simp
qed

lemma redact_hides:
  assumes "list_all hideable secrets" and "redact (Some t) secrets = Some out" and "w \<in> set secrets"
  shows "\<not> occurs w out"
proof -
  have keep: "list_all hideable ws \<Longrightarrow> hideable w \<Longrightarrow> \<not> occurs w x \<Longrightarrow> \<not> occurs w (fold (\<lambda>v y. replace_all v REDACTED y) ws x)" for ws x
    by (induction ws arbitrary: x) (auto dest: replace_creates_nothing)
  have "list_all hideable ws \<Longrightarrow> w \<in> set ws \<Longrightarrow> \<not> occurs w (fold (\<lambda>v y. replace_all v REDACTED y) ws x)" for ws x
  proof (induction ws arbitrary: x)
    case (Cons v ws)
    then show ?case using keep [of ws "replace_all v REDACTED x"] replace_hides [of w x] by auto
  qed simp
  then show ?thesis using assms by (auto simp: redact_def)
qed

text \<open>C28: the texts the runner hands back hold no secret. Neither the result's text nor its subtype contains the
  job's bearer, the runner's token or the OAuth token, whatever the SDK or an exception said, when
  these are tokens (no bracket, and not made of the letters of the mark alone). The subtype of a
  result that could not be rendered is a constant.\<close>

theorem result_hides_secrets:
  assumes "to_result rd res e duration timed_out (secrets_of g q) = Inr r" and "list_all hideable (secrets_of g q)"
    and "w \<in> {nq_role_token q, rg_token g, rg_oauth g}" and "w \<noteq> []"
    and "rr_text r = Some out \<or> rr_subtype r = Some out \<and> out \<noteq> ''error_runner_result''"
  shows "\<not> occurs w out"
proof -
  have w: "w \<in> set (secrets_of g q)" using assms(3,4) by (auto simp: secrets_of_def)
  have red: "redact x (secrets_of g q) = Some y \<Longrightarrow> \<not> occurs w y" for x y
    using redact_hides [OF assms(2) _ w] by (cases x) (auto simp: redact_def)
  then have sc: "scrub rd (secrets_of g q) v = Some y \<Longrightarrow> \<not> occurs w y" for v y by (simp add: scrub_def)
  show ?thesis
  proof (cases rule: to_result_cases [OF assms(1)])
    case 1
    then show ?thesis using sc assms(5) by metis
  next
    case 2
    then show ?thesis using red assms(5) by auto
  qed
qed

section \<open>What is not scrubbed, and what is not caught\<close>

text \<open>
  Only the text and the subtype are scrubbed: the arguments of a refused call and the verdict leave
  the process as they are. And the conversions of the message's fields stand before the \<open>try\<close>: a
  malformed one raises, and the run is answered with a 500.
\<close>

lemma denials_not_scrubbed:
  "to_result rd (Some (m\<lparr>sm_denials := Some (JArr [JObj d]), sm_num_turns := None, sm_usage := None\<rparr>)) e duration timed_out secrets = Inr r \<Longrightarrow>
    rr_denials r = [d]"
  by (simp add: to_result_def attr_or_def py_list_def py_int_def py_dict_def Let_def) (auto simp: err)

lemma malformed_turns_raise:
  "to_result rd (Some (m\<lparr>sm_num_turns := Some (JArr [x])\<rparr>)) e duration timed_out secrets = Inl TypeError"
  by (simp add: to_result_def attr_or_def py_int_def Let_def)

section \<open>Examples\<close>

lemma demo_exact: "exact_coercions demo_co"
  by (simp add: exact_coercions_def demo_co_def int_only_of_int)

definition demo_globals :: runner_globals where
  "demo_globals = \<lparr>rg_cli = ''/usr/local/bin/claude'', rg_repo = ''/app/repo'', rg_token = ''runner-token-1'', rg_oauth = ''sk-ant-oat01-x'', rg_engine = ''http://127.0.0.1:8080''\<rparr>"

definition demo_request :: json where
  "demo_request = JObj [(''job'', JStr ''analyst_news''), (''prompt'', JStr ''p''), (''allowed_tools'', JArr [JStr ''mcp__engine__*'', JStr ''WebSearch'']),
     (''mcp_role'', JStr ''research''), (''mcp_role_token'', JStr ''role-token-1''), (''output_schema'', JObj [])]"

definition demo_accepted :: runner_request where
  "demo_accepted = \<lparr>nq_job = ''analyst_news'', nq_prompt = ''p'', nq_allowed = [''mcp__engine__*'', ''WebSearch''], nq_role = Research,
     nq_role_token = ''role-token-1'', nq_schema = [], nq_max_turns = 40, nq_timeout_s = 1500, nq_agent = None\<rparr>"

lemma demo_parsed: "run_request_of demo_co demo_request = Inr demo_accepted"
  by code_simp

definition demo_rendering :: rendering where
  "demo_rendering = \<lparr>rd_str = (\<lambda>_. ''?''), rd_int = (\<lambda>_. Inl ValueError), rd_error = ''ValidationError''\<rparr>"

theorem gate_exact_witness:
  "run_request_of demo_co demo_request = Inr demo_accepted \<and>
   gate (nq_allowed demo_accepted) (JObj [(''tool_name'', JStr ''mcp__engine__quotes'')]) = NoOpinion \<and>
   gate (nq_allowed demo_accepted) (JObj [(''tool_name'', JStr ''Bash'')]) \<noteq> NoOpinion"
proof -
  have "starts_with ''mcp__engine__quotes'' (''mcp__'' @ ''engine'' @ ''__'')" by (simp add: starts_with_def)
  then have "gate (nq_allowed demo_accepted) (JObj [(''tool_name'', JStr ''mcp__engine__quotes'')]) = NoOpinion"
    unfolding gate_exact [OF demo_parsed] by (auto simp: demo_accepted_def DENY_ALWAYS_def intro!: exI [of _ "''engine''"])
  moreover have "gate (nq_allowed demo_accepted) (JObj [(''tool_name'', JStr ''Bash'')]) \<noteq> NoOpinion"
    unfolding gate_exact [OF demo_parsed] by (simp add: DENY_ALWAYS_def)
  ultimately show ?thesis using demo_parsed by blast
qed

theorem one_run_at_a_time_witness:
  "\<exists>st. reachable (\<lambda>st. st = runner_start) (runner_step demo_co demo_rendering demo_globals) st \<and> rn_busy st \<and>
     start_run demo_co demo_globals True True \<lparr>hq_auth = ''Bearer runner-token-1'', hq_body = Some demo_request\<rparr> st = (Answered 409, st)"
proof -
  let ?r = "\<lparr>hq_auth = ''Bearer runner-token-1'', hq_body = Some demo_request\<rparr>"
  have ok: "refused_auth demo_globals (hq_auth ?r) = None" by code_simp
  have pb: "parsed_body demo_co (hq_body ?r) = Some demo_accepted" by (simp add: parsed_body_def demo_parsed)
  obtain st where st: "start_run demo_co demo_globals True True ?r runner_start = (Started 0, st)" "rn_runs st \<noteq> []"
    using ok pb by (simp add: start_run_def try_acquire_def runner_start_def Let_def)
  have "runner_step demo_co demo_rendering demo_globals runner_start st" using st(1) by (rule Arrive)
  then have r: "reachable (\<lambda>st. st = runner_start) (runner_step demo_co demo_rendering demo_globals) st" unfolding reachable_def by blast
  note t = one_run_at_a_time [OF r, of True True ?r]
  then have "start_run demo_co demo_globals True True ?r st = (Answered 409, st)" using st(2) ok pb by auto
  moreover have "rn_busy st" using t st(2) by (simp add: runner_inv_def)
  ultimately show ?thesis using r by blast
qed

theorem dispatched_job_accepted_witness:
  "\<exists>spec q n. job_spec_of ''pm_midday'' = Inr spec \<and> run_payload demo_env spec [] ''http://runner:8000'' ''t'' = Inr q \<and>
     run_request_of demo_co (request_json q) = Inr n \<and> nq_job n = ''pm_midday'' \<and> nq_max_turns n = 15"
proof -
  obtain aa pa where pa: "ANALYST_ALLOW = Inr aa" "PM_ALLOW = Inr pa" using ALLOWS by blast
  have j: "job_spec_of ''pm_midday'' = Inr (midday_spec pa)" by (simp add: job_spec_of_def JOB_SPECS_def pa)
  have "output_schema demo_schema = Inr demo_flat" by code_simp
  then obtain q where q: "run_payload demo_env (midday_spec pa) [] ''http://runner:8000'' ''t'' = Inr q"
    by (simp add: run_payload_def demo_env_def)
  from dispatched_job_accepted [OF j q demo_exact] j q show ?thesis by (auto simp: midday_spec_def)
qed

definition demo_message :: sdk_message where
  "demo_message = \<lparr>sm_is_error = JBool True, sm_structured = None, sm_result = Some (JStr ''401 for Bearer role-token-1''), sm_subtype = Some (JStr ''success''),
     sm_num_turns = Some (JNum 3), sm_denials = None, sm_usage = None\<rparr>"

definition demo_result :: run_result where
  "demo_result = \<lparr>rr_verdict_raw = None, rr_text = Some ''401 for Bearer [REDACTED]'', rr_is_error = True, rr_subtype = Some ''success'', rr_num_turns = 3,
     rr_denials = [], rr_usage = [], rr_duration_s = 2, rr_timed_out = False\<rparr>"

lemma demo_rendered: "to_result demo_rendering (Some demo_message) None 2 False (secrets_of demo_globals demo_accepted) = Inr demo_result"
  by code_simp

theorem rendered_result_read_witness:
  "to_result demo_rendering (Some demo_message) None 2 False (secrets_of demo_globals demo_accepted) = Inr demo_result \<and>
   read_reply demo_co (HttpReply 200 (Inr (result_json demo_result 0))) = reply_result demo_result"
  using rendered_result_read [OF demo_rendered demo_exact, of 0] demo_rendered by blast

theorem result_hides_secrets_witness:
  "rr_text demo_result = Some ''401 for Bearer [REDACTED]'' \<and> \<not> occurs ''role-token-1'' ''401 for Bearer [REDACTED]''"
proof -
  have h: "list_all hideable (secrets_of demo_globals demo_accepted)" by code_simp
  have "rr_text demo_result = Some ''401 for Bearer [REDACTED]''" by (simp add: demo_result_def)
  with result_hides_secrets [OF demo_rendered h, of "''role-token-1''" "''401 for Bearer [REDACTED]''"] show ?thesis
    by (simp add: demo_accepted_def)
qed

end
