(* ===== verification/Spec2Isabelle.thy ===== *)
theory Spec2Isabelle
  imports TC_Desk TC_Book TC_Engine TC_Docs TC_Research TC_Scorecard TC_Universe TC_Runner
begin

text \<open>
  A verification library for the trading engine under src/engine/tc and the runner of its language
  models under src/runner: a desk of analysts that file pitches, a portfolio manager that funds
  them within a written rule set, a paper book, the loops that monitor the real account, and the
  jobs that research the market. Theory names follow the parts of the program.

  The parts, in the order of the code:

  \<^item> Numbers and rules. \<open>TC_Money\<close> has the decimal type with its 28-digit context (money.py and
    Python's decimal), \<open>TC_Rules\<close> the rule parameters and arithmetic (rules/model.py,
    rules/arith.py, rules.yml), \<open>TC_Text\<close> the string operations, \<open>TC_Clock\<close> dates, zones, market
    windows and phases (clock.py).
  \<^item> The desk. \<open>TC_Store\<close> holds its tables as one record and the operations of desk/calls.py;
    \<open>TC_Sizing\<close> the book limits (desk/sizing.py), \<open>TC_Paper\<close> the paper book (desk/paper.py),
    \<open>TC_Pitches\<close> the filing of pitches, \<open>TC_Scoring\<close> the resolution of pitches and calls against
    daily bars, \<open>TC_Indicators\<close> the indicators and the bar cache, \<open>TC_Options\<close> contract
    selection, \<open>TC_Pm\<close> the portfolio manager's calls, \<open>TC_Post\<close> posting and approval,
    \<open>TC_Watch\<close> the five-minute entry and exit pass. \<open>TC_Desk\<close> composes them: its step relation
    \<open>desk_step\<close> has one rule per operation of the desk.
  \<^item> The loops. \<open>TC_Scheduler\<close> is scheduler.py; \<open>TC_Ledger\<close> the ledger tables of store/db.py with
    the broker rows they hold and the session close (loops/session.py); \<open>TC_Monitor\<close> the clocks
    and the reconciled view (loops/clocks.py, loops/reconcile.py); \<open>TC_Tick\<close> the sweep
    (loops/tick.py); \<open>TC_Token\<close> the token file, its loop and the expectations (broker/token.py,
    loops/token.py, loops/expectations.py).
  \<^item> The language-model jobs. \<open>TC_Json\<close> has JSON values and pydantic's validation of them, \<open>TC_Spec\<close>
    the job table, the verdict models and the flattening of their schemas (jobs/spec.py,
    mcp/registry.py), \<open>TC_Dispatch\<close> the client of the runner and the execution of a job
    (jobs/dispatch.py), \<open>TC_Runner\<close> the service at the other end (runner/tc_runner/app.py): its
    validation, tool gate, single run slot, redaction and result.
  \<^item> Research. \<open>TC_Render\<close> has the text operations, \<open>TC_Docs\<close> the documents (research/docs.py),
    \<open>TC_Research\<close> the validating ledgers (research/ledgers.py), \<open>TC_Scorecard\<close> the scorecard and its
    checkpoint (desk/scorecard.py), \<open>TC_Csv\<close> the CSV reader and \<open>TC_Universe\<close> the weekly sweep
    that uses it (loops/universe.py).
  \<^item> The engine. \<open>TC_State\<close> is its state, the market window and the monitoring jobs; \<open>TC_Jobs\<close> the
    other jobs and the table that executes a job by its name; \<open>TC_Engine\<close> the scheduler pass and
    the dispatch of a fire (main.py), with the step relation \<open>engine_step\<close>.
  \<^item> Specifications. \<open>TC_Book\<close> is the abstract account that the paper book refines.

  How state and effects are modelled. A SQLite table is the list of its rows in insertion order;
  a function that may raise returns \<open>exn + 'a\<close> (\<open>TC_Prelude\<close>), one constructor per \<open>raise\<close> of the
  desk; a function that writes takes the state and returns it updated. The loops over rows that may
  raise with part of them written have a second function for the state they leave (\<open>watch_left\<close>,
  \<open>score_left\<close>, \<open>post_left\<close>, \<open>refresh_left\<close>, on \<open>fold_kept\<close>), and a step of their own. Reads of the broker, of
  Discord and of the zone database are parameters, since their code is not in the repository: a
  record of functions (\<open>broker\<close>, \<open>account_broker\<close>, \<open>watch_env\<close>, \<open>token_env\<close>) or the \<open>zone\<close>. No
  property assumes anything of them except where it says so: that what a run of the runner, the
  clock or a sleep does to the engine leaves the scheduler and the scheduled rows alone (\<open>other_ok\<close>)
  or the name of the running job (\<open>name_kept\<close>), that draws are in range (\<open>draws_ok\<close>), that pydantic
  reads a value of the right type as it is (\<open>exact_coercions\<close>). Rendered texts (messages, details of alerts and
  trips) are values of small datatypes.

  What the lemmas show. The rule arithmetic never exceeds a percentage, the stop stays in its
  band; \<open>check_book\<close> accepts exactly the orders that keep every limit, and funding and filling
  keep the reserve. A pitch or a call resolves on the first day that touches a level, without
  looking ahead, once. The levels of a call only tighten, and the history tables only grow, along
  every run of the desk. A scheduled fire is handed out once, and nothing is left unsettled by a
  pass; between restarts the job table has at most one row per scheduled fire. The sweep writes exactly one row, reports a dead token as a state, and flags what the
  broker's answers imply; standing trips are repeated hourly; the high-water mark never falls. A
  corrupt token file is kept as evidence, the token is written atomically, its alert stands while
  it is dead and its post goes out once a day. The paper book refines an account.

  A reply of the runner is classified by what it means; a job calls it a bounded
  number of times, once and then once per retry interval left, only under its own name, and a chain leaves one row per job. The runner accepts what the
  engine posts for every job of its table, runs one at a time, lets through only the tools of the
  allowlist, and hands back texts without its secrets. The research tables stay well formed also
  when the checks and inserts of raises overlap (\<open>writer_step\<close>), raises
  and scores are read as one entry each, a document is replaced whole or not at all, whatever system
  call the process stops after. A sweep installs every symbol that passes the gates, or nothing;
  the scorecard's verdict agrees with the numbers on its card. The interfaces \<open>invariant\<close> and
  \<open>append_only\<close> (\<open>TC_Prelude\<close>) state what a running component promises and are interpreted on
  the desk, the scheduler, the ledger, the token loop and the engine.

  Bounds and termination. All loops are structural or have a measure: the fires of a day by the minutes left, the reaction reader by
  its retry limit, the search for a quarantine name by the number of files, the inlining of a
  schema by its reference depth and size, the wait for a busy runner by the retry intervals left of
  the job's window. One loop runs on fuel, the walk along the extensions of a call
  (\<open>follow_extensions\<close> in \<open>TC_Store\<close>): its fuel is the number of calls, running out of it is the
  outcome \<open>Diverges\<close>, and it is proved there that on stored calls it never runs out.

  Findings of the model, each proved: the daily token post is repeated when the authorization
  library fails (\<open>token_post_repeats\<close>); a sweep on the fallback calendar is never flagged F
  (\<open>fallback_never_flagged\<close>); a restart within the minute of a fire runs it again
  (\<open>restart_fires_again\<close>); a schema that cannot be flattened raises at each dispatch, not at import
  (\<open>schema_raises_at_dispatch\<close>); two raises of one claim that overlap are both stored
  (\<open>raise_race\<close>); a raise may carry its own score (\<open>raise_scores_itself\<close>) and a symbol
  a trailing newline (\<open>newline_symbol_accepted\<close>); a small mean loss is not flagged
  (\<open>flag_misses_small_loss\<close>); the universe table is replaced before its document is rendered
  (\<open>run_cases\<close> in \<open>TC_Universe\<close>); a directory page may raise \<open>csv.Error\<close> (\<open>csv_examples\<close>); the
  runner passes on the arguments of refused calls unscrubbed (\<open>denials_not_scrubbed\<close>) and answers a
  malformed message with a 500 (\<open>malformed_turns_raise\<close>).

  Not modelled. Locks and the interleaving of coroutines (an operation is one step, except the raises and
  scores of the research ledgers, whose check and insert are two); the flushing of files to disk, so
  that a process may stop at any system call but the power does not fail; Python's
  float; Unicode outside ASCII; the SQL layer; the SDK and its child process; YAML and the
  configuration classes. The HTTP servers, the MCP tools and the command line translate requests
  into the operations above and render their results; the broker and Discord clients are the
  parameters; the briefing and the shadow comparison write text and change no state. Of the one-off
  import of old ledgers the checks and the row of a raise are in \<open>TC_Research\<close>; its line parsing, the
  scanner that compares documents with the rules, and the parsers of the broker's raw payloads are
  left out.
\<close>

end
